(* ===== verification/Prelude.thy ===== *)
theory Prelude
  imports Main "HOL-Library.Word" "HOL-Library.Monad_Syntax"
begin

text \<open>
  Bytes, machine integers and memory blocks shared by every component.

  A C object that the code addresses through \<open>char *\<close> is a byte list, a pointer into it is an
  offset.  A C operation whose behaviour the language does not define (a read or a write outside
  its block, a NULL or dangling dereference, a failed \<open>assert\<close>) has the value \<open>None\<close> of the option
  monad, so that \<open>f x = Some y\<close> says both that the call is free of undefined behaviour and
  that it returns \<open>y\<close>.  Return codes of the code itself (\<open>-1\<close>, \<open>0\<close>, \<open>1\<close>, byte counts)
  are ordinary integers inside the \<open>Some\<close>.
\<close>

type_synonym byte = "8 word"
type_synonym bytes = "byte list"
type_synonym u8 = "8 word"
type_synonym u32 = "32 word"
type_synonym u64 = "64 word"

text \<open>Collections: \<open>put_simps\<close> merges consecutive stores through a cursor,
  \<open>mp_len\<close> gives the length of encoded data, \<open>mp_dec\<close> reads encoded data back.\<close>

named_theorems put_simps
named_theorems mp_len
named_theorems mp_dec

section \<open>Ranges of machine integers\<close>

lemma unat_byte_less [simp]: "unat (b :: byte) < 256"
proof -
  have "unat b < 2 ^ LENGTH(8)" by (rule unsigned_less)
  then show ?thesis by simp
qed

lemma unat_u32_less [simp]: "unat (w :: u32) < 4294967296"
proof -
  have "unat w < 2 ^ LENGTH(32)" by (rule unsigned_less)
  then show ?thesis by simp
qed

lemma unat_u64_less [simp]: "unat (w :: u64) < 18446744073709551616"
proof -
  have "unat w < 2 ^ LENGTH(64)" by (rule unsigned_less)
  then show ?thesis by simp
qed

lemma unat_u64_of_u32 [simp]: "unat (ucast (w :: u32) :: u64) = unat w"
proof -
  have "unat w < 18446744073709551616" using unat_u32_less [of w] by linarith
  then show ?thesis by (simp add: unsigned_ucast_eq take_bit_eq_mod)
qed

lemma unat_u32_of_u64: "unat (ucast (v :: u64) :: u32) = unat v mod 4294967296"
  by (simp add: unsigned_ucast_eq take_bit_eq_mod)

lemma unat_u32_of_u8 [simp]: "unat (ucast (b :: u8) :: u32) = unat b"
proof -
  have "unat b < 4294967296" using unat_byte_less [of b] by linarith
  then show ?thesis by (simp add: unsigned_ucast_eq take_bit_eq_mod)
qed

lemma unat_u64_of_u8 [simp]: "unat (ucast (b :: u8) :: u64) = unat b"
proof -
  have "unat b < 18446744073709551616" using unat_byte_less [of b] by linarith
  then show ?thesis by (simp add: unsigned_ucast_eq take_bit_eq_mod)
qed

section \<open>Big-endian integers\<close>

fun be :: "nat \<Rightarrow> nat \<Rightarrow> bytes" where
  "be 0 n = []"
| "be (Suc k) n = be k (n div 256) @ [word_of_nat n]"

definition be_val :: "bytes \<Rightarrow> nat" where
  "be_val bs = foldl (\<lambda>a b. a * 256 + unat b) 0 bs"

lemma length_be [simp, mp_len]: "length (be k n) = k"
  by (induction k arbitrary: n) auto

lemma be_val_Nil [simp]: "be_val [] = 0"
  by (simp add: be_val_def)

lemma be_val_snoc [simp]: "be_val (bs @ [b]) = be_val bs * 256 + unat b"
  by (simp add: be_val_def)

lemma be_val_be: "be_val (be k n) = n mod 256 ^ k"
proof (induction k arbitrary: n)
  case 0
  then show ?case by simp
next
  case (Suc k)
  have "n mod 256 ^ Suc k = 256 * (n div 256 mod 256 ^ k) + n mod 256"
    by (simp add: mod_mult2_eq)
  then show ?case by (simp add: Suc.IH unat_of_nat)
qed

lemma be_val_bound: "be_val bs < 256 ^ length bs"
proof (induction bs rule: rev_induct)
  case Nil
  then show ?case by simp
next
  case (snoc b bs)
  have "unat b < 256" by simp
  then have "be_val (bs @ [b]) < Suc (be_val bs) * 256" by (simp del: unat_byte_less)
  also have "\<dots> \<le> 256 ^ length bs * 256"
    using snoc.IH by (intro mult_le_mono1) simp
  finally show ?case by simp
qed

lemma be_be_val: "length bs = k \<Longrightarrow> be k (be_val bs) = bs"
proof (induction k arbitrary: bs)
  case 0
  then show ?case by simp
next
  case (Suc k)
  then obtain cs c where bs: "bs = cs @ [c]" and "length cs = k"
    by (metis length_Suc_conv_rev)
  moreover have "(be_val cs * 256 + unat c) div 256 = be_val cs"
    by simp
  moreover have "word_of_nat (be_val cs * 256 + unat c) = c"
  proof -
    have "(256 :: byte) = 0" by simp
    then show ?thesis by (simp only: of_nat_add of_nat_mult of_nat_numeral mult_zero_right) simp
  qed
  ultimately show ?case using Suc.IH by simp
qed

text \<open>Evaluation of the widths in use.\<close>

lemma be_one: "be 1 n = [word_of_nat n]"
  by (simp add: One_nat_def)

lemma be_2: "be 2 n = [word_of_nat (n div 256), word_of_nat n]"
  unfolding numeral_2_eq_2 by simp

lemma div_256:
  "n div 256 div 256 = (n :: nat) div 65536" "n div 65536 div 256 = n div 16777216"
  "n div 16777216 div 256 = n div 4294967296"
  using div_mult2_eq [of n 256 256] div_mult2_eq [of n 65536 256] div_mult2_eq [of n 16777216 256]
  by simp_all

lemma be_4: "be 4 n = [word_of_nat (n div 16777216), word_of_nat (n div 65536),
    word_of_nat (n div 256), word_of_nat n]"
proof -
  have e: "4 = Suc (Suc (Suc (Suc 0)))" by simp
  show ?thesis unfolding e be.simps append_Nil append_Cons by (simp add: div_256)
qed

lemma be_8: "be 8 n = be 4 (n div 4294967296) @ be 4 n"
proof -
  have e: "be 8 n = be (Suc (Suc (Suc (Suc 4)))) n" by simp
  show ?thesis unfolding e be.simps be_4 append_Nil append_Cons by (simp add: div_256)
qed

section \<open>Memory blocks and cursors\<close>

text \<open>
  \<open>poke off bs mem\<close> is \<open>memcpy(mem + off, bs, length bs)\<close> into the block \<open>mem\<close>: undefined when
  the copy leaves the block.  \<open>put bs (mem, h)\<close> is a store through a cursor \<open>h\<close> that
  returns the advanced cursor, the way every \<open>mp_encode\<close> call does.  \<open>emit cap bs acc\<close> is the
  same store into a local \<open>char buf[cap]\<close> that has been filled from its start with \<open>acc\<close>.
\<close>

definition poke :: "nat \<Rightarrow> bytes \<Rightarrow> bytes \<Rightarrow> bytes option" where
  "poke off bs mem =
     (if off + length bs \<le> length mem
      then Some (take off mem @ bs @ drop (off + length bs) mem) else None)"

definition put :: "bytes \<Rightarrow> bytes \<times> nat \<Rightarrow> (bytes \<times> nat) option" where
  "put bs c = map_option (\<lambda>mem. (mem, snd c + length bs)) (poke (snd c) bs (fst c))"

definition emit :: "nat \<Rightarrow> bytes \<Rightarrow> bytes \<Rightarrow> bytes option" where
  "emit cap bs acc = (if length acc + length bs \<le> cap then Some (acc @ bs) else None)"

text \<open>\<open>slice i n mem\<close> reads \<open>n\<close> bytes from offset \<open>i\<close>: undefined outside the block.\<close>

definition slice :: "nat \<Rightarrow> nat \<Rightarrow> bytes \<Rightarrow> bytes option" where
  "slice i n mem = (if i + n \<le> length mem then Some (take n (drop i mem)) else None)"

lemma poke_eq_Some:
  "poke off bs mem = Some mem' \<longleftrightarrow>
     off + length bs \<le> length mem \<and> mem' = take off mem @ bs @ drop (off + length bs) mem"
  by (auto simp: poke_def)

lemma poke_length: "poke off bs mem = Some mem' \<Longrightarrow> length mem' = length mem"
  by (auto simp: poke_eq_Some)

lemma poke_Some: "off + length bs \<le> length mem \<Longrightarrow>
    poke off bs mem = Some (take off mem @ bs @ drop (off + length bs) mem)"
  by (simp add: poke_def)

lemma poke_poke_append:
  "Option.bind (poke off a mem) (poke (off + length a) b) = poke off (a @ b) mem"
  by (auto simp: poke_def algebra_simps)

lemma put_eq_Some:
  "put bs (mem, h) = Some c \<longleftrightarrow>
     h + length bs \<le> length mem \<and>
     c = (take h mem @ bs @ drop (h + length bs) mem, h + length bs)"
  by (auto simp: put_def poke_eq_Some)

lemma put_put [put_simps]: "Option.bind (put a c) (put b) = put (a @ b) c"
  by (cases c) (auto simp: put_def poke_def algebra_simps)

lemma put_put_bind [put_simps]:
  "Option.bind (put a c) (\<lambda>d. Option.bind (put b d) f) = Option.bind (put (a @ b) c) f"
  by (metis Option.bind_assoc put_put)

lemma emit_eq_Some:
  "emit cap bs acc = Some acc' \<longleftrightarrow> length acc + length bs \<le> cap \<and> acc' = acc @ bs"
  by (auto simp: emit_def)

lemma emit_emit [put_simps]: "Option.bind (emit cap a acc) (emit cap b) = emit cap (a @ b) acc"
  by (auto simp: emit_def)

lemma emit_emit_bind [put_simps]:
  "Option.bind (emit cap a acc) (\<lambda>d. Option.bind (emit cap b d) f)
     = Option.bind (emit cap (a @ b) acc) f"
  by (metis Option.bind_assoc emit_emit)

lemma emit_Some: "length acc + length bs \<le> cap \<Longrightarrow> emit cap bs acc = Some (acc @ bs)"
  by (simp add: emit_def)

end
