(* ===== verification/Msgpuck.thy ===== *)
theory Msgpuck
  imports Prelude
begin

text \<open>
  The msgpuck library, a git submodule whose sources are not part of the repository, is a
  parameter of the model: a record with one function per msgpuck entry point that the code calls.
  An encoder is the bytes that it stores at its pointer; a decoder reads the bytes from its
  pointer to the end of the enclosing buffer and returns the value with the number of bytes by
  which it advances the pointer, or \<open>None\<close> where msgpuck leaves the call undefined (another type
  than the one asked for, a truncated value).  \<open>mp_check\<close> returns \<open>None\<close> for its non-zero result,
  and otherwise the number of bytes by which it advances.

  The locale \<open>msgpuck_laws\<close> states the documented behaviour on which the code relies: the
  MessagePack sizes, decoding what was encoded, the type read off the first byte, and
  \<open>mp_check\<close>/\<open>mp_next\<close> as a walk over exactly one well-formed object.
\<close>

datatype mp_type =
  MP_NIL | MP_UINT | MP_INT | MP_STR | MP_BIN | MP_ARRAY | MP_MAP | MP_BOOL | MP_FLOAT
| MP_DOUBLE | MP_EXT

record msgpuck =
  mp_typeof :: "byte \<Rightarrow> mp_type"
  mp_store_u8 :: "u8 \<Rightarrow> bytes"
  mp_store_u32 :: "u32 \<Rightarrow> bytes"
  mp_store_u64 :: "u64 \<Rightarrow> bytes"
  mp_encode_nil :: bytes
  mp_encode_uint :: "u64 \<Rightarrow> bytes"
  mp_encode_int :: "u64 \<Rightarrow> bytes"
  mp_encode_bool :: "bool \<Rightarrow> bytes"
  mp_encode_float :: "u32 \<Rightarrow> bytes"
  mp_encode_double :: "u64 \<Rightarrow> bytes"
  mp_encode_strl :: "u32 \<Rightarrow> bytes"
  mp_encode_str :: "bytes \<Rightarrow> bytes"
  mp_encode_binl :: "u32 \<Rightarrow> bytes"
  mp_encode_bin :: "bytes \<Rightarrow> bytes"
  mp_encode_array :: "u32 \<Rightarrow> bytes"
  mp_encode_map :: "u32 \<Rightarrow> bytes"
  mp_sizeof_nil :: nat
  mp_sizeof_uint :: "u64 \<Rightarrow> nat"
  mp_sizeof_int :: "u64 \<Rightarrow> nat"
  mp_sizeof_bool :: "bool \<Rightarrow> nat"
  mp_sizeof_float :: "u32 \<Rightarrow> nat"
  mp_sizeof_double :: "u64 \<Rightarrow> nat"
  mp_sizeof_str :: "u32 \<Rightarrow> nat"
  mp_sizeof_bin :: "u32 \<Rightarrow> nat"
  mp_sizeof_array :: "u32 \<Rightarrow> nat"
  mp_sizeof_map :: "u32 \<Rightarrow> nat"
  mp_decode_uint :: "bytes \<Rightarrow> (u64 \<times> nat) option"
  mp_decode_int :: "bytes \<Rightarrow> (u64 \<times> nat) option"
  mp_decode_bool :: "bytes \<Rightarrow> (bool \<times> nat) option"
  mp_decode_float :: "bytes \<Rightarrow> (u32 \<times> nat) option"
  mp_decode_double :: "bytes \<Rightarrow> (u64 \<times> nat) option"
  mp_decode_strl :: "bytes \<Rightarrow> (u32 \<times> nat) option"
  mp_decode_binl :: "bytes \<Rightarrow> (u32 \<times> nat) option"
  mp_decode_array :: "bytes \<Rightarrow> (u32 \<times> nat) option"
  mp_decode_map :: "bytes \<Rightarrow> (u32 \<times> nat) option"
  mp_check :: "bytes \<Rightarrow> nat option"
  mp_next :: "bytes \<Rightarrow> nat option"

section \<open>Vocabulary of the documentation\<close>

text \<open>The encoded sizes that the msgpuck manual and the MessagePack format give.\<close>

definition uint_size :: "nat \<Rightarrow> nat" where
  "uint_size n = (if n < 128 then 1 else if n < 256 then 2 else if n < 65536 then 3
                  else if n < 4294967296 then 5 else 9)"

definition int_size :: "int \<Rightarrow> nat" where
  "int_size i = (if -32 \<le> i then 1 else if -128 \<le> i then 2 else if -32768 \<le> i then 3
                 else if -2147483648 \<le> i then 5 else 9)"

definition str_hdr_size :: "nat \<Rightarrow> nat" where
  "str_hdr_size n = (if n < 32 then 1 else if n < 256 then 2 else if n < 65536 then 3 else 5)"

definition bin_hdr_size :: "nat \<Rightarrow> nat" where
  "bin_hdr_size n = (if n < 256 then 2 else if n < 65536 then 3 else 5)"

definition coll_hdr_size :: "nat \<Rightarrow> nat" where
  "coll_hdr_size n = (if n < 16 then 1 else if n < 65536 then 3 else 5)"

text \<open>\<open>mp_objs M k bs = Some n\<close>: \<open>bs\<close> starts with \<open>k\<close> well-formed objects of \<open>n\<close> bytes
  in total.\<close>

fun mp_objs :: "msgpuck \<Rightarrow> nat \<Rightarrow> bytes \<Rightarrow> nat option" where
  "mp_objs M 0 bs = Some 0"
| "mp_objs M (Suc k) bs =
     (case mp_check M bs of None \<Rightarrow> None
      | Some n \<Rightarrow> map_option ((+) n) (mp_objs M k (drop n bs)))"

text \<open>\<open>mp_obj M bs\<close>: the bytes are exactly one well-formed object.\<close>

definition mp_obj :: "msgpuck \<Rightarrow> bytes \<Rightarrow> bool" where
  "mp_obj M bs \<longleftrightarrow> mp_check M bs = Some (length bs)"

section \<open>The laws\<close>

locale msgpuck_laws =
  fixes M :: msgpuck
  assumes store_u8: "mp_store_u8 M b = [b]"
    and store_u32: "mp_store_u32 M w = be 4 (unat w)"
    and store_u64: "mp_store_u64 M v = be 8 (unat v)"
    \<comment> \<open>the documented sizes, which the encoders fill exactly\<close>
    and sizeof_nil: "mp_sizeof_nil M = 1"
    and sizeof_uint: "mp_sizeof_uint M v = uint_size (unat v)"
    and sizeof_int: "sint v < 0 \<Longrightarrow> mp_sizeof_int M v = int_size (sint v)"
    and sizeof_bool: "mp_sizeof_bool M b' = 1"
    and sizeof_float: "mp_sizeof_float M w = 5"
    and sizeof_double: "mp_sizeof_double M v = 9"
    and sizeof_str: "mp_sizeof_str M w = str_hdr_size (unat w) + unat w"
    and sizeof_bin: "mp_sizeof_bin M w = bin_hdr_size (unat w) + unat w"
    and sizeof_array: "mp_sizeof_array M w = coll_hdr_size (unat w)"
    and sizeof_map: "mp_sizeof_map M w = coll_hdr_size (unat w)"
    and len_nil: "length (mp_encode_nil M) = 1"
    and len_uint: "length (mp_encode_uint M v) = uint_size (unat v)"
    and len_int: "sint v < 0 \<Longrightarrow> length (mp_encode_int M v) = int_size (sint v)"
    and len_bool: "length (mp_encode_bool M b') = 1"
    and len_float: "length (mp_encode_float M w) = 5"
    and len_double: "length (mp_encode_double M v) = 9"
    and len_strl: "length (mp_encode_strl M w) = str_hdr_size (unat w)"
    and len_binl: "length (mp_encode_binl M w) = bin_hdr_size (unat w)"
    and len_array: "length (mp_encode_array M w) = coll_hdr_size (unat w)"
    and len_map: "length (mp_encode_map M w) = coll_hdr_size (unat w)"
    \<comment> \<open>a string is its header and its bytes\<close>
    and enc_str: "mp_encode_str M s = mp_encode_strl M (word_of_nat (length s)) @ s"
    and enc_bin: "mp_encode_bin M s = mp_encode_binl M (word_of_nat (length s)) @ s"
    \<comment> \<open>the type is read off the first byte\<close>
    and type_nil: "mp_typeof M (hd (mp_encode_nil M)) = MP_NIL"
    and type_uint: "mp_typeof M (hd (mp_encode_uint M v)) = MP_UINT"
    and type_uint_fixed: "mp_typeof M 0xce = MP_UINT" "mp_typeof M 0xcf = MP_UINT"
    and type_int: "sint v < 0 \<Longrightarrow> mp_typeof M (hd (mp_encode_int M v)) = MP_INT"
    and type_bool: "mp_typeof M (hd (mp_encode_bool M b')) = MP_BOOL"
    and type_float: "mp_typeof M (hd (mp_encode_float M w)) = MP_FLOAT"
    and type_double: "mp_typeof M (hd (mp_encode_double M v)) = MP_DOUBLE"
    and type_str: "mp_typeof M (hd (mp_encode_strl M w)) = MP_STR"
    and type_bin: "mp_typeof M (hd (mp_encode_binl M w)) = MP_BIN"
    and type_array: "mp_typeof M (hd (mp_encode_array M w)) = MP_ARRAY"
    and type_array_fixed: "mp_typeof M 0xdd = MP_ARRAY"
    and type_map: "mp_typeof M (hd (mp_encode_map M w)) = MP_MAP"
    and type_map_fixed: "mp_typeof M 0xdf = MP_MAP"
    \<comment> \<open>decoding what was encoded\<close>
    and dec_uint: "mp_decode_uint M (mp_encode_uint M v @ r) = Some (v, uint_size (unat v))"
    and dec_uint_fixed:
      "mp_decode_uint M (0xce # be 4 (unat w) @ r) = Some (ucast w, 5)"
      "mp_decode_uint M (0xcf # be 8 (unat v) @ r) = Some (v, 9)"
    and dec_int: "sint v < 0 \<Longrightarrow>
      mp_decode_int M (mp_encode_int M v @ r) = Some (v, int_size (sint v))"
    and dec_bool: "mp_decode_bool M (mp_encode_bool M b' @ r) = Some (b', 1)"
    and dec_float: "mp_decode_float M (mp_encode_float M w @ r) = Some (w, 5)"
    and dec_double: "mp_decode_double M (mp_encode_double M v @ r) = Some (v, 9)"
    and dec_strl: "mp_decode_strl M (mp_encode_strl M w @ r) = Some (w, str_hdr_size (unat w))"
    and dec_binl: "mp_decode_binl M (mp_encode_binl M w @ r) = Some (w, bin_hdr_size (unat w))"
    and dec_array: "mp_decode_array M (mp_encode_array M w @ r) = Some (w, coll_hdr_size (unat w))"
    and dec_array_fixed: "mp_decode_array M (0xdd # be 4 (unat w) @ r) = Some (w, 5)"
    and dec_map: "mp_decode_map M (mp_encode_map M w @ r) = Some (w, coll_hdr_size (unat w))"
    and dec_map_fixed: "mp_decode_map M (0xdf # be 4 (unat w) @ r) = Some (w, 5)"
    and dec_array_bound: "mp_decode_array M bs = Some (w, h) \<Longrightarrow> 0 < h \<and> h \<le> length bs"
    and dec_map_bound: "mp_decode_map M bs = Some (w, h) \<Longrightarrow> 0 < h \<and> h \<le> length bs"
    \<comment> \<open>\<open>mp_check\<close> accepts one well-formed object, \<open>mp_next\<close> skips what it accepts\<close>
    and check_nil: "mp_check M [] = None"
    and check_bound: "mp_check M bs = Some n \<Longrightarrow> 0 < n \<and> n \<le> length bs"
    and check_app: "mp_check M bs = Some n \<Longrightarrow> mp_check M (bs @ r) = Some n"
    and check_take: "mp_check M bs = Some n \<Longrightarrow> mp_check M (take n bs) = Some n"
    and next_check: "mp_check M bs = Some n \<Longrightarrow> mp_next M bs = Some n"
    and check_uint: "bs \<noteq> [] \<Longrightarrow> mp_typeof M (hd bs) = MP_UINT \<Longrightarrow>
      mp_check M bs = map_option snd (mp_decode_uint M bs)"
    and check_int: "bs \<noteq> [] \<Longrightarrow> mp_typeof M (hd bs) = MP_INT \<Longrightarrow>
      mp_check M bs = map_option snd (mp_decode_int M bs)"
    and check_bool: "bs \<noteq> [] \<Longrightarrow> mp_typeof M (hd bs) = MP_BOOL \<Longrightarrow>
      mp_check M bs = map_option snd (mp_decode_bool M bs)"
    and check_float: "bs \<noteq> [] \<Longrightarrow> mp_typeof M (hd bs) = MP_FLOAT \<Longrightarrow>
      mp_check M bs = map_option snd (mp_decode_float M bs)"
    and check_double: "bs \<noteq> [] \<Longrightarrow> mp_typeof M (hd bs) = MP_DOUBLE \<Longrightarrow>
      mp_check M bs = map_option snd (mp_decode_double M bs)"
    and check_nil_obj: "bs \<noteq> [] \<Longrightarrow> mp_typeof M (hd bs) = MP_NIL \<Longrightarrow> mp_check M bs = Some 1"
    and check_str: "bs \<noteq> [] \<Longrightarrow> mp_typeof M (hd bs) = MP_STR \<Longrightarrow>
      mp_check M bs = (case mp_decode_strl M bs of None \<Rightarrow> None
        | Some (l, h) \<Rightarrow> if h + unat l \<le> length bs then Some (h + unat l) else None)"
    and check_bin: "bs \<noteq> [] \<Longrightarrow> mp_typeof M (hd bs) = MP_BIN \<Longrightarrow>
      mp_check M bs = (case mp_decode_binl M bs of None \<Rightarrow> None
        | Some (l, h) \<Rightarrow> if h + unat l \<le> length bs then Some (h + unat l) else None)"
    and check_array: "bs \<noteq> [] \<Longrightarrow> mp_typeof M (hd bs) = MP_ARRAY \<Longrightarrow>
      mp_check M bs = (case mp_decode_array M bs of None \<Rightarrow> None
        | Some (k, h) \<Rightarrow> map_option ((+) h) (mp_objs M (unat k) (drop h bs)))"
    and check_map: "bs \<noteq> [] \<Longrightarrow> mp_typeof M (hd bs) = MP_MAP \<Longrightarrow>
      mp_check M bs = (case mp_decode_map M bs of None \<Rightarrow> None
        | Some (k, h) \<Rightarrow> map_option ((+) h) (mp_objs M (2 * unat k) (drop h bs)))"

section \<open>Consequences\<close>

lemma uint_size_small [simp]: "n < 128 \<Longrightarrow> uint_size n = 1"
  by (simp add: uint_size_def)

lemma uint_size_pos: "0 < uint_size n"
  by (simp add: uint_size_def)

lemma uint_size_le9: "uint_size n \<le> 9"
  by (simp add: uint_size_def)

lemma uint_size_le5: "n < 4294967296 \<Longrightarrow> uint_size n \<le> 5"
  by (simp add: uint_size_def)

lemma coll_hdr_size_small [simp]: "n < 16 \<Longrightarrow> coll_hdr_size n = 1"
  by (simp add: coll_hdr_size_def)

lemma coll_hdr_size_bounds: "0 < coll_hdr_size n" "coll_hdr_size n \<le> 5"
  by (simp_all add: coll_hdr_size_def)

lemma str_hdr_size_bounds: "0 < str_hdr_size n" "str_hdr_size n \<le> 5"
  by (simp_all add: str_hdr_size_def)

lemma bin_hdr_size_bounds: "0 < bin_hdr_size n" "bin_hdr_size n \<le> 5"
  by (simp_all add: bin_hdr_size_def)

lemma int_size_bounds: "0 < int_size i" "int_size i \<le> 9"
  by (simp_all add: int_size_def)

context msgpuck_laws begin

lemmas lens [mp_len] = len_nil len_uint len_int len_bool len_float len_double len_strl len_binl
  len_array len_map sizeof_nil sizeof_uint sizeof_int sizeof_bool sizeof_float sizeof_double
  sizeof_str sizeof_bin sizeof_array sizeof_map

lemma enc_ne:
  "mp_encode_nil M \<noteq> []" "mp_encode_uint M v \<noteq> []" "mp_encode_bool M b \<noteq> []"
  "mp_encode_float M w \<noteq> []" "mp_encode_double M v \<noteq> []" "mp_encode_strl M w \<noteq> []"
  "mp_encode_binl M w \<noteq> []" "mp_encode_array M w \<noteq> []" "mp_encode_map M w \<noteq> []"
  "sint v < 0 \<Longrightarrow> mp_encode_int M v \<noteq> []"
  using len_nil len_uint [of v] len_bool [of b] len_float [of w] len_double [of v] len_strl [of w]
    len_binl [of w] len_array [of w] len_map [of w] len_int [of v] uint_size_pos [of "unat v"]
    str_hdr_size_bounds(1) [of "unat w"] bin_hdr_size_bounds(1) [of "unat w"]
    coll_hdr_size_bounds(1) [of "unat w"] int_size_bounds(1) [of "sint v"]
  by (auto simp del: length_0_conv simp flip: length_0_conv)

lemma hd_enc [simp]:
  "hd (mp_encode_uint M v @ r) = hd (mp_encode_uint M v)"
  "hd (mp_encode_strl M w @ r) = hd (mp_encode_strl M w)"
  "hd (mp_encode_binl M w @ r) = hd (mp_encode_binl M w)"
  "hd (mp_encode_array M w @ r) = hd (mp_encode_array M w)"
  "hd (mp_encode_map M w @ r) = hd (mp_encode_map M w)"
  by (simp_all add: hd_append enc_ne)

text \<open>Encoded leaves are objects, and so are headers with the announced number of objects.\<close>

lemma check_enc_uint: "mp_check M (mp_encode_uint M v @ r) = Some (uint_size (unat v))"
  by (simp add: check_uint enc_ne type_uint dec_uint)

lemma check_enc_map:
  "mp_check M (mp_encode_map M k @ r)
     = map_option ((+) (coll_hdr_size (unat k))) (mp_objs M (2 * unat k) r)"
proof -
  have "drop (coll_hdr_size (unat k)) (mp_encode_map M k @ r) = r"
    by (simp add: len_map [symmetric])
  then show ?thesis by (simp add: check_map enc_ne type_map dec_map)
qed

lemma check_enc_array:
  "mp_check M (mp_encode_array M k @ r)
     = map_option ((+) (coll_hdr_size (unat k))) (mp_objs M (unat k) r)"
proof -
  have "drop (coll_hdr_size (unat k)) (mp_encode_array M k @ r) = r"
    by (simp add: len_array [symmetric])
  then show ?thesis by (simp add: check_array enc_ne type_array dec_array)
qed

lemma mp_obj_uint: "mp_obj M (mp_encode_uint M v)"
  using check_enc_uint [of v "[]"] by (simp add: mp_obj_def len_uint)

lemma mp_obj_int: "sint v < 0 \<Longrightarrow> mp_obj M (mp_encode_int M v)"
  using dec_int [of v "[]"] by (simp add: mp_obj_def len_int check_int type_int enc_ne)

lemma mp_obj_nil: "mp_obj M (mp_encode_nil M)"
  by (simp add: mp_obj_def check_nil_obj type_nil enc_ne len_nil)

lemma mp_obj_bool: "mp_obj M (mp_encode_bool M b)"
  using dec_bool [of b "[]"] by (simp add: mp_obj_def check_bool type_bool enc_ne len_bool)

lemma mp_obj_float: "mp_obj M (mp_encode_float M w)"
  using dec_float [of w "[]"] by (simp add: mp_obj_def check_float type_float enc_ne len_float)

lemma mp_obj_double: "mp_obj M (mp_encode_double M v)"
  using dec_double [of v "[]"] by (simp add: mp_obj_def check_double type_double enc_ne len_double)

lemma mp_obj_str: "unat w = length s \<Longrightarrow> mp_obj M (mp_encode_strl M w @ s)"
  by (simp add: mp_obj_def check_str type_str enc_ne dec_strl len_strl)

lemma mp_obj_bin: "unat w = length s \<Longrightarrow> mp_obj M (mp_encode_binl M w @ s)"
  by (simp add: mp_obj_def check_bin type_bin enc_ne dec_binl len_binl)

lemma mp_obj_ne: "mp_obj M bs \<Longrightarrow> bs \<noteq> []"
  by (auto simp: mp_obj_def check_nil)

lemma mp_obj_app: "mp_obj M a \<Longrightarrow> mp_check M (a @ r) = Some (length a)"
  by (simp add: mp_obj_def check_app)

lemma mp_obj_prefix: "mp_check M bs = Some n \<Longrightarrow> mp_obj M (take n bs)"
  using check_take [of bs n] check_bound [of bs n] by (simp add: mp_obj_def)

text \<open>Sequences of objects.\<close>

lemma mp_objs_obj:
  "mp_obj M a \<Longrightarrow> mp_objs M (Suc k) (a @ r) = map_option ((+) (length a)) (mp_objs M k r)"
  by (simp add: mp_obj_app)

lemma mp_objs_concat:
  "\<forall>x \<in> set xs. mp_obj M x \<Longrightarrow> mp_objs M (length xs) (concat xs @ r) = Some (length (concat xs))"
  by (induction xs) (simp_all add: mp_obj_app)

lemma mp_objs_bound: "mp_objs M k bs = Some n \<Longrightarrow> k \<le> n \<and> n \<le> length bs"
proof (induction k arbitrary: bs n)
  case 0
  then show ?case by simp
next
  case (Suc k)
  then obtain a m where a: "mp_check M bs = Some a" and m: "mp_objs M k (drop a bs) = Some m"
    and n: "n = a + m"
    by (auto split: option.splits)
  from check_bound [OF a] Suc.IH [OF m] n show ?case by auto
qed

lemma mp_objs_short: "length bs < k \<Longrightarrow> mp_objs M k bs = None"
  using mp_objs_bound [of k bs] by (cases "mp_objs M k bs") fastforce+

lemma mp_objs_add:
  "mp_objs M (a + b) bs = (case mp_objs M a bs of None \<Rightarrow> None
     | Some n \<Rightarrow> map_option ((+) n) (mp_objs M b (drop n bs)))"
proof (induction a arbitrary: bs)
  case 0
  then show ?case by (cases "mp_objs M b bs") simp_all
next
  case (Suc a)
  then show ?case
    by (auto split: option.splits simp: ac_simps option.map_comp o_def intro!: option.map_cong0)
qed

text \<open>An array or a map of \<open>k\<close> objects that follow its header.\<close>

lemma mp_obj_array:
  "unat k = length xs \<Longrightarrow> \<forall>x \<in> set xs. mp_obj M x \<Longrightarrow> mp_obj M (mp_encode_array M k @ concat xs)"
  using mp_objs_concat [of xs "[]"] by (simp add: mp_obj_def check_enc_array len_array)

lemma mp_obj_map:
  "2 * unat k = length xs \<Longrightarrow> \<forall>x \<in> set xs. mp_obj M x \<Longrightarrow> mp_obj M (mp_encode_map M k @ concat xs)"
  using mp_objs_concat [of xs "[]"] by (simp add: mp_obj_def check_enc_map len_map)

text \<open>The fixed-width headers that the code writes itself.\<close>

lemma check_fixed_array:
  "mp_check M (0xdd # be 4 (unat (k :: u32)) @ r) = map_option ((+) 5) (mp_objs M (unat k) r)"
  by (simp add: check_array type_array_fixed dec_array_fixed)

lemma check_fixed_map:
  "mp_check M (0xdf # be 4 (unat (k :: u32)) @ r) = map_option ((+) 5) (mp_objs M (2 * unat k) r)"
  by (simp add: check_map type_map_fixed dec_map_fixed)

lemma mp_obj_fixed_array:
  "unat (k :: u32) = length xs \<Longrightarrow> \<forall>x \<in> set xs. mp_obj M x \<Longrightarrow> mp_obj M (0xdd # be 4 (unat k) @ concat xs)"
  using mp_objs_concat [of xs "[]"] check_fixed_array [of k "concat xs"] by (simp add: mp_obj_def)

lemma mp_obj_fixed_map:
  "2 * unat (k :: u32) = length xs \<Longrightarrow> \<forall>x \<in> set xs. mp_obj M x \<Longrightarrow>
     mp_obj M (0xdf # be 4 (unat k) @ concat xs)"
  using mp_objs_concat [of xs "[]"] check_fixed_map [of k "concat xs"] by (simp add: mp_obj_def)

end

end
