(* ===== verification/Beer_Proto.thy ===== *)
theory Beer_Proto
  imports Msgpuck
begin

text \<open>
  The IPROTO vocabulary (\<open>include/bee/beer_proto.h\<close>) and the helpers that every request uses
  (\<open>beer/beer_proto_internal.h\<close>).  The second half is the specification of a request on the wire:
  \<open>frame\<close> prints one, \<open>parse_frame\<close> reads one the way a server does, and the two are inverse.
\<close>

section \<open>Constants\<close>

datatype beer_header_key = BEER_CODE | BEER_SYNC | BEER_SERVER_ID | BEER_LSN | BEER_TIMESTAMP | BEER_SCHEMA_ID

fun header_key :: "beer_header_key \<Rightarrow> u64" where
  "header_key BEER_CODE = 0x00" | "header_key BEER_SYNC = 0x01" | "header_key BEER_SERVER_ID = 0x02"
| "header_key BEER_LSN = 0x03" | "header_key BEER_TIMESTAMP = 0x04" | "header_key BEER_SCHEMA_ID = 0x05"

datatype beer_body_key =
  BEER_SPACE | BEER_INDEX | BEER_LIMIT | BEER_OFFSET | BEER_ITERATOR | BEER_INDEX_BASE | BEER_KEY
| BEER_TUPLE | BEER_FUNCTION | BEER_USERNAME | BEER_SERVER_UUID | BEER_CLUSTER_UUID | BEER_VCLOCK
| BEER_EXPRESSION | BEER_OPS

fun body_key :: "beer_body_key \<Rightarrow> u64" where
  "body_key BEER_SPACE = 0x10" | "body_key BEER_INDEX = 0x11" | "body_key BEER_LIMIT = 0x12"
| "body_key BEER_OFFSET = 0x13" | "body_key BEER_ITERATOR = 0x14" | "body_key BEER_INDEX_BASE = 0x15"
| "body_key BEER_KEY = 0x20" | "body_key BEER_TUPLE = 0x21" | "body_key BEER_FUNCTION = 0x22"
| "body_key BEER_USERNAME = 0x23" | "body_key BEER_SERVER_UUID = 0x24" | "body_key BEER_CLUSTER_UUID = 0x25"
| "body_key BEER_VCLOCK = 0x26" | "body_key BEER_EXPRESSION = 0x27" | "body_key BEER_OPS = 0x28"

datatype beer_response_key = BEER_DATA | BEER_ERROR

fun response_key :: "beer_response_key \<Rightarrow> u64" where
  "response_key BEER_DATA = 0x30" | "response_key BEER_ERROR = 0x31"

datatype beer_request_t =
  BEER_OP_SELECT | BEER_OP_INSERT | BEER_OP_REPLACE | BEER_OP_UPDATE | BEER_OP_DELETE | BEER_OP_CALL_16
| BEER_OP_AUTH | BEER_OP_EVAL | BEER_OP_UPSERT | BEER_OP_CALL | BEER_OP_PING | BEER_OP_JOIN | BEER_OP_SUBSCRIBE

fun op_code :: "beer_request_t \<Rightarrow> u32" where
  "op_code BEER_OP_SELECT = 1" | "op_code BEER_OP_INSERT = 2" | "op_code BEER_OP_REPLACE = 3"
| "op_code BEER_OP_UPDATE = 4" | "op_code BEER_OP_DELETE = 5" | "op_code BEER_OP_CALL_16 = 6"
| "op_code BEER_OP_AUTH = 7" | "op_code BEER_OP_EVAL = 8" | "op_code BEER_OP_UPSERT = 9"
| "op_code BEER_OP_CALL = 10" | "op_code BEER_OP_PING = 64" | "op_code BEER_OP_JOIN = 65"
| "op_code BEER_OP_SUBSCRIBE = 66"

text \<open>The operators of update requests are characters.\<close>

datatype beer_update_op_kind =
  BEER_UOP_ADDITION | BEER_UOP_SUBSTRACT | BEER_UOP_AND | BEER_UOP_XOR | BEER_UOP_OR | BEER_UOP_DELETE
| BEER_UOP_INSERT | BEER_UOP_ASSIGN | BEER_UOP_SPLICE

fun uop_char :: "beer_update_op_kind \<Rightarrow> byte" where
  "uop_char BEER_UOP_ADDITION = 43" | "uop_char BEER_UOP_SUBSTRACT = 45" | "uop_char BEER_UOP_AND = 38"
| "uop_char BEER_UOP_XOR = 94" | "uop_char BEER_UOP_OR = 124" | "uop_char BEER_UOP_DELETE = 35"
| "uop_char BEER_UOP_INSERT = 33" | "uop_char BEER_UOP_ASSIGN = 61" | "uop_char BEER_UOP_SPLICE = 58"

section \<open>Helpers of the request functions\<close>

definition is_call :: "beer_request_t \<Rightarrow> bool" where
  "is_call op \<longleftrightarrow> op = BEER_OP_CALL \<or> op = BEER_OP_CALL_16"

text \<open>The header is built in \<open>char header[25]\<close>; the result is the part before \<open>end\<close>.\<close>

definition encode_header :: "msgpuck \<Rightarrow> u32 \<Rightarrow> u64 \<Rightarrow> bytes option" where
  "encode_header M code sync = do {
     h \<leftarrow> emit 25 (mp_encode_map M 2) [];
     h \<leftarrow> emit 25 (mp_encode_uint M (header_key BEER_CODE)) h;
     h \<leftarrow> emit 25 (mp_encode_uint M (ucast code)) h;
     h \<leftarrow> emit 25 (mp_encode_uint M (header_key BEER_SYNC)) h;
     emit 25 (mp_encode_uint M sync) h }"

definition mp_sizeof_luint32 :: "u64 \<Rightarrow> nat" where
  "mp_sizeof_luint32 num = (if unat num \<le> 4294967295 then 1 + 4 else 1 + 8)"

text \<open>The bytes that \<open>mp_encode_luint32\<close> stores.\<close>

definition mp_encode_luint32 :: "msgpuck \<Rightarrow> u64 \<Rightarrow> bytes" where
  "mp_encode_luint32 M num =
     (if unat num \<le> 4294967295 then mp_store_u8 M 0xce @ mp_store_u32 M (ucast num)
      else mp_store_u8 M 0xcf @ mp_store_u64 M num)"

section \<open>A request on the wire\<close>

definition luint :: "nat \<Rightarrow> bytes" where
  "luint n = (if n \<le> 4294967295 then 0xce # be 4 n else 0xcf # be 8 n)"

definition header_bytes :: "msgpuck \<Rightarrow> u32 \<Rightarrow> u64 \<Rightarrow> bytes" where
  "header_bytes M code sync =
     mp_encode_map M 2 @ mp_encode_uint M 0 @ mp_encode_uint M (ucast code) @
     mp_encode_uint M 1 @ mp_encode_uint M sync"

type_synonym fields = "(u64 \<times> bytes) list"

definition field_bytes :: "msgpuck \<Rightarrow> u64 \<times> bytes \<Rightarrow> bytes" where
  "field_bytes M f = mp_encode_uint M (fst f) @ snd f"

definition body_bytes :: "msgpuck \<Rightarrow> fields \<Rightarrow> bytes" where
  "body_bytes M fs = mp_encode_map M (word_of_nat (length fs)) @ concat (map (field_bytes M) fs)"

definition package :: "bytes \<Rightarrow> bytes" where
  "package p = luint (length p) @ p"

definition frame :: "msgpuck \<Rightarrow> u32 \<Rightarrow> u64 \<Rightarrow> fields \<Rightarrow> bytes" where
  "frame M code sync fs = package (header_bytes M code sync @ body_bytes M fs)"

text \<open>
  The reader: a length prefix, then a header map whose first two pairs are the code and the
  sync, then a body map with integer keys and any values.
\<close>

fun parse_fields :: "msgpuck \<Rightarrow> nat \<Rightarrow> bytes \<Rightarrow> (fields \<times> bytes) option" where
  "parse_fields M 0 bs = Some ([], bs)"
| "parse_fields M (Suc k) bs = do {
     (key, h) \<leftarrow> mp_decode_uint M bs;
     n \<leftarrow> mp_check M (drop h bs);
     (fs, r) \<leftarrow> parse_fields M k (drop (h + n) bs);
     Some ((key, take n (drop h bs)) # fs, r) }"

definition parse_map :: "msgpuck \<Rightarrow> bytes \<Rightarrow> (fields \<times> bytes) option" where
  "parse_map M bs = do { (k, h) \<leftarrow> mp_decode_map M bs; parse_fields M (unat k) (drop h bs) }"

definition field_uint :: "msgpuck \<Rightarrow> fields \<Rightarrow> u64 \<Rightarrow> u64 option" where
  "field_uint M fs key = do { v \<leftarrow> map_of fs key; map_option fst (mp_decode_uint M v) }"

definition parse_frame :: "msgpuck \<Rightarrow> bytes \<Rightarrow> ((u64 \<times> u64 \<times> fields) \<times> bytes) option" where
  "parse_frame M bs = do {
     (len, h) \<leftarrow> mp_decode_uint M bs;
     p \<leftarrow> slice h (unat len) bs;
     (hdr, b) \<leftarrow> parse_map M p;
     (body, r) \<leftarrow> parse_map M b;
     code \<leftarrow> field_uint M hdr 0;
     sync \<leftarrow> field_uint M hdr 1;
     if r = [] then Some ((code, sync, body), drop (h + unat len) bs) else None }"

section \<open>The code's helpers against the specification\<close>

context msgpuck_laws begin

lemma encode_header_bytes: "encode_header M code sync = Some (header_bytes M code sync)"
proof -
  have "length (mp_encode_uint M (ucast code :: u64)) \<le> 5"
    using uint_size_le5 [of "unat code"] by (simp add: len_uint)
  moreover have "length (mp_encode_uint M sync) \<le> 9"
    using uint_size_le9 [of "unat sync"] by (simp add: len_uint)
  ultimately show ?thesis
    by (simp add: encode_header_def header_bytes_def put_simps emit_Some mp_len)
qed

lemma mp_encode_luint32_luint: "mp_encode_luint32 M n = luint (unat n)"
  by (auto simp: mp_encode_luint32_def luint_def store_u8 store_u32 store_u64 unat_u32_of_u64)

lemma luint_length: "length (luint n) = (if n \<le> 4294967295 then 5 else 9)"
  by (simp add: luint_def)

lemma mp_sizeof_luint32_length: "mp_sizeof_luint32 n = length (mp_encode_luint32 M n)"
  by (simp add: mp_sizeof_luint32_def mp_encode_luint32_luint luint_length)

lemma dec_luint:
  assumes "n < 18446744073709551616"
  shows "mp_decode_uint M (luint n @ r) = Some (word_of_nat n, length (luint n))"
proof (cases "n \<le> 4294967295")
  case True
  then have "ucast (word_of_nat n :: u32) = (word_of_nat n :: u64)"
    "unat (word_of_nat n :: u32) = n"
    by (auto intro!: word_unat_eq_iff [THEN iffD2] simp: unat_of_nat)
  with dec_uint_fixed(1) [of "word_of_nat n" r] True show ?thesis by (simp add: luint_def)
next
  case False
  have "unat (word_of_nat n :: u64) = n" using assms by (simp add: unat_of_nat)
  with dec_uint_fixed(2) [of "word_of_nat n" r] False show ?thesis by (simp add: luint_def)
qed

lemma field_bytes_objs: "mp_obj M (snd f) \<Longrightarrow>
    mp_objs M (Suc (Suc k)) (field_bytes M f @ r) = map_option ((+) (length (field_bytes M f))) (mp_objs M k r)"
  by (simp add: field_bytes_def mp_objs_obj mp_obj_uint option.map_comp o_def del: mp_objs.simps)
     (cases "mp_objs M k r"; simp)

lemma parse_fields_inverse:
  "\<forall>f \<in> set fs. mp_obj M (snd f) \<Longrightarrow>
     parse_fields M (length fs) (concat (map (field_bytes M) fs) @ r) = Some (fs, r)"
proof (induction fs)
  case Nil
  then show ?case by simp
next
  case (Cons f fs)
  define t where "t = concat (map (field_bytes M) fs) @ r"
  have t: "concat (map (field_bytes M) (f # fs)) @ r = field_bytes M f @ t" by (simp add: t_def)
  have "mp_decode_uint M (field_bytes M f @ t) = Some (fst f, length (mp_encode_uint M (fst f)))"
    by (simp add: field_bytes_def dec_uint len_uint)
  moreover have "mp_check M (snd f @ t) = Some (length (snd f))"
    using Cons.prems by (simp add: mp_obj_app)
  ultimately show ?case
    using Cons unfolding t by (simp add: field_bytes_def t_def [unfolded field_bytes_def, symmetric])
qed

lemma parse_map_inverse:
  assumes "length fs < 4294967296" "\<forall>f \<in> set fs. mp_obj M (snd f)"
  shows "parse_map M (body_bytes M fs @ r) = Some (fs, r)"
proof -
  have "unat (word_of_nat (length fs) :: u32) = length fs" using assms(1) by (simp add: unat_of_nat)
  moreover from this have "length (mp_encode_map M (word_of_nat (length fs))) = coll_hdr_size (length fs)"
    by (simp add: len_map)
  ultimately show ?thesis
    using parse_fields_inverse [OF assms(2), of r]
    by (simp add: parse_map_def body_bytes_def dec_map)
qed

lemma header_is_body: "header_bytes M code sync
    = body_bytes M [(0, mp_encode_uint M (ucast code)), (1, mp_encode_uint M sync)]"
  by (simp add: header_bytes_def body_bytes_def field_bytes_def)

text \<open>Any two maps in a package are read back, the first as the header.\<close>

lemma parse_two_maps:
  assumes "length hs < 4294967296" "\<forall>f \<in> set hs. mp_obj M (snd f)"
    "length fs < 4294967296" "\<forall>f \<in> set fs. mp_obj M (snd f)"
    "length (body_bytes M hs @ body_bytes M fs) < 18446744073709551616"
    "field_uint M hs 0 = Some c" "field_uint M hs 1 = Some y"
  shows "parse_frame M (package (body_bytes M hs @ body_bytes M fs) @ r) = Some ((c, y, fs), r)"
proof -
  define p where "p = body_bytes M hs @ body_bytes M fs"
  have len: "unat (word_of_nat (length p) :: u64) = length p"
    using assms(5) by (simp add: p_def [symmetric] unat_of_nat)
  have "parse_map M p = Some (hs, body_bytes M fs)"
    unfolding p_def by (rule parse_map_inverse [OF assms(1,2)])
  moreover have "parse_map M (body_bytes M fs) = Some (fs, [])"
    using parse_map_inverse [OF assms(3,4), of "[]"] by simp
  moreover have "mp_decode_uint M (luint (length p) @ p @ r) = Some (word_of_nat (length p), length (luint (length p)))"
    using assms(5) by (intro dec_luint) (simp add: p_def)
  moreover have "slice (length (luint (length p))) (length p) (luint (length p) @ p @ r) = Some p"
    by (simp add: slice_def)
  ultimately show ?thesis
    using assms(6,7) by (simp add: parse_frame_def package_def p_def [symmetric] len)
qed

lemma parse_package:
  assumes "length fs < 4294967296" "\<forall>f \<in> set fs. mp_obj M (snd f)"
    "length (header_bytes M code sync @ body_bytes M fs) < 18446744073709551616"
  shows "parse_frame M (frame M code sync fs @ r) = Some ((ucast code, sync, fs), r)"
  unfolding frame_def header_is_body
  by (rule parse_two_maps)
     (use assms dec_uint [of "ucast code" "[]"] dec_uint [of sync "[]"] in
      \<open>simp_all add: mp_obj_uint field_uint_def header_is_body\<close>)

end

end
