(* ===== verification/Beer_Mem.thy ===== *)
theory Beer_Mem
  imports Prelude
begin

text \<open>
  The allocation layer \<open>beer/beer_mem.c\<close>.  The C allocator is a parameter: for a requested size it
  fails or returns a fresh block whose contents the caller must not rely on.  A pointer is NULL,
  a live block, or dangling (freed, but still stored somewhere).  A \<open>free\<close> or \<open>realloc\<close> of
  a dangling pointer is undefined.
\<close>

datatype blk = Null | Live bytes | Dangling

type_synonym allocator = "nat \<Rightarrow> bytes option"

text \<open>What C promises of a successful allocation.\<close>

definition alloc_ok :: "allocator \<Rightarrow> bool" where
  "alloc_ok A \<longleftrightarrow> (\<forall>n b. A n = Some b \<longrightarrow> length b = n)"

text \<open>An allocator that never fails: no statement about successful runs is vacuous.\<close>

definition alloc_total :: "allocator \<Rightarrow> bool" where
  "alloc_total A \<longleftrightarrow> alloc_ok A \<and> (\<forall>n. A n \<noteq> None)"

text \<open>\<open>realloc\<close> of the C library: the common prefix is kept, a failure leaves the block alone.\<close>

definition libc_realloc :: "allocator \<Rightarrow> blk \<Rightarrow> nat \<Rightarrow> blk option" where
  "libc_realloc A ptr n =
     (case ptr of
        Null \<Rightarrow> Some (case A n of None \<Rightarrow> Null | Some junk \<Rightarrow> Live junk)
      | Live old \<Rightarrow>
          if n = 0 then None
          else Some (case A n of None \<Rightarrow> Null
                     | Some junk \<Rightarrow> Live (take n old @ drop (length old) junk))
      | Dangling \<Rightarrow> None)"

definition custom_realloc :: "allocator \<Rightarrow> blk \<Rightarrow> nat \<Rightarrow> blk option" where
  "custom_realloc A ptr n =
     (if ptr = Null then
        (if n = 0 then Some Null
         else Some (case A n of None \<Rightarrow> Null | Some _ \<Rightarrow> Live (replicate n 0)))
      else if n \<noteq> 0 then libc_realloc A ptr n
      else if ptr = Dangling then None else Some Null)"

definition beer_mem_alloc :: "allocator \<Rightarrow> nat \<Rightarrow> blk option" where
  "beer_mem_alloc A n = custom_realloc A Null n"

definition beer_mem_realloc :: "allocator \<Rightarrow> blk \<Rightarrow> nat \<Rightarrow> blk option" where
  "beer_mem_realloc A ptr n = custom_realloc A ptr n"

text \<open>\<open>free\<close> returns nothing; only whether it is defined matters.\<close>

definition beer_mem_free :: "allocator \<Rightarrow> blk \<Rightarrow> unit option" where
  "beer_mem_free A ptr = map_option (\<lambda>_. ()) (custom_realloc A ptr 0)"

text \<open>\<open>strlen\<close> of the bytes from a pointer to the end of its object, and \<open>beer_mem_dup\<close>.\<close>

fun c_strlen :: "bytes \<Rightarrow> nat option" where
  "c_strlen [] = None"
| "c_strlen (c # cs) = (if c = 0 then Some 0 else map_option Suc (c_strlen cs))"

definition beer_mem_dup :: "allocator \<Rightarrow> bytes \<Rightarrow> blk option" where
  "beer_mem_dup A sz = do {
     len \<leftarrow> c_strlen sz;
     p \<leftarrow> beer_mem_alloc A (len + 1);
     case p of
       Live mem \<Rightarrow> do {
         src \<leftarrow> slice 0 (len + 1) sz;
         mem' \<leftarrow> poke 0 src mem;
         Some (Live mem') }
     | _ \<Rightarrow> Some Null }"

section \<open>Behaviour\<close>

lemma c_strlen_Some: "c_strlen cs = Some n \<Longrightarrow> n < length cs \<and> cs ! n = 0 \<and> 0 \<notin> set (take n cs)"
  by (induction cs arbitrary: n) (auto split: if_splits)

lemma c_strlen_append [simp]: "0 \<notin> set s \<Longrightarrow> c_strlen (s @ 0 # r) = Some (length s)"
  by (induction s) auto

lemma beer_mem_free_eq [simp]:
  "beer_mem_free A Null = Some ()" "beer_mem_free A (Live b) = Some ()"
  "beer_mem_free A Dangling = None"
  by (simp_all add: beer_mem_free_def custom_realloc_def)

text \<open>A grown block keeps its contents.\<close>

lemma libc_realloc_Live:
  "0 < n \<Longrightarrow> A n = Some junk \<Longrightarrow> libc_realloc A (Live old) n
     = Some (Live (take n old @ drop (length old) junk))"
  by (simp add: libc_realloc_def)

lemma beer_mem_realloc_cases:
  assumes "alloc_ok A" "0 < n" "p \<noteq> Dangling" "\<And>old. p = Live old \<Longrightarrow> length old \<le> n"
  shows "beer_mem_realloc A p n = Some Null \<or>
    (\<exists>ext. beer_mem_realloc A p n = Some (Live ((case p of Live old \<Rightarrow> old | _ \<Rightarrow> []) @ ext)) \<and>
      length ((case p of Live old \<Rightarrow> old | _ \<Rightarrow> []) @ ext) = n)"
proof (cases p)
  case (Live old)
  then show ?thesis
    using assms(1,2) assms(4) [OF Live]
    by (auto simp: beer_mem_realloc_def custom_realloc_def libc_realloc_def alloc_ok_def
        split: option.splits)
qed (use assms in \<open>auto simp: beer_mem_realloc_def custom_realloc_def split: option.splits\<close>)

lemma libc_realloc_cases:
  assumes "alloc_ok A" "0 < n" "p \<noteq> Dangling" "\<And>old. p = Live old \<Longrightarrow> length old \<le> n"
  shows "libc_realloc A p n = Some Null \<or>
    (\<exists>ext. libc_realloc A p n = Some (Live ((case p of Live old \<Rightarrow> old | _ \<Rightarrow> []) @ ext)) \<and>
      length ((case p of Live old \<Rightarrow> old | _ \<Rightarrow> []) @ ext) = n)"
proof (cases p)
  case (Live old)
  then show ?thesis
    using assms(1,2) assms(4) [OF Live]
    by (auto simp: libc_realloc_def alloc_ok_def split: option.splits)
qed (use assms in \<open>auto simp: libc_realloc_def alloc_ok_def split: option.splits\<close>)

lemma realloc_total:
  assumes "alloc_total A" "0 < n" "p \<noteq> Dangling"
  shows "libc_realloc A p n \<noteq> Some Null" "beer_mem_realloc A p n \<noteq> Some Null"
proof -
  from assms(1) obtain b where "A n = Some b" by (auto simp: alloc_total_def)
  with assms(2,3) show "libc_realloc A p n \<noteq> Some Null" "beer_mem_realloc A p n \<noteq> Some Null"
    by (auto simp: libc_realloc_def beer_mem_realloc_def custom_realloc_def split: blk.splits)
qed

end
