(* ===== verification/Beer_Buf.thy ===== *)
theory Beer_Buf
  imports Beer_Mem Msgpuck
begin

text \<open>
  Streams (\<open>include/bee/beer_stream.h\<close>, \<open>beer/beer_stream.c\<close>) and the in-memory buffer stream
  (\<open>include/bee/beer_buf.h\<close>, \<open>beer/beer_buf.c\<close>), with the data of the object builder that a
  buffer carries in \<open>subdata\<close> (\<open>include/bee/beer_object.h\<close>).

  The function pointers of \<open>struct beer_stream\<close> are what the kind of the stream fixes; the
  one pointer that differs between buffers, \<open>resize\<close>, is a field.
\<close>

section \<open>Data\<close>

datatype sbo_type = BEER_SBO_SIMPLE | BEER_SBO_SPARSE | BEER_SBO_PACKED

record sbo_stack =
  ent_offset :: nat
  ent_size :: u32
  ent_type :: mp_type

record sbuf_object =
  stack :: "sbo_stack list"
  stack_size :: u8
  stack_alloc :: u8
  sbo_kind :: sbo_type

datatype resize_fn = Buf_resize | Object_resize

record stream_buf =
  sb_data :: blk
  sb_size :: nat
  sb_alloc :: nat
  sb_rdoff :: nat
  sb_resize :: resize_fn
  sb_subdata :: "sbuf_object option"
  sb_as :: bool

record 'd beer_stream =
  s_data :: 'd
  s_wrcnt :: u32
  s_reqid :: u64

type_synonym buf_stream = "stream_buf beer_stream"

section \<open>Operations common to all streams\<close>

text \<open>\<open>beer_stream_init\<close> zeroes the structure; \<open>beer_stream_reqid\<close> returns a \<open>uint32_t\<close>.\<close>

definition beer_stream_init :: "'d \<Rightarrow> 'd beer_stream" where
  "beer_stream_init d = \<lparr>s_data = d, s_wrcnt = 0, s_reqid = 0\<rparr>"

definition beer_stream_reqid :: "'d beer_stream \<Rightarrow> u32 \<Rightarrow> u32 \<times> 'd beer_stream" where
  "beer_stream_reqid s reqid = (ucast (s_reqid s), s\<lparr>s_reqid := ucast reqid\<rparr>)"

text \<open>\<open>s->reqid++\<close>, an expression of the request functions.\<close>

definition next_reqid :: "'d beer_stream \<Rightarrow> u64 \<times> 'd beer_stream" where
  "next_reqid s = (s_reqid s, s\<lparr>s_reqid := s_reqid s + 1\<rparr>)"

section \<open>The buffer stream\<close>

definition beer_buf :: buf_stream where
  "beer_buf = beer_stream_init
     \<lparr>sb_data = Null, sb_size = 0, sb_alloc = 0, sb_rdoff = 0, sb_resize = Buf_resize,
      sb_subdata = None, sb_as = False\<rparr>"

definition beer_buf_as :: "buf_stream option \<Rightarrow> bytes \<Rightarrow> buf_stream" where
  "beer_buf_as s buf = (let s = (case s of None \<Rightarrow> beer_buf | Some s \<Rightarrow> s) in
     s\<lparr>s_data := (s_data s)\<lparr>sb_data := Live buf, sb_size := length buf, sb_alloc := length buf,
        sb_as := True\<rparr>\<rparr>)"

text \<open>
  The two growth policies.  Both return the offset behind the used bytes, or NULL; on a
  failed reallocation they free the block but leave the pointer in place.
\<close>

definition beer_buf_resize :: "allocator \<Rightarrow> stream_buf \<Rightarrow> nat \<Rightarrow> (nat option \<times> stream_buf) option"
  where
  "beer_buf_resize A sb n = do {
     let off = sb_size sb;
     let nsize = off + n;
     nd \<leftarrow> libc_realloc A (sb_data sb) nsize;
     if nd = Null then do {
       beer_mem_free A (sb_data sb);
       Some (None, if sb_data sb = Null then sb else sb\<lparr>sb_data := Dangling\<rparr>) }
     else Some (Some off, sb\<lparr>sb_data := nd, sb_alloc := nsize\<rparr>) }"

definition beer_sbuf_object_resize ::
    "allocator \<Rightarrow> stream_buf \<Rightarrow> nat \<Rightarrow> (nat option \<times> stream_buf) option" where
  "beer_sbuf_object_resize A sb n =
     (if sb_size sb + n > sb_alloc sb then do {
        let newsize = (let d = 2 * sb_alloc sb in
                       if d < sb_size sb + n then sb_size sb + n else d);
        nd \<leftarrow> beer_mem_realloc A (sb_data sb) newsize;
        if nd = Null then do {
          beer_mem_free A (sb_data sb);
          Some (None, if sb_data sb = Null then sb else sb\<lparr>sb_data := Dangling\<rparr>) }
        else Some (Some (sb_size sb), sb\<lparr>sb_data := nd, sb_alloc := newsize\<rparr>) }
      else case sb_data sb of
             Null \<Rightarrow> Some (if sb_size sb = 0 then None else Some (sb_size sb), sb)
           | Live _ \<Rightarrow> Some (Some (sb_size sb), sb)
           | Dangling \<Rightarrow> None)"

definition sb_do_resize :: "allocator \<Rightarrow> stream_buf \<Rightarrow> nat \<Rightarrow> (nat option \<times> stream_buf) option" where
  "sb_do_resize A sb n =
     (case sb_resize sb of
        Buf_resize \<Rightarrow> beer_buf_resize A sb n
      | Object_resize \<Rightarrow> beer_sbuf_object_resize A sb n)"

text \<open>A store into the buffer's block.\<close>

definition sb_poke :: "nat \<Rightarrow> bytes \<Rightarrow> stream_buf \<Rightarrow> stream_buf option" where
  "sb_poke off bs sb =
     (case sb_data sb of
        Live mem \<Rightarrow> map_option (\<lambda>mem'. sb\<lparr>sb_data := Live mem'\<rparr>) (poke off bs mem)
      | _ \<Rightarrow> None)"

text \<open>\<open>beer_buf_write\<close>: the bytes are those between \<open>buf\<close> and \<open>buf + size\<close>.\<close>

definition beer_buf_write :: "allocator \<Rightarrow> buf_stream \<Rightarrow> bytes \<Rightarrow> (int \<times> buf_stream) option" where
  "beer_buf_write A s buf =
     (if sb_as (s_data s) then Some (-1, s)
      else do {
        (p, sb) \<leftarrow> sb_do_resize A (s_data s) (length buf);
        case p of
          None \<Rightarrow> Some (-1, s\<lparr>s_data := sb\<rparr>)
        | Some p \<Rightarrow> do {
            sb \<leftarrow> sb_poke p buf sb;
            Some (int (length buf),
                  s\<lparr>s_data := sb\<lparr>sb_size := sb_size sb + length buf\<rparr>,
                    s_wrcnt := s_wrcnt s + 1\<rparr>) } })"

text \<open>The copy loop of \<open>beer_buf_writev\<close>.\<close>

fun copy_iov :: "nat \<Rightarrow> bytes list \<Rightarrow> stream_buf \<Rightarrow> stream_buf option" where
  "copy_iov p [] sb = Some sb"
| "copy_iov p (v # vs) sb = Option.bind (sb_poke p v sb) (copy_iov (p + length v) vs)"

definition beer_buf_writev ::
    "allocator \<Rightarrow> buf_stream \<Rightarrow> bytes list \<Rightarrow> (int \<times> buf_stream) option" where
  "beer_buf_writev A s iov =
     (if sb_as (s_data s) then Some (-1, s)
      else do {
        let n = sum_list (map length iov);
        (p, sb) \<leftarrow> sb_do_resize A (s_data s) n;
        case p of
          None \<Rightarrow> Some (-1, s\<lparr>s_data := sb\<rparr>)
        | Some p \<Rightarrow> do {
            sb \<leftarrow> copy_iov p iov sb;
            Some (int n,
                  s\<lparr>s_data := sb\<lparr>sb_size := sb_size sb + n\<rparr>, s_wrcnt := s_wrcnt s + 1\<rparr>) } })"

text \<open>
  \<open>beer_buf_read(s, buf, size)\<close>: the caller's buffer is \<open>buf\<close>, of at least \<open>size\<close> bytes; the
  result has the caller's buffer and the stream afterwards.
\<close>

definition beer_buf_read ::
    "buf_stream \<Rightarrow> bytes \<Rightarrow> nat \<Rightarrow> (int \<times> bytes \<times> buf_stream) option" where
  "beer_buf_read s buf n =
     (let sb = s_data s in
      if sb_data sb = Null \<or> sb_size sb = sb_rdoff sb then Some (0, buf, s)
      else do {
        let avail = sb_size sb - sb_rdoff sb;
        let n = (if n > avail then avail else n);
        src \<leftarrow> slice 0 n buf;
        sb \<leftarrow> sb_poke (sb_rdoff sb) src sb;
        Some (int n, buf, s\<lparr>s_data := sb\<lparr>sb_rdoff := sb_rdoff sb + n\<rparr>\<rparr>) })"

text \<open>
  \<open>sb->free\<close>, which only \<open>beer_object\<close> sets, together with \<open>sb->resize\<close>: it reads the builder's structure to release
  its stack.  The stack, that structure and \<open>s->data\<close> are live, and released once, whenever they are present.
\<close>

definition sb_free :: "stream_buf \<Rightarrow> unit option" where
  "sb_free sb =
     (case sb_resize sb of
        Buf_resize \<Rightarrow> Some ()
      | Object_resize \<Rightarrow> (if sb_subdata sb = None then None else Some ()))"

definition beer_buf_free :: "allocator \<Rightarrow> buf_stream \<Rightarrow> unit option" where
  "beer_buf_free A s = do {
     let sb = s_data s;
     _ \<leftarrow> (if \<not> sb_as sb \<and> sb_data sb \<noteq> Null then beer_mem_free A (sb_data sb) else Some ());
     sb_free sb }"

section \<open>Contents and invariant\<close>

text \<open>The bytes written so far, and the agreement between the block and the two sizes.\<close>

definition sb_bytes :: "stream_buf \<Rightarrow> bytes" where
  "sb_bytes sb = (case sb_data sb of Live mem \<Rightarrow> take (sb_size sb) mem | _ \<Rightarrow> [])"

definition sb_inv :: "stream_buf \<Rightarrow> bool" where
  "sb_inv sb \<longleftrightarrow> sb_rdoff sb \<le> sb_size sb \<and>
     (case sb_data sb of
        Null \<Rightarrow> sb_size sb = 0 \<and> sb_alloc sb = 0
      | Live mem \<Rightarrow> length mem = sb_alloc sb \<and> sb_size sb \<le> sb_alloc sb
      | Dangling \<Rightarrow> False)"

lemma sb_inv_beer_buf: "sb_inv (s_data beer_buf)" "sb_bytes (s_data beer_buf) = []"
  by (simp_all add: sb_inv_def sb_bytes_def beer_buf_def beer_stream_init_def)

lemma sb_bytes_Live: "sb_data sb = Live mem \<Longrightarrow> sb_bytes sb = take (sb_size sb) mem"
  by (simp add: sb_bytes_def)

lemma sb_bytes_length: "sb_inv sb \<Longrightarrow> length (sb_bytes sb) = sb_size sb"
  by (auto simp: sb_inv_def sb_bytes_def split: blk.splits)

text \<open>A reservation either gives room behind the used bytes or fails for good.\<close>

definition reserved :: "stream_buf \<Rightarrow> nat \<Rightarrow> nat option \<times> stream_buf \<Rightarrow> bool" where
  "reserved sb n r \<longleftrightarrow>
     (case r of
        (None, sb') \<Rightarrow> sb' = sb \<and> sb_data sb = Null \<or> sb' = sb\<lparr>sb_data := Dangling\<rparr>
      | (Some p, sb') \<Rightarrow> p = sb_size sb \<and>
          (\<exists>mem. sb' = sb\<lparr>sb_data := Live mem, sb_alloc := length mem\<rparr> \<and>
             sb_size sb + n \<le> length mem \<and> take (sb_size sb) mem = sb_bytes sb))"

lemma reservedI:
  "a = length mem \<Longrightarrow> sb_size sb + n \<le> length mem \<Longrightarrow> take (sb_size sb) mem = sb_bytes sb \<Longrightarrow>
     reserved sb n (Some (sb_size sb), sb\<lparr>sb_data := Live mem, sb_alloc := a\<rparr>)"
  by (auto simp: reserved_def)

lemma reserved_failI:
  "sb_inv sb \<Longrightarrow> reserved sb n (None, if sb_data sb = Null then sb else sb\<lparr>sb_data := Dangling\<rparr>)"
  by (auto simp: reserved_def)

lemma sb_inv_free: "sb_inv sb \<Longrightarrow> beer_mem_free A (sb_data sb) = Some ()"
  by (cases "sb_data sb") (simp_all add: sb_inv_def)

lemma take_grown: "sb_inv sb \<Longrightarrow>
    take (sb_size sb) ((case sb_data sb of Live old \<Rightarrow> old | _ \<Rightarrow> []) @ ext) = sb_bytes sb"
  by (auto simp: sb_inv_def sb_bytes_def split: blk.splits)

lemma beer_buf_resize_reserved:
  assumes "alloc_ok A" "sb_inv sb" "0 < n"
  shows "\<exists>r. beer_buf_resize A sb n = Some r \<and> reserved sb n r"
proof (cases "A (sb_size sb + n)")
  case None
  with assms(2,3) have "libc_realloc A (sb_data sb) (sb_size sb + n) = Some Null"
    by (cases "sb_data sb") (auto simp: libc_realloc_def sb_inv_def)
  then show ?thesis
    using reserved_failI [OF assms(2), of n] by (simp add: beer_buf_resize_def sb_inv_free assms(2))
next
  case (Some junk)
  define mem where "mem = (case sb_data sb of
      Live old \<Rightarrow> take (sb_size sb + n) old @ drop (length old) junk | _ \<Rightarrow> junk)"
  have "libc_realloc A (sb_data sb) (sb_size sb + n) = Some (Live mem)"
    using Some assms(2,3) by (cases "sb_data sb") (auto simp: libc_realloc_def sb_inv_def mem_def)
  moreover have "length mem = sb_size sb + n" "take (sb_size sb) mem = sb_bytes sb"
    using Some assms by (auto simp: mem_def alloc_ok_def sb_inv_def sb_bytes_def split: blk.splits)
  ultimately show ?thesis
    by (simp add: beer_buf_resize_def Let_def reservedI)
qed

lemma beer_sbuf_object_resize_reserved:
  assumes "alloc_ok A" "sb_inv sb" "0 < n"
  shows "\<exists>r. beer_sbuf_object_resize A sb n = Some r \<and> reserved sb n r"
proof (cases "sb_size sb + n > sb_alloc sb")
  case True
  define m where "m = (let d = 2 * sb_alloc sb in if d < sb_size sb + n then sb_size sb + n else d)"
  have m: "0 < m" "sb_size sb + n \<le> m" "sb_alloc sb \<le> m"
    using True assms(3) by (auto simp: m_def Let_def)
  have nd: "sb_data sb \<noteq> Dangling" "\<And>old. sb_data sb = Live old \<Longrightarrow> length old \<le> m"
    using assms(2) m(3) by (auto simp: sb_inv_def)
  from beer_mem_realloc_cases [OF assms(1) m(1) nd] consider
      "beer_mem_realloc A (sb_data sb) m = Some Null"
    | mem where "beer_mem_realloc A (sb_data sb) m = Some (Live mem)" "length mem = m"
      "take (sb_size sb) mem = sb_bytes sb"
    using take_grown [OF assms(2)] by blast
  then show ?thesis
  proof cases
    case 1
    then show ?thesis
      using True reserved_failI [OF assms(2), of n]
      by (simp add: beer_sbuf_object_resize_def m_def [symmetric] sb_inv_free assms(2))
  next
    case 2
    then show ?thesis
      using True m by (simp add: beer_sbuf_object_resize_def m_def [symmetric] reservedI)
  qed
next
  case False
  with assms(2,3) obtain mem where mem: "sb_data sb = Live mem" "sb_alloc sb = length mem"
    by (auto simp: sb_inv_def split: blk.splits)
  then have "sb\<lparr>sb_data := Live mem, sb_alloc := length mem\<rparr> = sb" by (cases sb) simp
  with reservedI [of "sb_alloc sb" mem sb n] mem False show ?thesis
    by (simp add: beer_sbuf_object_resize_def sb_bytes_def)
qed

lemma sb_do_resize_reserved:
  assumes "alloc_ok A" "sb_inv sb" "0 < n"
  shows "\<exists>r. sb_do_resize A sb n = Some r \<and> reserved sb n r"
  using beer_buf_resize_reserved [OF assms] beer_sbuf_object_resize_reserved [OF assms]
  by (simp add: sb_do_resize_def split: resize_fn.splits)

text \<open>The copy loop is one copy of the concatenation.\<close>

lemma sb_poke_poke:
  "Option.bind (sb_poke p a sb) (sb_poke (p + length a) b) = sb_poke p (a @ b) sb"
  by (cases "sb_data sb") (auto simp: sb_poke_def poke_def algebra_simps)

lemma copy_iov_concat:
  "sb_data sb = Live mem \<Longrightarrow> p \<le> length mem \<Longrightarrow> copy_iov p vs sb = sb_poke p (concat vs) sb"
proof (induction vs arbitrary: p sb mem)
  case Nil
  then show ?case by (simp add: sb_poke_def poke_def)
next
  case (Cons v vs)
  have "copy_iov (p + length v) vs sb' = sb_poke (p + length v) (concat vs) sb'"
    if "sb_poke p v sb = Some sb'" for sb'
    using that Cons.prems
    by (intro Cons.IH [where mem = "take p mem @ v @ drop (p + length v) mem"])
       (auto simp: sb_poke_def poke_eq_Some)
  then have "copy_iov p (v # vs) sb
      = Option.bind (sb_poke p v sb) (sb_poke (p + length v) (concat vs))"
    by (auto intro: bind_option_cong)
  also have "\<dots> = sb_poke p (concat (v # vs)) sb"
    by (simp add: sb_poke_poke)
  finally show ?case .
qed

section \<open>Writing appends\<close>

text \<open>The buffer after a successful write: room was reserved and \<open>bs\<close> stored behind the used bytes.\<close>

lemma reserved_store:
  assumes "sb_inv sb" "reserved sb n (Some p, sb')" "length bs = n"
  obtains sb'' where "sb_poke p bs sb' = Some sb''" "copy_iov p vs sb' = sb_poke p (concat vs) sb'"
    "sb_inv (sb''\<lparr>sb_size := sb_size sb + n\<rparr>)" "sb_bytes (sb''\<lparr>sb_size := sb_size sb + n\<rparr>) = sb_bytes sb @ bs"
    "sb_size sb'' = sb_size sb" "sb_rdoff sb'' = sb_rdoff sb" "sb_resize sb'' = sb_resize sb"
    "sb_subdata sb'' = sb_subdata sb" "sb_as sb'' = sb_as sb"
proof -
  from assms(2) obtain mem where p: "p = sb_size sb"
    and sb': "sb' = sb\<lparr>sb_data := Live mem, sb_alloc := length mem\<rparr>"
    and mem: "sb_size sb + n \<le> length mem" "take (sb_size sb) mem = sb_bytes sb"
    by (auto simp: reserved_def)
  define sb'' where "sb'' = sb'\<lparr>sb_data := Live (take p mem @ bs @ drop (p + length bs) mem)\<rparr>"
  have "sb_poke p bs sb' = Some sb''"
    using mem p assms(3) by (simp add: sb''_def sb' sb_poke_def poke_def)
  moreover have "copy_iov p vs sb' = sb_poke p (concat vs) sb'"
    using mem p sb' by (intro copy_iov_concat [where mem = mem]) auto
  ultimately show thesis
    using assms(1,3) mem p sb_bytes_length [OF assms(1)]
    by (intro that [of sb'']) (auto simp: sb''_def sb' sb_inv_def sb_bytes_Live)
qed

text \<open>
  The contract of the two write operations: they never leave defined behaviour, and either fail with
  \<open>-1\<close> and nothing counted, or append all the bytes.
\<close>

definition appended :: "buf_stream \<Rightarrow> bytes \<Rightarrow> int \<times> buf_stream \<Rightarrow> bool" where
  "appended s bs r \<longleftrightarrow>
     (case r of (rv, s') \<Rightarrow>
        s_reqid s' = s_reqid s \<and> sb_subdata (s_data s') = sb_subdata (s_data s) \<and>
        sb_rdoff (s_data s') = sb_rdoff (s_data s) \<and> sb_resize (s_data s') = sb_resize (s_data s) \<and>
        sb_as (s_data s') = sb_as (s_data s) \<and>
        (if rv = -1 then s_wrcnt s' = s_wrcnt s \<and> sb_size (s_data s') = sb_size (s_data s)
         else rv = int (length bs) \<and> sb_inv (s_data s') \<and> \<not> sb_as (s_data s) \<and>
           sb_bytes (s_data s') = sb_bytes (s_data s) @ bs \<and> s_wrcnt s' = s_wrcnt s + 1))"

lemma beer_buf_write_appended:
  assumes "alloc_ok A" "sb_inv (s_data s)" "bs \<noteq> []"
  shows "\<exists>r. beer_buf_write A s bs = Some r \<and> appended s bs r"
proof (cases "sb_as (s_data s)")
  case True
  then show ?thesis by (simp add: beer_buf_write_def appended_def)
next
  case False
  from assms obtain r where r: "sb_do_resize A (s_data s) (length bs) = Some r"
      "reserved (s_data s) (length bs) r"
    using sb_do_resize_reserved [of A "s_data s" "length bs"] by auto
  obtain p sb' where rp: "r = (p, sb')" by (cases r)
  show ?thesis
  proof (cases p)
    case None
    then show ?thesis
      using r rp False by (auto simp: beer_buf_write_def appended_def reserved_def)
  next
    case (Some p')
    obtain sb'' where "sb_poke p' bs sb' = Some sb''"
      "sb_inv (sb''\<lparr>sb_size := sb_size (s_data s) + length bs\<rparr>)"
      "sb_bytes (sb''\<lparr>sb_size := sb_size (s_data s) + length bs\<rparr>) = sb_bytes (s_data s) @ bs"
      "sb_size sb'' = sb_size (s_data s)" "sb_rdoff sb'' = sb_rdoff (s_data s)"
      "sb_resize sb'' = sb_resize (s_data s)" "sb_subdata sb'' = sb_subdata (s_data s)"
      "sb_as sb'' = sb_as (s_data s)"
      using reserved_store [OF assms(2) r(2) [unfolded rp Some] refl] by metis
    then show ?thesis
      using r(1) rp False Some by (simp add: beer_buf_write_def appended_def)
  qed
qed

lemma beer_buf_writev_appended:
  assumes "alloc_ok A" "sb_inv (s_data s)" "concat iov \<noteq> []"
  shows "\<exists>r. beer_buf_writev A s iov = Some r \<and> appended s (concat iov) r"
proof (cases "sb_as (s_data s)")
  case True
  then show ?thesis by (simp add: beer_buf_writev_def appended_def)
next
  case False
  have len: "sum_list (map length iov) = length (concat iov)" by (simp add: length_concat)
  from assms obtain r where r: "sb_do_resize A (s_data s) (length (concat iov)) = Some r"
      "reserved (s_data s) (length (concat iov)) r"
    using sb_do_resize_reserved [of A "s_data s" "length (concat iov)"] by blast
  obtain p sb' where rp: "r = (p, sb')" by (cases r)
  show ?thesis
  proof (cases p)
    case None
    then show ?thesis
      using r rp False by (auto simp: beer_buf_writev_def len appended_def reserved_def)
  next
    case (Some p')
    obtain sb'' where "copy_iov p' iov sb' = Some sb''"
      "sb_inv (sb''\<lparr>sb_size := sb_size (s_data s) + length (concat iov)\<rparr>)"
      "sb_bytes (sb''\<lparr>sb_size := sb_size (s_data s) + length (concat iov)\<rparr>)
         = sb_bytes (s_data s) @ concat iov"
      "sb_size sb'' = sb_size (s_data s)" "sb_rdoff sb'' = sb_rdoff (s_data s)"
      "sb_resize sb'' = sb_resize (s_data s)" "sb_subdata sb'' = sb_subdata (s_data s)"
      "sb_as sb'' = sb_as (s_data s)"
      using reserved_store [OF assms(2) r(2) [unfolded rp Some] refl] by metis
    then show ?thesis
      using r(1) rp False Some by (simp add: beer_buf_writev_def len appended_def Let_def del: length_concat)
  qed
qed

section \<open>Streams as byte sinks\<close>

text \<open>
  What the request functions rely on when they call \<open>s->writev\<close>: in a permitted environment the
  call is defined, it leaves the request counter alone, and unless it reports \<open>-1\<close> it appends
  the bytes of the vector in order and counts one write.  A reliable sink never reports \<open>-1\<close>.
\<close>

locale byte_sink =
  fixes env_ok :: "'e \<Rightarrow> bool"
    and writev :: "'e \<Rightarrow> 'd beer_stream \<Rightarrow> bytes list \<Rightarrow> (int \<times> 'd beer_stream) option"
    and inv :: "'d \<Rightarrow> bool"
    and out :: "'d \<Rightarrow> bytes"
  assumes writev_ok: "env_ok e \<Longrightarrow> inv (s_data s) \<Longrightarrow> concat iov \<noteq> [] \<Longrightarrow>
    \<exists>rv s'. writev e s iov = Some (rv, s') \<and> s_reqid s' = s_reqid s \<and>
      (rv = -1 \<and> s_wrcnt s' = s_wrcnt s \<or>
       rv = int (length (concat iov)) \<and> inv (s_data s') \<and>
       out (s_data s') = out (s_data s) @ concat iov \<and> s_wrcnt s' = s_wrcnt s + 1)"

locale reliable_sink = byte_sink +
  assumes writev_reliable: "env_ok e \<Longrightarrow> inv (s_data s) \<Longrightarrow> concat iov \<noteq> [] \<Longrightarrow>
    writev e s iov = Some (rv, s') \<Longrightarrow> rv \<noteq> -1"
begin

lemma writev_total: "env_ok e \<Longrightarrow> inv (s_data s) \<Longrightarrow> concat iov \<noteq> [] \<Longrightarrow>
    \<exists>s'. writev e s iov = Some (int (length (concat iov)), s') \<and> s_reqid s' = s_reqid s \<and>
      inv (s_data s') \<and> out (s_data s') = out (s_data s) @ concat iov \<and> s_wrcnt s' = s_wrcnt s + 1"
  using writev_ok [of e s iov] writev_reliable [of e s iov] by blast

end

interpretation buf: byte_sink alloc_ok beer_buf_writev sb_inv sb_bytes
proof
  fix e :: allocator and s :: buf_stream and iov :: "bytes list"
  assume "alloc_ok e" "sb_inv (s_data s)" "concat iov \<noteq> []"
  from beer_buf_writev_appended [OF this]
  show "\<exists>rv s'. beer_buf_writev e s iov = Some (rv, s') \<and> s_reqid s' = s_reqid s \<and>
      (rv = -1 \<and> s_wrcnt s' = s_wrcnt s \<or>
       rv = int (length (concat iov)) \<and> sb_inv (s_data s') \<and>
       sb_bytes (s_data s') = sb_bytes (s_data s) @ concat iov \<and> s_wrcnt s' = s_wrcnt s + 1)"
    by (fastforce simp: appended_def split: if_splits)
qed

text \<open>A buffer that the library owns, over an allocator that never fails, is reliable.\<close>

definition sb_open :: "stream_buf \<Rightarrow> bool" where
  "sb_open sb \<longleftrightarrow> sb_inv sb \<and> \<not> sb_as sb"

lemma alloc_total_ok: "alloc_total A \<Longrightarrow> alloc_ok A"
  by (simp add: alloc_total_def)

lemma sb_do_resize_total:
  assumes "alloc_total A" "sb_inv sb" "0 < n"
  shows "sb_do_resize A sb n \<noteq> Some (None, sb')"
proof -
  have d: "sb_data sb \<noteq> Dangling" using assms(2) by (auto simp: sb_inv_def)
  show ?thesis
    using realloc_total [OF assms(1) _ d] assms(2,3)
    by (auto simp: sb_do_resize_def beer_buf_resize_def beer_sbuf_object_resize_def sb_inv_def Let_def
        bind_eq_Some_conv split: resize_fn.splits if_splits blk.splits)
qed

lemma write_total:
  assumes "alloc_total A" "sb_open (s_data s)"
  shows "bs \<noteq> [] \<Longrightarrow> beer_buf_write A s bs \<noteq> Some (-1, s')"
    and "concat (iov :: bytes list) \<noteq> [] \<Longrightarrow> beer_buf_writev A s iov \<noteq> Some (-1, s')"
  using sb_do_resize_total [OF assms(1), of "s_data s"] assms(2)
  by (auto simp: beer_buf_write_def beer_buf_writev_def sb_open_def Let_def bind_eq_Some_conv
      length_concat [symmetric] split: option.splits simp del: length_concat)

interpretation owned: reliable_sink alloc_total beer_buf_writev sb_open sb_bytes
proof
  fix e :: allocator and s :: buf_stream and iov :: "bytes list"
  assume "alloc_total e" "sb_open (s_data s)" "concat iov \<noteq> []"
  with buf.writev_ok [of e s iov] beer_buf_writev_appended [of e s iov]
  show "\<exists>rv s'. beer_buf_writev e s iov = Some (rv, s') \<and> s_reqid s' = s_reqid s \<and>
      (rv = -1 \<and> s_wrcnt s' = s_wrcnt s \<or>
       rv = int (length (concat iov)) \<and> sb_open (s_data s') \<and>
       sb_bytes (s_data s') = sb_bytes (s_data s) @ concat iov \<and> s_wrcnt s' = s_wrcnt s + 1)"
    by (fastforce simp: sb_open_def alloc_total_ok appended_def split: if_splits)
next
  fix e :: allocator and s :: buf_stream and iov :: "bytes list" and rv s'
  assume "alloc_total e" "sb_open (s_data s)" "concat iov \<noteq> []"
    "beer_buf_writev e s iov = Some (rv, s')"
  then show "rv \<noteq> -1" using write_total(2) by blast
qed

section \<open>Where the buffer stream departs from its contract\<close>

lemma beer_buf_write_total_appended:
  assumes "alloc_total A" "sb_open (s_data s)" "bs \<noteq> []"
  obtains s' where "beer_buf_write A s bs = Some (int (length bs), s')"
    "appended s bs (int (length bs), s')"
proof -
  from assms obtain r where r: "beer_buf_write A s bs = Some r" "appended s bs r"
    using beer_buf_write_appended [of A s bs] by (auto simp: sb_open_def alloc_total_ok)
  obtain rv s' where [simp]: "r = (rv, s')" by (cases r)
  have "rv \<noteq> -1" using write_total(1) [OF assms(1,2,3)] r(1) by auto
  then have "rv = int (length bs)" using r(2) by (auto simp: appended_def)
  with r show thesis by (intro that) simp_all
qed

text \<open>A failed growth frees the block and keeps the pointer.\<close>

lemma beer_buf_write_fail:
  assumes "A (sb_size (s_data s) + length bs) = None" "sb_data (s_data s) = Live mem"
    "bs \<noteq> []" "sb_resize (s_data s) = Buf_resize" "\<not> sb_as (s_data s)"
  shows "beer_buf_write A s bs = Some (-1, s\<lparr>s_data := (s_data s)\<lparr>sb_data := Dangling\<rparr>\<rparr>)"
  using assms by (simp add: beer_buf_write_def sb_do_resize_def beer_buf_resize_def libc_realloc_def Let_def)

end
