(* ===== verification/Beer_Object.thy ===== *)
theory Beer_Object
  imports Beer_Buf
begin

text \<open>
  The MessagePack object builder (\<open>beer/beer_object.c\<close>, \<open>include/bee/beer_object.h\<close>): a
  buffer stream whose \<open>subdata\<close> is a stack of the containers that are still open.

  First the operations as the code has them, then an abstract view of a builder (bytes, open
  containers) that every operation simulates, then documents, the calls that build
  them and the bytes that result, and the format strings of \<open>beer_object_vformat\<close>.
\<close>

section \<open>Access to the builder's structure\<close>

text \<open>\<open>BEER_SOBJ_CAST\<close>: a stream without a builder is a NULL dereference.\<close>

definition sobj :: "buf_stream \<Rightarrow> sbuf_object option" where
  "sobj s = sb_subdata (s_data s)"

definition set_sobj :: "sbuf_object \<Rightarrow> buf_stream \<Rightarrow> buf_stream" where
  "set_sobj sbo s = s\<lparr>s_data := (s_data s)\<lparr>sb_subdata := Some sbo\<rparr>\<rparr>"

text \<open>Entry \<open>i\<close> of the stack, and a store into it: both undefined outside the allocated block.\<close>

definition stack_at :: "sbuf_object \<Rightarrow> nat \<Rightarrow> sbo_stack option" where
  "stack_at sbo i = (if i < length (stack sbo) then Some (stack sbo ! i) else None)"

definition stack_put :: "nat \<Rightarrow> sbo_stack \<Rightarrow> sbuf_object \<Rightarrow> sbuf_object option" where
  "stack_put i e sbo =
     (if i < length (stack sbo) then Some (sbo\<lparr>stack := (stack sbo)[i := e]\<rparr>) else None)"

text \<open>The guarded increment that every \<open>add\<close> function starts with.\<close>

definition add_child :: "sbuf_object \<Rightarrow> sbuf_object option" where
  "add_child sbo =
     (if 0 < unat (stack_size sbo) then do {
        let i = unat (stack_size sbo) - 1;
        e \<leftarrow> stack_at sbo i;
        stack_put i (e\<lparr>ent_size := ent_size e + 1\<rparr>) sbo }
      else Some sbo)"

section \<open>Operations\<close>

definition beer_object_type :: "buf_stream \<Rightarrow> sbo_type \<Rightarrow> (int \<times> buf_stream) option" where
  "beer_object_type s ty =
     (if 0 < unat (s_wrcnt s) then Some (-1, s)
      else do {
        sbo \<leftarrow> sobj s;
        Some (0, set_sobj (sbo\<lparr>sbo_kind := ty\<rparr>) s) })"

text \<open>A new stack is zeroed by the allocator; type \<open>0\<close> is \<open>MP_NIL\<close>.\<close>

definition zero_entry :: sbo_stack where
  "zero_entry = \<lparr>ent_offset = 0, ent_size = 0, ent_type = MP_NIL\<rparr>"

text \<open>\<open>mem\<close> tells whether the allocation of the new stack succeeds.\<close>

definition beer_sbuf_object_grow_stack :: "bool \<Rightarrow> sbuf_object \<Rightarrow> int \<times> sbuf_object" where
  "beer_sbuf_object_grow_stack mem sbo =
     (if stack_alloc sbo = 128 then (-1, sbo)
      else let new_stack_alloc = 2 * stack_alloc sbo in
        if \<not> mem then (-1, sbo)
        else (0, sbo\<lparr>stack_alloc := new_stack_alloc,
                     stack := replicate (unat new_stack_alloc) zero_entry\<rparr>))"

text \<open>
  \<open>beer_object(NULL)\<close>, by the outcome of the allocations of the builder's structure and its
  stack.  The error path calls \<open>beer_sbuf_object_free\<close>, which reads \<open>sbo->stack\<close>.
\<close>

definition beer_object :: "bool \<Rightarrow> bool \<Rightarrow> buf_stream option option" where
  "beer_object mem_sbo mem_stack =
     (let s = beer_buf; s = s\<lparr>s_data := (s_data s)\<lparr>sb_resize := Object_resize\<rparr>\<rparr> in
      if \<not> mem_sbo then None
      else if \<not> mem_stack then Some None
      else let sbo = \<lparr>stack = replicate 8 zero_entry, stack_size = 0, stack_alloc = 8,
                      sbo_kind = BEER_SBO_SIMPLE\<rparr>
           in map_option (\<lambda>r. Some (snd r)) (beer_object_type (set_sobj sbo s) BEER_SBO_SIMPLE))"

text \<open>An \<open>add\<close> function of a scalar: count the child, then one write of its local buffer.\<close>

definition beer_object_add_nil ::
    "msgpuck \<Rightarrow> allocator \<Rightarrow> buf_stream \<Rightarrow> (int \<times> buf_stream) option" where
  "beer_object_add_nil M A s = do {
     sbo \<leftarrow> sobj s; sbo \<leftarrow> add_child sbo;
     data \<leftarrow> emit 2 (mp_encode_nil M) [];
     beer_buf_write A (set_sobj sbo s) data }"

definition beer_object_add_uint ::
    "msgpuck \<Rightarrow> allocator \<Rightarrow> buf_stream \<Rightarrow> u64 \<Rightarrow> (int \<times> buf_stream) option" where
  "beer_object_add_uint M A s v = do {
     sbo \<leftarrow> sobj s; sbo \<leftarrow> add_child sbo;
     data \<leftarrow> emit 10 (mp_encode_uint M v) [];
     beer_buf_write A (set_sobj sbo s) data }"

definition beer_object_add_int ::
    "msgpuck \<Rightarrow> allocator \<Rightarrow> buf_stream \<Rightarrow> u64 \<Rightarrow> (int \<times> buf_stream) option" where
  "beer_object_add_int M A s v = do {
     sbo \<leftarrow> sobj s; sbo \<leftarrow> add_child sbo;
     data \<leftarrow> (if sint v < 0 then emit 10 (mp_encode_int M v) []
              else emit 10 (mp_encode_uint M v) []);
     beer_buf_write A (set_sobj sbo s) data }"

text \<open>\<open>str\<close> is the object behind the pointer; \<open>len\<close> bytes of it are written.\<close>

definition beer_object_add_str ::
    "msgpuck \<Rightarrow> allocator \<Rightarrow> buf_stream \<Rightarrow> bytes \<Rightarrow> u32 \<Rightarrow> (int \<times> buf_stream) option" where
  "beer_object_add_str M A s str len = do {
     sbo \<leftarrow> sobj s; sbo \<leftarrow> add_child sbo;
     data \<leftarrow> emit 6 (mp_encode_strl M len) [];
     v1 \<leftarrow> slice 0 (unat len) str;
     beer_buf_writev A (set_sobj sbo s) [data, v1] }"

definition beer_object_add_strz ::
    "msgpuck \<Rightarrow> allocator \<Rightarrow> buf_stream \<Rightarrow> bytes \<Rightarrow> (int \<times> buf_stream) option" where
  "beer_object_add_strz M A s strz = do {
     len \<leftarrow> c_strlen strz;
     beer_object_add_str M A s strz (word_of_nat len) }"

definition beer_object_add_bin ::
    "msgpuck \<Rightarrow> allocator \<Rightarrow> buf_stream \<Rightarrow> bytes \<Rightarrow> u32 \<Rightarrow> (int \<times> buf_stream) option" where
  "beer_object_add_bin M A s bin len = do {
     sbo \<leftarrow> sobj s; sbo \<leftarrow> add_child sbo;
     data \<leftarrow> emit 6 (mp_encode_binl M len) [];
     v1 \<leftarrow> slice 0 (unat len) bin;
     beer_buf_writev A (set_sobj sbo s) [data, v1] }"

definition beer_object_add_bool ::
    "msgpuck \<Rightarrow> allocator \<Rightarrow> buf_stream \<Rightarrow> u8 \<Rightarrow> (int \<times> buf_stream) option" where
  "beer_object_add_bool M A s v = do {
     sbo \<leftarrow> sobj s; sbo \<leftarrow> add_child sbo;
     data \<leftarrow> emit 2 (mp_encode_bool M (v \<noteq> 0)) [];
     beer_buf_write A (set_sobj sbo s) data }"

definition beer_object_add_float ::
    "msgpuck \<Rightarrow> allocator \<Rightarrow> buf_stream \<Rightarrow> u32 \<Rightarrow> (int \<times> buf_stream) option" where
  "beer_object_add_float M A s v = do {
     sbo \<leftarrow> sobj s; sbo \<leftarrow> add_child sbo;
     data \<leftarrow> emit 6 (mp_encode_float M v) [];
     beer_buf_write A (set_sobj sbo s) data }"

definition beer_object_add_double ::
    "msgpuck \<Rightarrow> allocator \<Rightarrow> buf_stream \<Rightarrow> u64 \<Rightarrow> (int \<times> buf_stream) option" where
  "beer_object_add_double M A s v = do {
     sbo \<leftarrow> sobj s; sbo \<leftarrow> add_child sbo;
     data \<leftarrow> emit 10 (mp_encode_double M v) [];
     beer_buf_write A (set_sobj sbo s) data }"

text \<open>The five-byte headers.\<close>

definition mp_encode_array32 :: "msgpuck \<Rightarrow> u32 \<Rightarrow> bytes" where
  "mp_encode_array32 M n = mp_store_u8 M 0xdd @ mp_store_u32 M n"

definition mp_encode_map32 :: "msgpuck \<Rightarrow> u32 \<Rightarrow> bytes" where
  "mp_encode_map32 M n = mp_store_u8 M 0xdf @ mp_store_u32 M n"

text \<open>
  \<open>mem\<close>: whether a growth of the stack finds memory.  Callers ask the allocator for twice as many entries, each of
  16 bytes (an offset, a size, a type, padding).
\<close>

definition stack_mem :: "allocator \<Rightarrow> buf_stream \<Rightarrow> bool" where
  "stack_mem A s =
     (case sobj s of None \<Rightarrow> False | Some sbo \<Rightarrow> A (unat (2 * stack_alloc sbo) * 16) \<noteq> None)"

definition beer_object_add_array ::
    "msgpuck \<Rightarrow> allocator \<Rightarrow> bool \<Rightarrow> buf_stream \<Rightarrow> u32 \<Rightarrow> (int \<times> buf_stream) option" where
  "beer_object_add_array M A mem s n = do {
     sbo \<leftarrow> sobj s; sbo \<leftarrow> add_child sbo;
     let (rc, sbo) = (if stack_size sbo = stack_alloc sbo
                      then beer_sbuf_object_grow_stack mem sbo else (0, sbo));
     if rc = -1 then Some (-1, set_sobj sbo s)
     else do {
       sbo \<leftarrow> stack_put (unat (stack_size sbo))
                \<lparr>ent_offset = sb_size (s_data s), ent_size = 0, ent_type = MP_ARRAY\<rparr> sbo;
       let sbo = sbo\<lparr>stack_size := stack_size sbo + 1\<rparr>;
       data \<leftarrow> (case sbo_kind sbo of
                  BEER_SBO_SIMPLE \<Rightarrow> emit 6 (mp_encode_array M n) []
                | BEER_SBO_SPARSE \<Rightarrow> emit 6 (mp_encode_array32 M 0) []
                | BEER_SBO_PACKED \<Rightarrow> emit 6 (mp_encode_array M 0) []);
       beer_buf_write A (set_sobj sbo s) data } }"

definition beer_object_add_map ::
    "msgpuck \<Rightarrow> allocator \<Rightarrow> bool \<Rightarrow> buf_stream \<Rightarrow> u32 \<Rightarrow> (int \<times> buf_stream) option" where
  "beer_object_add_map M A mem s n = do {
     sbo \<leftarrow> sobj s; sbo \<leftarrow> add_child sbo;
     let (rc, sbo) = (if stack_size sbo = stack_alloc sbo
                      then beer_sbuf_object_grow_stack mem sbo else (0, sbo));
     if rc = -1 then Some (-1, set_sobj sbo s)
     else do {
       sbo \<leftarrow> stack_put (unat (stack_size sbo))
                \<lparr>ent_offset = sb_size (s_data s), ent_size = 0, ent_type = MP_MAP\<rparr> sbo;
       let sbo = sbo\<lparr>stack_size := stack_size sbo + 1\<rparr>;
       data \<leftarrow> (case sbo_kind sbo of
                  BEER_SBO_SIMPLE \<Rightarrow> emit 6 (mp_encode_map M n) []
                | BEER_SBO_SPARSE \<Rightarrow> emit 6 (mp_encode_map32 M 0) []
                | BEER_SBO_PACKED \<Rightarrow> emit 6 (mp_encode_map M 0) []);
       beer_buf_write A (set_sobj sbo s) data } }"

text \<open>\<open>memmove(data + dst, data + src, n)\<close> inside the buffer's block.\<close>

definition sb_memmove :: "nat \<Rightarrow> nat \<Rightarrow> nat \<Rightarrow> stream_buf \<Rightarrow> stream_buf option" where
  "sb_memmove dst src n sb =
     (case sb_data sb of
        Live mem \<Rightarrow> do { bs \<leftarrow> slice src n mem; sb_poke dst bs sb }
      | _ \<Rightarrow> None)"

definition beer_object_container_close ::
    "msgpuck \<Rightarrow> allocator \<Rightarrow> buf_stream \<Rightarrow> (int \<times> buf_stream) option" where
  "beer_object_container_close M A s = do {
     sbo \<leftarrow> sobj s;
     if stack_size sbo = 0 then Some (-1, s)
     else do {
       e \<leftarrow> stack_at sbo (unat (stack_size sbo) - 1);
       let n = ent_size e;
       let ty = ent_type e;
       let off = ent_offset e;
       if ty = MP_MAP \<and> unat n mod 2 \<noteq> 0 then Some (-1, s)
       else do {
         let s = set_sobj (sbo\<lparr>stack_size := stack_size sbo - 1\<rparr>) s;
         case sbo_kind sbo of
           BEER_SBO_SIMPLE \<Rightarrow> Some (0, s)
         | BEER_SBO_SPARSE \<Rightarrow> do {
             sb \<leftarrow> sb_poke off (if ty = MP_MAP then mp_encode_map32 M (n div 2)
                               else mp_encode_array32 M n) (s_data s);
             Some (0, s\<lparr>s_data := sb\<rparr>) }
         | BEER_SBO_PACKED \<Rightarrow> do {
             let sz = (if ty = MP_MAP then mp_sizeof_map M (n div 2) else mp_sizeof_array M n);
             (ok, sb) \<leftarrow> (if sz > 1 then do {
                 (p, sb) \<leftarrow> sb_do_resize A (s_data s) (sz - 1);
                 case p of
                   None \<Rightarrow> Some (False, sb)
                 | Some _ \<Rightarrow>
                     if off + 1 \<le> sb_size sb
                     then map_option (Pair True)
                            (sb_memmove (off + sz) (off + 1) (sb_size sb - off - 1) sb)
                     else None }
               else Some (True, s_data s));
             if \<not> ok then Some (-1, s\<lparr>s_data := sb\<rparr>)
             else do {
               sb \<leftarrow> sb_poke off (if ty = MP_MAP then mp_encode_map M (n div 2)
                                 else mp_encode_array M n) sb;
               Some (0, s\<lparr>s_data := sb\<lparr>sb_size := sb_size sb + (sz - 1)\<rparr>\<rparr>) } } } } }"

text \<open>\<open>type >= 0\<close> is \<open>Some\<close> of the type; \<open>*pos\<close> needs a byte to read.\<close>

definition beer_object_verify :: "msgpuck \<Rightarrow> buf_stream \<Rightarrow> mp_type option \<Rightarrow> int option" where
  "beer_object_verify M s ty =
     (let sb = s_data s;
          rest = (if sb_data sb = Dangling then None
                  else case mp_check M (sb_bytes sb) of
                         None \<Rightarrow> Some (-1)
                       | Some n \<Rightarrow> if n < sb_size sb then Some (-1) else Some 0) in
      case ty of
        None \<Rightarrow> rest
      | Some t \<Rightarrow>
          (case sb_data sb of
             Live (b # _) \<Rightarrow> if mp_typeof M b \<noteq> t then Some (-1) else rest
           | _ \<Rightarrow> None))"

section \<open>Format strings\<close>

text \<open>
  The \<open>(float)\<close> conversion of C: round the 53-bit significand to nearest, ties to even; too
  large a value becomes an infinity, a value below the normal floats a subnormal one.
\<close>

definition round_even :: "nat \<Rightarrow> nat \<Rightarrow> nat" where
  "round_even m k = (let q = m div 2 ^ k; r = m mod 2 ^ k; h = 2 ^ (k - 1) in
     if r > h \<or> r = h \<and> odd q then q + 1 else q)"

definition double_to_float :: "u64 \<Rightarrow> u32" where
  "double_to_float d = (
     let n = unat d; sign = n div 2 ^ 63 * 2 ^ 31;
         ex = n div 2 ^ 52 mod 2048; frac = n mod 2 ^ 52;
         mag = (if ex = 2047 then
                  (if frac = 0 then 255 * 2 ^ 23 else 255 * 2 ^ 23 + 2 ^ 22 + frac div 2 ^ 29 mod 2 ^ 22)
                else if ex = 0 then 0
                else if 897 \<le> ex then
                  (let v = (ex - 897) * 2 ^ 23 + round_even (2 ^ 52 + frac) 29
                   in if 255 * 2 ^ 23 \<le> v then 255 * 2 ^ 23 else v)
                else round_even (2 ^ 52 + frac) (29 + (897 - ex)))
     in word_of_nat (sign + mag))"

text \<open>
  A variable argument list: each argument has the type after promotion, and \<open>va_arg\<close> at
  another type is undefined.  A pointer argument is the object from the pointer on.
\<close>

datatype va = Va_int u32 | Va_long u64 | Va_llong u64 | Va_double u64 | Va_ptr bytes

datatype fmt_spec =
  Cv_int | Cv_uint | Cv_long | Cv_ulong | Cv_llong | Cv_ullong | Cv_str | Cv_strn
| Cv_float | Cv_double | Cv_bool | Cv_percent | Cv_bad

text \<open>\<open>f[k]\<close>, where the string is followed by its terminating NUL.\<close>

definition chr_at :: "string \<Rightarrow> nat \<Rightarrow> char" where
  "chr_at f k = (if k < length f then f ! k else CHR 0x00)"

text \<open>The chain of specifier tests, with the characters consumed behind the first one.\<close>

definition fmt_conv :: "string \<Rightarrow> fmt_spec \<times> nat" where
  "fmt_conv f = (let c0 = chr_at f 0; c1 = chr_at f 1; c2 = chr_at f 2 in
     if c0 = CHR ''d'' \<or> c0 = CHR ''i'' then (Cv_int, 0)
     else if c0 = CHR ''u'' then (Cv_uint, 0)
     else if c0 = CHR ''s'' then (Cv_str, 0)
     else if c0 = CHR ''.'' \<and> c1 = CHR ''*'' \<and> c2 = CHR ''s'' then (Cv_strn, 2)
     else if c0 = CHR ''f'' then (Cv_float, 0)
     else if c0 = CHR ''l'' \<and> c1 = CHR ''f'' then (Cv_double, 1)
     else if c0 = CHR ''b'' then (Cv_bool, 0)
     else if c0 = CHR ''l'' \<and> (c1 = CHR ''d'' \<or> c1 = CHR ''i'') then (Cv_long, 1)
     else if c0 = CHR ''l'' \<and> c1 = CHR ''u'' then (Cv_ulong, 1)
     else if c0 = CHR ''l'' \<and> c1 = CHR ''l'' \<and> (c2 = CHR ''d'' \<or> c2 = CHR ''i'') then (Cv_llong, 2)
     else if c0 = CHR ''l'' \<and> c1 = CHR ''l'' \<and> c2 = CHR ''u'' then (Cv_ullong, 2)
     else if c0 = CHR ''h'' \<and> (c1 = CHR ''d'' \<or> c1 = CHR ''i'') then (Cv_int, 1)
     else if c0 = CHR ''h'' \<and> c1 = CHR ''u'' then (Cv_uint, 1)
     else if c0 = CHR ''h'' \<and> c1 = CHR ''h'' \<and> (c2 = CHR ''d'' \<or> c2 = CHR ''i'') then (Cv_int, 2)
     else if c0 = CHR ''h'' \<and> c1 = CHR ''h'' \<and> c2 = CHR ''u'' then (Cv_uint, 2)
     else if c0 = CHR ''%'' then (Cv_percent, 0)
     else (Cv_bad, 0))"

text \<open>\<open>va_arg\<close> at the promoted types.\<close>

definition va_int :: "va list \<Rightarrow> (u32 \<times> va list) option" where
  "va_int vl = (case vl of Va_int x # r \<Rightarrow> Some (x, r) | _ \<Rightarrow> None)"

definition va_long :: "va list \<Rightarrow> (u64 \<times> va list) option" where
  "va_long vl = (case vl of Va_long x # r \<Rightarrow> Some (x, r) | _ \<Rightarrow> None)"

definition va_llong :: "va list \<Rightarrow> (u64 \<times> va list) option" where
  "va_llong vl = (case vl of Va_llong x # r \<Rightarrow> Some (x, r) | _ \<Rightarrow> None)"

definition va_double :: "va list \<Rightarrow> (u64 \<times> va list) option" where
  "va_double vl = (case vl of Va_double x # r \<Rightarrow> Some (x, r) | _ \<Rightarrow> None)"

definition va_ptr :: "va list \<Rightarrow> (bytes \<times> va list) option" where
  "va_ptr vl = (case vl of Va_ptr x # r \<Rightarrow> Some (x, r) | _ \<Rightarrow> None)"

lemmas va_args = va_int_def va_long_def va_llong_def va_double_def va_ptr_def

text \<open>
  One specifier: the \<open>va_arg\<close> calls and the \<open>add\<close> call.  The result has the call's return
  value, the stream, the remaining arguments.  An unexpected specifier fails its assertion.
\<close>

definition fmt_arg :: "msgpuck \<Rightarrow> allocator \<Rightarrow> buf_stream \<Rightarrow> fmt_spec \<Rightarrow> va list
    \<Rightarrow> (int \<times> buf_stream \<times> va list) option" where
  "fmt_arg M A s cv vl =
     (case cv of
        Cv_int \<Rightarrow> do { (x, vl) \<leftarrow> va_int vl; (rv, s) \<leftarrow> beer_object_add_int M A s (scast x); Some (rv, s, vl) }
      | Cv_uint \<Rightarrow> do { (x, vl) \<leftarrow> va_int vl; (rv, s) \<leftarrow> beer_object_add_int M A s (ucast x); Some (rv, s, vl) }
      | Cv_long \<Rightarrow> do { (x, vl) \<leftarrow> va_long vl; (rv, s) \<leftarrow> beer_object_add_int M A s x; Some (rv, s, vl) }
      | Cv_ulong \<Rightarrow> do { (x, vl) \<leftarrow> va_long vl; (rv, s) \<leftarrow> beer_object_add_int M A s x; Some (rv, s, vl) }
      | Cv_llong \<Rightarrow> do { (x, vl) \<leftarrow> va_llong vl; (rv, s) \<leftarrow> beer_object_add_int M A s x; Some (rv, s, vl) }
      | Cv_ullong \<Rightarrow> do { (x, vl) \<leftarrow> va_llong vl; (rv, s) \<leftarrow> beer_object_add_int M A s x; Some (rv, s, vl) }
      | Cv_str \<Rightarrow> do {
          (p, vl) \<leftarrow> va_ptr vl;
          len \<leftarrow> c_strlen p;
          (rv, s) \<leftarrow> beer_object_add_str M A s p (word_of_nat len);
          Some (rv, s, vl) }
      | Cv_strn \<Rightarrow> do {
          (len, vl) \<leftarrow> va_int vl;
          (p, vl) \<leftarrow> va_ptr vl;
          (rv, s) \<leftarrow> beer_object_add_str M A s p len;
          Some (rv, s, vl) }
      | Cv_float \<Rightarrow> do {
          (x, vl) \<leftarrow> va_double vl;
          (rv, s) \<leftarrow> beer_object_add_float M A s (double_to_float x);
          Some (rv, s, vl) }
      | Cv_double \<Rightarrow> do { (x, vl) \<leftarrow> va_double vl; (rv, s) \<leftarrow> beer_object_add_double M A s x; Some (rv, s, vl) }
      | Cv_bool \<Rightarrow> do {
          (x, vl) \<leftarrow> va_int vl;
          (rv, s) \<leftarrow> beer_object_add_bool M A s (if x \<noteq> 0 then 1 else 0);
          Some (rv, s, vl) }
      | Cv_percent \<Rightarrow> Some (0, s, vl)
      | Cv_bad \<Rightarrow> None)"

text \<open>One turn of the loop at a character: with the characters that \<open>f\<close> advances by.\<close>

definition fmt_step :: "msgpuck \<Rightarrow> allocator \<Rightarrow> buf_stream \<Rightarrow> string \<Rightarrow> va list
    \<Rightarrow> (int \<times> buf_stream \<times> va list \<times> nat) option" where
  "fmt_step M A s f vl = (let c = chr_at f 0 in
     if c = CHR ''['' then map_option (\<lambda>(rv, s). (rv, s, vl, 1)) (beer_object_add_array M A (stack_mem A s) s 0)
     else if c = CHR ''{'' then map_option (\<lambda>(rv, s). (rv, s, vl, 1)) (beer_object_add_map M A (stack_mem A s) s 0)
     else if c = CHR '']'' \<or> c = CHR ''}''
       then map_option (\<lambda>(rv, s). (rv, s, vl, 1)) (beer_object_container_close M A s)
     else if c = CHR ''%'' then
       if chr_at f 1 = CHR 0x00 then None
       else (let (cv, n) = fmt_conv (tl f) in
             map_option (\<lambda>(rv, s, vl). (rv, s, vl, n + 2)) (fmt_arg M A s cv vl))
     else if c = CHR ''N'' \<and> chr_at f 1 = CHR ''I'' \<and> chr_at f 2 = CHR ''L''
       then map_option (\<lambda>(rv, s). (rv, s, vl, 3)) (beer_object_add_nil M A s)
     else Some (0, s, vl, 1))"

function vformat_loop :: "msgpuck \<Rightarrow> allocator \<Rightarrow> buf_stream \<Rightarrow> string \<Rightarrow> va list \<Rightarrow> int
    \<Rightarrow> (int \<times> buf_stream) option" where
  "vformat_loop M A s f vl result =
     (if f = [] then Some (result, s)
      else case fmt_step M A s f vl of
        None \<Rightarrow> None
      | Some (rv, s, vl, n) \<Rightarrow>
          if rv = -1 then Some (-1, s)
          else vformat_loop M A s (drop (max 1 n) f) vl (result + rv))"
  by pat_completeness auto
termination by (relation "measure (\<lambda>(M, A, s, f, vl, r). length f)") auto

declare vformat_loop.simps [simp del]

definition beer_object_vformat :: "msgpuck \<Rightarrow> allocator \<Rightarrow> buf_stream \<Rightarrow> string \<Rightarrow> va list
    \<Rightarrow> (int \<times> buf_stream) option" where
  "beer_object_vformat M A s fmt vl = do {
     (rc, s) \<leftarrow> beer_object_type s BEER_SBO_PACKED;
     if rc = -1 then Some (-1, s) else vformat_loop M A s fmt vl 0 }"

section \<open>Views of foreign buffers, and reuse\<close>

text \<open>\<open>s = NULL\<close> allocates a new builder.\<close>

definition beer_object_as :: "buf_stream option \<Rightarrow> bytes \<Rightarrow> buf_stream option" where
  "beer_object_as s buf = do {
     s \<leftarrow> (case s of None \<Rightarrow> Option.bind (beer_object True True) id | Some s \<Rightarrow> Some s);
     Some (s\<lparr>s_data := (s_data s)\<lparr>sb_data := Live buf, sb_size := length buf,
               sb_alloc := length buf, sb_as := True\<rparr>\<rparr>) }"

definition beer_object_reset :: "buf_stream \<Rightarrow> (int \<times> buf_stream) option" where
  "beer_object_reset s = do {
     sbo \<leftarrow> sobj s;
     Some (0, \<lparr>s_data = (s_data s)\<lparr>sb_size := 0, sb_rdoff := 0,
                sb_subdata := Some (sbo\<lparr>stack_size := 0, sbo_kind := BEER_SBO_SIMPLE\<rparr>)\<rparr>,
               s_wrcnt = 0, s_reqid = 0\<rparr>) }"

end
