(* ===== verification/Object_View.thy ===== *)
theory Object_View
  imports Beer_Object
begin

text \<open>
  The object builder of \<open>Beer_Object\<close> seen as bytes and open containers: each operation of the code
  simulates an operation on this view (\<open>obj_rel\<close> relates a stream to its view).
\<close>

section \<open>The builder as bytes and open containers\<close>

record oview =
  ov_bytes :: bytes
  ov_frames :: "sbo_stack list"
  ov_room :: nat
  ov_kind :: sbo_type

text \<open>Bytes that a container's header occupies from its recorded offset.\<close>

fun hdr_room :: "sbo_type \<Rightarrow> nat" where
  "hdr_room BEER_SBO_SPARSE = 5"
| "hdr_room _ = 1"

definition frames_ok :: "oview \<Rightarrow> bool" where
  "frames_ok v \<longleftrightarrow> length (ov_frames v) \<le> ov_room v \<and>
     (\<forall>e \<in> set (ov_frames v). ent_offset e + hdr_room (ov_kind v) \<le> length (ov_bytes v))"

definition view_of :: "stream_buf \<Rightarrow> sbuf_object \<Rightarrow> oview" where
  "view_of sb sbo = \<lparr>ov_bytes = sb_bytes sb, ov_frames = take (unat (stack_size sbo)) (stack sbo),
     ov_room = unat (stack_alloc sbo), ov_kind = sbo_kind sbo\<rparr>"

text \<open>The representation invariant, with the view it represents.\<close>

definition obj_rel :: "buf_stream \<Rightarrow> oview \<Rightarrow> bool" where
  "obj_rel s v \<longleftrightarrow> sb_open (s_data s) \<and>
     (\<exists>sbo. sobj s = Some sbo \<and> length (stack sbo) = unat (stack_alloc sbo) \<and>
        unat (stack_size sbo) \<le> unat (stack_alloc sbo) \<and>
        v = view_of (s_data s) sbo \<and> frames_ok v)"

text \<open>The operations on views.\<close>

definition bump :: "sbo_stack list \<Rightarrow> sbo_stack list" where
  "bump fs = (if fs = [] then [] else butlast fs @ [(last fs)\<lparr>ent_size := ent_size (last fs) + 1\<rparr>])"

definition v_add :: "bytes \<Rightarrow> oview \<Rightarrow> oview" where
  "v_add bs v = v\<lparr>ov_bytes := ov_bytes v @ bs, ov_frames := bump (ov_frames v)\<rparr>"

definition v_open :: "mp_type \<Rightarrow> bytes \<Rightarrow> oview \<Rightarrow> oview" where
  "v_open ty hdr v = v\<lparr>ov_bytes := ov_bytes v @ hdr, ov_frames := bump (ov_frames v) @
     [\<lparr>ent_offset = length (ov_bytes v), ent_size = 0, ent_type = ty\<rparr>]\<rparr>"

text \<open>Closing rewrites the header that was written when the container was opened.\<close>

definition closed_hdr :: "msgpuck \<Rightarrow> sbo_type \<Rightarrow> mp_type \<Rightarrow> u32 \<Rightarrow> bytes" where
  "closed_hdr M k ty n =
     (case k of
        BEER_SBO_SPARSE \<Rightarrow> if ty = MP_MAP then mp_encode_map32 M (n div 2) else mp_encode_array32 M n
      | _ \<Rightarrow> if ty = MP_MAP then mp_encode_map M (n div 2) else mp_encode_array M n)"

definition v_close :: "msgpuck \<Rightarrow> oview \<Rightarrow> oview" where
  "v_close M v = (let e = last (ov_frames v); off = ent_offset e in
     v\<lparr>ov_frames := butlast (ov_frames v),
       ov_bytes := (if ov_kind v = BEER_SBO_SIMPLE then ov_bytes v
         else take off (ov_bytes v) @ closed_hdr M (ov_kind v) (ent_type e) (ent_size e) @
              drop (off + hdr_room (ov_kind v)) (ov_bytes v))\<rparr>)"

lemma bump_simps [simp]: "bump [] = []" "length (bump fs) = length fs"
  "bump (fs @ [e]) = fs @ [e\<lparr>ent_size := ent_size e + 1\<rparr>]"
  by (auto simp: bump_def)

lemma bump_list_update:
  "fs \<noteq> [] \<Longrightarrow> fs[length fs - 1 := (fs ! (length fs - 1))\<lparr>ent_size := ent_size (fs ! (length fs - 1)) + 1\<rparr>]
     = bump fs"
  by (cases fs rule: rev_cases) simp_all

lemma bump_offsets: "e \<in> set (bump fs) \<Longrightarrow> \<exists>e' \<in> set fs. ent_offset e = ent_offset e'"
  by (cases fs rule: rev_cases) auto

lemma hdr_room_pos: "0 < hdr_room k"
  by (cases k) simp_all

lemma frames_ok_v_add: "frames_ok v \<Longrightarrow> frames_ok (v_add bs v)"
  using bump_offsets by (fastforce simp: frames_ok_def v_add_def)

lemma frames_ok_v_open:
  "frames_ok v \<Longrightarrow> length (ov_frames v) < ov_room v \<Longrightarrow> length hdr \<ge> hdr_room (ov_kind v) \<Longrightarrow>
     frames_ok (v_open ty hdr v)"
  using bump_offsets by (fastforce simp: frames_ok_def v_open_def)

section \<open>Every operation simulates its abstract one\<close>

text \<open>The stack of a representing stream.\<close>

lemma obj_relE:
  assumes "obj_rel s v"
  obtains sbo where "sobj s = Some sbo" "sb_open (s_data s)" "v = view_of (s_data s) sbo" "frames_ok v"
    "length (stack sbo) = unat (stack_alloc sbo)" "unat (stack_size sbo) \<le> unat (stack_alloc sbo)"
  using assms by (auto simp: obj_rel_def)

lemma add_child_view:
  assumes "length (stack sbo) = unat (stack_alloc sbo)" "unat (stack_size sbo) \<le> unat (stack_alloc sbo)"
  obtains sbo' where "add_child sbo = Some sbo'" "length (stack sbo') = length (stack sbo)"
    "stack_size sbo' = stack_size sbo" "stack_alloc sbo' = stack_alloc sbo" "sbo_kind sbo' = sbo_kind sbo"
    "take (unat (stack_size sbo)) (stack sbo') = bump (take (unat (stack_size sbo)) (stack sbo))"
proof (cases "0 < unat (stack_size sbo)")
  case True
  define i where "i = unat (stack_size sbo) - 1"
  define fs where "fs = take (unat (stack_size sbo)) (stack sbo)"
  have i: "i < length (stack sbo)" "unat (stack_size sbo) = Suc i" using True assms by (auto simp: i_def)
  have fs: "length fs = Suc i" "fs ! i = stack sbo ! i" using i by (auto simp: fs_def)
  define e where "e = (stack sbo ! i)\<lparr>ent_size := ent_size (stack sbo ! i) + 1\<rparr>"
  have "take (Suc i) ((stack sbo)[i := e]) = fs[i := e]"
    using i by (simp add: fs_def take_update_swap)
  also have "\<dots> = bump fs"
    using bump_list_update [of fs] fs by (force simp: e_def)
  finally show thesis
    using True i
    by (intro that [of "sbo\<lparr>stack := (stack sbo)[i := e]\<rparr>"])
       (auto simp: add_child_def stack_at_def stack_put_def e_def fs_def)
next
  case False
  then show thesis by (intro that [of sbo]) (auto simp: add_child_def)
qed

lemma sb_subdata_irrelevant [simp]:
  "sb_bytes (sb\<lparr>sb_subdata := x\<rparr>) = sb_bytes sb" "sb_inv (sb\<lparr>sb_subdata := x\<rparr>) = sb_inv sb"
  "sb_open (sb\<lparr>sb_subdata := x\<rparr>) = sb_open sb"
  by (cases "sb_data sb"; simp add: sb_bytes_def sb_inv_def sb_open_def)+

lemma set_sobj_sel [simp]:
  "sobj (set_sobj sbo s) = Some sbo" "s_wrcnt (set_sobj sbo s) = s_wrcnt s"
  "s_reqid (set_sobj sbo s) = s_reqid s" "sb_bytes (s_data (set_sobj sbo s)) = sb_bytes (s_data s)"
  "sb_open (s_data (set_sobj sbo s)) = sb_open (s_data s)"
  "sb_inv (s_data (set_sobj sbo s)) = sb_inv (s_data s)"
  "sb_size (s_data (set_sobj sbo s)) = sb_size (s_data s)"
  "set_sobj sbo' (set_sobj sbo s) = set_sobj sbo' s"
  by (simp_all add: sobj_def set_sobj_def)

text \<open>One write behind an updated stack.\<close>

lemma write_set_sobj:
  assumes "alloc_total A" "sb_open (s_data s)" "bs \<noteq> []"
  obtains s' where "beer_buf_write A (set_sobj sbo s) bs = Some (int (length bs), s')"
    "sb_open (s_data s')" "sobj s' = Some sbo" "sb_bytes (s_data s') = sb_bytes (s_data s) @ bs"
    "s_wrcnt s' = s_wrcnt s + 1"
proof -
  obtain s' where "beer_buf_write A (set_sobj sbo s) bs = Some (int (length bs), s')"
    "appended (set_sobj sbo s) bs (int (length bs), s')"
    using assms by (auto elim: beer_buf_write_total_appended [of A "set_sobj sbo s" bs])
  then show thesis
    using assms(2) by (intro that) (auto simp: appended_def sb_open_def sobj_def set_sobj_def)
qed

lemma writev_set_sobj:
  assumes "alloc_total A" "sb_open (s_data s)" "concat iov \<noteq> []"
  obtains s' where "beer_buf_writev A (set_sobj sbo s) iov = Some (int (length (concat iov)), s')"
    "sb_open (s_data s')" "sobj s' = Some sbo" "sb_bytes (s_data s') = sb_bytes (s_data s) @ concat iov"
    "s_wrcnt s' = s_wrcnt s + 1"
proof -
  from assms obtain r where r: "beer_buf_writev A (set_sobj sbo s) iov = Some r"
      "appended (set_sobj sbo s) (concat iov) r"
    using beer_buf_writev_appended [of A "set_sobj sbo s" iov] by (auto simp: sb_open_def alloc_total_ok)
  obtain rv s' where rp: "r = (rv, s')" by (cases r)
  have "rv \<noteq> -1" using write_total(2) [OF assms(1) _ assms(3)] r(1) rp assms(2) by force
  then show thesis
    using r rp assms(2)
    by (intro that) (auto simp: appended_def sb_open_def sobj_def set_sobj_def)
qed

text \<open>All scalars at once: \<open>k\<close> is the code between the increment and the return.\<close>

lemma add_write_sim:
  assumes "alloc_total A" "obj_rel s v" "bs \<noteq> []"
  obtains sbo sbo' s' where "sobj s = Some sbo" "add_child sbo = Some sbo'"
    "beer_buf_write A (set_sobj sbo' s) bs = Some (int (length bs), s')" "obj_rel s' (v_add bs v)"
    "s_wrcnt s' = s_wrcnt s + 1"
proof -
  from assms(2) obtain sbo where s: "sobj s = Some sbo" "sb_open (s_data s)"
      "v = view_of (s_data s) sbo" "frames_ok v" and
    st: "length (stack sbo) = unat (stack_alloc sbo)" "unat (stack_size sbo) \<le> unat (stack_alloc sbo)"
    by (rule obj_relE)
  obtain sbo' where c: "add_child sbo = Some sbo'" "length (stack sbo') = length (stack sbo)"
    "stack_size sbo' = stack_size sbo" "stack_alloc sbo' = stack_alloc sbo" "sbo_kind sbo' = sbo_kind sbo"
    "take (unat (stack_size sbo)) (stack sbo') = bump (take (unat (stack_size sbo)) (stack sbo))"
    by (rule add_child_view [OF st])
  obtain s' where w: "beer_buf_write A (set_sobj sbo' s) bs = Some (int (length bs), s')"
    "sb_open (s_data s')" "sobj s' = Some sbo'" "sb_bytes (s_data s') = sb_bytes (s_data s) @ bs"
    "s_wrcnt s' = s_wrcnt s + 1"
    by (rule write_set_sobj [OF assms(1) s(2) assms(3)])
  have "view_of (s_data s') sbo' = v_add bs v"
    using c w s by (simp add: view_of_def v_add_def)
  then have "obj_rel s' (v_add bs v)"
    using w c st frames_ok_v_add [OF s(4), of bs] by (auto simp: obj_rel_def)
  with s(1) c(1) w(1,5) show thesis by (intro that)
qed

lemma add_writev_sim:
  assumes "alloc_total A" "obj_rel s v" "concat iov \<noteq> []"
  obtains sbo sbo' s' where "sobj s = Some sbo" "add_child sbo = Some sbo'"
    "beer_buf_writev A (set_sobj sbo' s) iov = Some (int (length (concat iov)), s')"
    "obj_rel s' (v_add (concat iov) v)" "s_wrcnt s' = s_wrcnt s + 1"
proof -
  from assms(2) obtain sbo where s: "sobj s = Some sbo" "sb_open (s_data s)"
      "v = view_of (s_data s) sbo" "frames_ok v" and
    st: "length (stack sbo) = unat (stack_alloc sbo)" "unat (stack_size sbo) \<le> unat (stack_alloc sbo)"
    by (rule obj_relE)
  obtain sbo' where c: "add_child sbo = Some sbo'" "length (stack sbo') = length (stack sbo)"
    "stack_size sbo' = stack_size sbo" "stack_alloc sbo' = stack_alloc sbo" "sbo_kind sbo' = sbo_kind sbo"
    "take (unat (stack_size sbo)) (stack sbo') = bump (take (unat (stack_size sbo)) (stack sbo))"
    by (rule add_child_view [OF st])
  obtain s' where w: "beer_buf_writev A (set_sobj sbo' s) iov = Some (int (length (concat iov)), s')"
    "sb_open (s_data s')" "sobj s' = Some sbo'" "sb_bytes (s_data s') = sb_bytes (s_data s) @ concat iov"
    "s_wrcnt s' = s_wrcnt s + 1"
    by (rule writev_set_sobj [OF assms(1) s(2) assms(3)])
  have "view_of (s_data s') sbo' = v_add (concat iov) v"
    using c w s by (simp add: view_of_def v_add_def)
  then have "obj_rel s' (v_add (concat iov) v)"
    using w c st frames_ok_v_add [OF s(4), of "concat iov"] by (auto simp: obj_rel_def)
  with s(1) c(1) w(1,5) show thesis by (intro that)
qed

section \<open>Opening and closing containers\<close>

definition open_hdr :: "msgpuck \<Rightarrow> sbo_type \<Rightarrow> mp_type \<Rightarrow> u32 \<Rightarrow> bytes" where
  "open_hdr M k ty n =
     (case k of
        BEER_SBO_SIMPLE \<Rightarrow> if ty = MP_MAP then mp_encode_map M n else mp_encode_array M n
      | BEER_SBO_SPARSE \<Rightarrow> if ty = MP_MAP then mp_encode_map32 M 0 else mp_encode_array32 M 0
      | BEER_SBO_PACKED \<Rightarrow> if ty = MP_MAP then mp_encode_map M 0 else mp_encode_array M 0)"

lemma unat_ne_less: "unat (a :: 8 word) < unat b \<Longrightarrow> a \<noteq> b \<and> unat (a + 1) = unat a + 1"
proof -
  assume l: "unat a < unat b"
  moreover from l unat_byte_less [of b] have "unat a < 255" by linarith
  then have "unat a + unat (1 :: byte) < 2 ^ LENGTH(8)" by simp
  then have "unat (a + 1) = unat a + unat (1 :: byte)"
    by (subst unat_add_lem [THEN iffD1]) simp_all
  ultimately show ?thesis by auto
qed

text \<open>A push below the limit of the stack, then the write of the provisional header.\<close>

lemma push_sim:
  assumes "alloc_total A" "obj_rel s v" "length (ov_frames v) < ov_room v"
    "hdr_room (ov_kind v) \<le> length hdr"
  obtains sbo sbo1 sbo2 s' where "sobj s = Some sbo" "add_child sbo = Some sbo1"
    "stack_size sbo1 \<noteq> stack_alloc sbo1" "sbo_kind sbo2 = ov_kind v"
    "stack_put (unat (stack_size sbo1))
       \<lparr>ent_offset = sb_size (s_data s), ent_size = 0, ent_type = ty\<rparr> sbo1 = Some sbo2"
    "beer_buf_write A (set_sobj (sbo2\<lparr>stack_size := stack_size sbo2 + 1\<rparr>) s) hdr
       = Some (int (length hdr), s')"
    "obj_rel s' (v_open ty hdr v)" "s_wrcnt s' = s_wrcnt s + 1"
proof -
  from assms(2) obtain sbo where s: "sobj s = Some sbo" "sb_open (s_data s)"
      "v = view_of (s_data s) sbo" "frames_ok v" and
    st: "length (stack sbo) = unat (stack_alloc sbo)" "unat (stack_size sbo) \<le> unat (stack_alloc sbo)"
    by (rule obj_relE)
  obtain c where c: "add_child sbo = Some c" "length (stack c) = length (stack sbo)"
    "stack_size c = stack_size sbo" "stack_alloc c = stack_alloc sbo" "sbo_kind c = sbo_kind sbo"
    "take (unat (stack_size sbo)) (stack c) = bump (take (unat (stack_size sbo)) (stack sbo))"
    by (rule add_child_view [OF st])
  have lt: "unat (stack_size sbo) < unat (stack_alloc sbo)"
    using assms(3) s(3) st by (simp add: view_of_def)
  note size1 = unat_ne_less [OF lt]
  define e where "e = \<lparr>ent_offset = sb_size (s_data s), ent_size = 0, ent_type = ty\<rparr>"
  define d where "d = c\<lparr>stack := (stack c)[unat (stack_size c) := e]\<rparr>"
  have put: "stack_put (unat (stack_size c)) e c = Some d"
    using lt c(2,3) st(1) by (simp add: stack_put_def d_def)
  have "hdr \<noteq> []" using assms(4) hdr_room_pos [of "ov_kind v"] by auto
  then obtain s' where w: "beer_buf_write A (set_sobj (d\<lparr>stack_size := stack_size d + 1\<rparr>) s) hdr
       = Some (int (length hdr), s')" "sb_open (s_data s')"
    "sobj s' = Some (d\<lparr>stack_size := stack_size d + 1\<rparr>)"
    "sb_bytes (s_data s') = sb_bytes (s_data s) @ hdr" "s_wrcnt s' = s_wrcnt s + 1"
    using write_set_sobj [OF assms(1) s(2)] by metis
  have len: "length (sb_bytes (s_data s)) = sb_size (s_data s)"
    using s(2) by (simp add: sb_open_def sb_bytes_length)
  have fr: "take (unat (stack_size sbo) + 1) (stack d)
      = bump (take (unat (stack_size sbo)) (stack sbo)) @ [e]"
    using c lt st(1) by (simp add: d_def take_Suc_conv_app_nth)
  have "view_of (s_data s') (d\<lparr>stack_size := stack_size d + 1\<rparr>) = v_open ty hdr v"
    using c w(4) s(3) size1 fr len by (simp add: view_of_def v_open_def d_def e_def)
  moreover have "frames_ok (v_open ty hdr v)"
    using frames_ok_v_open [OF s(4) assms(3,4)] .
  ultimately have "obj_rel s' (v_open ty hdr v)"
    using w(2,3) c st size1 lt by (auto simp: obj_rel_def d_def)
  with s c put w size1 show thesis
    by (intro that [of sbo c d s']) (simp_all add: e_def d_def view_of_def)
qed

context msgpuck_laws begin

lemma enc32_be: "mp_encode_array32 M n = 0xdd # be 4 (unat n)" "mp_encode_map32 M n = 0xdf # be 4 (unat n)"
  by (simp_all add: mp_encode_array32_def mp_encode_map32_def store_u8 store_u32)

lemma open_hdr_length: "hdr_room k \<le> length (open_hdr M k ty n)" "length (open_hdr M k ty n) \<le> 6"
  using coll_hdr_size_bounds [of "unat n"]
  by (cases k; simp add: open_hdr_def enc32_be mp_len)+

lemma closed_hdr_length: "hdr_room k \<le> length (closed_hdr M k ty n)"
  using coll_hdr_size_bounds
  by (cases k; simp add: closed_hdr_def enc32_be enc_ne Suc_le_eq)

lemma beer_object_add_array_sim:
  assumes "alloc_total A" "obj_rel s v" "length (ov_frames v) < ov_room v"
  obtains s' where "beer_object_add_array M A mem s n
      = Some (int (length (open_hdr M (ov_kind v) MP_ARRAY n)), s')"
    "obj_rel s' (v_open MP_ARRAY (open_hdr M (ov_kind v) MP_ARRAY n) v)" "s_wrcnt s' = s_wrcnt s + 1"
proof (rule push_sim [OF assms open_hdr_length(1)])
  fix sbo sbo1 sbo2 s'
  assume *: "sobj s = Some sbo" "add_child sbo = Some sbo1" "stack_size sbo1 \<noteq> stack_alloc sbo1"
    "sbo_kind sbo2 = ov_kind v"
    "stack_put (unat (stack_size sbo1))
       \<lparr>ent_offset = sb_size (s_data s), ent_size = 0, ent_type = MP_ARRAY\<rparr> sbo1 = Some sbo2"
    "beer_buf_write A (set_sobj (sbo2\<lparr>stack_size := stack_size sbo2 + 1\<rparr>) s)
       (open_hdr M (ov_kind v) MP_ARRAY n) = Some (int (length (open_hdr M (ov_kind v) MP_ARRAY n)), s')"
    "obj_rel s' (v_open MP_ARRAY (open_hdr M (ov_kind v) MP_ARRAY n) v)" "s_wrcnt s' = s_wrcnt s + 1"
  have "(case ov_kind v of BEER_SBO_SIMPLE \<Rightarrow> emit 6 (mp_encode_array M n) []
          | BEER_SBO_SPARSE \<Rightarrow> emit 6 (mp_encode_array32 M 0) []
          | BEER_SBO_PACKED \<Rightarrow> emit 6 (mp_encode_array M 0) [])
      = Some (open_hdr M (ov_kind v) MP_ARRAY n)"
    using open_hdr_length(2) [of "ov_kind v" MP_ARRAY n]
    by (cases "ov_kind v") (simp_all add: open_hdr_def emit_def)
  with * show thesis
    by (intro that) (simp_all add: beer_object_add_array_def)
qed

lemma beer_object_add_map_sim:
  assumes "alloc_total A" "obj_rel s v" "length (ov_frames v) < ov_room v"
  obtains s' where "beer_object_add_map M A mem s n
      = Some (int (length (open_hdr M (ov_kind v) MP_MAP n)), s')"
    "obj_rel s' (v_open MP_MAP (open_hdr M (ov_kind v) MP_MAP n) v)" "s_wrcnt s' = s_wrcnt s + 1"
proof (rule push_sim [OF assms open_hdr_length(1)])
  fix sbo sbo1 sbo2 s'
  assume *: "sobj s = Some sbo" "add_child sbo = Some sbo1" "stack_size sbo1 \<noteq> stack_alloc sbo1"
    "sbo_kind sbo2 = ov_kind v"
    "stack_put (unat (stack_size sbo1))
       \<lparr>ent_offset = sb_size (s_data s), ent_size = 0, ent_type = MP_MAP\<rparr> sbo1 = Some sbo2"
    "beer_buf_write A (set_sobj (sbo2\<lparr>stack_size := stack_size sbo2 + 1\<rparr>) s)
       (open_hdr M (ov_kind v) MP_MAP n) = Some (int (length (open_hdr M (ov_kind v) MP_MAP n)), s')"
    "obj_rel s' (v_open MP_MAP (open_hdr M (ov_kind v) MP_MAP n) v)" "s_wrcnt s' = s_wrcnt s + 1"
  have "(case ov_kind v of BEER_SBO_SIMPLE \<Rightarrow> emit 6 (mp_encode_map M n) []
          | BEER_SBO_SPARSE \<Rightarrow> emit 6 (mp_encode_map32 M 0) []
          | BEER_SBO_PACKED \<Rightarrow> emit 6 (mp_encode_map M 0) [])
      = Some (open_hdr M (ov_kind v) MP_MAP n)"
    using open_hdr_length(2) [of "ov_kind v" MP_MAP n]
    by (cases "ov_kind v") (simp_all add: open_hdr_def emit_def)
  with * show thesis
    by (intro that) (simp_all add: beer_object_add_map_def)
qed

end

text \<open>The block-level effect of closing: the header may be longer than the byte it replaces.\<close>

lemma shift_and_store:
  assumes "sb_data sb = Live mem" "off + 1 \<le> sb_size sb" "sb_size sb + k \<le> length mem"
    "length hdr = k + 1"
  obtains sb1 mem2 where "sb_memmove (off + (k + 1)) (off + 1) (sb_size sb - off - 1) sb = Some sb1"
    "sb_poke off hdr sb1 = Some (sb\<lparr>sb_data := Live mem2\<rparr>)" "length mem2 = length mem"
    "take (sb_size sb + k) mem2
       = take off (take (sb_size sb) mem) @ hdr @ drop (off + 1) (take (sb_size sb) mem)"
proof -
  define tl where "tl = drop (off + 1) (take (sb_size sb) mem)"
  have tl: "length tl = sb_size sb - off - 1" "take (sb_size sb - Suc off) (drop (Suc off) mem) = tl"
    using assms(3) by (auto simp: tl_def drop_take)
  define mem1 where "mem1 = take (off + (k + 1)) mem @ tl @ drop (sb_size sb + k) mem"
  have p: "off + (k + 1) + length tl = sb_size sb + k" using assms(2) tl(1) by simp
  have l1: "length mem1 = length mem" using assms(2,3) tl(1) by (simp add: mem1_def)
  have a: "sb_memmove (off + (k + 1)) (off + 1) (sb_size sb - off - 1) sb
      = Some (sb\<lparr>sb_data := Live mem1\<rparr>)"
  proof -
    have n: "sb_size sb - off - 1 = length tl" using tl(1) by simp
    have "slice (off + 1) (length tl) mem = Some tl"
      using assms(2,3) tl by (simp add: slice_def)
    moreover have "poke (off + (k + 1)) tl mem = Some mem1"
      using assms(3) unfolding poke_def p mem1_def by simp
    ultimately show ?thesis unfolding n sb_memmove_def assms(1) by (simp add: sb_poke_def assms(1))
  qed
  define mem2 where "mem2 = take off mem @ hdr @ tl @ drop (sb_size sb + k) mem"
  have t: "take off mem1 = take off mem" and dr: "drop (off + (k + 1)) mem1 = tl @ drop (sb_size sb + k) mem"
    using assms(2,3) by (simp_all add: mem1_def)
  have b: "sb_poke off hdr (sb\<lparr>sb_data := Live mem1\<rparr>) = Some (sb\<lparr>sb_data := Live mem2\<rparr>)"
    using assms l1 t dr by (simp add: sb_poke_def poke_def mem2_def)
  have "take (sb_size sb + k) mem2 = take off mem @ hdr @ tl"
    using assms tl(1) by (simp add: mem2_def)
  then have "take (sb_size sb + k) mem2
      = take off (take (sb_size sb) mem) @ hdr @ drop (off + 1) (take (sb_size sb) mem)"
    using assms(2) by (simp add: tl_def min_def)
  moreover have "length mem2 = length mem"
    using assms tl(1) by (simp add: mem2_def)
  ultimately show thesis using that [OF a b] by blast
qed

lemma obj_relI:
  assumes "sb_open (s_data s)" "sobj s = Some sbo" "length (stack sbo) = unat (stack_alloc sbo)"
    "unat (stack_size sbo) \<le> unat (stack_alloc sbo)" "view_of (s_data s) sbo = v" "frames_ok v"
  shows "obj_rel s v"
  using assms unfolding obj_rel_def by blast

lemma frames_ok_v_close:
  assumes "frames_ok v" "ov_frames v \<noteq> []"
    "hdr_room (ov_kind v) \<le> length (closed_hdr M (ov_kind v) (ent_type (last (ov_frames v)))
       (ent_size (last (ov_frames v))))"
  shows "frames_ok (v_close M v)"
proof -
  have "length (ov_bytes v) \<le> length (ov_bytes (v_close M v))"
    using assms by (auto simp: v_close_def Let_def frames_ok_def)
  then show ?thesis
    using assms(1) in_set_butlastD [of _ "ov_frames v"]
    by (fastforce simp: frames_ok_def v_close_def Let_def)
qed

lemma unat_dec: "a \<noteq> 0 \<Longrightarrow> unat (a - 1 :: 8 word) = unat a - 1"
  by (simp add: unat_minus_one)

context msgpuck_laws begin

lemma sizeof_closed: "(if ty = MP_MAP then mp_sizeof_map M (n div 2) else mp_sizeof_array M n)
    = length (closed_hdr M BEER_SBO_PACKED ty n)"
  by (simp add: closed_hdr_def mp_len)

lemma closed_hdr_sparse: "length (closed_hdr M BEER_SBO_SPARSE ty n) = 5"
  by (simp add: closed_hdr_def enc32_be)

lemma packed_room:
  assumes "alloc_total A" "sb_open sb" "0 < k"
  obtains mem where "sb_do_resize A sb k = Some (Some (sb_size sb), sb\<lparr>sb_data := Live mem, sb_alloc := length mem\<rparr>)"
    "sb_size sb + k \<le> length mem" "take (sb_size sb) mem = sb_bytes sb"
proof -
  from assms obtain r where r: "sb_do_resize A sb k = Some r" "reserved sb k r"
    using sb_do_resize_reserved [of A sb k] by (auto simp: sb_open_def alloc_total_ok)
  moreover have "r \<noteq> (None, sb')" for sb'
    using sb_do_resize_total [OF assms(1) _ assms(3), of sb sb'] assms(2) r(1) by (auto simp: sb_open_def)
  ultimately show thesis
    using that by (cases r; cases "fst r") (auto simp: reserved_def)
qed

text \<open>What a close does to the block: the first byte, or five bytes, become the final header.\<close>

lemma close_block:
  fixes s :: buf_stream
  defines "sb \<equiv> s_data s"
  assumes "alloc_total A" "sb_open sb" "sobj s = Some sbo" "stack_size sbo \<noteq> 0"
    "unat (stack_size sbo) \<le> length (stack sbo)" "e = stack sbo ! (unat (stack_size sbo) - 1)"
    "\<not> (ent_type e = MP_MAP \<and> unat (ent_size e) mod 2 \<noteq> 0)"
    "ent_offset e + hdr_room (sbo_kind sbo) \<le> sb_size sb"
  obtains s' where "beer_object_container_close M A s = Some (0, s')" "sb_open (s_data s')"
    "sobj s' = Some (sbo\<lparr>stack_size := stack_size sbo - 1\<rparr>)" "s_wrcnt s' = s_wrcnt s"
    "sb_bytes (s_data s') = (if sbo_kind sbo = BEER_SBO_SIMPLE then sb_bytes sb
       else take (ent_offset e) (sb_bytes sb) @ closed_hdr M (sbo_kind sbo) (ent_type e) (ent_size e) @
            drop (ent_offset e + hdr_room (sbo_kind sbo)) (sb_bytes sb))"
proof -
  define t where "t = set_sobj (sbo\<lparr>stack_size := stack_size sbo - 1\<rparr>) s"
  define off where "off = ent_offset e"
  have i: "stack_at sbo (unat (stack_size sbo) - 1) = Some e"
  proof -
    have "unat (stack_size sbo) \<noteq> 0" using assms(5) by (simp add: unat_eq_zero)
    then show ?thesis using assms(6,7) by (simp add: stack_at_def)
  qed
  have t: "sb_open (s_data t)" "sb_bytes (s_data t) = sb_bytes sb" "sb_size (s_data t) = sb_size sb"
    using assms by (simp_all add: t_def)
  have ne: "sb_data (s_data t) \<noteq> Null"
    using t(1,3) assms(9) hdr_room_pos [of "sbo_kind sbo"] by (auto simp: sb_open_def sb_inv_def)
  obtain mem where mem: "sb_data (s_data t) = Live mem" "sb_size sb \<le> length mem"
      "sb_alloc (s_data t) = length mem"
    using t(1,3) ne by (auto simp: sb_open_def sb_inv_def split: blk.splits)
  have B: "sb_bytes sb = take (sb_size sb) mem" using mem(1) t(2,3) by (simp add: sb_bytes_def)
  have run: "beer_object_container_close M A s =
    (case sbo_kind sbo of
       BEER_SBO_SIMPLE \<Rightarrow> Some (0, t)
     | BEER_SBO_SPARSE \<Rightarrow>
         Option.bind (sb_poke off (closed_hdr M BEER_SBO_SPARSE (ent_type e) (ent_size e)) (s_data t))
           (\<lambda>sb. Some (0, t\<lparr>s_data := sb\<rparr>))
     | BEER_SBO_PACKED \<Rightarrow> do {
         let h = closed_hdr M BEER_SBO_PACKED (ent_type e) (ent_size e);
         (ok, sb) \<leftarrow> (if length h > 1 then do {
             (p, sb) \<leftarrow> sb_do_resize A (s_data t) (length h - 1);
             case p of
               None \<Rightarrow> Some (False, sb)
             | Some _ \<Rightarrow>
                 if off + 1 \<le> sb_size sb
                 then map_option (Pair True)
                        (sb_memmove (off + length h) (off + 1) (sb_size sb - off - 1) sb)
                 else None }
           else Some (True, s_data t));
         if \<not> ok then Some (-1, t\<lparr>s_data := sb\<rparr>)
         else do {
           sb \<leftarrow> sb_poke off h sb;
           Some (0, t\<lparr>s_data := sb\<lparr>sb_size := sb_size sb + (length h - 1)\<rparr>\<rparr>) } })"
    using assms(4,5,8) i sizeof_closed [of "ent_type e" "ent_size e"]
    unfolding beer_object_container_close_def t_def off_def
    by (simp add: Let_def closed_hdr_def cong: sbo_type.case_cong)
  show thesis
  proof (cases "sbo_kind sbo")
    case BEER_SBO_SIMPLE
    then show thesis using run t by (intro that [of t]) (simp_all add: t_def)
  next
    case BEER_SBO_SPARSE
    define h where "h = closed_hdr M BEER_SBO_SPARSE (ent_type e) (ent_size e)"
    have h: "length h = 5" by (simp add: h_def closed_hdr_sparse)
    define mem' where "mem' = take off mem @ h @ drop (off + 5) mem"
    have "sb_poke off h (s_data t) = Some ((s_data t)\<lparr>sb_data := Live mem'\<rparr>)"
      using mem assms(9) BEER_SBO_SPARSE h by (simp add: sb_poke_def poke_def mem'_def off_def)
    moreover have "take (sb_size sb) mem' = take off (take (sb_size sb) mem) @ h @ drop (off + 5) (take (sb_size sb) mem)"
      "length mem' = length mem"
      using mem(2) assms(9) BEER_SBO_SPARSE h by (auto simp: mem'_def off_def drop_take min_def)
    moreover have "sb_open ((s_data t)\<lparr>sb_data := Live mem'\<rparr>)"
      using t(1) mem calculation by (simp add: sb_open_def sb_inv_def)
    moreover have "sobj t = Some (sbo\<lparr>stack_size := stack_size sbo - 1\<rparr>)" "s_wrcnt t = s_wrcnt s"
      by (simp_all add: t_def)
    ultimately show thesis
      using run t BEER_SBO_SPARSE
      by (intro that [of "t\<lparr>s_data := (s_data t)\<lparr>sb_data := Live mem'\<rparr>\<rparr>"])
         (simp_all add: h_def [symmetric] B off_def [symmetric] sb_bytes_Live sobj_def)
  next
    case BEER_SBO_PACKED
    define h where "h = closed_hdr M BEER_SBO_PACKED (ent_type e) (ent_size e)"
    have h: "1 \<le> length h"
      using closed_hdr_length [of BEER_SBO_PACKED "ent_type e" "ent_size e"] by (simp add: h_def)
    have off: "off + 1 \<le> sb_size sb" using assms(9) BEER_SBO_PACKED by (simp add: off_def)
    obtain sb1 m1 where sb1: "sb_size sb1 = sb_size sb" "sb_data sb1 = Live m1"
        "take (sb_size sb) m1 = sb_bytes sb" "sb_size sb + (length h - 1) \<le> length m1"
        "sb1 = (s_data t)\<lparr>sb_data := Live m1, sb_alloc := length m1\<rparr>"
      and run1: "length h > 1 \<Longrightarrow> sb_do_resize A (s_data t) (length h - 1) = Some (Some (sb_size sb), sb1)"
        "length h = 1 \<Longrightarrow> s_data t = sb1"
    proof (cases "length h > 1")
      case True
      then have pos: "0 < length h - 1" by simp
      show thesis
      proof (rule packed_room [OF assms(2) t(1) pos])
        fix m
        assume *: "sb_do_resize A (s_data t) (length h - 1)
            = Some (Some (sb_size (s_data t)), (s_data t)\<lparr>sb_data := Live m, sb_alloc := length m\<rparr>)"
          "sb_size (s_data t) + (length h - 1) \<le> length m" "take (sb_size (s_data t)) m = sb_bytes (s_data t)"
        show thesis
          by (rule that [of "(s_data t)\<lparr>sb_data := Live m, sb_alloc := length m\<rparr>" m])
             (use * t True in simp_all)
      qed
    next
      case False
      have "s_data t = (s_data t)\<lparr>sb_data := Live mem, sb_alloc := length mem\<rparr>"
        using mem by (cases "s_data t") simp
      with False h mem B t show thesis by (intro that [of "s_data t" mem]) auto
    qed
    have "\<exists>sb2 mem2. (if length h > 1 then do {
             (p, sb) \<leftarrow> sb_do_resize A (s_data t) (length h - 1);
             case p of
               None \<Rightarrow> Some (False, sb)
             | Some _ \<Rightarrow>
                 if off + 1 \<le> sb_size sb
                 then map_option (Pair True)
                        (sb_memmove (off + length h) (off + 1) (sb_size sb - off - 1) sb)
                 else None }
           else Some (True, s_data t)) = Some (True, sb2) \<and>
        sb_poke off h sb2 = Some (sb1\<lparr>sb_data := Live mem2\<rparr>) \<and> length mem2 = length m1 \<and>
        take (sb_size sb + (length h - 1)) mem2
          = take off (sb_bytes sb) @ h @ drop (off + 1) (sb_bytes sb)"
    proof (cases "length h > 1")
      case True
      then have k: "length h = (length h - 1) + 1" by simp
      from shift_and_store [OF sb1(2), of off "length h - 1" h] off sb1(1,4) k
      obtain sb2 mem2 where "sb_memmove (off + length h) (off + 1) (sb_size sb1 - off - 1) sb1 = Some sb2"
        "sb_poke off h sb2 = Some (sb1\<lparr>sb_data := Live mem2\<rparr>)" "length mem2 = length m1"
        "take (sb_size sb1 + (length h - 1)) mem2
           = take off (take (sb_size sb1) m1) @ h @ drop (off + 1) (take (sb_size sb1) m1)"
        by metis
      with True run1(1) sb1(1,3) off show ?thesis by (intro exI [of _ sb2] exI [of _ mem2]) simp
    next
      case False
      then have h1: "length h = 1" using h by simp
      have "sb_poke off h sb1 = Some (sb1\<lparr>sb_data := Live (take off m1 @ h @ drop (off + 1) m1)\<rparr>)"
        using sb1(2,4) off h1 by (simp add: sb_poke_def poke_def)
      with h1 run1(2) sb1 off show ?thesis
        by (intro exI [of _ sb1] exI [of _ "take off m1 @ h @ drop (off + 1) m1"])
           (auto simp: sb1(3) [symmetric] drop_take min_def)
    qed
    then obtain sb2 mem2 where fin: "sb_poke off h sb2 = Some (sb1\<lparr>sb_data := Live mem2\<rparr>)"
        "length mem2 = length m1" "take (sb_size sb + (length h - 1)) mem2
          = take off (sb_bytes sb) @ h @ drop (off + 1) (sb_bytes sb)"
      and step: "(if length h > 1 then do {
             (p, sb) \<leftarrow> sb_do_resize A (s_data t) (length h - 1);
             case p of
               None \<Rightarrow> Some (False, sb)
             | Some _ \<Rightarrow>
                 if off + 1 \<le> sb_size sb
                 then map_option (Pair True)
                        (sb_memmove (off + length h) (off + 1) (sb_size sb - off - 1) sb)
                 else None }
           else Some (True, s_data t)) = Some (True, sb2)"
      by blast
    define s2 where "s2 = t\<lparr>s_data := sb1\<lparr>sb_data := Live mem2, sb_size := sb_size sb + (length h - 1)\<rparr>\<rparr>"
    have "beer_object_container_close M A s = Some (0, s2)"
      using run fin(1) step sb1(1) BEER_SBO_PACKED
      by (simp add: h_def [symmetric] s2_def Let_def)
    moreover have "sb_open (s_data s2)"
      using t(1,3) fin(2) sb1 by (auto simp: s2_def sb_open_def sb_inv_def)
    ultimately show thesis
      using fin(3) sb1(5) BEER_SBO_PACKED
      by (intro that [of s2]) (auto simp: s2_def t_def sb_bytes_def sobj_def set_sobj_def h_def off_def)
  qed
qed

end

text \<open>The top of the open containers is balanced: a map has an even number of members.\<close>

definition closable :: "oview \<Rightarrow> bool" where
  "closable v \<longleftrightarrow> ov_frames v \<noteq> [] \<and>
     \<not> (ent_type (last (ov_frames v)) = MP_MAP \<and> unat (ent_size (last (ov_frames v))) mod 2 \<noteq> 0)"

context msgpuck_laws begin

lemma beer_object_container_close_sim:
  assumes "alloc_total A" "obj_rel s v" "closable v"
  obtains s' where "beer_object_container_close M A s = Some (0, s')" "obj_rel s' (v_close M v)"
    "s_wrcnt s' = s_wrcnt s"
proof -
  from assms(2) obtain sbo where s: "sobj s = Some sbo" "sb_open (s_data s)"
      "v = view_of (s_data s) sbo" "frames_ok v" and
    st: "length (stack sbo) = unat (stack_alloc sbo)" "unat (stack_size sbo) \<le> unat (stack_alloc sbo)"
    by (rule obj_relE)
  define fs where "fs = take (unat (stack_size sbo)) (stack sbo)"
  have fs: "fs \<noteq> []" "ov_frames v = fs" "length fs = unat (stack_size sbo)"
    using assms(3) s(3) st by (auto simp: closable_def view_of_def fs_def)
  then have nz: "stack_size sbo \<noteq> 0" by (auto simp: fs_def)
  have top: "last fs = stack sbo ! (unat (stack_size sbo) - 1)"
    using fs st by (simp add: last_conv_nth) (simp add: fs_def)
  have ne: "\<not> (ent_type (last fs) = MP_MAP \<and> unat (ent_size (last fs)) mod 2 \<noteq> 0)"
    "ent_offset (last fs) + hdr_room (sbo_kind sbo) \<le> sb_size (s_data s)"
    using assms(3) fs s(2-4) last_in_set [OF fs(1)]
    by (auto simp: closable_def frames_ok_def view_of_def sb_bytes_length sb_open_def)
  obtain s' where c: "beer_object_container_close M A s = Some (0, s')" "sb_open (s_data s')"
    "sobj s' = Some (sbo\<lparr>stack_size := stack_size sbo - 1\<rparr>)" "s_wrcnt s' = s_wrcnt s"
    "sb_bytes (s_data s') = (if sbo_kind sbo = BEER_SBO_SIMPLE then sb_bytes (s_data s)
       else take (ent_offset (last fs)) (sb_bytes (s_data s)) @
            closed_hdr M (sbo_kind sbo) (ent_type (last fs)) (ent_size (last fs)) @
            drop (ent_offset (last fs) + hdr_room (sbo_kind sbo)) (sb_bytes (s_data s)))"
    using close_block [OF assms(1) s(2,1) nz _ top ne] st by auto
  have "view_of (s_data s') (sbo\<lparr>stack_size := stack_size sbo - 1\<rparr>) = v_close M v"
    using c(5) s(3) fs st unat_dec [OF nz]
    by (simp add: view_of_def v_close_def Let_def fs_def [symmetric] butlast_take)
       (simp add: fs_def butlast_take)
  moreover have "frames_ok (v_close M v)"
    using frames_ok_v_close [OF s(4)] fs closed_hdr_length by simp
  ultimately have "obj_rel s' (v_close M v)"
    using c st unat_dec [OF nz] by (intro obj_relI [OF c(2,3)]) simp_all
  with c show thesis by (intro that)
qed

text \<open>The two refusals leave the builder as it was.\<close>

lemma close_none: "obj_rel s v \<Longrightarrow> ov_frames v = [] \<Longrightarrow> beer_object_container_close M A s = Some (-1, s)"
  by (auto elim!: obj_relE simp: beer_object_container_close_def view_of_def unat_eq_zero
      dest: arg_cong [of "[]" _ length])

end

end
