(* ===== verification/Beer_Requests.thy ===== *)
theory Beer_Requests
  imports Beer_Proto Object_View
begin

text \<open>
  The request functions (\<open>beer/beer_ping.c\<close>, \<open>beer_select.c\<close>, \<open>beer_insert.c\<close>, \<open>beer_call.c\<close>,
  \<open>beer_delete.c\<close>, and \<open>beer_update\<close>/\<open>beer_upsert\<close> of \<open>beer_update.c\<close>).  Each builds its parts in
  local buffers and hands one vector to \<open>s->writev\<close>, the argument \<open>wv\<close>.  Keys, tuples and operation
  lists are object buffers.

  What is shown: every function refuses an argument that is not one array, takes the next
  request identifier, and writes one \<open>frame\<close>; on a reliable sink those bytes arrive.
\<close>

type_synonym 'd writev = "'d beer_stream \<Rightarrow> bytes list \<Rightarrow> (int \<times> 'd beer_stream) option"

section \<open>The functions\<close>

text \<open>
  The tail that all functions share: \<open>vs\<close> are the entries from \<open>v[1]\<close> on, their total length
  is printed into \<open>char len_prefix[9]\<close>.
\<close>

definition send_package :: "msgpuck \<Rightarrow> 'd writev \<Rightarrow> 'd beer_stream \<Rightarrow> bytes list \<Rightarrow> (int \<times> 'd beer_stream) option"
where
  "send_package M wv s vs = do {
     let package_len = sum_list (map length vs);
     len_prefix \<leftarrow> emit 9 (mp_encode_luint32 M (word_of_nat package_len)) [];
     wv s (len_prefix # vs) }"

text \<open>\<open>BEER_SBUF_DATA\<close> and \<open>BEER_SBUF_SIZE\<close> of an argument as a vector entry.\<close>

definition sbuf_iov :: "buf_stream \<Rightarrow> bytes" where
  "sbuf_iov ob = sb_bytes (s_data ob)"

definition beer_ping :: "msgpuck \<Rightarrow> 'd writev \<Rightarrow> 'd beer_stream \<Rightarrow> (int \<times> 'd beer_stream) option" where
  "beer_ping M wv s = do {
     let (reqid, s) = next_reqid s;
     hdr \<leftarrow> encode_header M (op_code BEER_OP_PING) reqid;
     body \<leftarrow> emit 2 (mp_encode_map M 0) [];
     send_package M wv s [hdr, body] }"

definition beer_select :: "msgpuck \<Rightarrow> 'd writev \<Rightarrow> 'd beer_stream \<Rightarrow> u32 \<Rightarrow> u32 \<Rightarrow> u32 \<Rightarrow> u32 \<Rightarrow> u8
    \<Rightarrow> buf_stream \<Rightarrow> (int \<times> 'd beer_stream) option" where
  "beer_select M wv s space index limit offset iterator key = do {
     rc \<leftarrow> beer_object_verify M key (Some MP_ARRAY);
     if rc \<noteq> 0 then Some (-1, s)
     else do {
       let (reqid, s) = next_reqid s;
       hdr \<leftarrow> encode_header M (op_code BEER_OP_SELECT) reqid;
       b \<leftarrow> emit 64 (mp_encode_map M 6) [];
       b \<leftarrow> emit 64 (mp_encode_uint M (body_key BEER_SPACE)) b;
       b \<leftarrow> emit 64 (mp_encode_uint M (ucast space)) b;
       b \<leftarrow> emit 64 (mp_encode_uint M (body_key BEER_INDEX)) b;
       b \<leftarrow> emit 64 (mp_encode_uint M (ucast index)) b;
       b \<leftarrow> emit 64 (mp_encode_uint M (body_key BEER_LIMIT)) b;
       b \<leftarrow> emit 64 (mp_encode_uint M (ucast limit)) b;
       b \<leftarrow> emit 64 (mp_encode_uint M (body_key BEER_OFFSET)) b;
       b \<leftarrow> emit 64 (mp_encode_uint M (ucast offset)) b;
       b \<leftarrow> emit 64 (mp_encode_uint M (body_key BEER_ITERATOR)) b;
       b \<leftarrow> emit 64 (mp_encode_uint M (ucast iterator)) b;
       b \<leftarrow> emit 64 (mp_encode_uint M (body_key BEER_KEY)) b;
       send_package M wv s [hdr, b, sbuf_iov key] } }"

definition beer_store_base :: "msgpuck \<Rightarrow> 'd writev \<Rightarrow> 'd beer_stream \<Rightarrow> u32 \<Rightarrow> buf_stream
    \<Rightarrow> beer_request_t \<Rightarrow> (int \<times> 'd beer_stream) option" where
  "beer_store_base M wv s space tuple op = do {
     rc \<leftarrow> beer_object_verify M tuple (Some MP_ARRAY);
     if rc \<noteq> 0 then Some (-1, s)
     else do {
       let (reqid, s) = next_reqid s;
       hdr \<leftarrow> encode_header M (op_code op) reqid;
       b \<leftarrow> emit 64 (mp_encode_map M 2) [];
       b \<leftarrow> emit 64 (mp_encode_uint M (body_key BEER_SPACE)) b;
       b \<leftarrow> emit 64 (mp_encode_uint M (ucast space)) b;
       b \<leftarrow> emit 64 (mp_encode_uint M (body_key BEER_TUPLE)) b;
       send_package M wv s [hdr, b, sbuf_iov tuple] } }"

definition beer_insert :: "msgpuck \<Rightarrow> 'd writev \<Rightarrow> 'd beer_stream \<Rightarrow> u32 \<Rightarrow> buf_stream \<Rightarrow> (int \<times> 'd beer_stream) option"
where "beer_insert M wv s space tuple = beer_store_base M wv s space tuple BEER_OP_INSERT"

definition beer_replace :: "msgpuck \<Rightarrow> 'd writev \<Rightarrow> 'd beer_stream \<Rightarrow> u32 \<Rightarrow> buf_stream \<Rightarrow> (int \<times> 'd beer_stream) option"
where "beer_replace M wv s space tuple = beer_store_base M wv s space tuple BEER_OP_REPLACE"

text \<open>
  \<open>proc\<close> is NULL or the object behind the pointer.  The header of the name takes the length as
  a \<open>uint32_t\<close>, the vector entry as a \<open>size_t\<close>.
\<close>

definition beer_rpc_base :: "msgpuck \<Rightarrow> 'd writev \<Rightarrow> 'd beer_stream \<Rightarrow> bytes option \<Rightarrow> nat \<Rightarrow> buf_stream
    \<Rightarrow> beer_request_t \<Rightarrow> (int \<times> 'd beer_stream) option" where
  "beer_rpc_base M wv s proc proc_len args op =
     (case proc of
        None \<Rightarrow> Some (-1, s)
      | Some name \<Rightarrow>
          if proc_len = 0 then Some (-1, s)
          else do {
            rc \<leftarrow> beer_object_verify M args (Some MP_ARRAY);
            if rc \<noteq> 0 then Some (-1, s)
            else do {
              let fld = (if is_call op then BEER_FUNCTION else BEER_EXPRESSION);
              let (reqid, s) = next_reqid s;
              hdr \<leftarrow> encode_header M (op_code op) reqid;
              b \<leftarrow> emit 64 (mp_encode_map M 2) [];
              b \<leftarrow> emit 64 (mp_encode_uint M (body_key fld)) b;
              b \<leftarrow> emit 64 (mp_encode_strl M (word_of_nat proc_len)) b;
              v3 \<leftarrow> slice 0 proc_len name;
              d \<leftarrow> emit 64 (mp_encode_uint M (body_key BEER_TUPLE)) b;
              send_package M wv s [hdr, b, v3, drop (length b) d, sbuf_iov args] } })"

definition beer_call :: "msgpuck \<Rightarrow> 'd writev \<Rightarrow> 'd beer_stream \<Rightarrow> bytes option \<Rightarrow> nat \<Rightarrow> buf_stream
    \<Rightarrow> (int \<times> 'd beer_stream) option" where
  "beer_call M wv s proc proc_len args = beer_rpc_base M wv s proc proc_len args BEER_OP_CALL"

definition beer_call_16 :: "msgpuck \<Rightarrow> 'd writev \<Rightarrow> 'd beer_stream \<Rightarrow> bytes option \<Rightarrow> nat \<Rightarrow> buf_stream
    \<Rightarrow> (int \<times> 'd beer_stream) option" where
  "beer_call_16 M wv s proc proc_len args = beer_rpc_base M wv s proc proc_len args BEER_OP_CALL_16"

definition beer_eval :: "msgpuck \<Rightarrow> 'd writev \<Rightarrow> 'd beer_stream \<Rightarrow> bytes option \<Rightarrow> nat \<Rightarrow> buf_stream
    \<Rightarrow> (int \<times> 'd beer_stream) option" where
  "beer_eval M wv s proc proc_len args = beer_rpc_base M wv s proc proc_len args BEER_OP_EVAL"

definition beer_delete :: "msgpuck \<Rightarrow> 'd writev \<Rightarrow> 'd beer_stream \<Rightarrow> u32 \<Rightarrow> u32 \<Rightarrow> buf_stream
    \<Rightarrow> (int \<times> 'd beer_stream) option" where
  "beer_delete M wv s space index key = do {
     rc \<leftarrow> beer_object_verify M key (Some MP_ARRAY);
     if rc \<noteq> 0 then Some (-1, s)
     else do {
       let (reqid, s) = next_reqid s;
       hdr \<leftarrow> encode_header M (op_code BEER_OP_DELETE) reqid;
       b \<leftarrow> emit 64 (mp_encode_map M 3) [];
       b \<leftarrow> emit 64 (mp_encode_uint M (body_key BEER_SPACE)) b;
       b \<leftarrow> emit 64 (mp_encode_uint M (ucast space)) b;
       b \<leftarrow> emit 64 (mp_encode_uint M (body_key BEER_INDEX)) b;
       b \<leftarrow> emit 64 (mp_encode_uint M (ucast index)) b;
       b \<leftarrow> emit 64 (mp_encode_uint M (body_key BEER_KEY)) b;
       send_package M wv s [hdr, b, sbuf_iov key] } }"

definition beer_update :: "msgpuck \<Rightarrow> 'd writev \<Rightarrow> 'd beer_stream \<Rightarrow> u32 \<Rightarrow> u32 \<Rightarrow> buf_stream \<Rightarrow> buf_stream
    \<Rightarrow> (int \<times> 'd beer_stream) option" where
  "beer_update M wv s space index key ops = do {
     rc \<leftarrow> beer_object_verify M key (Some MP_ARRAY);
     if rc \<noteq> 0 then Some (-1, s)
     else do {
     rc \<leftarrow> beer_object_verify M ops (Some MP_ARRAY);
     if rc \<noteq> 0 then Some (-1, s)
     else do {
       let (reqid, s) = next_reqid s;
       hdr \<leftarrow> encode_header M (op_code BEER_OP_UPDATE) reqid;
       b \<leftarrow> emit 64 (mp_encode_map M 4) [];
       b \<leftarrow> emit 64 (mp_encode_uint M (body_key BEER_SPACE)) b;
       b \<leftarrow> emit 64 (mp_encode_uint M (ucast space)) b;
       b \<leftarrow> emit 64 (mp_encode_uint M (body_key BEER_INDEX)) b;
       b \<leftarrow> emit 64 (mp_encode_uint M (ucast index)) b;
       b \<leftarrow> emit 64 (mp_encode_uint M (body_key BEER_KEY)) b;
       d \<leftarrow> emit 64 (mp_encode_uint M (body_key BEER_TUPLE)) b;
       send_package M wv s [hdr, b, sbuf_iov key, drop (length b) d, sbuf_iov ops] } } }"

definition beer_upsert :: "msgpuck \<Rightarrow> 'd writev \<Rightarrow> 'd beer_stream \<Rightarrow> u32 \<Rightarrow> buf_stream \<Rightarrow> buf_stream
    \<Rightarrow> (int \<times> 'd beer_stream) option" where
  "beer_upsert M wv s space tuple ops = do {
     rc \<leftarrow> beer_object_verify M tuple (Some MP_ARRAY);
     if rc \<noteq> 0 then Some (-1, s)
     else do {
     rc \<leftarrow> beer_object_verify M ops (Some MP_ARRAY);
     if rc \<noteq> 0 then Some (-1, s)
     else do {
       let (reqid, s) = next_reqid s;
       hdr \<leftarrow> encode_header M (op_code BEER_OP_UPSERT) reqid;
       b \<leftarrow> emit 64 (mp_encode_map M 4) [];
       b \<leftarrow> emit 64 (mp_encode_uint M (body_key BEER_SPACE)) b;
       b \<leftarrow> emit 64 (mp_encode_uint M (ucast space)) b;
       b \<leftarrow> emit 64 (mp_encode_uint M (body_key BEER_TUPLE)) b;
       d \<leftarrow> emit 64 (mp_encode_uint M (body_key BEER_OPS)) b;
       send_package M wv s [hdr, b, sbuf_iov tuple, drop (length b) d, sbuf_iov ops] } } }"

section \<open>Every function writes one frame\<close>

text \<open>
  What a request function does: it takes a request identifier and sends a package with these
  code and fields, in whatever parts.
\<close>

definition sends :: "msgpuck \<Rightarrow> 'd writev \<Rightarrow> 'd beer_stream \<Rightarrow> (int \<times> 'd beer_stream) option
    \<Rightarrow> beer_request_t \<Rightarrow> fields \<Rightarrow> bool" where
  "sends M wv s r op fs \<longleftrightarrow> (\<exists>vs. r = send_package M wv (snd (next_reqid s)) vs \<and>
     concat vs = header_bytes M (op_code op) (s_reqid s) @ body_bytes M fs)"

lemma next_reqid_sel [simp]: "fst (next_reqid s) = s_reqid s"
  "s_reqid (snd (next_reqid s)) = s_reqid s + 1" "s_data (snd (next_reqid s)) = s_data s"
  "s_wrcnt (snd (next_reqid s)) = s_wrcnt s"
  by (simp_all add: next_reqid_def)

text \<open>An argument that a request function accepts.\<close>

definition is_array :: "msgpuck \<Rightarrow> buf_stream \<Rightarrow> bool" where
  "is_array M ob \<longleftrightarrow> beer_object_verify M ob (Some MP_ARRAY) = Some 0"

definition package_fits :: "msgpuck \<Rightarrow> beer_request_t \<Rightarrow> u64 \<Rightarrow> fields \<Rightarrow> bool" where
  "package_fits M op reqid fs \<longleftrightarrow>
     length (header_bytes M (op_code op) reqid @ body_bytes M fs) < 18446744073709551616"

context msgpuck_laws begin

lemma send_package_iov:
  assumes "length (concat vs) < 18446744073709551616"
  shows "\<exists>iov. send_package M wv s vs = wv s iov \<and> concat iov = package (concat vs) \<and> iov \<noteq> [] \<and> hd iov \<noteq> []"
proof -
  have len: "sum_list (map length vs) = length (concat vs)" by (simp add: length_concat)
  then have "unat (word_of_nat (sum_list (map length vs)) :: u64) = length (concat vs)"
    using assms by (simp add: unat_of_nat)
  then show ?thesis
    by (simp add: send_package_def Let_def mp_encode_luint32_luint emit_def luint_length)
       (auto simp: package_def luint_def intro!: exI [of _ "luint (length (concat vs)) # vs"])
qed

lemma sends_frame:
  assumes "sends M wv s r op fs" "package_fits M op (s_reqid s) fs"
  shows "\<exists>iov. r = wv (snd (next_reqid s)) iov \<and> concat iov = frame M (op_code op) (s_reqid s) fs \<and>
    iov \<noteq> [] \<and> hd iov \<noteq> []"
proof -
  obtain vs where "r = send_package M wv (snd (next_reqid s)) vs"
    and vs: "concat vs = header_bytes M (op_code op) (s_reqid s) @ body_bytes M fs"
    using assms(1) by (auto simp: sends_def)
  moreover have "length (concat vs) < 18446744073709551616"
    using assms(2) unfolding package_fits_def vs by simp
  ultimately show ?thesis using send_package_iov [of vs wv "snd (next_reqid s)"] by (simp add: frame_def vs)
qed

text \<open>The lengths of what a body buffer receives.\<close>

lemma key_length: "length (mp_encode_uint M (body_key k)) = 1"
  by (cases k) (simp_all add: len_uint)

lemma u32_length: "length (mp_encode_uint M (ucast (w :: u32))) \<le> 5"
  by (simp add: len_uint uint_size_le5)

lemma u8_length: "length (mp_encode_uint M (ucast (w :: u8))) \<le> 2"
  by (simp add: len_uint uint_size_def)

lemma small_map_length: "unat k < 16 \<Longrightarrow> length (mp_encode_map M k) = 1"
  by (simp add: len_map)

lemma strl_length: "length (mp_encode_strl M w) \<le> 5"
  by (simp add: len_strl str_hdr_size_bounds)

text \<open>Each function on accepted arguments.\<close>

lemma beer_ping_sends: "sends M wv s (beer_ping M wv s) BEER_OP_PING []"
  by (simp add: beer_ping_def sends_def encode_header_bytes emit_def small_map_length Let_def
      case_prod_unfold)
     (auto simp: body_bytes_def intro!: exI [of _ "[header_bytes M 64 (s_reqid s), mp_encode_map M 0]"])

lemma beer_select_sends:
  assumes "is_array M key"
  shows "sends M wv s (beer_select M wv s space index limit offset iterator key) BEER_OP_SELECT
    [(body_key BEER_SPACE, mp_encode_uint M (ucast space)), (body_key BEER_INDEX, mp_encode_uint M (ucast index)),
     (body_key BEER_LIMIT, mp_encode_uint M (ucast limit)), (body_key BEER_OFFSET, mp_encode_uint M (ucast offset)),
     (body_key BEER_ITERATOR, mp_encode_uint M (ucast iterator)), (body_key BEER_KEY, sbuf_iov key)]"
proof -
  define b where "b = mp_encode_map M 6 @ mp_encode_uint M (body_key BEER_SPACE) @ mp_encode_uint M (ucast space) @
    mp_encode_uint M (body_key BEER_INDEX) @ mp_encode_uint M (ucast index) @
    mp_encode_uint M (body_key BEER_LIMIT) @ mp_encode_uint M (ucast limit) @
    mp_encode_uint M (body_key BEER_OFFSET) @ mp_encode_uint M (ucast offset) @
    mp_encode_uint M (body_key BEER_ITERATOR) @ mp_encode_uint M (ucast iterator) @
    mp_encode_uint M (body_key BEER_KEY)"
  have "emit 64 b [] = Some b"
    using u32_length [of space] u32_length [of index] u32_length [of limit] u32_length [of offset]
      u8_length [of iterator]
    by (simp add: emit_def b_def key_length small_map_length del: body_key.simps)
  then have "beer_select M wv s space index limit offset iterator key
      = send_package M wv (snd (next_reqid s)) [header_bytes M (op_code BEER_OP_SELECT) (s_reqid s), b, sbuf_iov key]"
    using assms
    by (simp add: beer_select_def is_array_def encode_header_bytes put_simps Let_def case_prod_unfold
        b_def [symmetric] del: body_key.simps op_code.simps)
  then show ?thesis
    unfolding sends_def
    by (rule_tac exI, intro conjI, assumption) (simp add: body_bytes_def field_bytes_def b_def)
qed

lemma beer_store_base_sends:
  assumes "is_array M tuple"
  shows "sends M wv s (beer_store_base M wv s space tuple op) op
    [(body_key BEER_SPACE, mp_encode_uint M (ucast space)), (body_key BEER_TUPLE, sbuf_iov tuple)]"
proof -
  define b where "b = mp_encode_map M 2 @ mp_encode_uint M (body_key BEER_SPACE) @
    mp_encode_uint M (ucast space) @ mp_encode_uint M (body_key BEER_TUPLE)"
  have "emit 64 b [] = Some b"
    using u32_length [of space]
    by (simp add: emit_def b_def key_length small_map_length del: body_key.simps)
  then have "beer_store_base M wv s space tuple op
      = send_package M wv (snd (next_reqid s)) [header_bytes M (op_code op) (s_reqid s), b, sbuf_iov tuple]"
    using assms
    by (simp add: beer_store_base_def is_array_def encode_header_bytes put_simps Let_def case_prod_unfold
        b_def [symmetric] del: body_key.simps op_code.simps)
  then show ?thesis
    unfolding sends_def
    by (rule_tac exI, intro conjI, assumption) (simp add: body_bytes_def field_bytes_def b_def)
qed

lemma beer_delete_sends:
  assumes "is_array M key"
  shows "sends M wv s (beer_delete M wv s space index key) BEER_OP_DELETE
    [(body_key BEER_SPACE, mp_encode_uint M (ucast space)), (body_key BEER_INDEX, mp_encode_uint M (ucast index)),
     (body_key BEER_KEY, sbuf_iov key)]"
proof -
  define b where "b = mp_encode_map M 3 @ mp_encode_uint M (body_key BEER_SPACE) @
    mp_encode_uint M (ucast space) @ mp_encode_uint M (body_key BEER_INDEX) @
    mp_encode_uint M (ucast index) @ mp_encode_uint M (body_key BEER_KEY)"
  have "emit 64 b [] = Some b"
    using u32_length [of space] u32_length [of index]
    by (simp add: emit_def b_def key_length small_map_length del: body_key.simps)
  then have "beer_delete M wv s space index key
      = send_package M wv (snd (next_reqid s)) [header_bytes M (op_code BEER_OP_DELETE) (s_reqid s), b, sbuf_iov key]"
    using assms
    by (simp add: beer_delete_def is_array_def encode_header_bytes put_simps Let_def case_prod_unfold
        b_def [symmetric] del: body_key.simps op_code.simps)
  then show ?thesis
    unfolding sends_def
    by (rule_tac exI, intro conjI, assumption) (simp add: body_bytes_def field_bytes_def b_def)
qed

text \<open>A name is one MessagePack string if its length fits the header.\<close>

lemma beer_rpc_base_sends:
  assumes "is_array M args" "0 < n" "n \<le> length name"
  shows "sends M wv s (beer_rpc_base M wv s (Some name) n args op) op
    [(body_key (if is_call op then BEER_FUNCTION else BEER_EXPRESSION),
      mp_encode_strl M (word_of_nat n) @ take n name), (body_key BEER_TUPLE, sbuf_iov args)]"
proof -
  define fld where "fld = (if is_call op then BEER_FUNCTION else BEER_EXPRESSION)"
  define b where "b = mp_encode_map M 2 @ mp_encode_uint M (body_key fld) @ mp_encode_strl M (word_of_nat n)"
  define t where "t = mp_encode_uint M (body_key BEER_TUPLE)"
  have "emit 64 b [] = Some b" "emit 64 t b = Some (b @ t)"
    using strl_length [of "word_of_nat n"]
    by (simp_all add: emit_def b_def t_def key_length small_map_length del: body_key.simps)
  moreover have "emit 64 (mp_encode_map M 2) [] = Some (mp_encode_map M 2)"
    "emit 64 (mp_encode_uint M (body_key fld)) (mp_encode_map M 2)
       = Some (mp_encode_map M 2 @ mp_encode_uint M (body_key fld))"
    "emit 64 (mp_encode_strl M (word_of_nat n)) (mp_encode_map M 2 @ mp_encode_uint M (body_key fld)) = Some b"
    using strl_length [of "word_of_nat n"]
    by (simp_all add: emit_def b_def key_length small_map_length del: body_key.simps)
  ultimately have "beer_rpc_base M wv s (Some name) n args op
      = send_package M wv (snd (next_reqid s))
          [header_bytes M (op_code op) (s_reqid s), b, take n name, t, sbuf_iov args]"
    using assms
    by (simp add: beer_rpc_base_def is_array_def encode_header_bytes Let_def case_prod_unfold slice_def
        t_def [symmetric] fld_def [symmetric] del: body_key.simps op_code.simps)
  then show ?thesis
    unfolding sends_def fld_def [symmetric]
    by (rule_tac exI, intro conjI, assumption)
       (simp add: body_bytes_def field_bytes_def b_def t_def del: body_key.simps)
qed

lemma beer_update_sends:
  assumes "is_array M key" "is_array M ops"
  shows "sends M wv s (beer_update M wv s space index key ops) BEER_OP_UPDATE
    [(body_key BEER_SPACE, mp_encode_uint M (ucast space)), (body_key BEER_INDEX, mp_encode_uint M (ucast index)),
     (body_key BEER_KEY, sbuf_iov key), (body_key BEER_TUPLE, sbuf_iov ops)]"
proof -
  define b where "b = mp_encode_map M 4 @ mp_encode_uint M (body_key BEER_SPACE) @
    mp_encode_uint M (ucast space) @ mp_encode_uint M (body_key BEER_INDEX) @
    mp_encode_uint M (ucast index) @ mp_encode_uint M (body_key BEER_KEY)"
  define t where "t = mp_encode_uint M (body_key BEER_TUPLE)"
  have lb: "length b \<le> 14"
    using u32_length [of space] u32_length [of index]
    by (simp add: b_def key_length small_map_length del: body_key.simps)
  have e: "emit 64 t b = Some (b @ t)" "emit 64 b [] = Some b"
    using lb by (simp_all add: emit_def t_def key_length del: body_key.simps)
  have "Option.bind (emit 64 b []) (\<lambda>b. Option.bind (emit 64 t b) (\<lambda>d.
      send_package M wv (snd (next_reqid s)) [header_bytes M (op_code BEER_OP_UPDATE) (s_reqid s), b,
        sbuf_iov key, drop (length b) d, sbuf_iov ops])) = beer_update M wv s space index key ops"
    unfolding b_def t_def using assms
    by (simp add: beer_update_def is_array_def encode_header_bytes Let_def case_prod_unfold
        emit_emit_bind [symmetric] emit_emit [symmetric] del: body_key.simps op_code.simps)
  then have "beer_update M wv s space index key ops
      = send_package M wv (snd (next_reqid s))
          [header_bytes M (op_code BEER_OP_UPDATE) (s_reqid s), b, sbuf_iov key, t, sbuf_iov ops]"
    by (simp add: e)
  then show ?thesis
    unfolding sends_def
    by (rule_tac exI, intro conjI, assumption)
       (simp add: body_bytes_def field_bytes_def b_def t_def del: body_key.simps)
qed

text \<open>\<open>beer_upsert\<close> announces four pairs and sends three.\<close>

lemma beer_upsert_sends_raw:
  assumes "is_array M tuple" "is_array M ops"
  shows "\<exists>vs. beer_upsert M wv s space tuple ops = send_package M wv (snd (next_reqid s)) vs \<and>
    concat vs = header_bytes M (op_code BEER_OP_UPSERT) (s_reqid s) @ mp_encode_map M 4 @
      concat (map (field_bytes M) [(body_key BEER_SPACE, mp_encode_uint M (ucast space)),
        (body_key BEER_TUPLE, sbuf_iov tuple), (body_key BEER_OPS, sbuf_iov ops)])"
proof -
  define b where "b = mp_encode_map M 4 @ mp_encode_uint M (body_key BEER_SPACE) @
    mp_encode_uint M (ucast space) @ mp_encode_uint M (body_key BEER_TUPLE)"
  define t where "t = mp_encode_uint M (body_key BEER_OPS)"
  have lb: "length b \<le> 8"
    using u32_length [of space]
    by (simp add: b_def key_length small_map_length del: body_key.simps)
  have e: "emit 64 t b = Some (b @ t)" "emit 64 b [] = Some b"
    using lb by (simp_all add: emit_def t_def key_length del: body_key.simps)
  have "Option.bind (emit 64 b []) (\<lambda>b. Option.bind (emit 64 t b) (\<lambda>d.
      send_package M wv (snd (next_reqid s)) [header_bytes M (op_code BEER_OP_UPSERT) (s_reqid s), b,
        sbuf_iov tuple, drop (length b) d, sbuf_iov ops])) = beer_upsert M wv s space tuple ops"
    unfolding b_def t_def using assms
    by (simp add: beer_upsert_def is_array_def encode_header_bytes Let_def case_prod_unfold
        emit_emit_bind [symmetric] emit_emit [symmetric] del: body_key.simps op_code.simps)
  then have "beer_upsert M wv s space tuple ops
      = send_package M wv (snd (next_reqid s))
          [header_bytes M (op_code BEER_OP_UPSERT) (s_reqid s), b, sbuf_iov tuple, t, sbuf_iov ops]"
    by (simp add: e)
  then show ?thesis
    by (rule_tac exI, intro conjI, assumption)
       (simp add: field_bytes_def b_def t_def del: body_key.simps)
qed

lemma field_objs: "\<forall>f \<in> set fs. mp_obj M (snd f) \<Longrightarrow>
    mp_objs M (2 * length fs + k) (concat (map (field_bytes M) fs) @ r)
      = map_option ((+) (length (concat (map (field_bytes M) fs)))) (mp_objs M k r)"
proof (induction fs)
  case Nil
  then show ?case by (simp add: option.map_ident)
next
  case (Cons f fs)
  have "mp_objs M (2 * length (f # fs) + k) (concat (map (field_bytes M) (f # fs)) @ r)
      = mp_objs M (Suc (Suc (2 * length fs + k))) (field_bytes M f @ concat (map (field_bytes M) fs) @ r)"
    by (simp del: mp_objs.simps)
  then show ?case
    using Cons by (simp add: field_bytes_objs option.map_comp o_def add.assoc del: mp_objs.simps)
qed

lemma short_map_check:
  assumes "\<forall>f \<in> set fs. mp_obj M (snd f)" "length fs < unat k"
  shows "mp_check M (mp_encode_map M k @ concat (map (field_bytes M) fs)) = None"
proof -
  have "2 * unat k = 2 * length fs + 2 * (unat k - length fs)" using assms(2) by simp
  then have "mp_objs M (2 * unat k) (concat (map (field_bytes M) fs)) = None"
    using field_objs [OF assms(1), of "2 * (unat k - length fs)" "[]"] assms(2)
    by (simp add: mp_objs_short)
  then show ?thesis by (simp add: check_enc_map)
qed

text \<open>What \<open>beer_object_verify\<close> accepts is one object.\<close>

lemma verify_obj:
  assumes "beer_object_verify M ob t = Some 0"
  shows "mp_obj M (sbuf_iov ob)"
proof -
  have "\<exists>n. mp_check M (sb_bytes (s_data ob)) = Some n \<and> \<not> n < sb_size (s_data ob)"
    using assms by (auto simp: beer_object_verify_def Let_def
        split: option.splits if_splits blk.splits list.splits)
  then obtain n where n: "mp_check M (sb_bytes (s_data ob)) = Some n" "sb_size (s_data ob) \<le> n" by auto
  moreover have "length (sb_bytes (s_data ob)) \<le> sb_size (s_data ob)"
    by (simp add: sb_bytes_def split: blk.split)
  ultimately have "n = length (sb_bytes (s_data ob))"
    using check_bound [OF n(1)] by simp
  with n(1) show ?thesis by (simp add: mp_obj_def sbuf_iov_def)
qed

lemma is_array_obj: "is_array M ob \<Longrightarrow> mp_obj M (sbuf_iov ob)"
  unfolding is_array_def by (rule verify_obj)

text \<open>Packages of ordinary size.\<close>

lemma header_length: "length (header_bytes M code sync) \<le> 20"
  using u32_length [of code] uint_size_le9 [of "unat sync"] by (simp add: header_bytes_def len_uint len_map)

lemma fields_length:
  "\<forall>f \<in> set fs. length (snd f) \<le> B \<Longrightarrow> length (concat (map (field_bytes M) fs)) \<le> length fs * (9 + B)"
proof (induction fs)
  case (Cons f fs)
  have "length (field_bytes M f) \<le> 9 + B"
    using Cons.prems uint_size_le9 [of "unat (fst f)"] by (simp add: field_bytes_def len_uint add_mono)
  then show ?case using Cons by simp
qed simp

lemma package_fitsI:
  assumes "length fs \<le> 8" "\<forall>f \<in> set fs. length (snd f) \<le> 1152921504606846976"
  shows "package_fits M op reqid fs"
proof -
  have "length (concat (map (field_bytes M) fs)) \<le> 8 * (9 + 1152921504606846976)"
    using fields_length [OF assms(2)] mult_right_mono [OF assms(1), of "9 + 1152921504606846976"]
    by linarith
  moreover have "length (body_bytes M fs) \<le> 5 + length (concat (map (field_bytes M) fs))"
    using coll_hdr_size_bounds(2) by (simp add: body_bytes_def len_map)
  ultimately show ?thesis
    using header_length [of "op_code op" reqid] by (simp add: package_fits_def)
qed

end

section \<open>The frame arrives\<close>

context reliable_sink begin

lemma request_arrives:
  assumes "env_ok e" "inv (s_data s)" "r = writev e (snd (next_reqid s)) iov" "concat iov \<noteq> []"
  shows "\<exists>s'. r = Some (int (length (concat iov)), s') \<and> inv (s_data s') \<and>
    out (s_data s') = out (s_data s) @ concat iov \<and> s_reqid s' = s_reqid s + 1 \<and> s_wrcnt s' = s_wrcnt s + 1"
  using writev_total [of e "snd (next_reqid s)" iov] assms by auto

end

lemma frame_ne: "frame M c r fs \<noteq> []"
  by (simp add: frame_def package_def luint_def)

text \<open>
  The bytes that a request function leaves in an owned buffer, and what a server reads there.
\<close>

context msgpuck_laws begin

lemma sends_arrives:
  assumes "sends M (beer_buf_writev A) s r op fs" "length fs \<le> 8"
    "\<forall>f \<in> set fs. mp_obj M (snd f) \<and> length (snd f) \<le> 1152921504606846976"
    "alloc_total A" "sb_open (s_data s)"
  shows "\<exists>s' fr. r = Some (int (length fr), s') \<and> sb_open (s_data s') \<and>
    sb_bytes (s_data s') = sb_bytes (s_data s) @ fr \<and> s_reqid s' = s_reqid s + 1 \<and> s_wrcnt s' = s_wrcnt s + 1 \<and>
    fr = frame M (op_code op) (s_reqid s) fs \<and>
    (\<forall>rest. parse_frame M (fr @ rest) = Some ((ucast (op_code op), s_reqid s, fs), rest))"
proof -
  have fits: "package_fits M op (s_reqid s) fs" using assms(2,3) by (intro package_fitsI) auto
  obtain iov where iov: "r = beer_buf_writev A (snd (next_reqid s)) iov"
      "concat iov = frame M (op_code op) (s_reqid s) fs"
    using sends_frame [OF assms(1) fits] by auto
  have "length fs < 4294967296" using assms(2) by simp
  then have "parse_frame M (frame M (op_code op) (s_reqid s) fs @ rest) = Some ((ucast (op_code op), s_reqid s, fs), rest)" for rest
    using fits assms(3) by (intro parse_package) (auto simp: package_fits_def)
  with owned.request_arrives [OF assms(4,5) iov(1)] iov(2) frame_ne show ?thesis by auto
qed

end

end
