(* ===== verification/Object_Doc.thy ===== *)
theory Object_Doc
  imports Object_View
begin

text \<open>
  Documents, the builder calls that produce them, their bytes, and the format strings of
  \<open>beer_object_vformat\<close> that print them.
\<close>

section \<open>Documents\<close>

datatype doc =
  DNil | DUint u64 | DInt u64 | DStr bytes | DBin bytes | DBool bool | DFloat u32 | DDouble u64
| DArr "doc list" | DMap "doc list"

text \<open>The calls of the interface, and the calls that build a document.\<close>

datatype obj_call =
  Add_nil | Add_uint u64 | Add_int u64 | Add_str bytes | Add_bin bytes | Add_bool bool
| Add_float u32 | Add_double u64 | Add_array u32 | Add_map u32 | Container_close

fun obj_exec :: "msgpuck \<Rightarrow> allocator \<Rightarrow> buf_stream \<Rightarrow> obj_call \<Rightarrow> (int \<times> buf_stream) option" where
  "obj_exec M A s Add_nil = beer_object_add_nil M A s"
| "obj_exec M A s (Add_uint v) = beer_object_add_uint M A s v"
| "obj_exec M A s (Add_int v) = beer_object_add_int M A s v"
| "obj_exec M A s (Add_str b) = beer_object_add_str M A s b (word_of_nat (length b))"
| "obj_exec M A s (Add_bin b) = beer_object_add_bin M A s b (word_of_nat (length b))"
| "obj_exec M A s (Add_bool b) = beer_object_add_bool M A s (if b then 1 else 0)"
| "obj_exec M A s (Add_float v) = beer_object_add_float M A s v"
| "obj_exec M A s (Add_double v) = beer_object_add_double M A s v"
| "obj_exec M A s (Add_array n) = beer_object_add_array M A (stack_mem A s) s n"
| "obj_exec M A s (Add_map n) = beer_object_add_map M A (stack_mem A s) s n"
| "obj_exec M A s Container_close = beer_object_container_close M A s"

text \<open>
  A client that adds up the return values, stops at the first \<open>-1\<close> and otherwise goes on
  with \<open>k\<close>.
\<close>

definition obj_cont :: "(int \<times> buf_stream) option \<Rightarrow> (buf_stream \<Rightarrow> int \<Rightarrow> (int \<times> buf_stream) option)
    \<Rightarrow> (int \<times> buf_stream) option" where
  "obj_cont X g = do { (rv, s) \<leftarrow> X; if rv = -1 then Some (-1, s) else g s rv }"

fun obj_then :: "msgpuck \<Rightarrow> allocator \<Rightarrow> buf_stream \<Rightarrow> int \<Rightarrow> obj_call list \<Rightarrow>
    (buf_stream \<Rightarrow> int \<Rightarrow> (int \<times> buf_stream) option) \<Rightarrow> (int \<times> buf_stream) option" where
  "obj_then M A s acc [] k = k s acc"
| "obj_then M A s acc (c # cs) k =
     obj_cont (obj_exec M A s c) (\<lambda>s rv. obj_then M A s (acc + rv) cs k)"

definition obj_run :: "msgpuck \<Rightarrow> allocator \<Rightarrow> buf_stream \<Rightarrow> obj_call list \<Rightarrow> (int \<times> buf_stream) option" where
  "obj_run M A s cs = obj_then M A s 0 cs (\<lambda>s acc. Some (acc, s))"

text \<open>
  The calls for a document; \<open>ann\<close> is the size that the client announces for a container of
  the given length, which only the simple packing uses.
\<close>

fun build_calls :: "(nat \<Rightarrow> nat) \<Rightarrow> doc \<Rightarrow> obj_call list" where
  "build_calls ann DNil = [Add_nil]"
| "build_calls ann (DUint v) = [Add_uint v]"
| "build_calls ann (DInt v) = [Add_int v]"
| "build_calls ann (DStr b) = [Add_str b]"
| "build_calls ann (DBin b) = [Add_bin b]"
| "build_calls ann (DBool b) = [Add_bool b]"
| "build_calls ann (DFloat v) = [Add_float v]"
| "build_calls ann (DDouble v) = [Add_double v]"
| "build_calls ann (DArr ds) = Add_array (word_of_nat (ann (length ds))) #
     concat (map (build_calls ann) ds) @ [Container_close]"
| "build_calls ann (DMap ds) = Add_map (word_of_nat (ann (length ds div 2))) #
     concat (map (build_calls ann) ds) @ [Container_close]"

text \<open>The bytes of a document for each way of packing containers.\<close>

definition coll_hdr :: "msgpuck \<Rightarrow> sbo_type \<Rightarrow> mp_type \<Rightarrow> u32 \<Rightarrow> bytes" where
  "coll_hdr M k ty n =
     (if k = BEER_SBO_SPARSE then (if ty = MP_MAP then 0xdf else 0xdd) # be 4 (unat n)
      else if ty = MP_MAP then mp_encode_map M n else mp_encode_array M n)"

fun ser :: "msgpuck \<Rightarrow> sbo_type \<Rightarrow> doc \<Rightarrow> bytes" where
  "ser M k DNil = mp_encode_nil M"
| "ser M k (DUint v) = mp_encode_uint M v"
| "ser M k (DInt v) = (if sint v < 0 then mp_encode_int M v else mp_encode_uint M v)"
| "ser M k (DStr b) = mp_encode_str M b"
| "ser M k (DBin b) = mp_encode_bin M b"
| "ser M k (DBool b) = mp_encode_bool M b"
| "ser M k (DFloat v) = mp_encode_float M v"
| "ser M k (DDouble v) = mp_encode_double M v"
| "ser M k (DArr ds) = coll_hdr M k MP_ARRAY (word_of_nat (length ds)) @ concat (map (ser M k) ds)"
| "ser M k (DMap ds) = coll_hdr M k MP_MAP (word_of_nat (length ds div 2)) @ concat (map (ser M k) ds)"

fun depth :: "doc \<Rightarrow> nat" where
  "depth (DArr ds) = Suc (fold max (map depth ds) 0)"
| "depth (DMap ds) = Suc (fold max (map depth ds) 0)"
| "depth _ = 0"

text \<open>Lengths fit the 32 bits of the format, and a map alternates keys and values.\<close>

fun doc_ok :: "doc \<Rightarrow> bool" where
  "doc_ok (DStr b) \<longleftrightarrow> length b < 4294967296"
| "doc_ok (DBin b) \<longleftrightarrow> length b < 4294967296"
| "doc_ok (DArr ds) \<longleftrightarrow> length ds < 4294967296 \<and> (\<forall>d \<in> set ds. doc_ok d)"
| "doc_ok (DMap ds) \<longleftrightarrow> length ds < 4294967296 \<and> even (length ds) \<and> (\<forall>d \<in> set ds. doc_ok d)"
| "doc_ok _ \<longleftrightarrow> True"

lemma fold_max_ge: "x \<le> fold max xs (x :: nat)" "y \<in> set xs \<Longrightarrow> y \<le> fold max xs x"
proof -
  show a: "x \<le> fold max xs x" for x :: nat and xs
    by (induction xs arbitrary: x) (simp, metis fold_simps(2) max.bounded_iff)
  show "y \<in> set xs \<Longrightarrow> y \<le> fold max xs x"
    by (induction xs arbitrary: x) (simp, metis (no_types, lifting) a fold_simps(2) max.bounded_iff set_ConsD)
qed

lemma depth_child: "d \<in> set ds \<Longrightarrow> depth d < depth (DArr ds) \<and> depth d < depth (DMap ds)"
  using fold_max_ge(2) [of "depth d" "map depth ds" 0] by (simp add: less_Suc_eq_le)

lemma obj_then_append:
  "obj_then M A s acc (a @ b) k = obj_then M A s acc a (\<lambda>s acc. obj_then M A s acc b k)"
  by (induction a arbitrary: s acc) simp_all

text \<open>A sequence of calls that succeeds and returns \<open>n\<close> in total.\<close>

definition reaches :: "msgpuck \<Rightarrow> allocator \<Rightarrow> buf_stream \<Rightarrow> obj_call list \<Rightarrow> nat \<Rightarrow> buf_stream \<Rightarrow> bool" where
  "reaches M A s cs n s' \<longleftrightarrow> (\<forall>acc k. obj_then M A s acc cs k = k s' (acc + int n))"

lemma reaches_Nil: "reaches M A s [] 0 s"
  by (simp add: reaches_def)

lemma reaches_one: "obj_exec M A s c = Some (int n, s') \<Longrightarrow> reaches M A s [c] n s'"
  by (simp add: reaches_def obj_cont_def)

lemma reaches_append: "reaches M A s a m t \<Longrightarrow> reaches M A t b n u \<Longrightarrow> reaches M A s (a @ b) (m + n) u"
  by (simp add: reaches_def obj_then_append add.assoc)

lemma reaches_run: "reaches M A s cs n s' \<Longrightarrow> obj_run M A s cs = Some (int n, s')"
  by (simp add: reaches_def obj_run_def)

text \<open>Several children of one container.\<close>

definition v_adds :: "bytes list \<Rightarrow> oview \<Rightarrow> oview" where
  "v_adds bss v = fold v_add bss v"

lemma v_add_sel [simp]: "ov_room (v_add b v) = ov_room v" "ov_kind (v_add b v) = ov_kind v"
  "length (ov_frames (v_add b v)) = length (ov_frames v)"
  by (simp_all add: v_add_def)

lemma v_adds_open:
  "ov_frames v = fs @ [e] \<Longrightarrow> v_adds bss v = v\<lparr>ov_bytes := ov_bytes v @ concat bss,
     ov_frames := fs @ [e\<lparr>ent_size := ent_size e + word_of_nat (length bss)\<rparr>]\<rparr>"
proof (induction bss arbitrary: v e)
  case Nil
  then show ?case by (simp add: v_adds_def)
next
  case (Cons b bss)
  have "ov_frames (v_add b v) = fs @ [e\<lparr>ent_size := ent_size e + 1\<rparr>]"
    using Cons.prems by (simp add: v_add_def)
  from Cons.IH [OF this] show ?case
    by (simp add: v_adds_def) (simp add: v_add_def algebra_simps)
qed

context msgpuck_laws begin

lemma closed_is_coll: "closed_hdr M k ty n = coll_hdr M k ty (if ty = MP_MAP then n div 2 else n)"
  by (cases k) (simp_all add: closed_hdr_def coll_hdr_def enc32_be)

lemma open_hdr_kinds:
  "k = BEER_SBO_SIMPLE \<Longrightarrow> open_hdr M k ty n = coll_hdr M k ty n"
  "k \<noteq> BEER_SBO_SIMPLE \<Longrightarrow> length (open_hdr M k ty n) = hdr_room k"
  by (cases k; simp add: open_hdr_def coll_hdr_def enc32_be mp_len)+

text \<open>Opening, filling and closing a container adds one child to the enclosing one.\<close>

lemma container_view:
  assumes "length bss < 4294967296" "ty = MP_MAP \<Longrightarrow> even (length bss)" "ty = MP_MAP \<or> ty = MP_ARRAY"
    "n = word_of_nat (if ty = MP_MAP then length bss div 2 else length bss)"
  defines "w v \<equiv> v_adds bss (v_open ty (open_hdr M (ov_kind v) ty n) v)"
  shows "closable (w v)" "v_close M (w v) = v_add (coll_hdr M (ov_kind v) ty n @ concat bss) v"
proof -
  define e where "e = \<lparr>ent_offset = length (ov_bytes v), ent_size = word_of_nat (length bss), ent_type = ty\<rparr>"
  have w: "w v = v\<lparr>ov_bytes := ov_bytes v @ open_hdr M (ov_kind v) ty n @ concat bss,
      ov_frames := bump (ov_frames v) @ [e]\<rparr>"
  proof -
    define e0 where "e0 = \<lparr>ent_offset = length (ov_bytes v), ent_size = 0, ent_type = ty\<rparr>"
    have "ov_frames (v_open ty (open_hdr M (ov_kind v) ty n) v) = bump (ov_frames v) @ [e0]"
      by (simp add: v_open_def e0_def)
    note v_adds_open [OF this, of bss]
    moreover have "e0\<lparr>ent_size := ent_size e0 + word_of_nat (length bss)\<rparr> = e"
      by (simp add: e0_def e_def)
    ultimately show ?thesis unfolding w_def by (simp only:) (simp add: v_open_def)
  qed
  have sz: "unat (ent_size e) = length bss"
    using assms(1) by (simp add: e_def unat_of_nat)
  show "closable (w v)"
    using assms(2) sz by (simp add: w closable_def e_def even_iff_mod_2_eq_zero)
  have half: "ent_size e div 2 = word_of_nat (length bss div 2)"
    using assms(1) by (intro word_unat_eq_iff [THEN iffD2]) (simp add: sz unat_div unat_of_nat)
  have "closed_hdr M (ov_kind v) ty (ent_size e) = coll_hdr M (ov_kind v) ty n"
    using assms(3,4) half by (auto simp: closed_is_coll e_def)
  then show "v_close M (w v) = v_add (coll_hdr M (ov_kind v) ty n @ concat bss) v"
    using open_hdr_kinds [of "ov_kind v" ty n]
    by (simp add: w v_close_def v_add_def Let_def e_def)
qed

end

section \<open>Building a document\<close>

fun is_leaf :: "doc \<Rightarrow> bool" where
  "is_leaf (DArr _) = False" | "is_leaf (DMap _) = False" | "is_leaf _ = True"

context msgpuck_laws begin

lemma beer_object_add_str_sim:
  assumes "alloc_total A" "obj_rel s v" "length b < 4294967296"
  shows "\<exists>s'. beer_object_add_str M A s b (word_of_nat (length b)) = Some (int (length (mp_encode_str M b)), s') \<and>
    obj_rel s' (v_add (mp_encode_str M b) v) \<and> s_wrcnt s' = s_wrcnt s + 1"
proof -
  define h where "h = mp_encode_strl M (word_of_nat (length b))"
  have h: "emit 6 h [] = Some h" "concat [h, b] = mp_encode_str M b" "concat [h, b] \<noteq> []"
    "length (mp_encode_str M b) = length h + length b"
    using str_hdr_size_bounds(2) [of "length b"] assms(3)
    by (simp_all add: h_def emit_def len_strl enc_str enc_ne unat_of_nat)
  obtain sbo sbo' s' where "sobj s = Some sbo" "add_child sbo = Some sbo'"
    "beer_buf_writev A (set_sobj sbo' s) [h, b] = Some (int (length (concat [h, b])), s')"
    "obj_rel s' (v_add (concat [h, b]) v)" "s_wrcnt s' = s_wrcnt s + 1"
    by (rule add_writev_sim [OF assms(1,2) h(3)])
  then show ?thesis
    using assms(3) h by (simp add: beer_object_add_str_def h_def [symmetric] slice_def unat_of_nat)
qed

lemma beer_object_add_bin_sim:
  assumes "alloc_total A" "obj_rel s v" "length b < 4294967296"
  shows "\<exists>s'. beer_object_add_bin M A s b (word_of_nat (length b)) = Some (int (length (mp_encode_bin M b)), s') \<and>
    obj_rel s' (v_add (mp_encode_bin M b) v) \<and> s_wrcnt s' = s_wrcnt s + 1"
proof -
  define h where "h = mp_encode_binl M (word_of_nat (length b))"
  have h: "emit 6 h [] = Some h" "concat [h, b] = mp_encode_bin M b" "concat [h, b] \<noteq> []"
    "length (mp_encode_bin M b) = length h + length b"
    using bin_hdr_size_bounds(2) [of "length b"] assms(3)
    by (simp_all add: h_def emit_def len_binl enc_bin enc_ne unat_of_nat)
  obtain sbo sbo' s' where "sobj s = Some sbo" "add_child sbo = Some sbo'"
    "beer_buf_writev A (set_sobj sbo' s) [h, b] = Some (int (length (concat [h, b])), s')"
    "obj_rel s' (v_add (concat [h, b]) v)" "s_wrcnt s' = s_wrcnt s + 1"
    by (rule add_writev_sim [OF assms(1,2) h(3)])
  then show ?thesis
    using assms(3) h by (simp add: beer_object_add_bin_def h_def [symmetric] slice_def unat_of_nat)
qed

lemma leaf_sim:
  assumes "alloc_total A" "obj_rel s v" "is_leaf d" "doc_ok d"
  obtains c s' where "build_calls ann d = [c]" "obj_exec M A s c = Some (int (length (ser M (ov_kind v) d)), s')"
    "obj_rel s' (v_add (ser M (ov_kind v) d) v)"
proof -
  note w = add_write_sim [OF assms(1,2)]
  have u: "length (mp_encode_uint M x) \<le> 10" for x
    using uint_size_le9 [of "unat x"] by (simp add: len_uint)
  have i: "sint x < 0 \<Longrightarrow> length (mp_encode_int M x) \<le> 10" for x
    using int_size_bounds(2) [of "sint x"] by (simp add: len_int)
  show thesis
  proof (cases d)
    case DNil
    show thesis by (rule w [OF enc_ne(1)]) (auto intro!: that simp: DNil beer_object_add_nil_def emit_def len_nil)
  next
    case (DUint x)
    show thesis by (rule w [OF enc_ne(2)]) (auto intro!: that simp: DUint beer_object_add_uint_def emit_def u)
  next
    case (DInt x)
    show thesis
    proof (cases "sint x < 0")
      case True
      show thesis by (rule w [OF enc_ne(10) [OF True]])
        (auto intro!: that simp: True DInt beer_object_add_int_def emit_def i)
    next
      case False
      show thesis by (rule w [OF enc_ne(2)])
        (auto intro!: that simp: False DInt beer_object_add_int_def emit_def u)
    qed
  next
    case (DStr b)
    with beer_object_add_str_sim [OF assms(1,2)] assms(4) that show thesis by fastforce
  next
    case (DBin b)
    with beer_object_add_bin_sim [OF assms(1,2)] assms(4) that show thesis by fastforce
  next
    case (DBool b)
    show thesis by (rule w [OF enc_ne(3) [of b]]) (auto intro!: that simp: DBool beer_object_add_bool_def emit_def len_bool)
  next
    case (DFloat x)
    show thesis by (rule w [OF enc_ne(4)]) (auto intro!: that simp: DFloat beer_object_add_float_def emit_def len_float)
  next
    case (DDouble x)
    show thesis by (rule w [OF enc_ne(5)]) (auto intro!: that simp: DDouble beer_object_add_double_def emit_def len_double)
  qed (use assms(3) in simp_all)
qed

text \<open>What the calls of a document achieve from any state of the builder.\<close>

definition builds :: "(nat \<Rightarrow> nat) \<Rightarrow> allocator \<Rightarrow> doc \<Rightarrow> bool" where
  "builds ann A d \<longleftrightarrow> (\<forall>s v. obj_rel s v \<longrightarrow> length (ov_frames v) + depth d \<le> ov_room v \<longrightarrow>
     (ov_kind v = BEER_SBO_SIMPLE \<longrightarrow> ann = (\<lambda>n. n)) \<longrightarrow>
     (\<exists>n s'. reaches M A s (build_calls ann d) n s' \<and> obj_rel s' (v_add (ser M (ov_kind v) d) v) \<and>
        (ov_kind v \<noteq> BEER_SBO_PACKED \<longrightarrow> n = length (ser M (ov_kind v) d))))"

lemma builds_leaf: "alloc_total A \<Longrightarrow> is_leaf d \<Longrightarrow> doc_ok d \<Longrightarrow> builds ann A d"
  unfolding builds_def
proof (intro allI impI)
  fix s v
  assume "alloc_total A" "is_leaf d" "doc_ok d" "obj_rel s v"
  then obtain c s' where *: "build_calls ann d = [c]"
    "obj_exec M A s c = Some (int (length (ser M (ov_kind v) d)), s')" "obj_rel s' (v_add (ser M (ov_kind v) d) v)"
    using leaf_sim by blast
  from reaches_one [OF *(2)] * show "\<exists>n s'. reaches M A s (build_calls ann d) n s' \<and>
      obj_rel s' (v_add (ser M (ov_kind v) d) v) \<and>
      (ov_kind v \<noteq> BEER_SBO_PACKED \<longrightarrow> n = length (ser M (ov_kind v) d))"
    by auto
qed

lemma builds_list:
  assumes "\<forall>d \<in> set ds. builds ann A d" "obj_rel s v" "\<forall>d \<in> set ds. length (ov_frames v) + depth d \<le> ov_room v"
    "ov_kind v = BEER_SBO_SIMPLE \<longrightarrow> ann = (\<lambda>n. n)"
  shows "\<exists>n s'. reaches M A s (concat (map (build_calls ann) ds)) n s' \<and>
     obj_rel s' (v_adds (map (ser M (ov_kind v)) ds) v) \<and>
     (ov_kind v \<noteq> BEER_SBO_PACKED \<longrightarrow> n = length (concat (map (ser M (ov_kind v)) ds)))"
  using assms
proof (induction ds arbitrary: s v)
  case Nil
  then show ?case
    using reaches_Nil by (intro exI [of _ 0] exI [of _ s]) (simp add: v_adds_def)
next
  case (Cons d ds)
  have "builds ann A d" "length (ov_frames v) + depth d \<le> ov_room v"
    using Cons.prems(1,3) by simp_all
  with Cons.prems(2,4) obtain m t where d: "reaches M A s (build_calls ann d) m t" "obj_rel t (v_add (ser M (ov_kind v) d) v)"
    "ov_kind v \<noteq> BEER_SBO_PACKED \<longrightarrow> m = length (ser M (ov_kind v) d)"
    unfolding builds_def by blast
  have pre: "\<forall>d \<in> set ds. builds ann A d"
    "\<forall>e \<in> set ds. length (ov_frames (v_add (ser M (ov_kind v) d) v)) + depth e
       \<le> ov_room (v_add (ser M (ov_kind v) d) v)"
    using Cons.prems(1,3) by simp_all
  from Cons.IH [OF pre(1) d(2) pre(2), unfolded v_add_sel, OF Cons.prems(4)] obtain n u where ds: "reaches M A t (concat (map (build_calls ann) ds)) n u"
     "obj_rel u (v_adds (map (ser M (ov_kind v)) ds) (v_add (ser M (ov_kind v) d) v))"
     "ov_kind v \<noteq> BEER_SBO_PACKED \<longrightarrow> n = length (concat (map (ser M (ov_kind v)) ds))"
    by blast
  from reaches_append [OF d(1) ds(1)] d(3) ds(2,3) show ?case
    by (intro exI [of _ "m + n"] exI [of _ u]) (simp add: v_adds_def)
qed

lemma coll_hdr_length_open:
  "ov_kind v \<noteq> BEER_SBO_PACKED \<Longrightarrow> length (open_hdr M (ov_kind v) ty n) = length (coll_hdr M (ov_kind v) ty n)"
  by (cases "ov_kind v") (simp_all add: open_hdr_def coll_hdr_def enc32_be)

text \<open>A container whose members build, builds.\<close>

lemma builds_container:
  assumes A: "alloc_total A" and rel: "obj_rel s v" and room: "length (ov_frames v) < ov_room v"
    and ty: "ty = MP_MAP \<or> ty = MP_ARRAY" "ty = MP_MAP \<Longrightarrow> even (length ds)" "length ds < 4294967296"
    and n: "n = word_of_nat (if ty = MP_MAP then length ds div 2 else length ds)"
    and c: "c = (if ty = MP_MAP then Add_map n' else Add_array n')"
    and n': "n' = word_of_nat (ann (if ty = MP_MAP then length ds div 2 else length ds))"
    and ann: "ov_kind v = BEER_SBO_SIMPLE \<longrightarrow> ann = (\<lambda>n. n)"
    and mem: "\<forall>d \<in> set ds. builds ann A d" "\<forall>d \<in> set ds. Suc (length (ov_frames v) + depth d) \<le> ov_room v"
  shows "\<exists>m s'. reaches M A s (c # concat (map (build_calls ann) ds) @ [Container_close]) m s' \<and>
    obj_rel s' (v_add (coll_hdr M (ov_kind v) ty n @ concat (map (ser M (ov_kind v)) ds)) v) \<and>
    (ov_kind v \<noteq> BEER_SBO_PACKED \<longrightarrow>
       m = length (coll_hdr M (ov_kind v) ty n @ concat (map (ser M (ov_kind v)) ds)))"
proof -
  define h where "h = open_hdr M (ov_kind v) ty n"
  have h': "h = open_hdr M (ov_kind v) ty n'"
    using n n' ann by (cases "ov_kind v") (simp_all add: h_def open_hdr_def)
  define w where "w = v_open ty h v"
  have "\<exists>t. obj_exec M A s c = Some (int (length h), t) \<and> obj_rel t w"
    using ty(1) beer_object_add_array_sim [OF A rel room] beer_object_add_map_sim [OF A rel room]
    by (elim disjE) (metis c h' obj_exec.simps(9,10) w_def mp_type.distinct)+
  then obtain t where t: "reaches M A s [c] (length h) t" "obj_rel t w"
    using reaches_one by blast
  have w: "ov_kind w = ov_kind v" "ov_room w = ov_room v" "length (ov_frames w) = Suc (length (ov_frames v))"
    by (simp_all add: w_def v_open_def)
  obtain k u where u: "reaches M A t (concat (map (build_calls ann) ds)) k u"
    "obj_rel u (v_adds (map (ser M (ov_kind v)) ds) w)"
    "ov_kind v \<noteq> BEER_SBO_PACKED \<longrightarrow> k = length (concat (map (ser M (ov_kind v)) ds))"
    using builds_list [OF mem(1) t(2)] mem(2) w ann by auto
  define bss where "bss = map (ser M (ov_kind v)) ds"
  have bss: "length bss < 4294967296" "ty = MP_MAP \<Longrightarrow> even (length bss)"
    "n = word_of_nat (if ty = MP_MAP then length bss div 2 else length bss)"
    using ty n by (simp_all add: bss_def)
  note cv = container_view [OF bss(1,2) ty(1) bss(3), of v]
  obtain s' where "beer_object_container_close M A u = Some (0, s')"
    "obj_rel s' (v_close M (v_adds bss w))"
    using beer_object_container_close_sim [OF A u(2)] cv(1) by (auto simp: w_def h_def bss_def)
  moreover from this have cl: "reaches M A u [Container_close] 0 s'" by (intro reaches_one) simp
  ultimately show ?thesis
    using reaches_append [OF t(1) reaches_append [OF u(1) cl]] cv(2) u(3) coll_hdr_length_open [of v ty n]
    by (intro exI [of _ "length h + (k + 0)"] exI [of _ s']) (simp add: w_def h_def bss_def)
qed

lemma builds_doc: "alloc_total A \<Longrightarrow> doc_ok d \<Longrightarrow> builds ann A d"
proof (induction d)
  case (DArr ds)
  have room: "\<forall>d \<in> set ds. Suc (length (ov_frames v) + depth d) \<le> ov_room v" "length (ov_frames v) < ov_room v"
    if "length (ov_frames v) + depth (DArr ds) \<le> ov_room v" for v
    using that depth_child [of _ ds] by fastforce+
  show ?case
    unfolding builds_def [of _ _ "DArr ds"]
  proof (intro allI impI)
    fix s v
    assume "obj_rel s v" "ov_kind v = BEER_SBO_SIMPLE \<longrightarrow> ann = (\<lambda>n. n)"
      "length (ov_frames v) + depth (DArr ds) \<le> ov_room v"
    with room DArr show "\<exists>n s'. reaches M A s (build_calls ann (DArr ds)) n s' \<and>
        obj_rel s' (v_add (ser M (ov_kind v) (DArr ds)) v) \<and>
        (ov_kind v \<noteq> BEER_SBO_PACKED \<longrightarrow> n = length (ser M (ov_kind v) (DArr ds)))"
      unfolding build_calls.simps ser.simps
      by (intro builds_container [where ty = MP_ARRAY]) simp_all
  qed
next
  case (DMap ds)
  have room: "\<forall>d \<in> set ds. Suc (length (ov_frames v) + depth d) \<le> ov_room v" "length (ov_frames v) < ov_room v"
    if "length (ov_frames v) + depth (DMap ds) \<le> ov_room v" for v
    using that depth_child [of _ ds] by fastforce+
  show ?case
    unfolding builds_def [of _ _ "DMap ds"]
  proof (intro allI impI)
    fix s v
    assume "obj_rel s v" "ov_kind v = BEER_SBO_SIMPLE \<longrightarrow> ann = (\<lambda>n. n)"
      "length (ov_frames v) + depth (DMap ds) \<le> ov_room v"
    with room DMap show "\<exists>n s'. reaches M A s (build_calls ann (DMap ds)) n s' \<and>
        obj_rel s' (v_add (ser M (ov_kind v) (DMap ds)) v) \<and>
        (ov_kind v \<noteq> BEER_SBO_PACKED \<longrightarrow> n = length (ser M (ov_kind v) (DMap ds)))"
      unfolding build_calls.simps ser.simps
      by (intro builds_container [where ty = MP_MAP]) simp_all
  qed
qed (simp_all add: builds_leaf)

text \<open>A serialised document is one MessagePack object.\<close>

lemma mp_obj_coll:
  assumes "length ds < 4294967296" "\<forall>d \<in> set ds. mp_obj M (ser M k d)"
  shows "mp_obj M (coll_hdr M k MP_ARRAY (word_of_nat (length ds)) @ concat (map (ser M k) ds))"
    "even (length ds) \<Longrightarrow>
     mp_obj M (coll_hdr M k MP_MAP (word_of_nat (length ds div 2)) @ concat (map (ser M k) ds))"
proof -
  have "unat (word_of_nat (length ds) :: u32) = length ds"
    "unat (word_of_nat (length ds div 2) :: u32) = length ds div 2"
    using assms(1) by (simp_all add: unat_of_nat)
  moreover have "\<forall>x \<in> set (map (ser M k) ds). mp_obj M x" using assms(2) by auto
  ultimately show "mp_obj M (coll_hdr M k MP_ARRAY (word_of_nat (length ds)) @ concat (map (ser M k) ds))"
    "even (length ds) \<Longrightarrow>
     mp_obj M (coll_hdr M k MP_MAP (word_of_nat (length ds div 2)) @ concat (map (ser M k) ds))"
    using mp_obj_array [of "word_of_nat (length ds)" "map (ser M k) ds"]
      mp_obj_fixed_array [of "word_of_nat (length ds)" "map (ser M k) ds"]
      mp_obj_map [of "word_of_nat (length ds div 2)" "map (ser M k) ds"]
      mp_obj_fixed_map [of "word_of_nat (length ds div 2)" "map (ser M k) ds"]
    by (auto simp: coll_hdr_def)
qed

lemma mp_obj_ser: "doc_ok d \<Longrightarrow> mp_obj M (ser M k d)"
proof (induction d)
  case (DArr ds)
  then show ?case using mp_obj_coll(1) [of ds k] by simp
next
  case (DMap ds)
  then show ?case using mp_obj_coll(2) [of ds k] by simp
qed (auto simp: mp_obj_uint mp_obj_int mp_obj_nil mp_obj_bool mp_obj_float mp_obj_double enc_str enc_bin
    unat_of_nat intro!: mp_obj_str mp_obj_bin)

end

section \<open>Format strings print documents\<close>

text \<open>
  The format of a document, with any filler \<open>sep\<close> behind its parts, and its arguments.  A
  \<open>%llu\<close> argument is stored as a signed integer, so \<open>fmt_image\<close> is the document that results.
\<close>

fun fmt_doc :: "string \<Rightarrow> doc \<Rightarrow> string" where
  "fmt_doc sep DNil = ''NIL''"
| "fmt_doc sep (DUint v) = ''%llu''"
| "fmt_doc sep (DInt v) = ''%lld''"
| "fmt_doc sep (DStr b) = ''%.*s''"
| "fmt_doc sep (DBool b) = ''%b''"
| "fmt_doc sep (DDouble v) = ''%lf''"
| "fmt_doc sep (DArr ds) = ''['' @ sep @ concat (map (\<lambda>d. fmt_doc sep d @ sep) ds) @ '']''"
| "fmt_doc sep (DMap ds) = ''{'' @ sep @ concat (map (\<lambda>d. fmt_doc sep d @ sep) ds) @ ''}''"
| "fmt_doc sep _ = []"

fun va_doc :: "doc \<Rightarrow> va list" where
  "va_doc (DUint v) = [Va_llong v]"
| "va_doc (DInt v) = [Va_llong v]"
| "va_doc (DStr b) = [Va_int (word_of_nat (length b)), Va_ptr b]"
| "va_doc (DBool b) = [Va_int (if b then 1 else 0)]"
| "va_doc (DDouble v) = [Va_double v]"
| "va_doc (DArr ds) = concat (map va_doc ds)"
| "va_doc (DMap ds) = concat (map va_doc ds)"
| "va_doc _ = []"

fun fmt_image :: "doc \<Rightarrow> doc" where
  "fmt_image (DUint v) = DInt v"
| "fmt_image (DArr ds) = DArr (map fmt_image ds)"
| "fmt_image (DMap ds) = DMap (map fmt_image ds)"
| "fmt_image d = d"

text \<open>There is no specifier for binary data, and none for a float that is not a double.\<close>

fun formattable :: "doc \<Rightarrow> bool" where
  "formattable (DBin _) = False"
| "formattable (DFloat _) = False"
| "formattable (DArr ds) = (\<forall>d \<in> set ds. formattable d)"
| "formattable (DMap ds) = (\<forall>d \<in> set ds. formattable d)"
| "formattable _ = True"

definition filler :: "string \<Rightarrow> bool" where
  "filler sep \<longleftrightarrow> set sep \<inter> set ''[]{}%N'' = {}"

lemma chr_at_simps [simp]: "chr_at (c # f) 0 = c" "chr_at (c # f) (Suc n) = chr_at f n"
  "chr_at (c # f) (numeral k) = chr_at f (pred_numeral k)" "chr_at (c # d # f) 1 = d"
  by (simp_all add: chr_at_def)

lemma vformat_Nil [simp]: "vformat_loop M A s [] vl r = Some (r, s)"
  by (subst vformat_loop.simps) simp

lemma vformat_step:
  "f \<noteq> [] \<Longrightarrow> fmt_step M A s f vl = map_option (\<lambda>(rv, s). (rv, s, vl', n)) X \<Longrightarrow> 0 < n \<Longrightarrow>
   vformat_loop M A s f vl r = obj_cont X (\<lambda>s rv. vformat_loop M A s (drop n f) vl' (r + rv))"
  by (subst vformat_loop.simps) (cases X; simp add: max_def obj_cont_def split: prod.split)

lemma vformat_filler:
  assumes "filler sep"
  shows "vformat_loop M A s (sep @ f) = vformat_loop M A s f"
  using assms
proof (induction sep)
  case Nil
  then show ?case by simp
next
  case (Cons c sep)
  then have "fmt_step M A s ((c # sep) @ f) vl = Some (0, s, vl, 1)" for vl
    by (auto simp: fmt_step_def filler_def Let_def)
  then have "vformat_loop M A s ((c # sep) @ f) vl r = vformat_loop M A s (sep @ f) vl r" for vl r
    by (subst vformat_loop.simps) simp
  with Cons show ?case by (auto simp: filler_def fun_eq_iff)
qed

text \<open>Each character or specifier of a document's format is one call of the builder.\<close>

lemma vformat_brackets:
  "vformat_loop M A s (CHR ''['' # f) vl =
     (\<lambda>r. obj_then M A s r [Add_array 0] (\<lambda>s. vformat_loop M A s f vl))"
  "vformat_loop M A s (CHR ''{'' # f) vl =
     (\<lambda>r. obj_then M A s r [Add_map 0] (\<lambda>s. vformat_loop M A s f vl))"
  "vformat_loop M A s (CHR '']'' # f) vl =
     (\<lambda>r. obj_then M A s r [Container_close] (\<lambda>s. vformat_loop M A s f vl))"
  "vformat_loop M A s (CHR ''}'' # f) vl =
     (\<lambda>r. obj_then M A s r [Container_close] (\<lambda>s. vformat_loop M A s f vl))"
  by (simp_all add: fun_eq_iff vformat_step [where n = "Suc 0" and vl' = vl and X = "beer_object_add_array M A (stack_mem A s) s 0"]
      vformat_step [where n = "Suc 0" and vl' = vl and X = "beer_object_add_map M A (stack_mem A s) s 0"]
      vformat_step [where n = "Suc 0" and vl' = vl and X = "beer_object_container_close M A s"] fmt_step_def)

lemma fmt_specs:
  "fmt_conv (CHR ''l'' # CHR ''l'' # CHR ''u'' # f) = (Cv_ullong, 2)"
  "fmt_conv (CHR ''l'' # CHR ''l'' # CHR ''d'' # f) = (Cv_llong, 2)"
  "fmt_conv (CHR ''.'' # CHR ''*'' # CHR ''s'' # f) = (Cv_strn, 2)"
  "fmt_conv (CHR ''b'' # f) = (Cv_bool, 0)"
  "fmt_conv (CHR ''l'' # CHR ''f'' # f) = (Cv_double, 1)"
  by (simp_all add: fmt_conv_def)

lemma vformat_spec:
  assumes "fmt_conv (c # g) = (cv, n)" "c \<noteq> CHR 0x00"
    "fmt_arg M A s cv vl = do { (rv, s) \<leftarrow> obj_exec M A s call; Some (rv, s, vl') }"
  shows "vformat_loop M A s (CHR ''%'' # c # g) vl =
    (\<lambda>r. obj_then M A s r [call] (\<lambda>s. vformat_loop M A s (drop n g) vl'))"
proof -
  have "fmt_step M A s (CHR ''%'' # c # g) vl = map_option (\<lambda>(rv, s). (rv, s, vl', n + 2)) (obj_exec M A s call)"
    using assms by (cases "obj_exec M A s call") (auto simp: fmt_step_def)
  from vformat_step [OF _ this] show ?thesis by (simp add: fun_eq_iff)
qed

lemma vformat_docs:
  assumes "filler sep" "\<forall>d \<in> set ds. \<forall>s f vl. vformat_loop M A s (fmt_doc sep d @ f) (va_doc d @ vl)
      = (\<lambda>r. obj_then M A s r (build_calls (\<lambda>_. 0) (fmt_image d)) (\<lambda>s. vformat_loop M A s f vl))"
  shows "vformat_loop M A s (concat (map (\<lambda>d. fmt_doc sep d @ sep) ds) @ f) (concat (map va_doc ds) @ vl)
      = (\<lambda>r. obj_then M A s r (concat (map (build_calls (\<lambda>_. 0) \<circ> fmt_image) ds)) (\<lambda>s. vformat_loop M A s f vl))"
  using assms(2)
  by (induction ds arbitrary: s) (simp_all add: obj_then_append vformat_filler [OF assms(1)])

lemma vformat_doc:
  "filler sep \<Longrightarrow> formattable d \<Longrightarrow> vformat_loop M A s (fmt_doc sep d @ f) (va_doc d @ vl)
     = (\<lambda>r. obj_then M A s r (build_calls (\<lambda>_. 0) (fmt_image d)) (\<lambda>s. vformat_loop M A s f vl))"
proof (induction d arbitrary: s f vl)
  case (DArr ds)
  show ?case
    using DArr vformat_docs [OF DArr.prems(1), of ds M A]
    by (simp add: vformat_brackets vformat_filler obj_then_append)
next
  case (DMap ds)
  show ?case
    using DMap vformat_docs [OF DMap.prems(1), of ds M A]
    by (simp add: vformat_brackets vformat_filler obj_then_append)
next
  case DNil
  show ?case
    by (simp add: fun_eq_iff vformat_step [where n = 3 and vl' = vl and X = "beer_object_add_nil M A s"] fmt_step_def)
next
  case (DUint v)
  show ?case
    by (simp add: vformat_spec [OF fmt_specs(1), where call = "Add_int v" and vl' = vl] fmt_arg_def va_args)
next
  case (DInt v)
  show ?case
    by (simp add: vformat_spec [OF fmt_specs(2), where call = "Add_int v" and vl' = vl] fmt_arg_def va_args)
next
  case (DStr b)
  show ?case
    by (simp add: vformat_spec [OF fmt_specs(3), where call = "Add_str b" and vl' = vl] fmt_arg_def va_args)
next
  case (DBool b)
  show ?case
    by (simp add: vformat_spec [OF fmt_specs(4), where call = "Add_bool b" and vl' = vl] fmt_arg_def va_args)
next
  case (DDouble v)
  show ?case
    by (simp add: vformat_spec [OF fmt_specs(5), where call = "Add_double v" and vl' = vl] fmt_arg_def va_args)
qed simp_all

end
