(* ===== verification/Beer_Update.thy ===== *)
theory Beer_Update
  imports Beer_Requests Object_Doc
begin

text \<open>
  The list of update operations (\<open>beer/beer_update.c\<close>): a sparse array that is opened first,
  operations that are written into it behind the builder's back, and a close that takes the
  number of operations from the stream's write counter.

  What is shown: each operation is one MessagePack array of the shape the protocol asks for,
  and a closed list of any operations is one array of exactly those, which \<open>beer_update\<close> accepts.
\<close>

section \<open>The functions\<close>

definition beer_update_op_len :: "byte \<Rightarrow> int" where
  "beer_update_op_len op =
     (if op \<in> {uop_char BEER_UOP_ADDITION, uop_char BEER_UOP_SUBSTRACT, uop_char BEER_UOP_AND,
               uop_char BEER_UOP_XOR, uop_char BEER_UOP_OR, uop_char BEER_UOP_DELETE,
               uop_char BEER_UOP_INSERT, uop_char BEER_UOP_ASSIGN} then 3
      else if op = uop_char BEER_UOP_SPLICE then 5
      else -1)"

definition beer_update_container :: "msgpuck \<Rightarrow> allocator \<Rightarrow> bool \<Rightarrow> bool \<Rightarrow> buf_stream option option" where
  "beer_update_container M A mem_sbo mem_stack = do {
     ops \<leftarrow> beer_object mem_sbo mem_stack;
     case ops of
       None \<Rightarrow> Some None
     | Some ops \<Rightarrow> do {
         (rc, ops) \<leftarrow> beer_object_type ops BEER_SBO_SPARSE;
         (rv, ops) \<leftarrow> beer_object_add_array M A (stack_mem A ops) ops 0;
         if rv = -1 then map_option (\<lambda>_. None) (beer_buf_free A ops) else Some (Some ops) } }"

definition beer_update_container_close :: "msgpuck \<Rightarrow> allocator \<Rightarrow> buf_stream \<Rightarrow> (int \<times> buf_stream) option" where
  "beer_update_container_close M A ops = do {
     opob \<leftarrow> sobj ops;
     e \<leftarrow> stack_at opob 0;
     opob \<leftarrow> stack_put 0 (e\<lparr>ent_size := s_wrcnt ops - 1\<rparr>) opob;
     (rc, ops) \<leftarrow> beer_object_container_close M A (set_sobj opob ops);
     Some (0, ops) }"

text \<open>The stream is freed when the reset fails: \<open>None\<close> for the stream.\<close>

definition beer_update_container_reset :: "msgpuck \<Rightarrow> allocator \<Rightarrow> buf_stream \<Rightarrow> (int \<times> buf_stream option) option" where
  "beer_update_container_reset M A ops = do {
     (rc, ops) \<leftarrow> beer_object_reset ops;
     (rc, ops) \<leftarrow> beer_object_type ops BEER_SBO_SPARSE;
     (rv, ops) \<leftarrow> beer_object_add_array M A (stack_mem A ops) ops 0;
     if rv = -1 then map_option (\<lambda>_. (-1, None)) (beer_buf_free A ops) else Some (0, Some ops) }"

definition beer_update_op :: "msgpuck \<Rightarrow> allocator \<Rightarrow> buf_stream \<Rightarrow> byte \<Rightarrow> u32 \<Rightarrow> bytes
    \<Rightarrow> (int \<times> buf_stream) option" where
  "beer_update_op M A ops op fieldno opdata = do {
     body \<leftarrow> emit 64 (mp_encode_array M (word_of_int (beer_update_op_len op))) [];
     body \<leftarrow> emit 64 (mp_encode_str M [op]) body;
     body \<leftarrow> emit 64 (mp_encode_uint M (ucast fieldno)) body;
     beer_buf_writev A ops [body, opdata] }"

definition beer_update_bit :: "msgpuck \<Rightarrow> allocator \<Rightarrow> buf_stream \<Rightarrow> u32 \<Rightarrow> byte \<Rightarrow> u64 \<Rightarrow> (int \<times> buf_stream) option"
where
  "beer_update_bit M A ops fieldno op v =
     (if op \<noteq> uop_char BEER_UOP_AND \<and> op \<noteq> uop_char BEER_UOP_XOR \<and> op \<noteq> uop_char BEER_UOP_OR
      then Some (-1, ops)
      else do {
        body \<leftarrow> emit 10 (mp_encode_uint M v) [];
        beer_update_op M A ops op fieldno body })"

definition beer_update_arith_int :: "msgpuck \<Rightarrow> allocator \<Rightarrow> buf_stream \<Rightarrow> u32 \<Rightarrow> byte \<Rightarrow> u64 \<Rightarrow> (int \<times> buf_stream) option"
where
  "beer_update_arith_int M A ops fieldno op v =
     (if op \<noteq> uop_char BEER_UOP_ADDITION \<and> op \<noteq> uop_char BEER_UOP_SUBSTRACT then Some (-1, ops)
      else do {
        body \<leftarrow> (if 0 \<le> sint v then emit 10 (mp_encode_uint M v) [] else emit 10 (mp_encode_int M v) []);
        beer_update_op M A ops op fieldno body })"

definition beer_update_arith_float :: "msgpuck \<Rightarrow> allocator \<Rightarrow> buf_stream \<Rightarrow> u32 \<Rightarrow> byte \<Rightarrow> u32 \<Rightarrow> (int \<times> buf_stream) option"
where
  "beer_update_arith_float M A ops fieldno op v =
     (if op \<noteq> uop_char BEER_UOP_ADDITION \<and> op \<noteq> uop_char BEER_UOP_SUBSTRACT then Some (-1, ops)
      else do {
        body \<leftarrow> emit 10 (mp_encode_float M v) [];
        beer_update_op M A ops op fieldno body })"

definition beer_update_arith_double :: "msgpuck \<Rightarrow> allocator \<Rightarrow> buf_stream \<Rightarrow> u32 \<Rightarrow> byte \<Rightarrow> u64 \<Rightarrow> (int \<times> buf_stream) option"
where
  "beer_update_arith_double M A ops fieldno op v =
     (if op \<noteq> uop_char BEER_UOP_ADDITION \<and> op \<noteq> uop_char BEER_UOP_SUBSTRACT then Some (-1, ops)
      else do {
        body \<leftarrow> emit 10 (mp_encode_double M v) [];
        beer_update_op M A ops op fieldno body })"

definition beer_update_delete :: "msgpuck \<Rightarrow> allocator \<Rightarrow> buf_stream \<Rightarrow> u32 \<Rightarrow> u32 \<Rightarrow> (int \<times> buf_stream) option"
where
  "beer_update_delete M A ops fieldno fieldcount = do {
     body \<leftarrow> emit 10 (mp_encode_uint M (ucast fieldcount)) [];
     beer_update_op M A ops (uop_char BEER_UOP_DELETE) fieldno body }"

definition beer_update_insert :: "msgpuck \<Rightarrow> allocator \<Rightarrow> buf_stream \<Rightarrow> u32 \<Rightarrow> buf_stream \<Rightarrow> (int \<times> buf_stream) option"
where
  "beer_update_insert M A ops fieldno val = do {
     rc \<leftarrow> beer_object_verify M val None;
     if rc \<noteq> 0 then Some (-1, ops)
     else beer_update_op M A ops (uop_char BEER_UOP_INSERT) fieldno (sbuf_iov val) }"

definition beer_update_assign :: "msgpuck \<Rightarrow> allocator \<Rightarrow> buf_stream \<Rightarrow> u32 \<Rightarrow> buf_stream \<Rightarrow> (int \<times> buf_stream) option"
where
  "beer_update_assign M A ops fieldno val = do {
     rc \<leftarrow> beer_object_verify M val None;
     if rc \<noteq> 0 then Some (-1, ops)
     else beer_update_op M A ops (uop_char BEER_UOP_ASSIGN) fieldno (sbuf_iov val) }"

text \<open>The splice arguments are built in an allocated block of the computed size.\<close>

definition beer_update_splice :: "msgpuck \<Rightarrow> allocator \<Rightarrow> buf_stream \<Rightarrow> u32 \<Rightarrow> u32 \<Rightarrow> u32 \<Rightarrow> bytes \<Rightarrow> nat
    \<Rightarrow> (int \<times> buf_stream) option" where
  "beer_update_splice M A ops fieldno position offset buffer buffer_len = do {
     let buf_size = mp_sizeof_uint M (ucast position) + mp_sizeof_uint M (ucast offset) +
                    mp_sizeof_str M (word_of_nat buffer_len);
     buf \<leftarrow> beer_mem_alloc A buf_size;
     case buf of
       Live mem \<Rightarrow> do {
         c \<leftarrow> put (mp_encode_uint M (ucast position)) (mem, 0);
         c \<leftarrow> put (mp_encode_uint M (ucast offset)) c;
         str \<leftarrow> slice 0 buffer_len buffer;
         c \<leftarrow> put (mp_encode_str M str) c;
         (retval, ops) \<leftarrow> beer_update_op M A ops (uop_char BEER_UOP_SPLICE) fieldno (take buf_size (fst c));
         Some (retval, ops) }
     | _ \<Rightarrow> Some (-1, ops) }"

section \<open>What an operation is on the wire\<close>

definition upd_entry :: "msgpuck \<Rightarrow> u32 \<Rightarrow> beer_update_op_kind \<Rightarrow> u32 \<Rightarrow> bytes list \<Rightarrow> bytes" where
  "upd_entry M n op fieldno args = mp_encode_array M n @ mp_encode_str M [uop_char op] @
     mp_encode_uint M (ucast fieldno) @ concat args"

datatype upd_call =
  Upd_bit u32 beer_update_op_kind u64
| Upd_arith_int u32 beer_update_op_kind u64
| Upd_arith_float u32 beer_update_op_kind u32
| Upd_arith_double u32 beer_update_op_kind u64
| Upd_delete u32 u32
| Upd_insert u32 buf_stream
| Upd_assign u32 buf_stream
| Upd_splice u32 u32 u32 bytes

fun upd_exec :: "msgpuck \<Rightarrow> allocator \<Rightarrow> buf_stream \<Rightarrow> upd_call \<Rightarrow> (int \<times> buf_stream) option" where
  "upd_exec M A s (Upd_bit f op v) = beer_update_bit M A s f (uop_char op) v"
| "upd_exec M A s (Upd_arith_int f op v) = beer_update_arith_int M A s f (uop_char op) v"
| "upd_exec M A s (Upd_arith_float f op v) = beer_update_arith_float M A s f (uop_char op) v"
| "upd_exec M A s (Upd_arith_double f op v) = beer_update_arith_double M A s f (uop_char op) v"
| "upd_exec M A s (Upd_delete f n) = beer_update_delete M A s f n"
| "upd_exec M A s (Upd_insert f val) = beer_update_insert M A s f val"
| "upd_exec M A s (Upd_assign f val) = beer_update_assign M A s f val"
| "upd_exec M A s (Upd_splice f pos off str) = beer_update_splice M A s f pos off str (length str)"

text \<open>Calls that the functions accept: the right operators, verified values, strings of 32-bit length.\<close>

fun upd_ok :: "msgpuck \<Rightarrow> upd_call \<Rightarrow> bool" where
  "upd_ok M (Upd_bit f op v) \<longleftrightarrow> op \<in> {BEER_UOP_AND, BEER_UOP_XOR, BEER_UOP_OR}"
| "upd_ok M (Upd_arith_int f op v) \<longleftrightarrow> op \<in> {BEER_UOP_ADDITION, BEER_UOP_SUBSTRACT}"
| "upd_ok M (Upd_arith_float f op v) \<longleftrightarrow> op \<in> {BEER_UOP_ADDITION, BEER_UOP_SUBSTRACT}"
| "upd_ok M (Upd_arith_double f op v) \<longleftrightarrow> op \<in> {BEER_UOP_ADDITION, BEER_UOP_SUBSTRACT}"
| "upd_ok M (Upd_insert f val) \<longleftrightarrow> beer_object_verify M val None = Some 0"
| "upd_ok M (Upd_assign f val) \<longleftrightarrow> beer_object_verify M val None = Some 0"
| "upd_ok M (Upd_splice f pos off str) \<longleftrightarrow> length str < 4294967296"
| "upd_ok M _ \<longleftrightarrow> True"

fun upd_bytes :: "msgpuck \<Rightarrow> upd_call \<Rightarrow> bytes" where
  "upd_bytes M (Upd_bit f op v) = upd_entry M 3 op f [mp_encode_uint M v]"
| "upd_bytes M (Upd_arith_int f op v) =
     upd_entry M 3 op f [if sint v < 0 then mp_encode_int M v else mp_encode_uint M v]"
| "upd_bytes M (Upd_arith_float f op v) = upd_entry M 3 op f [mp_encode_float M v]"
| "upd_bytes M (Upd_arith_double f op v) = upd_entry M 3 op f [mp_encode_double M v]"
| "upd_bytes M (Upd_delete f n) = upd_entry M 3 BEER_UOP_DELETE f [mp_encode_uint M (ucast n)]"
| "upd_bytes M (Upd_insert f val) = upd_entry M 3 BEER_UOP_INSERT f [sbuf_iov val]"
| "upd_bytes M (Upd_assign f val) = upd_entry M 3 BEER_UOP_ASSIGN f [sbuf_iov val]"
| "upd_bytes M (Upd_splice f pos off str) = upd_entry M 5 BEER_UOP_SPLICE f
     [mp_encode_uint M (ucast pos), mp_encode_uint M (ucast off), mp_encode_str M str]"

text \<open>A client that fills the list and stops at the first failure.\<close>

fun upd_run :: "msgpuck \<Rightarrow> allocator \<Rightarrow> buf_stream \<Rightarrow> upd_call list \<Rightarrow> (int \<times> buf_stream) option" where
  "upd_run M A s [] = Some (0, s)"
| "upd_run M A s (c # cs) = do {
     (rv, s) \<leftarrow> upd_exec M A s c;
     if rv = -1 then Some (-1, s) else upd_run M A s cs }"

section \<open>Operations write their entry\<close>

lemma obj_rel_bytes:
  assumes "obj_rel s v"
  shows "sb_bytes (s_data s) = ov_bytes v" "sb_open (s_data s)"
  using assms by (auto elim!: obj_relE simp: view_of_def)

text \<open>A write into the builder that does not count as a child.\<close>

lemma writev_plain:
  assumes "alloc_total A" "obj_rel s v" "concat iov \<noteq> []"
  obtains s' where "beer_buf_writev A s iov = Some (int (length (concat iov)), s')"
    "obj_rel s' (v\<lparr>ov_bytes := ov_bytes v @ concat iov\<rparr>)" "s_wrcnt s' = s_wrcnt s + 1"
proof -
  from assms(2) obtain sbo where s: "sobj s = Some sbo" "sb_open (s_data s)"
      "v = view_of (s_data s) sbo" "frames_ok v" and
    st: "length (stack sbo) = unat (stack_alloc sbo)" "unat (stack_size sbo) \<le> unat (stack_alloc sbo)"
    by (rule obj_relE)
  have "set_sobj sbo s = s" using s(1) by (simp add: set_sobj_def sobj_def)
  with writev_set_sobj [OF assms(1) s(2) assms(3), of sbo] obtain s' where
    w: "beer_buf_writev A s iov = Some (int (length (concat iov)), s')" "sb_open (s_data s')"
      "sobj s' = Some sbo" "sb_bytes (s_data s') = sb_bytes (s_data s) @ concat iov"
      "s_wrcnt s' = s_wrcnt s + 1"
    by metis
  have "frames_ok (v\<lparr>ov_bytes := ov_bytes v @ concat iov\<rparr>)"
    using s(4) by (fastforce simp: frames_ok_def)
  then have "obj_rel s' (v\<lparr>ov_bytes := ov_bytes v @ concat iov\<rparr>)"
    using w(4) s(3) by (intro obj_relI [OF w(2,3) st]) (simp_all add: view_of_def)
  with w show thesis by (intro that)
qed

lemma uop_char_inj: "uop_char a = uop_char b \<longleftrightarrow> a = b"
  by (cases a; cases b) simp_all

lemma op_len: "beer_update_op_len (uop_char op) = (if op = BEER_UOP_SPLICE then 5 else 3)"
  by (cases op) (simp_all add: beer_update_op_len_def)

context msgpuck_laws begin

lemma beer_update_op_entry:
  assumes "alloc_total A" "obj_rel s v"
  shows "\<exists>rv s'. beer_update_op M A s (uop_char op) f data = Some (rv, s') \<and> rv \<noteq> -1 \<and>
    obj_rel s' (v\<lparr>ov_bytes := ov_bytes v @ upd_entry M (if op = BEER_UOP_SPLICE then 5 else 3) op f [data]\<rparr>) \<and>
    s_wrcnt s' = s_wrcnt s + 1"
proof -
  define n :: u32 where "n = (if op = BEER_UOP_SPLICE then 5 else 3)"
  define b where "b = mp_encode_array M n @ mp_encode_str M [uop_char op] @ mp_encode_uint M (ucast f)"
  have n: "word_of_int (beer_update_op_len (uop_char op)) = n"
    by (simp add: op_len n_def)
  have "length (mp_encode_array M n) = 1" "length (mp_encode_str M [uop_char op]) = 2"
    by (simp_all add: n_def len_array enc_str len_strl str_hdr_size_def)
  then have e: "emit 64 b [] = Some b" "concat [b, data] \<noteq> []"
    using u32_length [of f] by (auto simp: emit_def b_def)
  have "beer_update_op M A s (uop_char op) f data = beer_buf_writev A s [b, data]"
    by (simp add: beer_update_op_def n put_simps b_def [symmetric] e(1))
  moreover have "upd_entry M n op f [data] = concat [b, data]"
    by (simp add: upd_entry_def b_def)
  ultimately show ?thesis
    using writev_plain [OF assms e(2)] unfolding n_def [symmetric]
    by (metis of_nat_less_0_iff neg_less_0_iff_less zero_less_one)
qed

lemma enc10: "length (mp_encode_uint M x) \<le> 10" "sint x < 0 \<Longrightarrow> length (mp_encode_int M x) \<le> 10"
  "length (mp_encode_float M y) \<le> 10" "length (mp_encode_double M x) \<le> 10"
  using uint_size_le9 [of "unat x"] int_size_bounds(2) [of "sint x"]
  by (simp_all add: len_uint len_int len_float len_double)

text \<open>The block of a splice is filled exactly.\<close>

lemma beer_update_splice_op:
  assumes "alloc_total A" "length str < 4294967296"
  shows "beer_update_splice M A s f pos off str (length str) = beer_update_op M A s (uop_char BEER_UOP_SPLICE) f
    (mp_encode_uint M (ucast pos) @ mp_encode_uint M (ucast off) @ mp_encode_str M str)"
proof -
  define bs where "bs = mp_encode_uint M (ucast pos) @ mp_encode_uint M (ucast off) @ mp_encode_str M str"
  define n where "n = mp_sizeof_uint M (ucast pos) + mp_sizeof_uint M (ucast off) +
                    mp_sizeof_str M (word_of_nat (length str))"
  have n: "n = length bs"
    using assms(2) by (simp add: n_def bs_def enc_str mp_len unat_of_nat)
  then have pos: "0 < n" by (simp add: bs_def enc_ne)
  obtain junk where "A n = Some junk" using assms(1) by (auto simp: alloc_total_def)
  with pos have m: "beer_mem_alloc A n = Some (Live (replicate n 0))"
    by (simp add: beer_mem_alloc_def custom_realloc_def)
  have "put bs (replicate n 0, 0) = Some (bs, n)"
    by (simp add: put_eq_Some n)
  then have p: "Option.bind (put (mp_encode_uint M (ucast pos)) (replicate n 0, 0))
      (\<lambda>c. Option.bind (put (mp_encode_uint M (ucast off)) c) (\<lambda>c. Option.bind (put (mp_encode_str M str) c) k))
      = k (bs, n)" for k :: "bytes \<times> nat \<Rightarrow> (int \<times> buf_stream) option"
    by (simp add: put_simps bs_def)
  show ?thesis
    by (simp add: beer_update_splice_def n_def [symmetric] Let_def m slice_def p bs_def [symmetric])
       (simp add: n case_prod_unfold)
qed

lemma upd_exec_sim:
  assumes "alloc_total A" "obj_rel s v" "upd_ok M c"
  shows "\<exists>rv s'. upd_exec M A s c = Some (rv, s') \<and> rv \<noteq> -1 \<and>
    obj_rel s' (v\<lparr>ov_bytes := ov_bytes v @ upd_bytes M c\<rparr>) \<and> s_wrcnt s' = s_wrcnt s + 1"
proof -
  note op = beer_update_op_entry [OF assms(1,2)]
  show ?thesis
  proof (cases c)
    case (Upd_bit f k x)
    have "upd_exec M A s c = beer_update_op M A s (uop_char k) f (mp_encode_uint M x)"
      "upd_bytes M c = upd_entry M (if k = BEER_UOP_SPLICE then 5 else 3) k f [mp_encode_uint M x]"
      using assms(3) by (auto simp: Upd_bit beer_update_bit_def emit_def enc10)
    with op show ?thesis by presburger
  next
    case (Upd_arith_int f k x)
    define d where "d = (if sint x < 0 then mp_encode_int M x else mp_encode_uint M x)"
    have "upd_exec M A s c = beer_update_op M A s (uop_char k) f d"
      "upd_bytes M c = upd_entry M (if k = BEER_UOP_SPLICE then 5 else 3) k f [d]"
      using assms(3) by (auto simp: Upd_arith_int beer_update_arith_int_def emit_def enc10 d_def)
    with op show ?thesis by presburger
  next
    case (Upd_arith_float f k x)
    have "upd_exec M A s c = beer_update_op M A s (uop_char k) f (mp_encode_float M x)"
      "upd_bytes M c = upd_entry M (if k = BEER_UOP_SPLICE then 5 else 3) k f [mp_encode_float M x]"
      using assms(3) by (auto simp: Upd_arith_float beer_update_arith_float_def emit_def enc10)
    with op show ?thesis by presburger
  next
    case (Upd_arith_double f k x)
    have "upd_exec M A s c = beer_update_op M A s (uop_char k) f (mp_encode_double M x)"
      "upd_bytes M c = upd_entry M (if k = BEER_UOP_SPLICE then 5 else 3) k f [mp_encode_double M x]"
      using assms(3) by (auto simp: Upd_arith_double beer_update_arith_double_def emit_def enc10)
    with op show ?thesis by presburger
  next
    case (Upd_delete f n)
    have "upd_exec M A s c = beer_update_op M A s (uop_char BEER_UOP_DELETE) f (mp_encode_uint M (ucast n))"
      by (simp add: Upd_delete beer_update_delete_def emit_def enc10)
    with op [of BEER_UOP_DELETE f] Upd_delete show ?thesis by simp
  next
    case (Upd_insert f val)
    have "upd_exec M A s c = beer_update_op M A s (uop_char BEER_UOP_INSERT) f (sbuf_iov val)"
      using assms(3) by (simp add: Upd_insert beer_update_insert_def)
    with op [of BEER_UOP_INSERT f] Upd_insert show ?thesis by simp
  next
    case (Upd_assign f val)
    have "upd_exec M A s c = beer_update_op M A s (uop_char BEER_UOP_ASSIGN) f (sbuf_iov val)"
      using assms(3) by (simp add: Upd_assign beer_update_assign_def)
    with op [of BEER_UOP_ASSIGN f] Upd_assign show ?thesis by simp
  next
    case (Upd_splice f pos off str)
    then show ?thesis
      using op [of BEER_UOP_SPLICE f] assms(3) beer_update_splice_op [OF assms(1), of str s f pos off]
      by (simp add: upd_entry_def)
  qed
qed

text \<open>An entry is one array.\<close>

lemma upd_entry_obj:
  assumes "\<forall>x \<in> set args. mp_obj M x" "length args < 4294967294" "n = word_of_nat (length args + 2)"
  shows "mp_obj M (upd_entry M n op f args)"
proof -
  have "mp_obj M (mp_encode_str M [uop_char op])"
    by (simp add: enc_str mp_obj_str)
  moreover have "unat n = length ([mp_encode_str M [uop_char op], mp_encode_uint M (ucast f)] @ args)"
    using assms(2) unfolding assms(3) by (simp only: unat_of_nat) simp
  ultimately show ?thesis
    using mp_obj_array [of n "[mp_encode_str M [uop_char op], mp_encode_uint M (ucast f)] @ args"] assms(1)
    by (simp add: upd_entry_def mp_obj_uint)
qed

lemma upd_bytes_obj:
  assumes "upd_ok M c"
  shows "mp_obj M (upd_bytes M c)"
proof -
  have str: "length str < 4294967296 \<Longrightarrow> mp_obj M (mp_encode_str M str)" for str
    by (simp add: enc_str mp_obj_str unat_of_nat)
  show ?thesis
    using assms verify_obj str
    by (cases c) (auto intro!: upd_entry_obj simp: mp_obj_uint mp_obj_int mp_obj_float mp_obj_double)
qed

lemma upd_run_sim:
  assumes "alloc_total A" "obj_rel s v" "\<forall>c \<in> set cs. upd_ok M c"
  shows "\<exists>s'. upd_run M A s cs = Some (0, s') \<and>
    obj_rel s' (v\<lparr>ov_bytes := ov_bytes v @ concat (map (upd_bytes M) cs)\<rparr>) \<and>
    s_wrcnt s' = s_wrcnt s + word_of_nat (length cs)"
  using assms(2,3)
proof (induction cs arbitrary: s v)
  case Nil
  then show ?case by simp
next
  case (Cons c cs)
  then obtain rv t where t: "upd_exec M A s c = Some (rv, t)" "rv \<noteq> -1"
    "obj_rel t (v\<lparr>ov_bytes := ov_bytes v @ upd_bytes M c\<rparr>)" "s_wrcnt t = s_wrcnt s + 1"
    using upd_exec_sim [OF assms(1) Cons.prems(1), of c] by auto
  from Cons.IH [OF t(3)] Cons.prems(2) obtain s' where
    "upd_run M A t cs = Some (0, s')" "s_wrcnt s' = s_wrcnt t + word_of_nat (length cs)"
    "obj_rel s' (v\<lparr>ov_bytes := (ov_bytes v @ upd_bytes M c) @ concat (map (upd_bytes M) cs)\<rparr>)"
    by auto
  with t show ?case by (intro exI [of _ s']) simp
qed

end

section \<open>The list as a whole\<close>

text \<open>The builder of a list: its array is open and nothing else.\<close>

definition upd_view :: "bytes \<Rightarrow> u32 \<Rightarrow> oview" where
  "upd_view bs n = \<lparr>ov_bytes = 0xdd # be 4 0 @ bs,
     ov_frames = [\<lparr>ent_offset = 0, ent_size = n, ent_type = MP_ARRAY\<rparr>], ov_room = 8, ov_kind = BEER_SBO_SPARSE\<rparr>"

lemma beer_object_fresh:
  obtains s where "beer_object True True = Some (Some s)" "s_wrcnt s = 0" "s_reqid s = 0"
    "obj_rel s \<lparr>ov_bytes = [], ov_frames = [], ov_room = 8, ov_kind = BEER_SBO_SIMPLE\<rparr>"
proof -
  define s :: buf_stream where "s = \<lparr>s_data = \<lparr>sb_data = Null, sb_size = 0, sb_alloc = 0, sb_rdoff = 0,
    sb_resize = Object_resize, sb_subdata = Some \<lparr>stack = replicate 8 zero_entry, stack_size = 0,
      stack_alloc = 8, sbo_kind = BEER_SBO_SIMPLE\<rparr>, sb_as = False\<rparr>, s_wrcnt = 0, s_reqid = 0\<rparr>"
  have "beer_object True True = Some (Some s)"
    by (simp add: beer_object_def beer_buf_def beer_stream_init_def beer_object_type_def Let_def
        set_sobj_def sobj_def s_def)
  moreover have "obj_rel s \<lparr>ov_bytes = [], ov_frames = [], ov_room = 8, ov_kind = BEER_SBO_SIMPLE\<rparr>"
    by (rule obj_relI [where sbo = "\<lparr>stack = replicate 8 zero_entry, stack_size = 0,
      stack_alloc = 8, sbo_kind = BEER_SBO_SIMPLE\<rparr>"])
       (simp_all add: s_def sb_open_def sb_inv_def sobj_def view_of_def sb_bytes_def frames_ok_def)
  ultimately show thesis by (intro that) (simp_all add: s_def)
qed

lemma obj_type_sim:
  assumes "obj_rel s v" "ov_bytes v = []" "ov_frames v = []" "s_wrcnt s = 0"
  obtains s' where "beer_object_type s k = Some (0, s')" "obj_rel s' (v\<lparr>ov_kind := k\<rparr>)" "s_wrcnt s' = 0"
    "s_reqid s' = s_reqid s"
proof -
  from assms(1) obtain sbo where s: "sobj s = Some sbo" "sb_open (s_data s)"
      "v = view_of (s_data s) sbo" "frames_ok v" and
    st: "length (stack sbo) = unat (stack_alloc sbo)" "unat (stack_size sbo) \<le> unat (stack_alloc sbo)"
    by (rule obj_relE)
  show thesis
    by (rule that [of "set_sobj (sbo\<lparr>sbo_kind := k\<rparr>) s"])
       (use s st assms in \<open>auto simp: beer_object_type_def view_of_def frames_ok_def intro!: obj_relI\<close>)
qed

context msgpuck_laws begin

lemma upd_container_sim:
  assumes "alloc_total A"
  obtains s where "beer_update_container M A True True = Some (Some s)" "obj_rel s (upd_view [] 0)" "s_wrcnt s = 1"
proof -
  obtain a where a: "beer_object True True = Some (Some a)" "s_wrcnt a = 0" "s_reqid a = 0"
    "obj_rel a \<lparr>ov_bytes = [], ov_frames = [], ov_room = 8, ov_kind = BEER_SBO_SIMPLE\<rparr>"
    by (rule beer_object_fresh)
  obtain b where b: "beer_object_type a BEER_SBO_SPARSE = Some (0, b)" "s_wrcnt b = 0"
    "obj_rel b \<lparr>ov_bytes = [], ov_frames = [], ov_room = 8, ov_kind = BEER_SBO_SPARSE\<rparr>"
    using obj_type_sim [OF a(4) _ _ a(2), of BEER_SBO_SPARSE] by auto
  obtain c where "beer_object_add_array M A (stack_mem A b) b 0 = Some (5, c)" "s_wrcnt c = 1"
    "obj_rel c (upd_view [] 0)"
    using beer_object_add_array_sim [OF assms b(3), of "stack_mem A b" 0] b(2)
    by (auto simp: open_hdr_def enc32_be v_open_def upd_view_def)
  with a(1) b(1) show thesis by (intro that) (simp_all add: beer_update_container_def)
qed

lemma upd_close_sim:
  assumes "alloc_total A" "obj_rel s (upd_view bs m)"
  obtains s' where "beer_update_container_close M A s = Some (0, s')"
    "obj_rel s' (upd_view bs m\<lparr>ov_bytes := 0xdd # be 4 (unat (s_wrcnt s - 1)) @ bs, ov_frames := []\<rparr>)"
    "s_wrcnt s' = s_wrcnt s"
proof -
  from assms(2) obtain sbo where s: "sobj s = Some sbo" "sb_open (s_data s)"
      "upd_view bs m = view_of (s_data s) sbo" "frames_ok (upd_view bs m)" and
    st: "length (stack sbo) = unat (stack_alloc sbo)" "unat (stack_size sbo) \<le> unat (stack_alloc sbo)"
    by (rule obj_relE)
  define e where "e = \<lparr>ent_offset = 0, ent_size = m, ent_type = MP_ARRAY\<rparr>"
  have fr: "take (unat (stack_size sbo)) (stack sbo) = [e]"
    using s(3) by (simp add: upd_view_def view_of_def e_def)
  then obtain r where r: "stack sbo = e # r" "unat (stack_size sbo) = Suc 0"
    using st by (cases "stack sbo"; cases "unat (stack_size sbo)") auto
  define sbo' where "sbo' = sbo\<lparr>stack := e\<lparr>ent_size := s_wrcnt s - 1\<rparr> # r\<rparr>"
  have v: "view_of (s_data (set_sobj sbo' s)) sbo' = upd_view bs (s_wrcnt s - 1)"
    using s(3) r by (simp add: sbo'_def view_of_def upd_view_def e_def)
  have "frames_ok (upd_view bs (s_wrcnt s - 1))"
    by (simp add: upd_view_def frames_ok_def)
  then have rel: "obj_rel (set_sobj sbo' s) (upd_view bs (s_wrcnt s - 1))"
    using s st r v by (intro obj_relI [where sbo = sbo']) (simp_all add: sbo'_def)
  have "closable (upd_view bs (s_wrcnt s - 1))" by (simp add: closable_def upd_view_def)
  then obtain s' where c: "beer_object_container_close M A (set_sobj sbo' s) = Some (0, s')"
      "obj_rel s' (v_close M (upd_view bs (s_wrcnt s - 1)))" "s_wrcnt s' = s_wrcnt s"
    using beer_object_container_close_sim [OF assms(1) rel] by auto
  have "v_close M (upd_view bs (s_wrcnt s - 1))
      = upd_view bs m\<lparr>ov_bytes := 0xdd # be 4 (unat (s_wrcnt s - 1)) @ bs, ov_frames := []\<rparr>"
    by (simp add: v_close_def upd_view_def closed_hdr_def enc32_be Let_def)
  moreover have "beer_update_container_close M A s = Some (0, s')"
    using c(1) s(1) r by (simp add: beer_update_container_close_def stack_at_def stack_put_def sbo'_def)
  ultimately show thesis using c by (intro that [of s']) simp_all
qed

text \<open>A list that was filled with accepted calls and closed.\<close>

lemma upd_list:
  assumes "alloc_total A" "\<forall>c \<in> set cs. upd_ok M c" "length cs < 4294967296"
  obtains ops ops' ops'' where "beer_update_container M A True True = Some (Some ops)"
    "upd_run M A ops cs = Some (0, ops')" "beer_update_container_close M A ops' = Some (0, ops'')"
    "sbuf_iov ops'' = 0xdd # be 4 (length cs) @ concat (map (upd_bytes M) cs)" "is_array M ops''"
    "sb_open (s_data ops'')"
proof -
  obtain a where a: "beer_update_container M A True True = Some (Some a)" "obj_rel a (upd_view [] 0)" "s_wrcnt a = 1"
    by (rule upd_container_sim [OF assms(1)])
  obtain b where b: "upd_run M A a cs = Some (0, b)"
    "obj_rel b (upd_view (concat (map (upd_bytes M) cs)) 0)" "s_wrcnt b = 1 + word_of_nat (length cs)"
    using upd_run_sim [OF assms(1) a(2) assms(2)] a(3) by (auto simp: upd_view_def)
  obtain c where c: "beer_update_container_close M A b = Some (0, c)"
    "obj_rel c (upd_view (concat (map (upd_bytes M) cs)) 0\<lparr>ov_bytes :=
       0xdd # be 4 (unat (s_wrcnt b - 1)) @ concat (map (upd_bytes M) cs), ov_frames := []\<rparr>)"
    by (rule upd_close_sim [OF assms(1) b(2)])
  have n: "unat (word_of_nat (length cs) :: u32) = length cs" using assms(3) by (simp add: unat_of_nat)
  have bytes: "sb_bytes (s_data c) = 0xdd # be 4 (length cs) @ concat (map (upd_bytes M) cs)" and
    op: "sb_open (s_data c)"
    using obj_rel_bytes [OF c(2)] b(3) n by simp_all
  have obj: "mp_obj M (sb_bytes (s_data c))"
    using mp_obj_fixed_array [of "word_of_nat (length cs)" "map (upd_bytes M) cs"] n upd_bytes_obj assms(2)
    by (auto simp: bytes)
  obtain m ms where m: "sb_data (s_data c) = Live (m # ms)" "m = 0xdd"
  proof (cases "sb_data (s_data c)")
    case (Live mem)
    with bytes show thesis by (cases mem; cases "sb_size (s_data c)") (auto simp: sb_bytes_def intro: that)
  qed (use bytes in \<open>simp_all add: sb_bytes_def\<close>)
  have "sb_size (s_data c) = length (sb_bytes (s_data c))"
    using op by (simp add: sb_open_def sb_bytes_length)
  then have "is_array M c"
    using obj m by (simp add: is_array_def beer_object_verify_def type_array_fixed mp_obj_def)
  with a b c bytes op show thesis by (intro that [of a b c]) (simp_all add: sbuf_iov_def)
qed

end

end
