(* ===== verification/Msgpack_Ref.thy ===== *)
theory Msgpack_Ref
  imports Msgpuck
begin

text \<open>
  An executable MessagePack codec, written from the MessagePack format specification, that
  satisfies \<open>msgpuck_laws\<close>: the laws are consistent, and every property that assumes them is
  evaluated on it at concrete inputs.  It is not a model of msgpuck's source.
\<close>

section \<open>Types and integers\<close>

definition ref_typeof :: "byte \<Rightarrow> mp_type" where
  "ref_typeof b = (let t = unat b in
     if t < 0x80 then MP_UINT else if t < 0x90 then MP_MAP else if t < 0xa0 then MP_ARRAY
     else if t < 0xc0 then MP_STR else if t = 0xc0 then MP_NIL else if t = 0xc1 then MP_EXT
     else if t < 0xc4 then MP_BOOL else if t < 0xc7 then MP_BIN else if t < 0xca then MP_EXT
     else if t = 0xca then MP_FLOAT else if t = 0xcb then MP_DOUBLE else if t < 0xd0 then MP_UINT
     else if t < 0xd4 then MP_INT else if t < 0xd9 then MP_EXT else if t < 0xdc then MP_STR
     else if t < 0xde then MP_ARRAY else if t < 0xe0 then MP_MAP else MP_INT)"

definition ref_rd :: "nat \<Rightarrow> bytes \<Rightarrow> nat option" where
  "ref_rd k bs = (if k \<le> length bs then Some (be_val (take k bs)) else None)"

text \<open>A value of \<open>k\<close> bytes behind the first byte.\<close>

definition ref_val :: "nat \<Rightarrow> (nat \<Rightarrow> 'a) \<Rightarrow> bytes \<Rightarrow> ('a \<times> nat) option" where
  "ref_val k f r = map_option (\<lambda>n. (f n, k + 1)) (ref_rd k r)"

definition ref_encode_uint :: "u64 \<Rightarrow> bytes" where
  "ref_encode_uint v = (let n = unat v in
     if n < 128 then be 1 n else if n < 256 then 0xcc # be 1 n else if n < 65536 then 0xcd # be 2 n
     else if n < 4294967296 then 0xce # be 4 n else 0xcf # be 8 n)"

fun ref_decode_uint :: "bytes \<Rightarrow> (u64 \<times> nat) option" where
  "ref_decode_uint [] = None"
| "ref_decode_uint (b # r) =
     (if unat b < 128 then Some (word_of_nat (unat b), 1)
      else if unat b = 0xcc then ref_val 1 word_of_nat r else if unat b = 0xcd then ref_val 2 word_of_nat r
      else if unat b = 0xce then ref_val 4 word_of_nat r else if unat b = 0xcf then ref_val 8 word_of_nat r
      else None)"

definition ref_encode_int :: "u64 \<Rightarrow> bytes" where
  "ref_encode_int v = (let i = sint v; n = unat v in
     if -32 \<le> i then be 1 n else if -128 \<le> i then 0xd0 # be 1 n
     else if -32768 \<le> i then 0xd1 # be 2 n
     else if -2147483648 \<le> i then 0xd2 # be 4 n else 0xd3 # be 8 n)"

text \<open>Sign extension of the low \<open>k\<close> bytes.\<close>

definition ref_sext :: "nat \<Rightarrow> nat \<Rightarrow> u64" where
  "ref_sext k n = (if 2 * n < 256 ^ k then word_of_nat n else word_of_int (int n - 256 ^ k))"

fun ref_decode_int :: "bytes \<Rightarrow> (u64 \<times> nat) option" where
  "ref_decode_int [] = None"
| "ref_decode_int (b # r) =
     (if 0xe0 \<le> unat b then Some (ref_sext 1 (unat b), 1)
      else if unat b = 0xd0 then ref_val 1 (ref_sext 1) r else if unat b = 0xd1 then ref_val 2 (ref_sext 2) r
      else if unat b = 0xd2 then ref_val 4 (ref_sext 4) r else if unat b = 0xd3 then ref_val 8 (ref_sext 8) r
      else None)"

fun ref_decode_bool :: "bytes \<Rightarrow> (bool \<times> nat) option" where
  "ref_decode_bool [] = None"
| "ref_decode_bool (b # r) =
     (if unat b = 0xc3 then Some (True, 1) else if unat b = 0xc2 then Some (False, 1) else None)"

fun ref_decode_fixed :: "nat \<Rightarrow> nat \<Rightarrow> bytes \<Rightarrow> ('a::len word \<times> nat) option" where
  "ref_decode_fixed t k [] = None"
| "ref_decode_fixed t k (b # r) = (if unat b = t then ref_val k word_of_nat r else None)"

section \<open>Headers\<close>

definition ref_encode_strl :: "u32 \<Rightarrow> bytes" where
  "ref_encode_strl w = (let n = unat w in
     if n < 32 then be 1 (0xa0 + n) else if n < 256 then 0xd9 # be 1 n
     else if n < 65536 then 0xda # be 2 n else 0xdb # be 4 n)"

fun ref_decode_strl :: "bytes \<Rightarrow> (u32 \<times> nat) option" where
  "ref_decode_strl [] = None"
| "ref_decode_strl (b # r) =
     (if 0xa0 \<le> unat b \<and> unat b < 0xc0 then Some (word_of_nat (unat b - 0xa0), 1)
      else if unat b = 0xd9 then ref_val 1 word_of_nat r else if unat b = 0xda then ref_val 2 word_of_nat r
      else if unat b = 0xdb then ref_val 4 word_of_nat r else None)"

definition ref_encode_binl :: "u32 \<Rightarrow> bytes" where
  "ref_encode_binl w = (let n = unat w in
     if n < 256 then 0xc4 # be 1 n else if n < 65536 then 0xc5 # be 2 n else 0xc6 # be 4 n)"

fun ref_decode_binl :: "bytes \<Rightarrow> (u32 \<times> nat) option" where
  "ref_decode_binl [] = None"
| "ref_decode_binl (b # r) =
     (if unat b = 0xc4 then ref_val 1 word_of_nat r else if unat b = 0xc5 then ref_val 2 word_of_nat r
      else if unat b = 0xc6 then ref_val 4 word_of_nat r else None)"

text \<open>Arrays and maps share the layout: a one-byte form from \<open>base\<close>, then \<open>t2\<close> and \<open>t4\<close>.\<close>

definition ref_encode_coll :: "nat \<Rightarrow> nat \<Rightarrow> nat \<Rightarrow> u32 \<Rightarrow> bytes" where
  "ref_encode_coll base t2 t4 w = (let n = unat w in
     if n < 16 then be 1 (base + n) else if n < 65536 then be 1 t2 @ be 2 n else be 1 t4 @ be 4 n)"

fun ref_decode_coll :: "nat \<Rightarrow> nat \<Rightarrow> nat \<Rightarrow> bytes \<Rightarrow> (u32 \<times> nat) option" where
  "ref_decode_coll base t2 t4 [] = None"
| "ref_decode_coll base t2 t4 (b # r) =
     (if base \<le> unat b \<and> unat b < base + 16 then Some (word_of_nat (unat b - base), 1)
      else if unat b = t2 then ref_val 2 word_of_nat r else if unat b = t4 then ref_val 4 word_of_nat r
      else None)"

section \<open>Walking over objects\<close>

text \<open>\<open>ref_ext\<close>: the bytes of an extension object; \<open>0xc1\<close> is never used by the format.\<close>

fun ref_ext :: "bytes \<Rightarrow> nat option" where
  "ref_ext [] = None"
| "ref_ext (b # r) =
     (if unat b = 0xd4 then Some 3 else if unat b = 0xd5 then Some 4 else if unat b = 0xd6 then Some 6
      else if unat b = 0xd7 then Some 10 else if unat b = 0xd8 then Some 18
      else if unat b = 0xc7 then map_option ((+) 3) (ref_rd 1 r)
      else if unat b = 0xc8 then map_option ((+) 4) (ref_rd 2 r)
      else if unat b = 0xc9 then map_option ((+) 6) (ref_rd 4 r) else None)"

text \<open>The size of an object without its children, and the number of its children.\<close>

definition ref_head :: "bytes \<Rightarrow> (nat \<times> nat) option" where
  "ref_head bs = (if bs = [] then None else
     (case ref_typeof (hd bs) of
        MP_NIL \<Rightarrow> Some (1, 0)
      | MP_UINT \<Rightarrow> map_option (\<lambda>(v, h). (h, 0)) (ref_decode_uint bs)
      | MP_INT \<Rightarrow> map_option (\<lambda>(v, h). (h, 0)) (ref_decode_int bs)
      | MP_BOOL \<Rightarrow> map_option (\<lambda>(v, h). (h, 0)) (ref_decode_bool bs)
      | MP_FLOAT \<Rightarrow> map_option (\<lambda>(v :: u32, h). (h, 0)) (ref_decode_fixed 0xca 4 bs)
      | MP_DOUBLE \<Rightarrow> map_option (\<lambda>(v :: u64, h). (h, 0)) (ref_decode_fixed 0xcb 8 bs)
      | MP_STR \<Rightarrow> map_option (\<lambda>(l, h). (h + unat l, 0)) (ref_decode_strl bs)
      | MP_BIN \<Rightarrow> map_option (\<lambda>(l, h). (h + unat l, 0)) (ref_decode_binl bs)
      | MP_ARRAY \<Rightarrow> map_option (\<lambda>(k, h). (h, unat k)) (ref_decode_coll 0x90 0xdc 0xdd bs)
      | MP_MAP \<Rightarrow> map_option (\<lambda>(k, h). (h, 2 * unat k)) (ref_decode_coll 0x80 0xde 0xdf bs)
      | MP_EXT \<Rightarrow> map_option (\<lambda>h. (h, 0)) (ref_ext bs)))"

function ref_skip :: "nat \<Rightarrow> bytes \<Rightarrow> nat option" where
  "ref_skip 0 bs = Some 0"
| "ref_skip (Suc k) bs =
     (case ref_head bs of None \<Rightarrow> None
      | Some (h, c) \<Rightarrow>
          if 0 < h \<and> h \<le> length bs then map_option ((+) h) (ref_skip (c + k) (drop h bs))
          else None)"
  by pat_completeness auto
termination
  by (relation "measure (\<lambda>(k, bs). length bs)") auto

definition ref_mp :: msgpuck where
  "ref_mp = \<lparr>
     mp_typeof = ref_typeof,
     mp_store_u8 = (\<lambda>b. [b]),
     mp_store_u32 = (\<lambda>w. be 4 (unat w)),
     mp_store_u64 = (\<lambda>v. be 8 (unat v)),
     mp_encode_nil = [0xc0],
     mp_encode_uint = ref_encode_uint,
     mp_encode_int = ref_encode_int,
     mp_encode_bool = (\<lambda>b. [if b then 0xc3 else 0xc2]),
     mp_encode_float = (\<lambda>w. 0xca # be 4 (unat w)),
     mp_encode_double = (\<lambda>v. 0xcb # be 8 (unat v)),
     mp_encode_strl = ref_encode_strl,
     mp_encode_str = (\<lambda>s. ref_encode_strl (word_of_nat (length s)) @ s),
     mp_encode_binl = ref_encode_binl,
     mp_encode_bin = (\<lambda>s. ref_encode_binl (word_of_nat (length s)) @ s),
     mp_encode_array = ref_encode_coll 0x90 0xdc 0xdd,
     mp_encode_map = ref_encode_coll 0x80 0xde 0xdf,
     mp_sizeof_nil = 1,
     mp_sizeof_uint = (\<lambda>v. uint_size (unat v)),
     mp_sizeof_int = (\<lambda>v. int_size (sint v)),
     mp_sizeof_bool = (\<lambda>_. 1),
     mp_sizeof_float = (\<lambda>_. 5),
     mp_sizeof_double = (\<lambda>_. 9),
     mp_sizeof_str = (\<lambda>w. str_hdr_size (unat w) + unat w),
     mp_sizeof_bin = (\<lambda>w. bin_hdr_size (unat w) + unat w),
     mp_sizeof_array = (\<lambda>w. coll_hdr_size (unat w)),
     mp_sizeof_map = (\<lambda>w. coll_hdr_size (unat w)),
     mp_decode_uint = ref_decode_uint,
     mp_decode_int = ref_decode_int,
     mp_decode_bool = ref_decode_bool,
     mp_decode_float = ref_decode_fixed 0xca 4,
     mp_decode_double = ref_decode_fixed 0xcb 8,
     mp_decode_strl = ref_decode_strl,
     mp_decode_binl = ref_decode_binl,
     mp_decode_array = ref_decode_coll 0x90 0xdc 0xdd,
     mp_decode_map = ref_decode_coll 0x80 0xde 0xdf,
     mp_check = ref_skip 1,
     mp_next = ref_skip 1\<rparr>"

section \<open>Round trips of the codec\<close>

lemma ref_rd_be [simp]: "ref_rd k (be k n @ r) = Some (n mod 256 ^ k)"
  by (simp add: ref_rd_def be_val_be)

lemma ref_val_be [simp]: "ref_val k f (be k n @ r) = Some (f (n mod 256 ^ k), k + 1)"
  by (simp add: ref_val_def)

lemma ref_val_bound: "ref_val k f r = Some (v, h) \<Longrightarrow> h = k + 1 \<and> k \<le> length r"
  by (auto simp: ref_val_def ref_rd_def split: if_splits)

lemma ref_val_one [simp]: "ref_val (Suc 0) f (b # r) = Some (f (unat b), 2)"
  by (simp add: ref_val_def ref_rd_def be_val_def)

lemma unat_of_small [simp]: "n < 256 \<Longrightarrow> unat (word_of_nat n :: byte) = n"
  by (simp add: unat_of_nat)

text \<open>An unsigned word as the natural number that the format stores.\<close>

lemma u64_cases: obtains n where "v = word_of_nat n" "unat (v :: u64) = n" "n < 18446744073709551616"
  by (rule that [of "unat v"]) simp_all

lemma u32_cases: obtains n where "v = word_of_nat n" "unat (v :: u32) = n" "n < 4294967296"
  by (rule that [of "unat v"]) simp_all

lemmas ref_enc_defs = ref_encode_uint_def ref_encode_strl_def ref_encode_binl_def
  ref_encode_coll_def be_one Let_def uint_size_def str_hdr_size_def bin_hdr_size_def
  coll_hdr_size_def

lemma ref_uint_hd: "ref_typeof (hd (ref_encode_uint v)) = MP_UINT"
  by (cases v rule: u64_cases) (simp add: ref_enc_defs ref_typeof_def del: of_nat_add)

lemma ref_strl_hd: "ref_typeof (hd (ref_encode_strl w)) = MP_STR"
  by (cases w rule: u32_cases) (simp add: ref_enc_defs ref_typeof_def del: of_nat_add)

lemma ref_binl_hd: "ref_typeof (hd (ref_encode_binl w)) = MP_BIN"
  by (cases w rule: u32_cases) (simp add: ref_enc_defs ref_typeof_def del: of_nat_add)

lemma ref_array_hd: "ref_typeof (hd (ref_encode_coll 0x90 0xdc 0xdd w)) = MP_ARRAY"
  by (cases w rule: u32_cases) (simp add: ref_enc_defs ref_typeof_def del: of_nat_add)

lemma ref_map_hd: "ref_typeof (hd (ref_encode_coll 0x80 0xde 0xdf w)) = MP_MAP"
  by (cases w rule: u32_cases) (simp add: ref_enc_defs ref_typeof_def del: of_nat_add)

lemma ref_dec_uint:
  "ref_decode_uint (ref_encode_uint v @ r) = Some (v, uint_size (unat v))"
  by (cases v rule: u64_cases) (simp add: ref_enc_defs del: of_nat_add)

lemma ref_dec_strl:
  "ref_decode_strl (ref_encode_strl w @ r) = Some (w, str_hdr_size (unat w))"
  by (cases w rule: u32_cases) (simp add: ref_enc_defs del: of_nat_add)

lemma ref_dec_binl:
  "ref_decode_binl (ref_encode_binl w @ r) = Some (w, bin_hdr_size (unat w))"
  by (cases w rule: u32_cases) (simp add: ref_enc_defs del: of_nat_add)

lemma ref_dec_array:
  "ref_decode_coll 0x90 0xdc 0xdd (ref_encode_coll 0x90 0xdc 0xdd w @ r)
     = Some (w, coll_hdr_size (unat w))"
  by (cases w rule: u32_cases) (simp add: ref_enc_defs del: of_nat_add)

lemma ref_dec_map:
  "ref_decode_coll 0x80 0xde 0xdf (ref_encode_coll 0x80 0xde 0xdf w @ r)
     = Some (w, coll_hdr_size (unat w))"
  by (cases w rule: u32_cases) (simp add: ref_enc_defs del: of_nat_add)

text \<open>A negative word as the integer that the format stores in two's complement.\<close>

lemma neg_u64_cases:
  assumes "sint (v :: u64) < 0"
  obtains i where "v = word_of_int i" "sint v = i" "i < 0" "- 9223372036854775808 \<le> i"
    "\<And>m. int m dvd 18446744073709551616 \<Longrightarrow> unat v mod m = nat (i mod int m)"
proof (rule that [of "sint v"])
  show "v = word_of_int (sint v)" by simp
  show "sint v = sint v" "sint v < 0" using assms by simp_all
  show "- 9223372036854775808 \<le> sint v"
    using sint_ge [of v] by simp
  fix m assume m: "int m dvd 18446744073709551616"
  have "int (unat v) = sint v mod 18446744073709551616"
    by (simp add: uint_sint take_bit_eq_mod)
  then have "int (unat v) mod int m = sint v mod int m"
    using m by (simp add: mod_mod_cancel)
  then show "unat v mod m = nat (sint v mod int m)"
    by (metis nat_int of_nat_mod)
qed

lemma neg_mod: "- m \<le> i \<Longrightarrow> i < 0 \<Longrightarrow> (i :: int) mod m = i + m"
  using mod_pos_pos_trivial [of "i + m" m] by simp

lemma sext_neg:
  assumes "- m \<le> 2 * i" "i < (0::int)" "m = int (256 ^ k)"
  shows "ref_sext k (nat (i mod m)) = word_of_int i"
proof -
  have mod: "i mod m = i + m" using assms(1,2) by (intro neg_mod) auto
  have "int (256 ^ k) \<le> 2 * int (nat (i + m))" using assms by simp
  then have "\<not> 2 * nat (i + m) < 256 ^ k" by linarith
  moreover have "int (nat (i + m)) - 256 ^ k = i" using assms by simp
  ultimately show ?thesis by (simp add: ref_sext_def mod)
qed

lemma ref_int_hd: assumes "sint v < 0" shows "ref_typeof (hd (ref_encode_int v)) = MP_INT"
proof -
  from assms obtain i where i: "v = word_of_int i" "sint v = i" "i < 0"
    and m: "\<And>m. int m dvd 18446744073709551616 \<Longrightarrow> unat v mod m = nat (i mod int m)"
    by (rule neg_u64_cases) blast
  have "unat (word_of_nat (unat v) :: byte) = nat (i + 256)" if "- 32 \<le> i"
    using m [of 256] that i(3) by (simp add: unat_of_nat neg_mod del: of_nat_unat)
  then show ?thesis
    using i(3) by (auto simp: ref_encode_int_def i(2) be_one Let_def ref_typeof_def simp del: of_nat_unat)
qed

lemma ref_dec_int: assumes "sint v < 0"
  shows "ref_decode_int (ref_encode_int v @ r) = Some (v, int_size (sint v))"
proof -
  from assms obtain i where i: "v = word_of_int i" "sint v = i" "i < 0" "- 9223372036854775808 \<le> i"
    and m: "\<And>m. int m dvd 18446744073709551616 \<Longrightarrow> unat v mod m = nat (i mod int m)"
    by (rule neg_u64_cases) blast
  have b: "unat (word_of_nat (unat v) :: byte) = unat v mod 256"
    by (simp add: unat_of_nat del: of_nat_unat)
  have s: "ref_sext k (unat v mod 256 ^ k) = v" if "- int (256 ^ k) \<le> 2 * i" "k \<le> 8" for k
  proof -
    have "(256 :: int) ^ k dvd 256 ^ 8" using that(2) by (rule le_imp_power_dvd)
    then have "unat v mod 256 ^ k = nat (i mod int (256 ^ k))" 
      by (intro m) simp
    then show ?thesis using sext_neg [OF that(1) i(3) refl] i(1) by simp
  qed
  show ?thesis
    using i(3,4) s [of 1] s [of 2] s [of 4] s [of 8] m [of 256]
    by (auto simp: ref_encode_int_def i(2) be_one Let_def int_size_def b neg_mod simp del: of_nat_unat)
qed

section \<open>The walk\<close>

lemma ref_rd_cong:
  assumes "ref_rd k r = Some n" "take m r = take m r'" "k \<le> m" "k \<le> length r'"
  shows "ref_rd k r' = Some n"
proof -
  have "take k r = take k r'" using assms(2,3) by (metis min.absorb1 take_take)
  then show ?thesis using assms by (auto simp: ref_rd_def split: if_splits)
qed

lemma ref_val_cong:
  assumes "ref_val k f r = Some (v, h)" "take m r = take m r'" "h \<le> Suc m" "h \<le> Suc (length r')"
  shows "ref_val k f r' = Some (v, h)"
  using assms ref_rd_cong [of k r _ m r'] by (auto simp: ref_val_def)

lemma ref_ext_cong:
  assumes "ref_ext (b # r) = Some h" "take m r = take m r'" "h \<le> Suc m" "h \<le> Suc (length r')"
  shows "ref_ext (b # r') = Some h"
  using assms ref_rd_cong [of 1 r _ m r'] ref_rd_cong [of 2 r _ m r'] ref_rd_cong [of 4 r _ m r']
  by (auto split: if_splits)

lemma ref_fixed_cong:
  assumes "ref_decode_fixed t k (b # r) = Some (v, h)"
    "take m r = take m r'" "h \<le> Suc m" "h \<le> Suc (length r')"
  shows "ref_decode_fixed t k (b # r') = Some (v, h)"
  using assms by (auto split: if_splits elim: ref_val_cong)

lemma ref_uint_cong:
  assumes "ref_decode_uint (b # r) = Some (v, h)" "take m r = take m r'" "h \<le> Suc m" "h \<le> Suc (length r')"
  shows "ref_decode_uint (b # r') = Some (v, h)"
  using assms by (auto split: if_splits elim: ref_val_cong)

lemma ref_int_cong:
  assumes "ref_decode_int (b # r) = Some (v, h)" "take m r = take m r'" "h \<le> Suc m" "h \<le> Suc (length r')"
  shows "ref_decode_int (b # r') = Some (v, h)"
  using assms by (auto split: if_splits elim: ref_val_cong)

lemma ref_strl_cong:
  assumes "ref_decode_strl (b # r) = Some (v, h)" "take m r = take m r'" "h \<le> Suc m" "h \<le> Suc (length r')"
  shows "ref_decode_strl (b # r') = Some (v, h)"
  using assms by (auto split: if_splits elim: ref_val_cong)

lemma ref_binl_cong:
  assumes "ref_decode_binl (b # r) = Some (v, h)" "take m r = take m r'" "h \<le> Suc m" "h \<le> Suc (length r')"
  shows "ref_decode_binl (b # r') = Some (v, h)"
  using assms by (auto split: if_splits elim: ref_val_cong)

lemma ref_coll_cong:
  assumes "ref_decode_coll p t2 t4 (b # r) = Some (v, h)" "take m r = take m r'" "h \<le> Suc m" "h \<le> Suc (length r')"
  shows "ref_decode_coll p t2 t4 (b # r') = Some (v, h)"
  using assms by (auto split: if_splits elim: ref_val_cong)

text \<open>What the head of an object reads lies inside the object.\<close>

lemma ref_head_cong:
  assumes "ref_head bs = Some (h, c)" "take h bs = take h cs" "0 < h" "h \<le> length bs" "h \<le> length cs"
  shows "ref_head cs = Some (h, c)"
proof -
  from assms(3-5) obtain b r b' r' m where *: "bs = b # r" "cs = b' # r'" "h = Suc m"
    by (metis Suc_pred length_greater_0_conv neq_Nil_conv not_less order_less_le_trans)
  with assms(2) have [simp]: "b' = b" "take m r = take m r'" by auto
  have le: "m \<le> length r" "m \<le> length r'" using assms(4,5) * by auto
  show ?thesis
    using assms(1) le unfolding * ref_head_def
    by (cases "ref_typeof b")
       (auto split: prod.splits
         dest!: ref_uint_cong [of b r _ _ m r'] ref_int_cong [of b r _ _ m r']
           ref_strl_cong [of b r _ _ m r'] ref_binl_cong [of b r _ _ m r']
           ref_coll_cong [of _ _ _ b r _ _ m r'] ref_fixed_cong [of _ _ b r _ _ m r']
           ref_ext_cong [of b r _ m r'] simp del: ref_decode_uint.simps
         ref_decode_int.simps ref_decode_strl.simps ref_decode_binl.simps ref_decode_coll.simps
         ref_decode_fixed.simps ref_ext.simps simp: ref_decode_bool.simps)
qed

lemma ref_skip_add:
  "ref_skip (a + b) bs = (case ref_skip a bs of None \<Rightarrow> None
     | Some n \<Rightarrow> map_option ((+) n) (ref_skip b (drop n bs)))"
proof (induction a bs rule: ref_skip.induct)
  case (1 bs)
  then show ?case by (cases "ref_skip b bs") simp_all
next
  case (2 k bs)
  then show ?case
    by (auto split: option.splits simp: ac_simps option.map_comp o_def
        intro!: option.map_cong0)
qed

lemma ref_skip_bound: "ref_skip k bs = Some n \<Longrightarrow> k \<le> n \<and> n \<le> length bs"
  by (induction k bs arbitrary: n rule: ref_skip.induct)
     (fastforce split: option.splits prod.splits if_splits)+

lemma ref_skip_cong:
  "ref_skip k bs = Some n \<Longrightarrow> take n bs = take n cs \<Longrightarrow> n \<le> length cs \<Longrightarrow> ref_skip k cs = Some n"
proof (induction k bs arbitrary: n cs rule: ref_skip.induct)
  case (1 bs)
  then show ?case by simp
next
  case (2 k bs)
  from "2.prems"(1) obtain h c m where h: "ref_head bs = Some (h, c)" "0 < h" "h \<le> length bs"
      "ref_skip (c + k) (drop h bs) = Some m" "n = h + m"
    by (auto split: option.splits if_splits)
  have "take h bs = take h cs" using "2.prems"(2) h(5)
    by (metis le_add1 min.absorb1 take_take)
  moreover have "take m (drop h bs) = take m (drop h cs)" using "2.prems"(2) h(5)
    by (metis drop_take add_diff_cancel_left')
  ultimately show ?case
    using "2.IH" [OF h(1) refl] h "2.prems"(3) ref_head_cong [OF h(1)] by auto
qed

text \<open>The fields of the record, so that the definition itself is never unfolded.\<close>

lemma ref_mp_sel [simp]:
  "mp_typeof ref_mp = ref_typeof"
  "mp_store_u8 ref_mp = (\<lambda>b. [b])"
  "mp_store_u32 ref_mp = (\<lambda>w. be 4 (unat w))"
  "mp_store_u64 ref_mp = (\<lambda>v. be 8 (unat v))"
  "mp_encode_nil ref_mp = [0xc0]"
  "mp_encode_uint ref_mp = ref_encode_uint"
  "mp_encode_int ref_mp = ref_encode_int"
  "mp_encode_bool ref_mp = (\<lambda>b. [if b then 0xc3 else 0xc2])"
  "mp_encode_float ref_mp = (\<lambda>w. 0xca # be 4 (unat w))"
  "mp_encode_double ref_mp = (\<lambda>v. 0xcb # be 8 (unat v))"
  "mp_encode_strl ref_mp = ref_encode_strl"
  "mp_encode_str ref_mp = (\<lambda>s. ref_encode_strl (word_of_nat (length s)) @ s)"
  "mp_encode_binl ref_mp = ref_encode_binl"
  "mp_encode_bin ref_mp = (\<lambda>s. ref_encode_binl (word_of_nat (length s)) @ s)"
  "mp_encode_array ref_mp = ref_encode_coll 0x90 0xdc 0xdd"
  "mp_encode_map ref_mp = ref_encode_coll 0x80 0xde 0xdf"
  "mp_sizeof_nil ref_mp = 1"
  "mp_sizeof_uint ref_mp = (\<lambda>v. uint_size (unat v))"
  "mp_sizeof_int ref_mp = (\<lambda>v. int_size (sint v))"
  "mp_sizeof_bool ref_mp = (\<lambda>_. 1)"
  "mp_sizeof_float ref_mp = (\<lambda>_. 5)"
  "mp_sizeof_double ref_mp = (\<lambda>_. 9)"
  "mp_sizeof_str ref_mp = (\<lambda>w. str_hdr_size (unat w) + unat w)"
  "mp_sizeof_bin ref_mp = (\<lambda>w. bin_hdr_size (unat w) + unat w)"
  "mp_sizeof_array ref_mp = (\<lambda>w. coll_hdr_size (unat w))"
  "mp_sizeof_map ref_mp = (\<lambda>w. coll_hdr_size (unat w))"
  "mp_decode_uint ref_mp = ref_decode_uint"
  "mp_decode_int ref_mp = ref_decode_int"
  "mp_decode_bool ref_mp = ref_decode_bool"
  "mp_decode_float ref_mp = ref_decode_fixed 0xca 4"
  "mp_decode_double ref_mp = ref_decode_fixed 0xcb 8"
  "mp_decode_strl ref_mp = ref_decode_strl"
  "mp_decode_binl ref_mp = ref_decode_binl"
  "mp_decode_array ref_mp = ref_decode_coll 0x90 0xdc 0xdd"
  "mp_decode_map ref_mp = ref_decode_coll 0x80 0xde 0xdf"
  "mp_check ref_mp = ref_skip 1"
  "mp_next ref_mp = ref_skip 1"
  by (simp_all add: ref_mp_def)

lemma mp_objs_ref: "mp_objs ref_mp k bs = ref_skip k bs"
proof (induction k arbitrary: bs)
  case 0
  then show ?case by simp
next
  case (Suc k)
  have "mp_objs ref_mp (Suc k) bs = (case ref_skip 1 bs of None \<Rightarrow> None
      | Some n \<Rightarrow> map_option ((+) n) (ref_skip k (drop n bs)))"
    by (simp only: mp_objs.simps ref_mp_sel Suc.IH)
  also have "\<dots> = ref_skip (1 + k) bs"
    by (simp only: ref_skip_add)
  finally show ?case by simp
qed

section \<open>The laws hold\<close>

lemma ref_skip_one:
  "ref_skip 1 bs = (case ref_head bs of None \<Rightarrow> None
     | Some (h, c) \<Rightarrow> if 0 < h \<and> h \<le> length bs
         then map_option ((+) h) (ref_skip c (drop h bs)) else None)"
  unfolding One_nat_def ref_skip.simps(2) by (simp only: add_0_right)

lemma ref_uint_bound: "ref_decode_uint bs = Some (v, h) \<Longrightarrow> 0 < h \<and> h \<le> length bs"
  by (cases bs) (auto dest: ref_val_bound split: if_splits)

lemma ref_int_bound: "ref_decode_int bs = Some (v, h) \<Longrightarrow> 0 < h \<and> h \<le> length bs"
  by (cases bs) (auto dest: ref_val_bound split: if_splits)

lemma ref_bool_bound: "ref_decode_bool bs = Some (v, h) \<Longrightarrow> 0 < h \<and> h \<le> length bs"
  by (cases bs) (auto split: if_splits)

lemma ref_fixed_bound: "ref_decode_fixed t k bs = Some (v, h) \<Longrightarrow> 0 < h \<and> h \<le> length bs"
  by (cases bs) (auto dest: ref_val_bound split: if_splits)

lemma ref_strl_bound: "ref_decode_strl bs = Some (v, h) \<Longrightarrow> 0 < h \<and> h \<le> length bs"
  by (cases bs) (auto dest: ref_val_bound split: if_splits)

lemma ref_binl_bound: "ref_decode_binl bs = Some (v, h) \<Longrightarrow> 0 < h \<and> h \<le> length bs"
  by (cases bs) (auto dest: ref_val_bound split: if_splits)

lemma ref_coll_bound: "ref_decode_coll p t2 t4 bs = Some (v, h) \<Longrightarrow> 0 < h \<and> h \<le> length bs"
  by (cases bs) (auto dest: ref_val_bound split: if_splits)

lemmas ref_bounds = ref_uint_bound ref_int_bound ref_bool_bound ref_fixed_bound ref_strl_bound
  ref_binl_bound ref_coll_bound

lemma len_ref_int: "sint v < 0 \<Longrightarrow> length (ref_encode_int v) = int_size (sint v)"
  by (simp add: ref_encode_int_def int_size_def Let_def)

text \<open>\<open>mp_check\<close> by type: one equation per leaf and one per container.\<close>

lemma ref_check_leaf:
  assumes "bs \<noteq> []" "ref_head bs = map_option (\<lambda>(v, h). (h, 0)) d"
    and "\<And>v h. d = Some (v, h) \<Longrightarrow> 0 < h \<and> h \<le> length bs"
  shows "ref_skip 1 bs = map_option snd d"
  using assms by (cases d) (auto simp: ref_skip_one)

lemma ref_check_bytes:
  assumes "bs \<noteq> []" "ref_head bs = map_option (\<lambda>(l, h). (h + unat l, 0)) d"
    and "\<And>v h. d = Some (v, h) \<Longrightarrow> 0 < h \<and> h \<le> length bs"
  shows "ref_skip 1 bs = (case d of None \<Rightarrow> None
    | Some (l, h) \<Rightarrow> if h + unat l \<le> length bs then Some (h + unat l) else None)"
  using assms by (cases d) (auto simp: ref_skip_one)

lemma ref_check_coll:
  assumes "bs \<noteq> []" "ref_head bs = map_option (\<lambda>(k, h). (h, f k)) d"
    and "\<And>v h. d = Some (v, h) \<Longrightarrow> 0 < h \<and> h \<le> length bs"
  shows "ref_skip 1 bs = (case d of None \<Rightarrow> None
    | Some (k, h) \<Rightarrow> map_option ((+) h) (ref_skip (f k) (drop h bs)))"
  using assms by (cases d) (auto simp: ref_skip_one)

lemma ref_head_typed:
  assumes "bs \<noteq> []"
  shows "ref_typeof (hd bs) = MP_NIL \<Longrightarrow> ref_head bs = Some (1, 0)"
    and "ref_typeof (hd bs) = MP_UINT \<Longrightarrow> ref_head bs = map_option (\<lambda>(v, h). (h, 0)) (ref_decode_uint bs)"
    and "ref_typeof (hd bs) = MP_INT \<Longrightarrow> ref_head bs = map_option (\<lambda>(v, h). (h, 0)) (ref_decode_int bs)"
    and "ref_typeof (hd bs) = MP_BOOL \<Longrightarrow> ref_head bs = map_option (\<lambda>(v, h). (h, 0)) (ref_decode_bool bs)"
    and "ref_typeof (hd bs) = MP_FLOAT \<Longrightarrow>
      ref_head bs = map_option (\<lambda>(v :: u32, h). (h, 0)) (ref_decode_fixed 0xca 4 bs)"
    and "ref_typeof (hd bs) = MP_DOUBLE \<Longrightarrow>
      ref_head bs = map_option (\<lambda>(v :: u64, h). (h, 0)) (ref_decode_fixed 0xcb 8 bs)"
    and "ref_typeof (hd bs) = MP_STR \<Longrightarrow> ref_head bs = map_option (\<lambda>(l, h). (h + unat l, 0)) (ref_decode_strl bs)"
    and "ref_typeof (hd bs) = MP_BIN \<Longrightarrow> ref_head bs = map_option (\<lambda>(l, h). (h + unat l, 0)) (ref_decode_binl bs)"
    and "ref_typeof (hd bs) = MP_ARRAY \<Longrightarrow>
      ref_head bs = map_option (\<lambda>(k, h). (h, unat k)) (ref_decode_coll 0x90 0xdc 0xdd bs)"
    and "ref_typeof (hd bs) = MP_MAP \<Longrightarrow>
      ref_head bs = map_option (\<lambda>(k, h). (h, 2 * unat k)) (ref_decode_coll 0x80 0xde 0xdf bs)"
  using assms by (simp_all add: ref_head_def)

lemma len_ref_uint: "length (ref_encode_uint v) = uint_size (unat v)"
  by (simp add: ref_encode_uint_def uint_size_def Let_def)

lemma len_ref_strl: "length (ref_encode_strl w) = str_hdr_size (unat w)"
  by (simp add: ref_encode_strl_def str_hdr_size_def Let_def)

lemma len_ref_binl: "length (ref_encode_binl w) = bin_hdr_size (unat w)"
  by (simp add: ref_encode_binl_def bin_hdr_size_def Let_def)

lemma len_ref_coll: "length (ref_encode_coll p t2 t4 w) = coll_hdr_size (unat w)"
  by (simp add: ref_encode_coll_def coll_hdr_size_def Let_def)

lemma ref_typeof_const:
  "ref_typeof 0xc0 = MP_NIL" "ref_typeof 0xc2 = MP_BOOL" "ref_typeof 0xc3 = MP_BOOL"
  "ref_typeof 0xca = MP_FLOAT" "ref_typeof 0xcb = MP_DOUBLE" "ref_typeof 0xce = MP_UINT"
  "ref_typeof 0xcf = MP_UINT" "ref_typeof 0xdd = MP_ARRAY" "ref_typeof 0xdf = MP_MAP"
  by (simp_all add: ref_typeof_def)

interpretation ref: msgpuck_laws ref_mp
proof (unfold_locales, unfold ref_mp_sel mp_objs_ref)
  fix bs :: bytes and r n
  show "ref_skip 1 bs = Some n \<Longrightarrow> 0 < n \<and> n \<le> length bs"
    using ref_skip_bound [of 1 bs n] by simp
  show "ref_skip 1 (bs @ r) = Some n" if "ref_skip 1 bs = Some n"
    using that by (rule ref_skip_cong) (use ref_skip_bound [OF that] in simp_all)
  show "ref_skip 1 (take n bs) = Some n" if "ref_skip 1 bs = Some n"
    using that by (rule ref_skip_cong) (use ref_skip_bound [OF that] in simp_all)
  show "bs \<noteq> [] \<Longrightarrow> ref_typeof (hd bs) = MP_UINT \<Longrightarrow> ref_skip 1 bs = map_option snd (ref_decode_uint bs)"
    by (rule ref_check_leaf) (auto simp: ref_head_typed dest: ref_bounds)
  show "bs \<noteq> [] \<Longrightarrow> ref_typeof (hd bs) = MP_INT \<Longrightarrow> ref_skip 1 bs = map_option snd (ref_decode_int bs)"
    by (rule ref_check_leaf) (auto simp: ref_head_typed dest: ref_bounds)
  show "bs \<noteq> [] \<Longrightarrow> ref_typeof (hd bs) = MP_BOOL \<Longrightarrow> ref_skip 1 bs = map_option snd (ref_decode_bool bs)"
    by (rule ref_check_leaf) (auto simp: ref_head_typed dest: ref_bounds)
  show "bs \<noteq> [] \<Longrightarrow> ref_typeof (hd bs) = MP_FLOAT \<Longrightarrow>
      ref_skip 1 bs = map_option snd (ref_decode_fixed 0xca 4 bs :: (u32 \<times> nat) option)"
    by (rule ref_check_leaf) (auto simp: ref_head_typed dest: ref_bounds)
  show "bs \<noteq> [] \<Longrightarrow> ref_typeof (hd bs) = MP_DOUBLE \<Longrightarrow>
      ref_skip 1 bs = map_option snd (ref_decode_fixed 0xcb 8 bs :: (u64 \<times> nat) option)"
    by (rule ref_check_leaf) (auto simp: ref_head_typed dest: ref_bounds)
  show "bs \<noteq> [] \<Longrightarrow> ref_typeof (hd bs) = MP_STR \<Longrightarrow> ref_skip 1 bs = (case ref_decode_strl bs of None \<Rightarrow> None
      | Some (l, h) \<Rightarrow> if h + unat l \<le> length bs then Some (h + unat l) else None)"
    by (rule ref_check_bytes) (auto simp: ref_head_typed dest: ref_bounds)
  show "bs \<noteq> [] \<Longrightarrow> ref_typeof (hd bs) = MP_BIN \<Longrightarrow> ref_skip 1 bs = (case ref_decode_binl bs of None \<Rightarrow> None
      | Some (l, h) \<Rightarrow> if h + unat l \<le> length bs then Some (h + unat l) else None)"
    by (rule ref_check_bytes) (auto simp: ref_head_typed dest: ref_bounds)
  show "bs \<noteq> [] \<Longrightarrow> ref_typeof (hd bs) = MP_ARRAY \<Longrightarrow>
      ref_skip 1 bs = (case ref_decode_coll 0x90 0xdc 0xdd bs of None \<Rightarrow> None
        | Some (k, h) \<Rightarrow> map_option ((+) h) (ref_skip (unat k) (drop h bs)))"
    by (rule ref_check_coll) (auto simp: ref_head_typed dest: ref_bounds)
  show "bs \<noteq> [] \<Longrightarrow> ref_typeof (hd bs) = MP_MAP \<Longrightarrow>
      ref_skip 1 bs = (case ref_decode_coll 0x80 0xde 0xdf bs of None \<Rightarrow> None
        | Some (k, h) \<Rightarrow> map_option ((+) h) (ref_skip (2 * unat k) (drop h bs)))"
    by (rule ref_check_coll) (auto simp: ref_head_typed dest: ref_bounds)
  show "bs \<noteq> [] \<Longrightarrow> ref_typeof (hd bs) = MP_NIL \<Longrightarrow> ref_skip 1 bs = Some 1"
    by (cases bs) (simp_all add: ref_skip_one ref_head_typed)
qed (auto simp: ref_dec_uint ref_dec_int ref_dec_strl ref_dec_binl ref_dec_array ref_dec_map
    ref_uint_hd ref_int_hd ref_strl_hd ref_binl_hd ref_array_hd ref_map_hd len_ref_int len_ref_uint
    len_ref_strl len_ref_binl len_ref_coll ref_typeof_const ref_skip_one ref_head_def dest: ref_bounds)

section \<open>Evaluation\<close>

lemma ref_skip_numeral:
  "ref_skip (numeral k) bs = (case ref_head bs of None \<Rightarrow> None
      | Some (h, c) \<Rightarrow>
          if 0 < h \<and> h \<le> length bs then map_option ((+) h) (ref_skip (c + pred_numeral k) (drop h bs))
          else None)"
  by (simp add: numeral_eq_Suc)

lemmas ref_eval = ref_skip_numeral ref_head_def ref_typeof_def ref_val_def ref_rd_def be_val_def
  be_2 be_4 be_8 ref_enc_defs ref_encode_int_def

end
