(* ===== verification/Tp_Request.thy ===== *)
theory Tp_Request
  imports Beer_Proto Beer_Mem
begin

text \<open>
  The request writer of the header-only connector (\<open>include/tp.h\<close>).  The pointers of \<open>struct tp\<close>
  are offsets from \<open>s\<close>: the block from \<open>s\<close> to \<open>e\<close> is \<open>tp_mem\<close> (NULL and an empty block are
  both \<open>[]\<close>), \<open>p\<close> is \<open>tp_p\<close>, \<open>size\<close> is \<open>tp_szp\<close>.  A reserve function gets the block, the
  used size and the request, and returns the new block or NULL.

  An operation returns the pointer that the code returns (\<open>None\<close> for NULL) and the structure.
  The code computes sizes as \<open>int\<close>; a size beyond \<open>INT_MAX\<close> is outside the model (\<open>as_int\<close>).
\<close>

section \<open>Constants\<close>

datatype tp_body_key =
  TP_SPACE | TP_INDEX | TP_LIMIT | TP_OFFSET | TP_ITERATOR | TP_KEY | TP_TUPLE | TP_FUNCTION | TP_USERNAME
| TP_EXPRESSION | TP_SERVER_ID | TP_LSN | TP_TIMESTAMP | TP_SERVER_UUID | TP_CLUSTER_UUID | TP_VCLOCK

fun tp_key_code :: "tp_body_key \<Rightarrow> u64" where
  "tp_key_code TP_SPACE = 0x10" | "tp_key_code TP_INDEX = 0x11" | "tp_key_code TP_LIMIT = 0x12"
| "tp_key_code TP_OFFSET = 0x13" | "tp_key_code TP_ITERATOR = 0x14" | "tp_key_code TP_KEY = 0x20"
| "tp_key_code TP_TUPLE = 0x21" | "tp_key_code TP_FUNCTION = 0x22" | "tp_key_code TP_USERNAME = 0x23"
| "tp_key_code TP_EXPRESSION = 0x27" | "tp_key_code TP_SERVER_ID = 0x02" | "tp_key_code TP_LSN = 0x03"
| "tp_key_code TP_TIMESTAMP = 0x04" | "tp_key_code TP_SERVER_UUID = 0x24" | "tp_key_code TP_CLUSTER_UUID = 0x25"
| "tp_key_code TP_VCLOCK = 0x26"

datatype tp_header_key = TP_CODE | TP_SYNC

fun tp_header_code :: "tp_header_key \<Rightarrow> u64" where
  "tp_header_code TP_CODE = 0x00" | "tp_header_code TP_SYNC = 0x01"

datatype tp_request_type =
  TP_SELECT | TP_INSERT | TP_REPLACE | TP_UPDATE | TP_DELETE | TP_CALL | TP_AUTH | TP_EVAL | TP_PING
| TP_JOIN | TP_SUBSCRIBE

fun tp_code :: "tp_request_type \<Rightarrow> u32" where
  "tp_code TP_SELECT = 1" | "tp_code TP_INSERT = 2" | "tp_code TP_REPLACE = 3" | "tp_code TP_UPDATE = 4"
| "tp_code TP_DELETE = 5" | "tp_code TP_CALL = 6" | "tp_code TP_AUTH = 7" | "tp_code TP_EVAL = 8"
| "tp_code TP_PING = 64" | "tp_code TP_JOIN = 65" | "tp_code TP_SUBSCRIBE = 66"

datatype tp_iterator_type =
  TP_ITERATOR_EQ | TP_ITERATOR_REQ | TP_ITERATOR_ALL | TP_ITERATOR_LT | TP_ITERATOR_LE | TP_ITERATOR_GE
| TP_ITERATOR_GT | TP_ITERATOR_BITS_ALL_SET | TP_ITERATOR_BITS_ANY_SET | TP_ITERATOR_BITS_ALL_NON_SET
| TP_ITERATOR_OVERLAPS | TP_ITERATOR_NEIGHBOR

fun tp_iterator_code :: "tp_iterator_type \<Rightarrow> u64" where
  "tp_iterator_code TP_ITERATOR_EQ = 0" | "tp_iterator_code TP_ITERATOR_REQ = 1"
| "tp_iterator_code TP_ITERATOR_ALL = 2" | "tp_iterator_code TP_ITERATOR_LT = 3"
| "tp_iterator_code TP_ITERATOR_LE = 4" | "tp_iterator_code TP_ITERATOR_GE = 5"
| "tp_iterator_code TP_ITERATOR_GT = 6" | "tp_iterator_code TP_ITERATOR_BITS_ALL_SET = 7"
| "tp_iterator_code TP_ITERATOR_BITS_ANY_SET = 8" | "tp_iterator_code TP_ITERATOR_BITS_ALL_NON_SET = 9"
| "tp_iterator_code TP_ITERATOR_OVERLAPS = 10" | "tp_iterator_code TP_ITERATOR_NEIGHBOR = 11"

section \<open>The buffer\<close>

type_synonym reserve = "bytes \<Rightarrow> nat \<Rightarrow> nat \<Rightarrow> bytes option"

record tp =
  tp_mem :: bytes
  tp_p :: nat
  tp_szp :: "nat option"
  tp_sync :: "nat option"
  tp_reserve :: "reserve option"

type_synonym tp_result = "(nat option \<times> tp) option"

definition tp_init :: "bytes \<Rightarrow> reserve option \<Rightarrow> tp" where
  "tp_init buf rsv = \<lparr>tp_mem = buf, tp_p = 0, tp_szp = None, tp_sync = None, tp_reserve = rsv\<rparr>"

text \<open>\<open>tp_buf\<close> with the size of the data: the bytes a client would send.\<close>

definition tp_buf :: "tp \<Rightarrow> bytes" where
  "tp_buf p = take (tp_p p) (tp_mem p)"

definition tp_size :: "tp \<Rightarrow> nat" where
  "tp_size p = length (tp_mem p)"

definition tp_used :: "tp \<Rightarrow> nat" where
  "tp_used p = tp_p p"

definition tp_unused :: "tp \<Rightarrow> nat" where
  "tp_unused p = tp_size p - tp_p p"

definition tp_realloc :: "allocator \<Rightarrow> reserve" where
  "tp_realloc A mem used required =
     (let toalloc = length mem * 2;
          toalloc = (if toalloc < required then length mem + required else toalloc) in
      map_option (\<lambda>junk. take toalloc mem @ drop (length mem) junk) (A toalloc))"

definition tp_ensure :: "tp \<Rightarrow> nat \<Rightarrow> int \<times> tp" where
  "tp_ensure p n =
     (if tp_unused p \<ge> n then (0, p)
      else case tp_reserve p of
        None \<Rightarrow> (-1, p)
      | Some f \<Rightarrow>
          (case f (tp_mem p) (tp_p p) n of
             None \<Rightarrow> (-1, p)
           | Some np \<Rightarrow> (int (length np), p\<lparr>tp_mem := np\<rparr>)))"

text \<open>The length field of the current request is rewritten by every addition.\<close>

definition tp_add :: "tp \<Rightarrow> nat \<Rightarrow> tp_result" where
  "tp_add p n =
     (if tp_p p + n > tp_size p then None
      else do {
        let ptr = tp_p p;
        let p = p\<lparr>tp_p := tp_p p + n\<rparr>;
        szp \<leftarrow> tp_szp p;
        mem \<leftarrow> poke szp [0xce] (tp_mem p);
        mem \<leftarrow> poke (szp + 1) (be 4 (unat (word_of_int (int (tp_p p) - int szp - 5) :: u32))) mem;
        Some (Some ptr, p\<lparr>tp_mem := mem\<rparr>) })"

definition as_int :: "nat \<Rightarrow> nat option" where
  "as_int n = (if n < 2147483648 then Some n else None)"

definition tpi_sizeof_header :: "msgpuck \<Rightarrow> u32 \<Rightarrow> nat" where
  "tpi_sizeof_header M code = 5 + mp_sizeof_map M 2 + mp_sizeof_uint M (tp_header_code TP_CODE) +
     mp_sizeof_uint M (ucast code) + mp_sizeof_uint M (tp_header_code TP_SYNC) + 5"

text \<open>The result has the cursor behind the header.\<close>

definition tpi_encode_header :: "msgpuck \<Rightarrow> tp \<Rightarrow> u32 \<Rightarrow> (tp \<times> nat) option" where
  "tpi_encode_header M p code = do {
     let szp = tp_p p;
     c \<leftarrow> put (mp_encode_map M 2) (tp_mem p, tp_p p + 5);
     c \<leftarrow> put (mp_encode_uint M (tp_header_code TP_CODE)) c;
     c \<leftarrow> put (mp_encode_uint M (ucast code)) c;
     c \<leftarrow> put (mp_encode_uint M (tp_header_code TP_SYNC)) c;
     let sync = snd c;
     c \<leftarrow> put [0xce] c;
     c \<leftarrow> put (be 4 0) c;
     Some (p\<lparr>tp_mem := fst c, tp_szp := Some szp, tp_sync := Some sync\<rparr>, snd c) }"

section \<open>Requests\<close>

text \<open>The common end of the functions: the encoded body is in place behind \<open>p\<close>.\<close>

definition tp_finish :: "tp \<Rightarrow> bytes \<times> nat \<Rightarrow> nat \<Rightarrow> tp_result" where
  "tp_finish p c n = tp_add (p\<lparr>tp_mem := fst c\<rparr>) n"

definition tp_ping :: "msgpuck \<Rightarrow> tp \<Rightarrow> tp_result" where
  "tp_ping M p = do {
     let hsz = tpi_sizeof_header M (tp_code TP_PING);
     sz \<leftarrow> as_int (hsz + mp_sizeof_map M 0);
     let (rc, p) = tp_ensure p sz;
     if rc = -1 then Some (None, p)
     else do {
       (p, h) \<leftarrow> tpi_encode_header M p (tp_code TP_PING);
       c \<leftarrow> put (mp_encode_map M 0) (tp_mem p, h);
       tp_finish p c sz } }"

definition tp_select :: "msgpuck \<Rightarrow> tp \<Rightarrow> u32 \<Rightarrow> u32 \<Rightarrow> u32 \<Rightarrow> tp_iterator_type \<Rightarrow> u32 \<Rightarrow> tp_result" where
  "tp_select M p space index offset iterator limit = do {
     let hsz = tpi_sizeof_header M (tp_code TP_SELECT);
     sz \<leftarrow> as_int (hsz + mp_sizeof_map M 6 + mp_sizeof_uint M (tp_key_code TP_SPACE) +
                mp_sizeof_uint M (ucast space) + mp_sizeof_uint M (tp_key_code TP_INDEX) +
                mp_sizeof_uint M (ucast index) + mp_sizeof_uint M (tp_key_code TP_OFFSET) +
                mp_sizeof_uint M (ucast offset) + mp_sizeof_uint M (tp_key_code TP_LIMIT) +
                mp_sizeof_uint M (ucast limit) + mp_sizeof_uint M (tp_key_code TP_ITERATOR) +
                mp_sizeof_uint M (tp_iterator_code iterator) + mp_sizeof_uint M (tp_key_code TP_KEY));
     let (rc, p) = tp_ensure p sz;
     if rc = -1 then Some (None, p)
     else do {
       (p, h) \<leftarrow> tpi_encode_header M p (tp_code TP_SELECT);
       c \<leftarrow> put (mp_encode_map M 6) (tp_mem p, h);
       c \<leftarrow> put (mp_encode_uint M (tp_key_code TP_SPACE)) c;
       c \<leftarrow> put (mp_encode_uint M (ucast space)) c;
       c \<leftarrow> put (mp_encode_uint M (tp_key_code TP_INDEX)) c;
       c \<leftarrow> put (mp_encode_uint M (ucast index)) c;
       c \<leftarrow> put (mp_encode_uint M (tp_key_code TP_OFFSET)) c;
       c \<leftarrow> put (mp_encode_uint M (ucast offset)) c;
       c \<leftarrow> put (mp_encode_uint M (tp_key_code TP_LIMIT)) c;
       c \<leftarrow> put (mp_encode_uint M (ucast limit)) c;
       c \<leftarrow> put (mp_encode_uint M (tp_key_code TP_ITERATOR)) c;
       c \<leftarrow> put (mp_encode_uint M (tp_iterator_code iterator)) c;
       c \<leftarrow> put (mp_encode_uint M (tp_key_code TP_KEY)) c;
       tp_finish p c sz } }"

definition tpi_encode_store :: "msgpuck \<Rightarrow> tp \<Rightarrow> tp_request_type \<Rightarrow> u32 \<Rightarrow> tp_result" where
  "tpi_encode_store M p ty space = do {
     let hsz = tpi_sizeof_header M (tp_code ty);
     sz \<leftarrow> as_int (hsz + mp_sizeof_map M 2 + mp_sizeof_uint M (tp_key_code TP_SPACE) +
                mp_sizeof_uint M (ucast space) + mp_sizeof_uint M (tp_key_code TP_TUPLE));
     let (rc, p) = tp_ensure p sz;
     if rc = -1 then Some (None, p)
     else do {
       (p, h) \<leftarrow> tpi_encode_header M p (tp_code ty);
       c \<leftarrow> put (mp_encode_map M 2) (tp_mem p, h);
       c \<leftarrow> put (mp_encode_uint M (tp_key_code TP_SPACE)) c;
       c \<leftarrow> put (mp_encode_uint M (ucast space)) c;
       c \<leftarrow> put (mp_encode_uint M (tp_key_code TP_TUPLE)) c;
       tp_finish p c sz } }"

definition tp_insert :: "msgpuck \<Rightarrow> tp \<Rightarrow> u32 \<Rightarrow> tp_result" where
  "tp_insert M p space = tpi_encode_store M p TP_INSERT space"

definition tp_replace :: "msgpuck \<Rightarrow> tp \<Rightarrow> u32 \<Rightarrow> tp_result" where
  "tp_replace M p space = tpi_encode_store M p TP_REPLACE space"

text \<open>The size counts a map header that is not encoded.\<close>

definition tp_delete :: "msgpuck \<Rightarrow> tp \<Rightarrow> u32 \<Rightarrow> tp_result" where
  "tp_delete M p space = do {
     let hsz = tpi_sizeof_header M (tp_code TP_DELETE);
     sz \<leftarrow> as_int (hsz + mp_sizeof_map M 2 + mp_sizeof_uint M (tp_key_code TP_SPACE) +
                mp_sizeof_uint M (ucast space) + mp_sizeof_uint M (tp_key_code TP_KEY));
     let (rc, p) = tp_ensure p sz;
     if rc = -1 then Some (None, p)
     else do {
       (p, h) \<leftarrow> tpi_encode_header M p (tp_code TP_DELETE);
       c \<leftarrow> put (mp_encode_uint M (tp_key_code TP_SPACE)) (tp_mem p, h);
       c \<leftarrow> put (mp_encode_uint M (ucast space)) c;
       c \<leftarrow> put (mp_encode_uint M (tp_key_code TP_KEY)) c;
       tp_finish p c sz } }"

text \<open>\<open>len\<close> bytes of the object behind the pointer; a negative \<open>int\<close> length is outside the model.\<close>

definition tp_call :: "msgpuck \<Rightarrow> tp \<Rightarrow> bytes \<Rightarrow> nat \<Rightarrow> tp_result" where
  "tp_call M p name len = do {
     let hsz = tpi_sizeof_header M (tp_code TP_CALL);
     sz \<leftarrow> as_int (hsz + mp_sizeof_map M 2 + mp_sizeof_uint M (tp_key_code TP_FUNCTION) +
                mp_sizeof_str M (word_of_nat len) + mp_sizeof_uint M (tp_key_code TP_TUPLE));
     let (rc, p) = tp_ensure p sz;
     if rc = -1 then Some (None, p)
     else do {
       (p, h) \<leftarrow> tpi_encode_header M p (tp_code TP_CALL);
       c \<leftarrow> put (mp_encode_map M 2) (tp_mem p, h);
       c \<leftarrow> put (mp_encode_uint M (tp_key_code TP_FUNCTION)) c;
       str \<leftarrow> slice 0 len name;
       c \<leftarrow> put (mp_encode_str M str) c;
       c \<leftarrow> put (mp_encode_uint M (tp_key_code TP_TUPLE)) c;
       tp_finish p c sz } }"

definition tp_eval :: "msgpuck \<Rightarrow> tp \<Rightarrow> bytes \<Rightarrow> nat \<Rightarrow> tp_result" where
  "tp_eval M p name len = do {
     let hsz = tpi_sizeof_header M (tp_code TP_EVAL);
     sz \<leftarrow> as_int (hsz + mp_sizeof_map M 2 + mp_sizeof_uint M (tp_key_code TP_FUNCTION) +
                mp_sizeof_str M (word_of_nat len) + mp_sizeof_uint M (tp_key_code TP_TUPLE));
     let (rc, p) = tp_ensure p sz;
     if rc = -1 then Some (None, p)
     else do {
       (p, h) \<leftarrow> tpi_encode_header M p (tp_code TP_EVAL);
       c \<leftarrow> put (mp_encode_map M 2) (tp_mem p, h);
       c \<leftarrow> put (mp_encode_uint M (tp_key_code TP_EXPRESSION)) c;
       str \<leftarrow> slice 0 len name;
       c \<leftarrow> put (mp_encode_str M str) c;
       c \<leftarrow> put (mp_encode_uint M (tp_key_code TP_TUPLE)) c;
       tp_finish p c sz } }"

definition tp_update :: "msgpuck \<Rightarrow> tp \<Rightarrow> u32 \<Rightarrow> tp_result" where
  "tp_update M p space = do {
     let hsz = tpi_sizeof_header M (tp_code TP_UPDATE);
     sz \<leftarrow> as_int (hsz + mp_sizeof_map M 3 + mp_sizeof_uint M (tp_key_code TP_SPACE) +
                mp_sizeof_uint M (ucast space) + mp_sizeof_uint M (tp_key_code TP_KEY));
     let (rc, p) = tp_ensure p sz;
     if rc = -1 then Some (None, p)
     else do {
       (p, h) \<leftarrow> tpi_encode_header M p (tp_code TP_UPDATE);
       c \<leftarrow> put (mp_encode_map M 3) (tp_mem p, h);
       c \<leftarrow> put (mp_encode_uint M (tp_key_code TP_SPACE)) c;
       c \<leftarrow> put (mp_encode_uint M (ucast space)) c;
       c \<leftarrow> put (mp_encode_uint M (tp_key_code TP_KEY)) c;
       tp_finish p c sz } }"

definition tp_updatebegin :: "msgpuck \<Rightarrow> tp \<Rightarrow> u32 \<Rightarrow> tp_result" where
  "tp_updatebegin M p op_count = do {
     sz \<leftarrow> as_int (mp_sizeof_uint M (tp_key_code TP_TUPLE) + mp_sizeof_array M op_count);
     let (rc, p) = tp_ensure p sz;
     if rc = -1 then Some (None, p)
     else do {
       c \<leftarrow> put (mp_encode_uint M (tp_key_code TP_TUPLE)) (tp_mem p, tp_p p);
       c \<leftarrow> put (mp_encode_array M op_count) c;
       tp_finish p c sz } }"

definition tp_op :: "msgpuck \<Rightarrow> tp \<Rightarrow> byte \<Rightarrow> u32 \<Rightarrow> tp_result" where
  "tp_op M p op field_no = do {
     sz \<leftarrow> as_int (mp_sizeof_array M 3 + mp_sizeof_str M 1 + mp_sizeof_uint M (ucast field_no));
     let (rc, p) = tp_ensure p sz;
     if rc = -1 then Some (None, p)
     else do {
       c \<leftarrow> put (mp_encode_array M 3) (tp_mem p, tp_p p);
       c \<leftarrow> put (mp_encode_str M [op]) c;
       c \<leftarrow> put (mp_encode_uint M (ucast field_no)) c;
       tp_finish p c sz } }"

text \<open>All three integers are sized as \<open>field_no\<close>.\<close>

definition tp_op_splice :: "msgpuck \<Rightarrow> tp \<Rightarrow> u32 \<Rightarrow> u32 \<Rightarrow> u32 \<Rightarrow> bytes \<Rightarrow> u32 \<Rightarrow> tp_result" where
  "tp_op_splice M p field_no offset cut_limit paste paste_len = do {
     sz \<leftarrow> as_int (mp_sizeof_array M 5 + mp_sizeof_str M 1 + mp_sizeof_uint M (ucast field_no) +
                mp_sizeof_uint M (ucast field_no) + mp_sizeof_uint M (ucast field_no) +
                mp_sizeof_str M paste_len);
     let (rc, p) = tp_ensure p sz;
     if rc = -1 then Some (None, p)
     else do {
       c \<leftarrow> put (mp_encode_array M 5) (tp_mem p, tp_p p);
       c \<leftarrow> put (mp_encode_str M [58]) c;
       c \<leftarrow> put (mp_encode_uint M (ucast field_no)) c;
       c \<leftarrow> put (mp_encode_uint M (ucast offset)) c;
       c \<leftarrow> put (mp_encode_uint M (ucast cut_limit)) c;
       str \<leftarrow> slice 0 (unat paste_len) paste;
       c \<leftarrow> put (mp_encode_str M str) c;
       tp_finish p c sz } }"

text \<open>The current request's identifier is patched in place.\<close>

definition tp_reqid :: "tp \<Rightarrow> u32 \<Rightarrow> tp option" where
  "tp_reqid p reqid = do {
     h \<leftarrow> tp_sync p;
     mem \<leftarrow> poke h [0xce] (tp_mem p);
     mem \<leftarrow> poke (h + 1) (be 4 (unat reqid)) mem;
     Some (p\<lparr>tp_mem := mem\<rparr>) }"

section \<open>Values\<close>

definition tp_encode_nil :: "msgpuck \<Rightarrow> tp \<Rightarrow> tp_result" where
  "tp_encode_nil M p = do {
     sz \<leftarrow> as_int (mp_sizeof_nil M);
     let (rc, p) = tp_ensure p sz;
     if rc = -1 then Some (None, p)
     else do {
       c \<leftarrow> put (mp_encode_nil M) (tp_mem p, tp_p p);
       tp_finish p c sz } }"

definition tp_encode_uint :: "msgpuck \<Rightarrow> tp \<Rightarrow> u64 \<Rightarrow> tp_result" where
  "tp_encode_uint M p num = do {
     sz \<leftarrow> as_int (mp_sizeof_uint M num);
     let (rc, p) = tp_ensure p sz;
     if rc = -1 then Some (None, p)
     else do {
       c \<leftarrow> put (mp_encode_uint M num) (tp_mem p, tp_p p);
       tp_finish p c sz } }"

definition tp_encode_int :: "msgpuck \<Rightarrow> tp \<Rightarrow> u64 \<Rightarrow> tp_result" where
  "tp_encode_int M p num = do {
     sz \<leftarrow> as_int (mp_sizeof_int M num);
     let (rc, p) = tp_ensure p sz;
     if rc = -1 then Some (None, p)
     else do {
       c \<leftarrow> put (mp_encode_int M num) (tp_mem p, tp_p p);
       tp_finish p c sz } }"

definition tp_encode_str :: "msgpuck \<Rightarrow> tp \<Rightarrow> bytes \<Rightarrow> u32 \<Rightarrow> tp_result" where
  "tp_encode_str M p str len = do {
     sz \<leftarrow> as_int (mp_sizeof_str M len);
     let (rc, p) = tp_ensure p sz;
     if rc = -1 then Some (None, p)
     else do {
       s \<leftarrow> slice 0 (unat len) str;
       c \<leftarrow> put (mp_encode_str M s) (tp_mem p, tp_p p);
       tp_finish p c sz } }"

definition tp_encode_sz :: "msgpuck \<Rightarrow> tp \<Rightarrow> bytes \<Rightarrow> tp_result" where
  "tp_encode_sz M p str = do {
     len \<leftarrow> c_strlen str;
     let len = (word_of_nat len :: u32);
     sz \<leftarrow> as_int (mp_sizeof_str M len);
     let (rc, p) = tp_ensure p sz;
     if rc = -1 then Some (None, p)
     else do {
       s \<leftarrow> slice 0 (unat len) str;
       c \<leftarrow> put (mp_encode_str M s) (tp_mem p, tp_p p);
       tp_finish p c sz } }"

definition tp_sz :: "msgpuck \<Rightarrow> tp \<Rightarrow> bytes \<Rightarrow> tp_result" where
  "tp_sz M p str = tp_encode_sz M p str"

definition tp_encode_bin :: "msgpuck \<Rightarrow> tp \<Rightarrow> bytes \<Rightarrow> u32 \<Rightarrow> tp_result" where
  "tp_encode_bin M p str len = do {
     sz \<leftarrow> as_int (mp_sizeof_bin M len);
     let (rc, p) = tp_ensure p sz;
     if rc = -1 then Some (None, p)
     else do {
       s \<leftarrow> slice 0 (unat len) str;
       c \<leftarrow> put (mp_encode_bin M s) (tp_mem p, tp_p p);
       tp_finish p c sz } }"

definition tp_encode_array :: "msgpuck \<Rightarrow> tp \<Rightarrow> u32 \<Rightarrow> tp_result" where
  "tp_encode_array M p n = do {
     sz \<leftarrow> as_int (mp_sizeof_array M n);
     let (rc, p) = tp_ensure p sz;
     if rc = -1 then Some (None, p)
     else do {
       c \<leftarrow> put (mp_encode_array M n) (tp_mem p, tp_p p);
       tp_finish p c sz } }"

definition tp_encode_map :: "msgpuck \<Rightarrow> tp \<Rightarrow> u32 \<Rightarrow> tp_result" where
  "tp_encode_map M p n = do {
     sz \<leftarrow> as_int (mp_sizeof_map M n);
     let (rc, p) = tp_ensure p sz;
     if rc = -1 then Some (None, p)
     else do {
       c \<leftarrow> put (mp_encode_map M n) (tp_mem p, tp_p p);
       tp_finish p c sz } }"

definition tp_encode_bool :: "msgpuck \<Rightarrow> tp \<Rightarrow> bool \<Rightarrow> tp_result" where
  "tp_encode_bool M p val = do {
     sz \<leftarrow> as_int (mp_sizeof_bool M val);
     let (rc, p) = tp_ensure p sz;
     if rc = -1 then Some (None, p)
     else do {
       c \<leftarrow> put (mp_encode_bool M val) (tp_mem p, tp_p p);
       tp_finish p c sz } }"

definition tp_encode_float :: "msgpuck \<Rightarrow> tp \<Rightarrow> u32 \<Rightarrow> tp_result" where
  "tp_encode_float M p num = do {
     sz \<leftarrow> as_int (mp_sizeof_float M num);
     let (rc, p) = tp_ensure p sz;
     if rc = -1 then Some (None, p)
     else do {
       c \<leftarrow> put (mp_encode_float M num) (tp_mem p, tp_p p);
       tp_finish p c sz } }"

definition tp_encode_double :: "msgpuck \<Rightarrow> tp \<Rightarrow> u64 \<Rightarrow> tp_result" where
  "tp_encode_double M p num = do {
     sz \<leftarrow> as_int (mp_sizeof_double M num);
     let (rc, p) = tp_ensure p sz;
     if rc = -1 then Some (None, p)
     else do {
       c \<leftarrow> put (mp_encode_double M num) (tp_mem p, tp_p p);
       tp_finish p c sz } }"

text \<open>
  \<open>mp_vformat\<close> is msgpuck's: for a capacity it returns the size it needs and the bytes that it
  stores.  Both calls of \<open>tp_format\<close> pass the capacity that was there before the reallocation.
\<close>

definition tp_format :: "(nat \<Rightarrow> nat \<times> bytes) \<Rightarrow> tp \<Rightarrow> tp_result" where
  "tp_format vf p = do {
     let unused = tp_unused p;
     let (sz, bs) = vf unused;
     mem \<leftarrow> poke (tp_p p) bs (tp_mem p);
     let p = p\<lparr>tp_mem := mem\<rparr>;
     if sz > unused then do {
       let (rc, p) = tp_ensure p sz;
       if rc = -1 then Some (None, p)
       else do {
         mem \<leftarrow> poke (tp_p p) (snd (vf unused)) (tp_mem p);
         tp_add (p\<lparr>tp_mem := mem\<rparr>) sz } }
     else tp_add p sz }"

definition tp_tuple :: "msgpuck \<Rightarrow> tp \<Rightarrow> u32 \<Rightarrow> tp_result" where
  "tp_tuple M p field_count = tp_encode_array M p field_count"

definition tp_key :: "msgpuck \<Rightarrow> tp \<Rightarrow> u32 \<Rightarrow> tp_result" where
  "tp_key M p part_count = tp_encode_array M p part_count"

end
