(* ===== verification/Tp_Frames.thy ===== *)
theory Tp_Frames
  imports Tp_Request Msgpack_Ref
begin

text \<open>
  What the request writer of \<open>include/tp.h\<close> leaves in its buffer: finished packages, then the
  current one, whose length prefix counts everything added so far and whose identifier can be
  patched.  An operation either extends the current package or returns NULL and changes no byte
  of the data.
\<close>

section \<open>The current package\<close>

definition tp_header :: "msgpuck \<Rightarrow> u32 \<Rightarrow> u32 \<Rightarrow> bytes" where
  "tp_header M code sync = mp_encode_map M 2 @ mp_encode_uint M 0 @ mp_encode_uint M (ucast code) @
     mp_encode_uint M 1 @ 0xce # be 4 (unat sync)"

definition tp_frame :: "msgpuck \<Rightarrow> u32 \<Rightarrow> u32 \<Rightarrow> bytes \<Rightarrow> bytes" where
  "tp_frame M code sync body = package (tp_header M code sync @ body)"

text \<open>\<open>pre\<close> are the bytes before the current package.\<close>

definition tp_rel :: "msgpuck \<Rightarrow> tp \<Rightarrow> bytes \<Rightarrow> u32 \<Rightarrow> u32 \<Rightarrow> bytes \<Rightarrow> bool" where
  "tp_rel M p pre code sync body \<longleftrightarrow>
     tp_buf p = pre @ tp_frame M code sync body \<and> tp_p p \<le> tp_size p \<and>
     length (tp_header M code sync @ body) < 4294967296 \<and> tp_szp p = Some (length pre) \<and>
     tp_sync p = Some (length pre + length (tp_header M code sync))"

text \<open>A reserve function that gives the room it was asked for and keeps the data.\<close>

definition reserve_keeps :: "reserve \<Rightarrow> bool" where
  "reserve_keeps f \<longleftrightarrow> (\<forall>mem used req mem'. used \<le> length mem \<longrightarrow> f mem used req = Some mem' \<longrightarrow>
     used + req \<le> length mem' \<and> take used mem' = take used mem)"

definition tp_safe :: "tp \<Rightarrow> bool" where
  "tp_safe p \<longleftrightarrow> tp_p p \<le> tp_size p \<and> (\<forall>f. tp_reserve p = Some f \<longrightarrow> reserve_keeps f)"

lemma tp_buf_length: "tp_p p \<le> tp_size p \<Longrightarrow> length (tp_buf p) = tp_p p"
  by (simp add: tp_buf_def tp_size_def)

text \<open>An ensured buffer has the room and the same data.\<close>

lemma tp_ensure_ok:
  assumes "tp_safe p" "tp_ensure p n = (rc, q)" "rc \<noteq> -1"
  shows "n \<le> tp_unused q" "tp_buf q = tp_buf p" "tp_p q = tp_p p" "tp_szp q = tp_szp p"
    "tp_sync q = tp_sync p" "tp_reserve q = tp_reserve p" "tp_safe q"
proof -
  have *: "n \<le> tp_unused q \<and> tp_buf q = tp_buf p \<and> tp_p q = tp_p p \<and> tp_szp q = tp_szp p \<and>
    tp_sync q = tp_sync p \<and> tp_reserve q = tp_reserve p \<and> tp_safe q"
  proof (cases "tp_unused p \<ge> n")
    case True
    then show ?thesis using assms by (simp add: tp_ensure_def)
  next
    case False
    then obtain f np where f: "tp_reserve p = Some f" "f (tp_mem p) (tp_p p) n = Some np" "q = p\<lparr>tp_mem := np\<rparr>"
      using assms by (auto simp: tp_ensure_def split: option.splits)
    then have "tp_p p + n \<le> length np" "take (tp_p p) np = take (tp_p p) (tp_mem p)"
      using assms(1) by (auto simp: tp_safe_def reserve_keeps_def tp_size_def)
    then show ?thesis
      using f assms(1) by (auto simp: tp_unused_def tp_size_def tp_buf_def tp_safe_def)
  qed
  then show "n \<le> tp_unused q" "tp_buf q = tp_buf p" "tp_p q = tp_p p" "tp_szp q = tp_szp p"
    "tp_sync q = tp_sync p" "tp_reserve q = tp_reserve p" "tp_safe q" by simp_all
qed

lemma tp_ensure_room: "n \<le> tp_unused p \<Longrightarrow> tp_ensure p n = (0, p)"
  by (simp add: tp_ensure_def)

lemma tp_ensure_fail: "tp_ensure p n = (-1, q) \<Longrightarrow> q = p"
  by (auto simp: tp_ensure_def split: if_splits option.splits)

text \<open>A fixed buffer refuses exactly what does not fit.\<close>

lemma tp_ensure_fixed: "tp_reserve p = None \<Longrightarrow> tp_ensure p n = (if n \<le> tp_unused p then 0 else -1, p)"
  by (simp add: tp_ensure_def)

text \<open>The length field, rewritten behind data that grew by \<open>bs\<close>.\<close>

lemma be4_word: "n < 4294967296 \<Longrightarrow> unat (word_of_int (int n) :: u32) = n"
  by (simp add: unat_of_nat)

lemma tp_add_block:
  assumes "tp_p p + n \<le> length (tp_mem p)" "tp_szp p = Some (length pre)"
    "take (tp_p p + n) (tp_mem p) = pre @ hd5 @ rest" "length hd5 = 5" "length rest < 4294967296"
  shows "\<exists>q. tp_add p n = Some (Some (tp_p p), q) \<and> tp_buf q = pre @ package rest \<and> tp_p q = tp_p p + n \<and>
    tp_size q = tp_size p \<and> tp_szp q = tp_szp p \<and> tp_sync q = tp_sync p \<and> tp_reserve q = tp_reserve p \<and>
    drop (tp_p q) (tp_mem q) = drop (tp_p p + n) (tp_mem p)"
proof -
  define mem where "mem = tp_mem p"
  have mem: "mem = pre @ hd5 @ rest @ drop (tp_p p + n) mem"
    using append_take_drop_id [of "tp_p p + n" mem] assms(3) by (simp add: mem_def)
  have len: "tp_p p + n = length pre + 5 + length rest"
    using arg_cong [OF assms(3), of length] assms(1,4) by simp
  have w: "unat (word_of_int (int (tp_p p + n) - int (length pre) - 5) :: u32) = length rest"
    using be4_word [OF assms(5)] by (simp add: len)
  define l where "l = be 4 (length rest)"
  have "poke (length pre) [0xce] mem = Some (take (length pre) mem @ [0xce] @ drop (length pre + 1) mem)"
    using assms(1) len by (simp add: poke_def mem_def)
  moreover have "poke (length pre + 1) l (take (length pre) mem @ [0xce] @ drop (length pre + 1) mem)
      = Some (take (length pre) mem @ (0xce # l) @ drop (length pre + 5) mem)"
  proof -
    have "length pre + 5 \<le> length mem" using assms(1) len by (simp add: mem_def)
    then show ?thesis by (auto simp: poke_def l_def min_def add.commute)
  qed
  ultimately have add: "tp_add p n = Some (Some (tp_p p), p\<lparr>tp_p := tp_p p + n,
      tp_mem := take (length pre) mem @ (0xce # l) @ drop (length pre + 5) mem\<rparr>)"
    using assms(1,2) w by (simp add: tp_add_def tp_size_def mem_def [symmetric] l_def)
  have t: "take (length pre) mem = pre" by (subst mem) simp
  have d: "drop (length pre + 5) mem = rest @ drop (tp_p p + n) mem"
    by (subst mem) (simp add: assms(4))
  have lu: "luint (length rest) = 0xce # l" using assms(5) by (simp add: luint_def l_def)
  define q where "q = p\<lparr>tp_p := tp_p p + n, tp_mem := pre @ (0xce # l) @ rest @ drop (tp_p p + n) mem\<rparr>"
  have "tp_add p n = Some (Some (tp_p p), q)" unfolding add t d q_def by simp
  moreover have "tp_buf q = pre @ package rest"
  proof -
    have "take (tp_p p + n) ((pre @ (0xce # l) @ rest) @ drop (tp_p p + n) mem) = pre @ (0xce # l) @ rest"
      using append_eq_conv_conj [of "pre @ (0xce # l) @ rest" "drop (tp_p p + n) mem"
          "(pre @ (0xce # l) @ rest) @ drop (tp_p p + n) mem"] len
      by (simp add: l_def)
    then show ?thesis by (simp add: tp_buf_def q_def package_def lu)
  qed
  moreover have "tp_size q = tp_size p"
    using arg_cong [OF mem, of length] assms(4) by (simp add: tp_size_def q_def l_def mem_def)
  moreover have "drop (tp_p q) (tp_mem q) = drop (tp_p p + n) (tp_mem p)"
  proof -
    have "length (pre @ (0xce # l) @ rest) = tp_p p + n" using len by (simp add: l_def)
    then have "drop (tp_p p + n) ((pre @ (0xce # l) @ rest) @ drop (tp_p p + n) mem) = drop (tp_p p + n) mem"
      by (metis append_eq_conv_conj)
    moreover have "tp_p q = tp_p p + n" "tp_mem q = (pre @ (0xce # l) @ rest) @ drop (tp_p p + n) mem" by (simp_all add: q_def)
    ultimately show ?thesis by (simp only: mem_def)
  qed
  ultimately show ?thesis by (intro exI [of _ q]) (simp add: q_def)
qed

section \<open>Starting a package and extending it\<close>

text \<open>The common shape of the functions that add a value, and of those that start a request.\<close>

definition add_op :: "tp \<Rightarrow> bytes \<Rightarrow> tp_result" where
  "add_op p bs = do {
     sz \<leftarrow> as_int (length bs);
     let (rc, p) = tp_ensure p sz;
     if rc = -1 then Some (None, p)
     else do { c \<leftarrow> put bs (tp_mem p, tp_p p); tp_finish p c sz } }"

definition start_op :: "msgpuck \<Rightarrow> tp \<Rightarrow> u32 \<Rightarrow> bytes \<Rightarrow> tp_result" where
  "start_op M p code body = do {
     sz \<leftarrow> as_int (tpi_sizeof_header M code + length body);
     let (rc, p) = tp_ensure p sz;
     if rc = -1 then Some (None, p)
     else do {
       (p, h) \<leftarrow> tpi_encode_header M p code;
       c \<leftarrow> put body (tp_mem p, h);
       tp_finish p c sz } }"

text \<open>NULL and no change, or a longer current package.\<close>

definition extended :: "msgpuck \<Rightarrow> tp \<Rightarrow> nat \<Rightarrow> tp_result \<Rightarrow> bytes \<Rightarrow> u32 \<Rightarrow> u32 \<Rightarrow> bytes \<Rightarrow> bool" where
  "extended M p n r pre code sync body \<longleftrightarrow>
     r = Some (None, p) \<and> tp_unused p < n \<or>
     (\<exists>q. r = Some (Some (tp_p p), q) \<and> tp_rel M q pre code sync body \<and> tp_safe q \<and>
        tp_reserve q = tp_reserve p \<and> (n \<le> tp_unused p \<longrightarrow> tp_unused q = tp_unused p - n))"

lemma tp_rel_ensure:
  assumes "tp_safe p" "tp_rel M p pre code sync body" "tp_ensure p n = (rc, q)" "rc \<noteq> -1"
  shows "tp_rel M q pre code sync body"
  using assms(2) tp_ensure_ok [OF assms(1,3,4)] by (simp add: tp_rel_def tp_safe_def)

lemma tp_buf_put:
  "tp_p p + length bs \<le> length (tp_mem p) \<Longrightarrow>
     take (tp_p p + length bs) (take (tp_p p) (tp_mem p) @ bs @ drop (tp_p p + length bs) (tp_mem p)) = tp_buf p @ bs"
  by (simp add: tp_buf_def)

lemma add_op_extended:
  assumes "tp_safe p" "tp_rel M p pre code sync body" "length bs < 2147483648"
    "length (tp_header M code sync @ body @ bs) < 4294967296"
  shows "extended M p (length bs) (add_op p bs) pre code sync (body @ bs)"
proof -
  obtain rc q where e: "tp_ensure p (length bs) = (rc, q)" by (cases "tp_ensure p (length bs)")
  show ?thesis
  proof (cases "rc = -1")
    case True
    with e have "q = p" "tp_unused p < length bs"
      using tp_ensure_fail [of p "length bs" q] by (auto simp: tp_ensure_def not_le split: if_splits)
    then show ?thesis
      using True e assms(3) by (simp add: extended_def add_op_def as_int_def)
  next
    case False
    note q = tp_ensure_ok [OF assms(1) e False]
    have rel: "tp_rel M q pre code sync body" by (rule tp_rel_ensure [OF assms(1,2) e False])
    define q' where "q' = q\<lparr>tp_mem := take (tp_p q) (tp_mem q) @ bs @ drop (tp_p q + length bs) (tp_mem q)\<rparr>"
    have room: "tp_p q + length bs \<le> length (tp_mem q)"
      using q(1,7) by (auto simp: tp_unused_def tp_size_def tp_safe_def)
    have put: "put bs (tp_mem q, tp_p q) = Some (tp_mem q', tp_p q + length bs)"
      using room by (simp add: put_eq_Some q'_def)
    define l where "l = be 4 (length (tp_header M code sync @ body))"
    have "tp_buf q = pre @ (0xce # l) @ tp_header M code sync @ body"
      using rel by (simp add: tp_rel_def tp_frame_def package_def luint_def l_def)
    then have "take (tp_p q + length bs) (tp_mem q') = pre @ (0xce # l) @ tp_header M code sync @ body @ bs"
      using tp_buf_put [OF room] by (simp add: q'_def)
    moreover have "tp_p q' + length bs \<le> length (tp_mem q')" "tp_szp q' = Some (length pre)"
      using room rel by (simp_all add: q'_def tp_rel_def)
    ultimately obtain r where r: "tp_add q' (length bs) = Some (Some (tp_p q'), r)"
      "tp_buf r = pre @ package (tp_header M code sync @ body @ bs)" "tp_p r = tp_p q' + length bs"
      "tp_size r = tp_size q'" "tp_szp r = tp_szp q'" "tp_sync r = tp_sync q'" "tp_reserve r = tp_reserve q'"
      using tp_add_block [of q' "length bs" pre "0xce # l" "tp_header M code sync @ body @ bs"] assms(4)
      by (auto simp: q'_def l_def)
    have "tp_rel M r pre code sync (body @ bs)"
      using r rel room assms(4) by (simp add: tp_rel_def tp_frame_def q'_def tp_size_def)
    moreover have "tp_safe r" "tp_reserve r = tp_reserve p"
      using r q(6,7) room by (simp_all add: tp_safe_def q'_def tp_size_def)
    moreover have "length bs \<le> tp_unused p \<longrightarrow> tp_unused r = tp_unused p - length bs"
      using r e room tp_ensure_room [of "length bs" p] by (auto simp: q'_def tp_unused_def tp_size_def)
    moreover have "add_op p bs = Some (Some (tp_p p), r)"
      using e False put r(1) assms(3) q(3) by (simp add: add_op_def as_int_def tp_finish_def q'_def)
    ultimately show ?thesis by (auto simp: extended_def)
  qed
qed

context msgpuck_laws begin

lemma tpi_sizeof_header_eq: "tpi_sizeof_header M code = 5 + length (tp_header M code 0)"
proof -
  have "length (tp_header M code 0) = length (mp_encode_map M 2) + length (mp_encode_uint M 0) +
      length (mp_encode_uint M (ucast code)) + length (mp_encode_uint M 1) + 5"
    by (simp add: tp_header_def)
  then show ?thesis by (simp add: tpi_sizeof_header_def mp_len)
qed

lemma tpi_encode_header_put:
  "tpi_encode_header M p code = map_option
     (\<lambda>c. (p\<lparr>tp_mem := fst c, tp_szp := Some (tp_p p),
            tp_sync := Some (tp_p p + length (tp_header M code 0))\<rparr>, snd c))
     (put (tp_header M code 0) (tp_mem p, tp_p p + 5))"
proof -
  define a where "a = mp_encode_map M 2 @ mp_encode_uint M 0 @ mp_encode_uint M (ucast code) @ mp_encode_uint M 1"
  have h: "tp_header M code 0 = a @ 0xce # be 4 0" by (simp add: tp_header_def a_def)
  have "tpi_encode_header M p code = Option.bind (put a (tp_mem p, tp_p p + 5))
      (\<lambda>c. Option.bind (put [0xce] c) (\<lambda>d. Option.bind (put (be 4 0) d) (\<lambda>d.
        Some (p\<lparr>tp_mem := fst d, tp_szp := Some (tp_p p), tp_sync := Some (snd c)\<rparr>, snd d))))"
    by (simp add: tpi_encode_header_def a_def put_simps Let_def)
  also have "\<dots> = Option.bind (put a (tp_mem p, tp_p p + 5))
      (\<lambda>c. Option.bind (put (0xce # be 4 0) c) (\<lambda>d.
        Some (p\<lparr>tp_mem := fst d, tp_szp := Some (tp_p p), tp_sync := Some (snd c)\<rparr>, snd d)))"
    by (simp add: put_simps)
  also have "\<dots> = map_option
     (\<lambda>c. (p\<lparr>tp_mem := fst c, tp_szp := Some (tp_p p), tp_sync := Some (tp_p p + 5 + length a)\<rparr>, snd c))
     (put (a @ 0xce # be 4 0) (tp_mem p, tp_p p + 5))"
    by (auto simp: put_def poke_def map_option_case split: option.splits)
  also have "tp_p p + 5 + length a = tp_p p + length (tp_header M code 0)" by (simp add: h)
  finally show ?thesis by (simp only: h)
qed

lemma start_op_extended:
  assumes "tp_safe p" "tpi_sizeof_header M code + length body < 2147483648"
  shows "extended M p (tpi_sizeof_header M code + length body) (start_op M p code body) (tp_buf p) code 0 body"
proof -
  define n where "n = tpi_sizeof_header M code + length body"
  define hd where "hd = tp_header M code 0"
  obtain rc q where e: "tp_ensure p n = (rc, q)" by (cases "tp_ensure p n")
  show ?thesis
  proof (cases "rc = -1")
    case True
    with e have "q = p" "tp_unused p < n"
      using tp_ensure_fail [of p n q] by (auto simp: tp_ensure_def not_le split: if_splits)
    then show ?thesis
      using True e assms(2) by (simp add: extended_def start_op_def as_int_def n_def)
  next
    case False
    note q = tp_ensure_ok [OF assms(1) e False]
    have nl: "n = 5 + length hd + length body" by (simp add: n_def hd_def tpi_sizeof_header_eq)
    have room: "tp_p q + n \<le> length (tp_mem q)"
      using q(1,7) by (auto simp: tp_unused_def tp_size_def tp_safe_def)
    define gap where "gap = take 5 (drop (tp_p q) (tp_mem q))"
    have gap: "length gap = 5" "take (tp_p q + 5) (tp_mem q) = tp_buf q @ gap"
      using room nl by (simp_all add: gap_def tp_buf_def take_add)
    have lb: "length (tp_buf q) = tp_p q" using q(7) by (simp add: tp_safe_def tp_buf_length)
    define mem where "mem = tp_buf q @ gap @ hd @ body @ drop (tp_p q + n) (tp_mem q)"
    have put: "Option.bind (put hd (tp_mem q, tp_p q + 5)) (put body) = Some (mem, tp_p q + n)"
      using room nl gap(2) by (simp add: put_put put_eq_Some mem_def add.assoc)
    define q' where "q' = q\<lparr>tp_szp := Some (tp_p q), tp_sync := Some (tp_p q + length hd), tp_mem := mem\<rparr>"
    have "take (tp_p q' + n) (tp_mem q') = tp_buf q @ gap @ hd @ body"
      using append_eq_conv_conj [of "tp_buf q @ gap @ hd @ body" "drop (tp_p q + n) (tp_mem q)" mem] lb gap(1) nl
      by (simp add: q'_def mem_def)
    moreover have lm: "length mem = length (tp_mem q)"
      using room lb gap(1) nl by (simp add: mem_def)
    moreover have "length (hd @ body) < 4294967296"
      using assms(2) nl by (simp add: n_def)
    ultimately obtain r where r: "tp_add q' n = Some (Some (tp_p q'), r)"
      "tp_buf r = tp_buf q @ package (hd @ body)" "tp_p r = tp_p q' + n"
      "tp_size r = tp_size q'" "tp_szp r = tp_szp q'" "tp_sync r = tp_sync q'" "tp_reserve r = tp_reserve q'"
      using tp_add_block [of q' n "tp_buf q" gap "hd @ body"] room gap(1) lb
      by (auto simp: q'_def)
    have "tp_rel M r (tp_buf p) code 0 body"
      using r room lb lm \<open>length (hd @ body) < 4294967296\<close> q(2)
      by (simp add: tp_rel_def tp_frame_def q'_def tp_size_def hd_def)
    moreover have "tp_safe r" "tp_reserve r = tp_reserve p"
      using r q(6,7) room lm by (simp_all add: tp_safe_def q'_def tp_size_def)
    moreover have "n \<le> tp_unused p \<longrightarrow> tp_unused r = tp_unused p - n"
      using r e room lm tp_ensure_room [of n p] by (auto simp: q'_def tp_unused_def tp_size_def)
    moreover have "start_op M p code body = Some (Some (tp_p p), r)"
    proof -
      obtain c where c: "put hd (tp_mem q, tp_p q + 5) = Some c" "put body c = Some (mem, tp_p q + n)"
        using put by (auto simp: bind_eq_Some_conv)
      have "start_op M p code body = tp_finish (q\<lparr>tp_mem := fst c, tp_szp := Some (tp_p q),
          tp_sync := Some (tp_p q + length hd)\<rparr>) (mem, tp_p q + n) n"
        using e False c assms(2) by (simp add: start_op_def as_int_def n_def [symmetric] tpi_encode_header_put hd_def)
      then show ?thesis using r(1) q(3) by (simp add: tp_finish_def q'_def)
    qed
    ultimately show ?thesis by (auto simp: extended_def n_def)
  qed
qed

text \<open>The identifier in place.\<close>

lemma tp_reqid_rel:
  assumes "tp_rel M p pre code sync body"
  shows "\<exists>q. tp_reqid p r = Some q \<and> tp_rel M q pre code r body \<and> tp_size q = tp_size p \<and> tp_reserve q = tp_reserve p"
proof -
  define a where "a = mp_encode_map M 2 @ mp_encode_uint M 0 @ mp_encode_uint M (ucast code) @ mp_encode_uint M 1"
  define l where "l = be 4 (length (tp_header M code sync @ body))"
  define b where "b = pre @ (0xce # l) @ a"
  have hd: "tp_header M code s = a @ 0xce # be 4 (unat s)" for s by (simp add: tp_header_def a_def)
  have buf: "tp_buf p = b @ (0xce # be 4 (unat sync)) @ body"
    using assms by (simp add: tp_rel_def tp_frame_def package_def luint_def l_def b_def hd)
  have mem: "tp_mem p = b @ (0xce # be 4 (unat sync)) @ body @ drop (tp_p p) (tp_mem p)"
  proof -
    have "tp_mem p = tp_buf p @ drop (tp_p p) (tp_mem p)" by (simp add: tp_buf_def)
    then show ?thesis by (simp add: buf)
  qed
  have sync: "tp_sync p = Some (length b)" using assms by (simp add: tp_rel_def b_def l_def hd)
  define q where "q = p\<lparr>tp_mem := b @ (0xce # be 4 (unat r)) @ body @ drop (tp_p p) (tp_mem p)\<rparr>"
  have "poke (length b) [0xce] (tp_mem p) = Some (tp_mem p)"
    by (subst (1 2) mem) (simp add: poke_def)
  moreover have "poke (length b + 1) (be 4 (unat r)) (tp_mem p) = Some (tp_mem q)"
    by (subst mem) (simp add: poke_def q_def)
  ultimately have "tp_reqid p r = Some q" using sync by (simp add: tp_reqid_def q_def)
  moreover have "tp_size q = tp_size p"
    using arg_cong [OF mem, of length] by (simp add: tp_size_def q_def)
  moreover have "tp_rel M q pre code r body"
  proof -
    have lp: "tp_p p = length b + 5 + length body"
    proof -
      have "tp_p p \<le> tp_size p" using assms by (simp add: tp_rel_def)
      then show ?thesis using arg_cong [OF buf, of length] tp_buf_length [of p] by simp
    qed
    have "tp_buf q = b @ (0xce # be 4 (unat r)) @ body"
      using append_eq_conv_conj [of "b @ (0xce # be 4 (unat r)) @ body" "drop (tp_p p) (tp_mem p)" "tp_mem q"] lp
      by (simp add: tp_buf_def q_def)
    then show ?thesis
      using assms \<open>tp_size q = tp_size p\<close>
      by (simp add: tp_rel_def tp_frame_def package_def luint_def l_def b_def hd q_def)
  qed
  ultimately show ?thesis by (intro exI [of _ q]) (simp add: q_def)
qed

end

section \<open>The functions are instances\<close>

lemma start_opI:
  assumes "n = tpi_sizeof_header M code + length body"
    "\<And>q h sz. F q h sz = Option.bind (put body (tp_mem q, h)) (\<lambda>c. tp_finish q c sz)"
  shows "Option.bind (as_int n) (\<lambda>sz. case tp_ensure p sz of (rc, p) \<Rightarrow>
      if rc = -1 then Some (None, p)
      else Option.bind (tpi_encode_header M p code) (\<lambda>(p, h). F p h sz)) = start_op M p code body"
proof -
  have "F = (\<lambda>q h sz. Option.bind (put body (tp_mem q, h)) (\<lambda>c. tp_finish q c sz))"
    by (intro ext) (rule assms(2))
  then show ?thesis by (simp only: assms(1) start_op_def Let_def)
qed

lemma add_opI:
  assumes "n = length bs" "\<And>q sz. F q sz = Option.bind (put bs (tp_mem q, tp_p q)) (\<lambda>c. tp_finish q c sz)"
  shows "Option.bind (as_int n) (\<lambda>sz. case tp_ensure p sz of (rc, p) \<Rightarrow>
      if rc = -1 then Some (None, p) else F p sz) = add_op p bs"
proof -
  have "F = (\<lambda>q sz. Option.bind (put bs (tp_mem q, tp_p q)) (\<lambda>c. tp_finish q c sz))"
    by (intro ext) (rule assms(2))
  then show ?thesis by (simp only: assms(1) add_op_def Let_def)
qed

context msgpuck_laws begin

lemma length_str: "length s < 4294967296 \<Longrightarrow> length (mp_encode_str M s) = mp_sizeof_str M (word_of_nat (length s))"
  by (simp add: enc_str mp_len unat_of_nat)

lemma length_bin: "length s < 4294967296 \<Longrightarrow> length (mp_encode_bin M s) = mp_sizeof_bin M (word_of_nat (length s))"
  by (simp add: enc_bin mp_len unat_of_nat)

lemma tp_ping_start: "tp_ping M p = start_op M p (tp_code TP_PING) (mp_encode_map M 0)"
  unfolding tp_ping_def Let_def by (rule start_opI) (simp_all add: mp_len)

lemma tp_select_start: "tp_select M p space index offset iterator limit = start_op M p (tp_code TP_SELECT)
    (mp_encode_map M 6 @ mp_encode_uint M (tp_key_code TP_SPACE) @ mp_encode_uint M (ucast space) @
     mp_encode_uint M (tp_key_code TP_INDEX) @ mp_encode_uint M (ucast index) @
     mp_encode_uint M (tp_key_code TP_OFFSET) @ mp_encode_uint M (ucast offset) @
     mp_encode_uint M (tp_key_code TP_LIMIT) @ mp_encode_uint M (ucast limit) @
     mp_encode_uint M (tp_key_code TP_ITERATOR) @ mp_encode_uint M (tp_iterator_code iterator) @
     mp_encode_uint M (tp_key_code TP_KEY))"
  unfolding tp_select_def Let_def by (rule start_opI) (simp_all add: mp_len put_simps)

lemma tpi_encode_store_start: "tpi_encode_store M p ty space = start_op M p (tp_code ty)
    (mp_encode_map M 2 @ mp_encode_uint M (tp_key_code TP_SPACE) @ mp_encode_uint M (ucast space) @
     mp_encode_uint M (tp_key_code TP_TUPLE))"
  unfolding tpi_encode_store_def Let_def by (rule start_opI) (simp_all add: mp_len put_simps)

lemma tp_update_start: "tp_update M p space = start_op M p (tp_code TP_UPDATE)
    (mp_encode_map M 3 @ mp_encode_uint M (tp_key_code TP_SPACE) @ mp_encode_uint M (ucast space) @
     mp_encode_uint M (tp_key_code TP_KEY))"
  unfolding tp_update_def Let_def by (rule start_opI) (simp_all add: mp_len put_simps)

lemma tp_call_start:
  assumes "n \<le> length name" "n < 4294967296"
  shows "tp_call M p name n = start_op M p (tp_code TP_CALL)
    (mp_encode_map M 2 @ mp_encode_uint M (tp_key_code TP_FUNCTION) @ mp_encode_str M (take n name) @
     mp_encode_uint M (tp_key_code TP_TUPLE))"
  unfolding tp_call_def Let_def using assms length_str [of "take n name"]
  by (intro start_opI) (simp_all add: mp_len put_simps slice_def)

text \<open>The key of an expression has the same size as that of a function.\<close>

lemma tp_eval_start:
  assumes "n \<le> length name" "n < 4294967296"
  shows "tp_eval M p name n = start_op M p (tp_code TP_EVAL)
    (mp_encode_map M 2 @ mp_encode_uint M (tp_key_code TP_EXPRESSION) @ mp_encode_str M (take n name) @
     mp_encode_uint M (tp_key_code TP_TUPLE))"
  unfolding tp_eval_def Let_def using assms length_str [of "take n name"]
  by (intro start_opI) (simp_all add: mp_len put_simps slice_def)

lemma tp_values_add:
  "tp_updatebegin M p k = add_op p (mp_encode_uint M (tp_key_code TP_TUPLE) @ mp_encode_array M k)"
  "tp_op M p c f = add_op p (mp_encode_array M 3 @ mp_encode_str M [c] @ mp_encode_uint M (ucast f))"
  "tp_encode_nil M p = add_op p (mp_encode_nil M)"
  "tp_encode_uint M p u = add_op p (mp_encode_uint M u)"
  "sint u < 0 \<Longrightarrow> tp_encode_int M p u = add_op p (mp_encode_int M u)"
  "tp_encode_array M p k = add_op p (mp_encode_array M k)"
  "tp_encode_map M p k = add_op p (mp_encode_map M k)"
  "tp_encode_bool M p b = add_op p (mp_encode_bool M b)"
  "tp_encode_float M p k = add_op p (mp_encode_float M k)"
  "tp_encode_double M p u = add_op p (mp_encode_double M u)"
  unfolding tp_updatebegin_def tp_op_def tp_encode_nil_def tp_encode_uint_def tp_encode_int_def tp_encode_array_def
    tp_encode_map_def tp_encode_bool_def tp_encode_float_def tp_encode_double_def Let_def
  using length_str [of "[c]"]
  by (intro add_opI; simp add: mp_len put_simps)+

lemma tp_strings_add:
  assumes "length s < 4294967296"
  shows "tp_encode_str M p s (word_of_nat (length s)) = add_op p (mp_encode_str M s)"
    "tp_encode_bin M p s (word_of_nat (length s)) = add_op p (mp_encode_bin M s)"
    "0 \<notin> set s \<Longrightarrow> tp_encode_sz M p (s @ 0 # r) = add_op p (mp_encode_str M s)"
proof -
  have n: "unat (word_of_nat (length s) :: u32) = length s" using assms by (simp add: unat_of_nat)
  show "tp_encode_str M p s (word_of_nat (length s)) = add_op p (mp_encode_str M s)"
    "tp_encode_bin M p s (word_of_nat (length s)) = add_op p (mp_encode_bin M s)"
    unfolding tp_encode_str_def tp_encode_bin_def Let_def
    by (intro add_opI; simp add: n slice_def length_str [OF assms] length_bin [OF assms])+
  assume s: "0 \<notin> set s"
  show "tp_encode_sz M p (s @ 0 # r) = add_op p (mp_encode_str M s)"
    unfolding tp_encode_sz_def Let_def c_strlen_append [OF s] bind.bind_lunit
    by (rule add_opI) (simp_all add: n slice_def length_str [OF assms])
qed

lemma tp_splice_add:
  assumes "length s < 4294967296" "length (mp_encode_uint M (ucast offset)) = length (mp_encode_uint M (ucast field_no))"
    "length (mp_encode_uint M (ucast cut_limit)) = length (mp_encode_uint M (ucast field_no))"
  shows "tp_op_splice M p field_no offset cut_limit s (word_of_nat (length s)) = add_op p (mp_encode_array M 5 @ mp_encode_str M [58] @
    mp_encode_uint M (ucast field_no) @ mp_encode_uint M (ucast offset) @ mp_encode_uint M (ucast cut_limit) @ mp_encode_str M s)"
proof -
  have n: "unat (word_of_nat (length s) :: u32) = length s" using assms by (simp add: unat_of_nat)
  show ?thesis
    unfolding tp_op_splice_def Let_def using assms(2,3) length_str [of "[58]"]
    by (intro add_opI; simp add: n slice_def length_str [OF assms(1)] mp_len put_simps)
qed

end

end
