(* ===== verification/Tp_Client.thy ===== *)
theory Tp_Client
  imports Tp_Frames
begin

text \<open>
  A client of the request writer: it starts a request, adds values, and sets the identifier.
  With enough room in the buffer nothing fails, and a server reads the package back.
\<close>

section \<open>Values\<close>

datatype tp_val =
  Tv_nil | Tv_uint u64 | Tv_int u64 | Tv_str bytes | Tv_bin bytes | Tv_array u32 | Tv_map u32 | Tv_bool bool
| Tv_float u32 | Tv_double u64 | Tv_updatebegin u32 | Tv_op byte u32 | Tv_sz bytes | Tv_splice u32 u32 u32 bytes

fun tp_put :: "msgpuck \<Rightarrow> tp \<Rightarrow> tp_val \<Rightarrow> tp_result" where
  "tp_put M p Tv_nil = tp_encode_nil M p"
| "tp_put M p (Tv_uint u) = tp_encode_uint M p u"
| "tp_put M p (Tv_int u) = tp_encode_int M p u"
| "tp_put M p (Tv_str s) = tp_encode_str M p s (word_of_nat (length s))"
| "tp_put M p (Tv_bin s) = tp_encode_bin M p s (word_of_nat (length s))"
| "tp_put M p (Tv_array n) = tp_encode_array M p n"
| "tp_put M p (Tv_map n) = tp_encode_map M p n"
| "tp_put M p (Tv_bool b) = tp_encode_bool M p b"
| "tp_put M p (Tv_float f) = tp_encode_float M p f"
| "tp_put M p (Tv_double d) = tp_encode_double M p d"
| "tp_put M p (Tv_updatebegin n) = tp_updatebegin M p n"
| "tp_put M p (Tv_op c f) = tp_op M p c f"
| "tp_put M p (Tv_sz s) = tp_encode_sz M p (s @ [0])"
| "tp_put M p (Tv_splice f off lim s) = tp_op_splice M p f off lim s (word_of_nat (length s))"

fun tv_bytes :: "msgpuck \<Rightarrow> tp_val \<Rightarrow> bytes" where
  "tv_bytes M Tv_nil = mp_encode_nil M"
| "tv_bytes M (Tv_uint u) = mp_encode_uint M u"
| "tv_bytes M (Tv_int u) = mp_encode_int M u"
| "tv_bytes M (Tv_str s) = mp_encode_str M s"
| "tv_bytes M (Tv_bin s) = mp_encode_bin M s"
| "tv_bytes M (Tv_array n) = mp_encode_array M n"
| "tv_bytes M (Tv_map n) = mp_encode_map M n"
| "tv_bytes M (Tv_bool b) = mp_encode_bool M b"
| "tv_bytes M (Tv_float f) = mp_encode_float M f"
| "tv_bytes M (Tv_double d) = mp_encode_double M d"
| "tv_bytes M (Tv_updatebegin n) = mp_encode_uint M (tp_key_code TP_TUPLE) @ mp_encode_array M n"
| "tv_bytes M (Tv_op c f) = mp_encode_array M 3 @ mp_encode_str M [c] @ mp_encode_uint M (ucast f)"
| "tv_bytes M (Tv_sz s) = mp_encode_str M s"
| "tv_bytes M (Tv_splice f off lim s) = mp_encode_array M 5 @ mp_encode_str M [58] @ mp_encode_uint M (ucast f) @
     mp_encode_uint M (ucast off) @ mp_encode_uint M (ucast lim) @ mp_encode_str M s"

text \<open>
  msgpuck encodes negative numbers with \<open>mp_encode_int\<close>; lengths are of type \<open>uint32_t\<close>; a C string has no zero byte.  A
  splice is sized as if its three numbers were equally long.
\<close>

fun tv_ok :: "tp_val \<Rightarrow> bool" where
  "tv_ok (Tv_int u) \<longleftrightarrow> sint u < 0"
| "tv_ok (Tv_str s) \<longleftrightarrow> length s < 4294967296"
| "tv_ok (Tv_bin s) \<longleftrightarrow> length s < 4294967296"
| "tv_ok (Tv_sz s) \<longleftrightarrow> length s < 4294967296 \<and> 0 \<notin> set s"
| "tv_ok (Tv_splice f off lim s) \<longleftrightarrow> length s < 4294967296 \<and>
     uint_size (unat off) = uint_size (unat f) \<and> uint_size (unat lim) = uint_size (unat f)"
| "tv_ok _ \<longleftrightarrow> True"

text \<open>Values one after the other; \<open>False\<close> if one of the calls returned NULL.\<close>

fun tp_puts :: "msgpuck \<Rightarrow> tp \<Rightarrow> tp_val list \<Rightarrow> (bool \<times> tp) option" where
  "tp_puts M p [] = Some (True, p)"
| "tp_puts M p (v # vs) = do {
     (r, p) \<leftarrow> tp_put M p v;
     if r = None then Some (False, p) else tp_puts M p vs }"

text \<open>A request as a client makes it: start, values, identifier.\<close>

definition tp_client :: "msgpuck \<Rightarrow> (tp \<Rightarrow> tp_result) \<Rightarrow> tp_val list \<Rightarrow> u32 \<Rightarrow> tp \<Rightarrow> (bool \<times> tp) option" where
  "tp_client M start vs reqid p = do {
     (r, p) \<leftarrow> start p;
     if r = None then Some (False, p)
     else do {
       (ok, p) \<leftarrow> tp_puts M p vs;
       if ok then map_option (Pair True) (tp_reqid p reqid) else Some (False, p) } }"

context msgpuck_laws begin

lemma tp_put_add: "tv_ok v \<Longrightarrow> tp_put M p v = add_op p (tv_bytes M v)"
  by (cases v) (simp_all add: tp_values_add tp_strings_add tp_splice_add len_uint)

lemma tp_puts_rel:
  assumes "tp_safe p" "tp_rel M p pre code sync body" "\<forall>v \<in> set vs. tv_ok v"
    "length (concat (map (tv_bytes M) vs)) \<le> tp_unused p"
    "length (tp_header M code sync @ body @ concat (map (tv_bytes M) vs)) < 2147483648"
  shows "\<exists>q. tp_puts M p vs = Some (True, q) \<and> tp_rel M q pre code sync (body @ concat (map (tv_bytes M) vs)) \<and>
    tp_unused q = tp_unused p - length (concat (map (tv_bytes M) vs))"
  using assms
proof (induction vs arbitrary: p body)
  case Nil
  then show ?case by simp
next
  case (Cons v vs)
  define bs where "bs = tv_bytes M v"
  have "extended M p (length bs) (add_op p bs) pre code sync (body @ bs)"
    using Cons.prems by (intro add_op_extended) (simp_all add: bs_def)
  then obtain q where q: "add_op p bs = Some (Some (tp_p p), q)" "tp_rel M q pre code sync (body @ bs)"
    "tp_safe q" "tp_unused q = tp_unused p - length bs"
    using Cons.prems(4) by (auto simp: extended_def bs_def)
  define ws where "ws = concat (map (tv_bytes M) vs)"
  have "length ws \<le> tp_unused q" "length (tp_header M code sync @ (body @ bs) @ ws) < 2147483648"
    "\<forall>v \<in> set vs. tv_ok v"
    using Cons.prems(3-5) q(4) by (simp_all add: bs_def ws_def)
  from Cons.IH [OF q(3,2) this(3) this(1,2) [unfolded ws_def], folded ws_def] obtain r where
    "tp_puts M q vs = Some (True, r)" "tp_rel M r pre code sync (body @ bs @ ws)"
    "tp_unused r = tp_unused p - (length bs + length ws)"
    using q(4) by auto
  with q(1) Cons.prems(3) show ?case by (auto simp: tp_put_add bs_def ws_def)
qed

text \<open>The header of a package is a map with the code and the five-byte identifier.\<close>

lemma tp_header_map: "tp_header M code sync
    = body_bytes M [(0, mp_encode_uint M (ucast code)), (1, 0xce # be 4 (unat sync))]"
  by (simp add: tp_header_def body_bytes_def field_bytes_def)

lemma mp_obj_uint32: "mp_obj M (0xce # be 4 (unat (w :: u32)))"
  using dec_uint_fixed(1) [of w "[]"] by (simp add: mp_obj_def check_uint type_uint_fixed)

lemma tp_frame_parses:
  assumes "length fs < 4294967296" "\<forall>f \<in> set fs. mp_obj M (snd f)"
    "length (tp_header M code sync @ body_bytes M fs) < 18446744073709551616"
  shows "parse_frame M (tp_frame M code sync (body_bytes M fs) @ r) = Some ((ucast code, ucast sync, fs), r)"
  unfolding tp_frame_def tp_header_map
  by (rule parse_two_maps)
     (use assms dec_uint [of "ucast code" "[]"] dec_uint_fixed(1) [of sync "[]"] in
      \<open>simp_all add: mp_obj_uint mp_obj_uint32 field_uint_def tp_header_map\<close>)

text \<open>
  A request function that is \<open>start_op\<close> with the beginning \<open>b\<close> of a body, and values that
  complete the body.
\<close>

lemma tp_client_package:
  assumes "tp_safe p" "start = (\<lambda>p. start_op M p code b)" "\<forall>v \<in> set vs. tv_ok v"
    "b @ concat (map (tv_bytes M) vs) = body" "25 + length body \<le> tp_unused p" "length body < 2147483600"
  shows "\<exists>q. tp_client M start vs reqid p = Some (True, q) \<and> tp_buf q = tp_buf p @ tp_frame M code reqid body"
proof -
  have hl: "length (tp_header M code s) \<le> 15" for s
    using uint_size_le5 [of "unat code"] by (simp add: tp_header_def len_uint len_map)
  define n where "n = tpi_sizeof_header M code + length b"
  have n: "n \<le> 20 + length b" using hl [of 0] by (simp add: n_def tpi_sizeof_header_eq)
  have lb: "length body = length b + length (concat (map (tv_bytes M) vs))" by (simp add: assms(4) [symmetric])
  have "extended M p n (start_op M p code b) (tp_buf p) code 0 b"
    unfolding n_def using assms(6) hl [of 0] lb
    by (intro start_op_extended [OF assms(1)]) (simp add: tpi_sizeof_header_eq)
  then obtain q where q: "start_op M p code b = Some (Some (tp_p p), q)" "tp_rel M q (tp_buf p) code 0 b"
    "tp_safe q" "tp_unused q = tp_unused p - n"
    using assms(5) n lb by (auto simp: extended_def)
  have "length (concat (map (tv_bytes M) vs)) \<le> tp_unused q"
    "length (tp_header M code 0 @ b @ concat (map (tv_bytes M) vs)) < 2147483648"
    using assms(5,6) q(4) n lb hl [of 0] by simp_all
  from tp_puts_rel [OF q(3,2) assms(3) this] obtain r where
    r: "tp_puts M q vs = Some (True, r)" "tp_rel M r (tp_buf p) code 0 body"
    by (auto simp: assms(4))
  from tp_reqid_rel [OF r(2), of reqid] obtain t where
    "tp_reqid r reqid = Some t" "tp_rel M t (tp_buf p) code reqid body" by auto
  with q(1) r(1) show ?thesis
    by (intro exI [of _ t]) (simp add: tp_client_def assms(2) tp_rel_def)
qed

end

end
