(* ===== verification/Beer_Iter.thy ===== *)
theory Beer_Iter
  imports Msgpuck Beer_Buf
begin

text \<open>
  Iterators over MessagePack arrays and maps (\<open>beer/beer_iter.c\<close>, \<open>include/bee/beer_iter.h\<close>).
  A pointer into the iterated data is an offset, NULL is \<open>None\<close>.

  The locale \<open>cursor\<close> is the contract of an iterator: its items come in order, each once, the
  iteration ends, stays at its end, and can be rewound.  The array and the map iterator are
  shown to meet it; the iterators of \<open>include/tp.h\<close> meet it as well (\<open>Tp_Reply\<close>).
\<close>

section \<open>The iterators\<close>

datatype iter_status = BEER_ITER_OK | BEER_ITER_FAIL

record array_itr =
  ai_data :: bytes
  ai_first :: nat
  ai_elem :: "nat option"
  ai_end :: "nat option"
  ai_count :: u32
  ai_cur :: int

record map_itr =
  mi_data :: bytes
  mi_first :: nat
  mi_key :: "nat option"
  mi_key_end :: "nat option"
  mi_value :: "nat option"
  mi_value_end :: "nat option"
  mi_count :: u32
  mi_cur :: int

record 'x beer_iter =
  i_status :: iter_status
  i_alloc :: bool
  i_data :: 'x

text \<open>\<open>cur_index++\<close> on an \<open>int\<close> (undefined at \<open>INT_MAX\<close>) and its use as a \<open>uint32_t\<close>.\<close>

definition int_incr :: "int \<Rightarrow> int option" where
  "int_incr i = (if i < 2147483647 then Some (i + 1) else None)"

definition as_u32 :: "int \<Rightarrow> nat" where
  "as_u32 i = nat (i mod 4294967296)"

text \<open>\<open>mp_next(&p)\<close> for a pointer into the data: NULL is undefined.\<close>

definition mp_skip :: "msgpuck \<Rightarrow> bytes \<Rightarrow> nat option \<Rightarrow> nat option" where
  "mp_skip M data p = do { p \<leftarrow> p; n \<leftarrow> mp_next M (drop p data); Some (p + n) }"

definition beer_iter_array_next :: "msgpuck \<Rightarrow> array_itr beer_iter \<Rightarrow> (bool \<times> array_itr beer_iter) option" where
  "beer_iter_array_next M i = do {
     let itr = i_data i;
     cur \<leftarrow> int_incr (ai_cur itr);
     let itr = itr\<lparr>ai_cur := cur\<rparr>;
     if as_u32 cur \<ge> unat (ai_count itr)
     then Some (False, i\<lparr>i_data := itr, i_status := BEER_ITER_FAIL\<rparr>)
     else do {
       let elem = (if cur = 0 then Some (ai_first itr) else ai_end itr);
       e \<leftarrow> mp_skip M (ai_data itr) elem;
       Some (True, i\<lparr>i_data := itr\<lparr>ai_elem := elem, ai_end := Some e\<rparr>\<rparr>) } }"

definition beer_iter_array_rewind :: "array_itr beer_iter \<Rightarrow> array_itr beer_iter" where
  "beer_iter_array_rewind i = i\<lparr>i_data := (i_data i)\<lparr>ai_cur := -1, ai_elem := None, ai_end := None\<rparr>,
     i_status := BEER_ITER_OK\<rparr>"

text \<open>
  \<open>beer_iter_init\<close>: \<open>i\<close> tells whether the caller passed a structure, \<open>mem\<close> whether a new one
  is found; the result is the allocation mark, or NULL.
\<close>

definition beer_iter_init :: "bool \<Rightarrow> bool \<Rightarrow> bool option" where
  "beer_iter_init i mem = (let alloc = \<not> i in if alloc \<and> \<not> mem then None else Some alloc)"

definition beer_iter_array :: "msgpuck \<Rightarrow> bool \<Rightarrow> bool \<Rightarrow> bytes \<Rightarrow> array_itr beer_iter option option" where
  "beer_iter_array M i mem data =
     (if mp_check M data = None then Some None
      else if data = [] \<or> mp_typeof M (hd data) \<noteq> MP_ARRAY then Some None
      else case beer_iter_init i mem of
        None \<Rightarrow> Some None
      | Some alloc \<Rightarrow> do {
          (n, h) \<leftarrow> mp_decode_array M data;
          Some (Some \<lparr>i_status = BEER_ITER_OK, i_alloc = alloc,
            i_data = \<lparr>ai_data = data, ai_first = h, ai_elem = None, ai_end = None, ai_count = n, ai_cur = -1\<rparr>\<rparr>) })"

definition beer_iter_array_object :: "msgpuck \<Rightarrow> bool \<Rightarrow> bool \<Rightarrow> buf_stream \<Rightarrow> array_itr beer_iter option option" where
  "beer_iter_array_object M i mem s = beer_iter_array M i mem (sb_bytes (s_data s))"

definition beer_iter_map_next :: "msgpuck \<Rightarrow> map_itr beer_iter \<Rightarrow> (bool \<times> map_itr beer_iter) option" where
  "beer_iter_map_next M i = do {
     let itr = i_data i;
     cur \<leftarrow> int_incr (mi_cur itr);
     let itr = itr\<lparr>mi_cur := cur\<rparr>;
     if as_u32 cur \<ge> unat (mi_count itr)
     then Some (False, i\<lparr>i_data := itr, i_status := BEER_ITER_FAIL\<rparr>)
     else do {
       let key = (if cur = 0 then Some (mi_first itr) else mi_value_end itr);
       ke \<leftarrow> mp_skip M (mi_data itr) key;
       ve \<leftarrow> mp_skip M (mi_data itr) (Some ke);
       Some (True, i\<lparr>i_data := itr\<lparr>mi_key := key, mi_key_end := Some ke, mi_value := Some ke,
                       mi_value_end := Some ve\<rparr>\<rparr>) } }"

definition beer_iter_map_rewind :: "map_itr beer_iter \<Rightarrow> map_itr beer_iter" where
  "beer_iter_map_rewind i = i\<lparr>i_data := (i_data i)\<lparr>mi_cur := -1, mi_key := None, mi_key_end := None,
     mi_value := None, mi_value_end := None\<rparr>, i_status := BEER_ITER_OK\<rparr>"

definition beer_iter_map :: "msgpuck \<Rightarrow> bool \<Rightarrow> bool \<Rightarrow> bytes \<Rightarrow> map_itr beer_iter option option" where
  "beer_iter_map M i mem data =
     (if mp_check M data = None then Some None
      else if data = [] \<or> mp_typeof M (hd data) \<noteq> MP_MAP then Some None
      else case beer_iter_init i mem of
        None \<Rightarrow> Some None
      | Some alloc \<Rightarrow> do {
          (n, h) \<leftarrow> mp_decode_map M data;
          Some (Some \<lparr>i_status = BEER_ITER_OK, i_alloc = alloc,
            i_data = \<lparr>mi_data = data, mi_first = h, mi_key = None, mi_key_end = None, mi_value = None,
                      mi_value_end = None, mi_count = n, mi_cur = -1\<rparr>\<rparr>) })"

definition beer_iter_map_object :: "msgpuck \<Rightarrow> bool \<Rightarrow> bool \<Rightarrow> buf_stream \<Rightarrow> map_itr beer_iter option option" where
  "beer_iter_map_object M i mem s = beer_iter_map M i mem (sb_bytes (s_data s))"

text \<open>\<open>beer_next\<close> and \<open>beer_rewind\<close> call through the iterator's pointers.\<close>

definition beer_next :: "('i \<Rightarrow> (bool \<times> 'i) option) \<Rightarrow> 'i \<Rightarrow> (bool \<times> 'i) option" where
  "beer_next nxt i = nxt i"

definition beer_rewind :: "('x beer_iter \<Rightarrow> 'x beer_iter) option \<Rightarrow> 'x beer_iter \<Rightarrow> 'x beer_iter" where
  "beer_rewind rewind i = (let i = i\<lparr>i_status := BEER_ITER_OK\<rparr> in case rewind of None \<Rightarrow> i | Some f \<Rightarrow> f i)"

text \<open>The accessors: the bytes of the current element, key and value.\<close>

definition span :: "bytes \<Rightarrow> nat option \<Rightarrow> nat option \<Rightarrow> bytes option" where
  "span data p q = do { p \<leftarrow> p; q \<leftarrow> q; slice p (q - p) data }"

definition iarray_elem :: "array_itr \<Rightarrow> bytes option" where
  "iarray_elem itr = span (ai_data itr) (ai_elem itr) (ai_end itr)"

definition imap_pair :: "map_itr \<Rightarrow> (bytes \<times> bytes) option" where
  "imap_pair itr = do {
     k \<leftarrow> span (mi_data itr) (mi_key itr) (mi_key_end itr);
     v \<leftarrow> span (mi_data itr) (mi_value itr) (mi_value_end itr);
     Some (k, v) }"

section \<open>The contract of an iterator\<close>

text \<open>
  \<open>at i xs k\<close>: \<open>i\<close> runs over the items \<open>xs\<close> and has been asked \<open>k\<close> times since it was set to
  its start.  The index of the code is an \<open>int\<close>, which bounds \<open>k\<close>.
\<close>

locale cursor =
  fixes nxt :: "'i \<Rightarrow> (bool \<times> 'i) option"
    and rewind :: "'i \<Rightarrow> 'i"
    and item :: "'i \<Rightarrow> 'e option"
    and at :: "'i \<Rightarrow> 'e list \<Rightarrow> nat \<Rightarrow> bool"
  assumes next_item: "at i xs k \<Longrightarrow> k < length xs \<Longrightarrow>
      \<exists>i'. nxt i = Some (True, i') \<and> at i' xs (Suc k) \<and> item i' = Some (xs ! k)"
    and next_end: "at i xs k \<Longrightarrow> length xs \<le> k \<Longrightarrow> k < 2147483648 \<Longrightarrow>
      \<exists>i'. nxt i = Some (False, i') \<and> at i' xs (Suc k)"
    and rewind_start: "at i xs k \<Longrightarrow> at (rewind i) xs 0"
    and at_bound: "at i xs k \<Longrightarrow> length xs < 2147483648"

text \<open>The usual loop \<open>while (next(i)) use(i)\<close>, with fuel: the items in order.\<close>

fun drain :: "('i \<Rightarrow> (bool \<times> 'i) option) \<Rightarrow> ('i \<Rightarrow> 'e option) \<Rightarrow> nat \<Rightarrow> 'i \<Rightarrow> ('e list \<times> 'i) option" where
  "drain nxt item 0 i = None"
| "drain nxt item (Suc n) i = do {
     (more, i) \<leftarrow> nxt i;
     if more then do { x \<leftarrow> item i; (xs, i) \<leftarrow> drain nxt item n i; Some (x # xs, i) }
     else Some ([], i) }"

text \<open>A drained iterator comes from a call that found no further item.\<close>

lemma drain_last: "drain nxt item n i = Some (ys, i') \<Longrightarrow> \<exists>j. nxt j = Some (False, i')"
  by (induction n arbitrary: i ys) (auto split: bind_splits if_splits)

context cursor begin

lemma drain_from:
  assumes "at i xs k" "k \<le> length xs" "length xs - k < n"
  shows "\<exists>i'. drain nxt item n i = Some (drop k xs, i') \<and> at i' xs (Suc (length xs))"
  using assms
proof (induction n arbitrary: i k)
  case 0
  then show ?case by simp
next
  case (Suc n)
  show ?case
  proof (cases "k = length xs")
    case True
    then show ?thesis
      using next_end [OF Suc.prems(1)] at_bound [OF Suc.prems(1)] by auto
  next
    case False
    then have k: "k < length xs" using Suc.prems(2) by simp
    obtain i' where i': "nxt i = Some (True, i')" "at i' xs (Suc k)" "item i' = Some (xs ! k)"
      using next_item [OF Suc.prems(1) k] by auto
    have d: "drop k xs = xs ! k # drop (Suc k) xs" using k by (simp add: Cons_nth_drop_Suc)
    have "Suc k \<le> length xs" "length xs - Suc k < n" using k Suc.prems(3) by simp_all
    from Suc.IH [OF i'(2) this] i' show ?thesis unfolding d by auto
  qed
qed

text \<open>A complete run delivers every item once, in order, and ends; a rewound iterator does it again.\<close>

lemma drain_all:
  assumes "at i xs 0" "length xs < n"
  shows "\<exists>i'. drain nxt item n i = Some (xs, i') \<and> at i' xs (Suc (length xs))"
  using drain_from [OF assms(1)] assms(2) by simp

lemma drain_again:
  assumes "at i xs 0" "length xs < n" "drain nxt item n i = Some (ys, i')"
  shows "ys = xs \<and> (\<exists>i''. drain nxt item n (rewind i') = Some (xs, i''))"
proof -
  from drain_all [OF assms(1,2)] assms(3) have "ys = xs" "at i' xs (Suc (length xs))" by auto
  with drain_all [OF rewind_start assms(2)] show ?thesis by blast
qed

end

section \<open>The array iterator meets the contract\<close>

text \<open>One step of the pointers, without the status.\<close>

definition array_step :: "msgpuck \<Rightarrow> array_itr \<Rightarrow> (bool \<times> array_itr) option" where
  "array_step M itr = do {
     cur \<leftarrow> int_incr (ai_cur itr);
     if as_u32 cur \<ge> unat (ai_count itr) then Some (False, itr\<lparr>ai_cur := cur\<rparr>)
     else do {
       let elem = (if cur = 0 then Some (ai_first itr) else ai_end itr);
       e \<leftarrow> mp_skip M (ai_data itr) elem;
       Some (True, itr\<lparr>ai_cur := cur, ai_elem := elem, ai_end := Some e\<rparr>) } }"

definition array_reset :: "array_itr \<Rightarrow> array_itr" where
  "array_reset itr = itr\<lparr>ai_cur := -1, ai_elem := None, ai_end := None\<rparr>"

definition with_status :: "'x beer_iter \<Rightarrow> bool \<times> 'x \<Rightarrow> bool \<times> 'x beer_iter" where
  "with_status i r = (fst r, i\<lparr>i_data := snd r, i_status := if fst r then i_status i else BEER_ITER_FAIL\<rparr>)"

lemma with_status_simps [simp]:
  "with_status i (True, d) = (True, i\<lparr>i_data := d\<rparr>)"
  "with_status i (False, d) = (False, i\<lparr>i_data := d, i_status := BEER_ITER_FAIL\<rparr>)"
  by (simp_all add: with_status_def)

lemma beer_iter_array_next_step:
  "beer_iter_array_next M i = map_option (with_status i) (array_step M (i_data i))"
proof (cases "int_incr (ai_cur (i_data i))")
  case None
  then show ?thesis by (simp add: beer_iter_array_next_def array_step_def)
next
  case (Some cur)
  define e where "e = mp_skip M (ai_data (i_data i)) (if cur = 0 then Some (ai_first (i_data i)) else ai_end (i_data i))"
  show ?thesis
    using Some by (cases e) (auto simp: beer_iter_array_next_def array_step_def with_status_def e_def Let_def)
qed

lemma beer_iter_array_next_True:
  "array_step M (i_data i) = Some (True, d) \<Longrightarrow> beer_iter_array_next M i = Some (True, i\<lparr>i_data := d\<rparr>)"
  by (simp add: beer_iter_array_next_step)

lemma beer_iter_array_next_False:
  "array_step M (i_data i) = Some (False, d) \<Longrightarrow>
     beer_iter_array_next M i = Some (False, i\<lparr>i_data := d, i_status := BEER_ITER_FAIL\<rparr>)"
  by (simp add: beer_iter_array_next_step)

lemma array_next_end: "beer_iter_array_next M i = Some (False, i') \<Longrightarrow> i_status i' = BEER_ITER_FAIL"
  by (auto simp: beer_iter_array_next_def Let_def split: bind_splits if_splits)

lemma beer_iter_array_rewind_data: "i_data (beer_iter_array_rewind i) = array_reset (i_data i)"
  by (simp add: beer_iter_array_rewind_def array_reset_def)

definition array_at :: "msgpuck \<Rightarrow> array_itr \<Rightarrow> bytes list \<Rightarrow> nat \<Rightarrow> bool" where
  "array_at M itr xs k \<longleftrightarrow> (\<forall>x \<in> set xs. mp_obj M x) \<and> length xs < 2147483648 \<and>
     unat (ai_count itr) = length xs \<and> ai_cur itr = int k - 1 \<and>
     (\<exists>r. drop (ai_first itr) (ai_data itr) = concat xs @ r) \<and> ai_first itr \<le> length (ai_data itr) \<and>
     (0 < k \<and> k \<le> length xs \<longrightarrow> ai_end itr = Some (ai_first itr + length (concat (take k xs))))"

lemma as_u32_nat [simp]: "k < 2147483648 \<Longrightarrow> as_u32 (int k) = k"
  by (simp add: as_u32_def)

lemma int_incr_pred [simp]: "k < 2147483648 \<Longrightarrow> int_incr (int k - 1) = Some (int k)"
  by (simp add: int_incr_def)

lemma concat_nth: "k < length xs \<Longrightarrow> concat xs = concat (take k xs) @ xs ! k @ concat (drop (Suc k) xs)"
  by (metis append.assoc concat.simps(2) concat_append id_take_nth_drop)

lemma array_at_bound: "array_at M itr xs k \<Longrightarrow> length xs < 2147483648"
  by (simp add: array_at_def)

lemma array_at_reset: "array_at M itr xs k \<Longrightarrow> array_at M (array_reset itr) xs 0"
  by (simp add: array_at_def array_reset_def)

lemma array_step_end:
  "array_at M itr xs k \<Longrightarrow> length xs \<le> k \<Longrightarrow> k < 2147483648 \<Longrightarrow>
     \<exists>itr'. array_step M itr = Some (False, itr') \<and> array_at M itr' xs (Suc k)"
  by (auto simp: array_at_def array_step_def)

text \<open>The item that a step reaches starts where the previous one ended.\<close>

lemma items_split:
  assumes "drop f data = concat xs @ r" "k < length xs" "f \<le> length data"
  shows "drop (f + length (concat (take k xs))) data = xs ! k @ concat (drop (Suc k) xs) @ r"
    "f + length (concat (take k xs)) + length (xs ! k) \<le> length data"
proof -
  have "drop (f + length (concat (take k xs))) data = drop (length (concat (take k xs))) (concat xs @ r)"
    unfolding assms(1) [symmetric] by (simp add: add.commute)
  also have "concat xs @ r = concat (take k xs) @ xs ! k @ concat (drop (Suc k) xs) @ r"
    by (subst concat_nth [OF assms(2)]) simp
  finally show d: "drop (f + length (concat (take k xs))) data = xs ! k @ concat (drop (Suc k) xs) @ r"
    by simp
  have "length (drop f data) = length (concat xs @ r)" using assms(1) by simp
  then have "length data = f + length (concat xs) + length r" using assms(3) by simp
  moreover have "length (concat xs) = length (concat (take k xs)) + length (xs ! k) + length (concat (drop (Suc k) xs))"
    by (subst concat_nth [OF assms(2)]) simp
  ultimately show "f + length (concat (take k xs)) + length (xs ! k) \<le> length data" by simp
qed

lemma concat_take_Suc: "k < length xs \<Longrightarrow> length (concat (take (Suc k) xs)) = length (concat (take k xs)) + length (xs ! k)"
  by (simp add: take_Suc_conv_app_nth)

context msgpuck_laws begin

lemma next_obj: "mp_obj M x \<Longrightarrow> mp_next M (x @ r) = Some (length x)"
  by (intro next_check mp_obj_app)

lemma array_step_item:
  assumes "array_at M itr xs k" "k < length xs"
  shows "\<exists>itr'. array_step M itr = Some (True, itr') \<and> array_at M itr' xs (Suc k) \<and> iarray_elem itr' = Some (xs ! k)"
proof -
  define p where "p = ai_first itr + length (concat (take k xs))"
  obtain r where r: "drop (ai_first itr) (ai_data itr) = concat xs @ r" "ai_first itr \<le> length (ai_data itr)"
    using assms(1) by (auto simp: array_at_def)
  note sp = items_split [OF r(1) assms(2) r(2), folded p_def]
  have k: "k < 2147483648" using assms by (simp add: array_at_def)
  have elem: "(if int k = 0 then Some (ai_first itr) else ai_end itr) = Some p"
    using assms by (auto simp: array_at_def p_def)
  have "mp_obj M (xs ! k)" using assms by (simp add: array_at_def)
  then have skip: "mp_skip M (ai_data itr) (Some p) = Some (p + length (xs ! k))"
    by (simp add: mp_skip_def sp(1) next_obj)
  define itr' where "itr' = itr\<lparr>ai_cur := int k, ai_elem := Some p, ai_end := Some (p + length (xs ! k))\<rparr>"
  have "array_step M itr = Some (True, itr')"
    using assms k elem skip by (simp add: array_step_def array_at_def itr'_def)
  moreover have "array_at M itr' xs (Suc k)"
    using assms by (simp add: array_at_def itr'_def concat_take_Suc p_def)
  moreover have "iarray_elem itr' = Some (xs ! k)"
    using sp by (simp add: iarray_elem_def span_def slice_def itr'_def)
  ultimately show ?thesis by blast
qed

end

text \<open>The data behind a header is a sequence of objects.\<close>

context msgpuck_laws begin

lemma mp_objs_split:
  "mp_objs M k bs = Some n \<Longrightarrow>
     \<exists>xs r. length xs = k \<and> bs = concat xs @ r \<and> length (concat xs) = n \<and> (\<forall>x \<in> set xs. mp_obj M x)"
proof (induction k arbitrary: bs n)
  case 0
  then show ?case by simp
next
  case (Suc k)
  then obtain a m where a: "mp_check M bs = Some a" and m: "mp_objs M k (drop a bs) = Some m"
    and n: "n = a + m"
    by (auto split: option.splits)
  from Suc.IH [OF m] obtain xs r where xs: "length xs = k" "drop a bs = concat xs @ r" "length (concat xs) = m"
    "\<forall>x \<in> set xs. mp_obj M x" by blast
  have "bs = take a bs @ concat xs @ r" using xs(2) by (metis append_take_drop_id)
  moreover have "length (take a bs) = a" using check_bound [OF a] by simp
  ultimately show ?case
    using xs n mp_obj_prefix [OF a] by (intro exI [of _ "take a bs # xs"] exI [of _ r]) simp
qed

text \<open>What the constructor accepts, and where it starts.\<close>

lemma beer_iter_array_eq:
  assumes "i \<or> mem"
  shows "beer_iter_array M i mem data =
    (if data \<noteq> [] \<and> mp_typeof M (hd data) = MP_ARRAY \<and> mp_check M data \<noteq> None
     then case mp_decode_array M data of
       None \<Rightarrow> None
     | Some (n, h) \<Rightarrow> Some (Some \<lparr>i_status = BEER_ITER_OK, i_alloc = \<not> i,
         i_data = \<lparr>ai_data = data, ai_first = h, ai_elem = None, ai_end = None, ai_count = n, ai_cur = -1\<rparr>\<rparr>)
     else Some None)"
  using assms by (auto simp: beer_iter_array_def beer_iter_init_def Let_def split: option.splits)

lemma beer_iter_array_start:
  assumes "i \<or> mem" "data \<noteq> []" "mp_typeof M (hd data) = MP_ARRAY" "mp_check M data = Some n"
  shows "\<exists>it xs r hd. beer_iter_array M i mem data = Some (Some it) \<and> data = hd @ concat xs @ r \<and>
    length (hd @ concat xs) = n \<and> mp_decode_array M data = Some (ai_count (i_data it), length hd) \<and>
    unat (ai_count (i_data it)) = length xs \<and>
    (length xs < 2147483648 \<longrightarrow> array_at M (i_data it) xs 0)"
proof -
  obtain k h m where d: "mp_decode_array M data = Some (k, h)" "mp_objs M (unat k) (drop h data) = Some m"
    "n = h + m"
    using assms(4) by (auto simp: check_array [OF assms(2,3)] split: option.splits)
  obtain xs r where xs: "length xs = unat k" "drop h data = concat xs @ r" "length (concat xs) = m"
    "\<forall>x \<in> set xs. mp_obj M x"
    using mp_objs_split [OF d(2)] by blast
  have h: "h \<le> length data" using dec_array_bound [OF d(1)] by simp
  define it where "it = \<lparr>i_status = BEER_ITER_OK, i_alloc = \<not> i,
    i_data = \<lparr>ai_data = data, ai_first = h, ai_elem = None, ai_end = None, ai_count = k, ai_cur = -1\<rparr>\<rparr>"
  have "beer_iter_array M i mem data = Some (Some it)"
    using assms d(1) by (simp add: beer_iter_array_eq it_def)
  moreover have "data = take h data @ concat xs @ r" using xs(2) by (metis append_take_drop_id)
  moreover have "length xs < 2147483648 \<Longrightarrow> array_at M (i_data it) xs 0"
    using xs h by (auto simp: array_at_def it_def)
  moreover have "length (take h data) = h" using h by simp
  ultimately show ?thesis
    using xs d(1,3) by (intro exI [of _ it] exI [of _ xs] exI [of _ r] exI [of _ "take h data"]) (simp add: it_def)
qed

end

section \<open>The map iterator meets the contract\<close>

definition map_step :: "msgpuck \<Rightarrow> map_itr \<Rightarrow> (bool \<times> map_itr) option" where
  "map_step M itr = do {
     cur \<leftarrow> int_incr (mi_cur itr);
     if as_u32 cur \<ge> unat (mi_count itr) then Some (False, itr\<lparr>mi_cur := cur\<rparr>)
     else do {
       let key = (if cur = 0 then Some (mi_first itr) else mi_value_end itr);
       ke \<leftarrow> mp_skip M (mi_data itr) key;
       ve \<leftarrow> mp_skip M (mi_data itr) (Some ke);
       Some (True, itr\<lparr>mi_cur := cur, mi_key := key, mi_key_end := Some ke, mi_value := Some ke,
                       mi_value_end := Some ve\<rparr>) } }"

definition map_reset :: "map_itr \<Rightarrow> map_itr" where
  "map_reset itr = itr\<lparr>mi_cur := -1, mi_key := None, mi_key_end := None, mi_value := None, mi_value_end := None\<rparr>"

lemma beer_iter_map_next_step:
  "beer_iter_map_next M i = map_option (with_status i) (map_step M (i_data i))"
proof (cases "int_incr (mi_cur (i_data i))")
  case None
  then show ?thesis by (simp add: beer_iter_map_next_def map_step_def)
next
  case (Some cur)
  define k where "k = mp_skip M (mi_data (i_data i)) (if cur = 0 then Some (mi_first (i_data i)) else mi_value_end (i_data i))"
  define v where "v = Option.bind k (\<lambda>k. mp_skip M (mi_data (i_data i)) (Some k))"
  show ?thesis
    using Some by (cases k; cases v) (auto simp: beer_iter_map_next_def map_step_def with_status_def k_def v_def Let_def)
qed

lemma beer_iter_map_next_True:
  "map_step M (i_data i) = Some (True, d) \<Longrightarrow> beer_iter_map_next M i = Some (True, i\<lparr>i_data := d\<rparr>)"
  by (simp add: beer_iter_map_next_step)

lemma beer_iter_map_next_False:
  "map_step M (i_data i) = Some (False, d) \<Longrightarrow>
     beer_iter_map_next M i = Some (False, i\<lparr>i_data := d, i_status := BEER_ITER_FAIL\<rparr>)"
  by (simp add: beer_iter_map_next_step)

lemma beer_iter_map_rewind_data: "i_data (beer_iter_map_rewind i) = map_reset (i_data i)"
  by (simp add: beer_iter_map_rewind_def map_reset_def)

definition pair_bytes :: "bytes \<times> bytes \<Rightarrow> bytes" where
  "pair_bytes p = fst p @ snd p"

definition map_at :: "msgpuck \<Rightarrow> map_itr \<Rightarrow> (bytes \<times> bytes) list \<Rightarrow> nat \<Rightarrow> bool" where
  "map_at M itr ps k \<longleftrightarrow> (\<forall>p \<in> set ps. mp_obj M (fst p) \<and> mp_obj M (snd p)) \<and> length ps < 2147483648 \<and>
     unat (mi_count itr) = length ps \<and> mi_cur itr = int k - 1 \<and>
     (\<exists>r. drop (mi_first itr) (mi_data itr) = concat (map pair_bytes ps) @ r) \<and>
     mi_first itr \<le> length (mi_data itr) \<and>
     (0 < k \<and> k \<le> length ps \<longrightarrow>
        mi_value_end itr = Some (mi_first itr + length (concat (take k (map pair_bytes ps)))))"

lemma map_at_bound: "map_at M itr ps k \<Longrightarrow> length ps < 2147483648"
  by (simp add: map_at_def)

lemma map_at_reset: "map_at M itr ps k \<Longrightarrow> map_at M (map_reset itr) ps 0"
  by (simp add: map_at_def map_reset_def)

lemma map_step_end:
  "map_at M itr ps k \<Longrightarrow> length ps \<le> k \<Longrightarrow> k < 2147483648 \<Longrightarrow>
     \<exists>itr'. map_step M itr = Some (False, itr') \<and> map_at M itr' ps (Suc k)"
  by (auto simp: map_at_def map_step_def)

context msgpuck_laws begin

lemma map_step_item:
  assumes "map_at M itr ps k" "k < length ps"
  shows "\<exists>itr'. map_step M itr = Some (True, itr') \<and> map_at M itr' ps (Suc k) \<and> imap_pair itr' = Some (ps ! k)"
proof -
  define xs where "xs = map pair_bytes ps"
  define p where "p = mi_first itr + length (concat (take k xs))"
  define a b where "a = fst (ps ! k)" and "b = snd (ps ! k)"
  obtain r where r: "drop (mi_first itr) (mi_data itr) = concat xs @ r" "mi_first itr \<le> length (mi_data itr)"
    using assms(1) by (auto simp: map_at_def xs_def)
  have kx: "k < length xs" using assms(2) by (simp add: xs_def)
  have xk: "xs ! k = a @ b" using assms(2) by (simp add: xs_def pair_bytes_def a_def b_def)
  note sp = items_split [OF r(1) kx r(2), folded p_def, unfolded xk]
  have sb: "drop (p + length a) (mi_data itr) = b @ concat (drop (Suc k) xs) @ r"
  proof -
    have "drop (p + length a) (mi_data itr) = drop (length a) (drop p (mi_data itr))" by (simp add: add.commute)
    then show ?thesis by (simp add: sp(1))
  qed
  have k: "k < 2147483648" using assms by (simp add: map_at_def)
  have key: "(if int k = 0 then Some (mi_first itr) else mi_value_end itr) = Some p"
    using assms by (auto simp: map_at_def p_def xs_def)
  have "mp_obj M a" "mp_obj M b" using assms by (simp_all add: map_at_def a_def b_def)
  then have skip: "mp_skip M (mi_data itr) (Some p) = Some (p + length a)"
    "mp_skip M (mi_data itr) (Some (p + length a)) = Some (p + length a + length b)"
    using sp(1) by (simp_all add: mp_skip_def sb next_obj)
  define itr' where "itr' = itr\<lparr>mi_cur := int k, mi_key := Some p, mi_key_end := Some (p + length a),
    mi_value := Some (p + length a), mi_value_end := Some (p + length a + length b)\<rparr>"
  have "map_step M itr = Some (True, itr')"
    using assms k key skip by (simp add: map_step_def map_at_def itr'_def)
  moreover have "map_at M itr' ps (Suc k)"
    using assms kx xk by (simp add: map_at_def itr'_def xs_def [symmetric] concat_take_Suc p_def)
  moreover have "imap_pair itr' = Some (ps ! k)"
    using sp by (simp add: imap_pair_def span_def slice_def itr'_def sb a_def [symmetric] b_def [symmetric])
       (simp add: a_def b_def)
  ultimately show ?thesis by blast
qed

text \<open>The objects behind a map header pair up.\<close>

lemma pairs_of:
  "length xs = 2 * n \<Longrightarrow> \<exists>ps. length ps = n \<and> concat (map pair_bytes ps) = concat (xs :: bytes list) \<and>
     (\<forall>p \<in> set ps. fst p \<in> set xs \<and> snd p \<in> set xs)"
proof (induction n arbitrary: xs)
  case 0
  then show ?case by simp
next
  case (Suc n)
  then obtain a b ys where xs: "xs = a # b # ys" "length ys = 2 * n"
    by (cases xs; cases "tl xs") auto
  from Suc.IH [OF xs(2)] obtain ps where "length ps = n" "concat (map pair_bytes ps) = concat ys"
    "\<forall>p \<in> set ps. fst p \<in> set ys \<and> snd p \<in> set ys" by blast
  then show ?case by (intro exI [of _ "(a, b) # ps"]) (auto simp: xs(1) pair_bytes_def [of "(a, b)"])
qed

lemma beer_iter_map_start:
  assumes "i \<or> mem" "data \<noteq> []" "mp_typeof M (hd data) = MP_MAP" "mp_check M data = Some n"
  shows "\<exists>it ps r hd. beer_iter_map M i mem data = Some (Some it) \<and> data = hd @ concat (map pair_bytes ps) @ r \<and>
    length (hd @ concat (map pair_bytes ps)) = n \<and> mp_decode_map M data = Some (mi_count (i_data it), length hd) \<and>
    unat (mi_count (i_data it)) = length ps \<and>
    (length ps < 2147483648 \<longrightarrow> map_at M (i_data it) ps 0)"
proof -
  obtain k h m where d: "mp_decode_map M data = Some (k, h)" "mp_objs M (2 * unat k) (drop h data) = Some m"
    "n = h + m"
    using assms(4) by (auto simp: check_map [OF assms(2,3)] split: option.splits)
  obtain xs r where xs: "length xs = 2 * unat k" "drop h data = concat xs @ r" "length (concat xs) = m"
    "\<forall>x \<in> set xs. mp_obj M x"
    using mp_objs_split [OF d(2)] by blast
  obtain ps where ps: "length ps = unat k" "concat (map pair_bytes ps) = concat xs"
    "\<forall>p \<in> set ps. fst p \<in> set xs \<and> snd p \<in> set xs"
    using pairs_of [OF xs(1)] by blast
  have h: "h \<le> length data" using dec_map_bound [OF d(1)] by simp
  define it where "it = \<lparr>i_status = BEER_ITER_OK, i_alloc = \<not> i,
    i_data = \<lparr>mi_data = data, mi_first = h, mi_key = None, mi_key_end = None, mi_value = None,
              mi_value_end = None, mi_count = k, mi_cur = -1\<rparr>\<rparr>"
  have "beer_iter_map M i mem data = Some (Some it)"
    using assms d(1) by (simp add: beer_iter_map_def beer_iter_init_def Let_def it_def)
  moreover have "data = take h data @ concat (map pair_bytes ps) @ r"
    using xs(2) ps(2) by (metis append_take_drop_id)
  moreover have "length ps < 2147483648 \<Longrightarrow> map_at M (i_data it) ps 0"
    using ps xs h by (auto simp: map_at_def it_def)
  moreover have "length (take h data) = h" using h by simp
  ultimately show ?thesis
    using xs ps d(1,3) by (intro exI [of _ it] exI [of _ ps] exI [of _ r] exI [of _ "take h data"]) (simp add: it_def)
qed

end

section \<open>Interpretations\<close>

sublocale msgpuck_laws \<subseteq> arr: cursor "beer_iter_array_next M" beer_iter_array_rewind
    "\<lambda>i. iarray_elem (i_data i)" "\<lambda>i. array_at M (i_data i)"
proof
  fix i xs k
  show "array_at M (i_data i) xs k \<Longrightarrow> k < length xs \<Longrightarrow>
      \<exists>i'. beer_iter_array_next M i = Some (True, i') \<and> array_at M (i_data i') xs (Suc k) \<and>
        iarray_elem (i_data i') = Some (xs ! k)"
    using array_step_item [of "i_data i" xs k] beer_iter_array_next_True by fastforce
  show "array_at M (i_data i) xs k \<Longrightarrow> length xs \<le> k \<Longrightarrow> k < 2147483648 \<Longrightarrow>
      \<exists>i'. beer_iter_array_next M i = Some (False, i') \<and> array_at M (i_data i') xs (Suc k)"
    using array_step_end [of M "i_data i" xs k] beer_iter_array_next_False by fastforce
  show "array_at M (i_data i) xs k \<Longrightarrow> array_at M (i_data (beer_iter_array_rewind i)) xs 0"
    by (simp add: beer_iter_array_rewind_data array_at_reset)
  show "array_at M (i_data i) xs k \<Longrightarrow> length xs < 2147483648"
    by (rule array_at_bound)
qed

sublocale msgpuck_laws \<subseteq> mp: cursor "beer_iter_map_next M" beer_iter_map_rewind
    "\<lambda>i. imap_pair (i_data i)" "\<lambda>i. map_at M (i_data i)"
proof
  fix i ps k
  show "map_at M (i_data i) ps k \<Longrightarrow> k < length ps \<Longrightarrow>
      \<exists>i'. beer_iter_map_next M i = Some (True, i') \<and> map_at M (i_data i') ps (Suc k) \<and>
        imap_pair (i_data i') = Some (ps ! k)"
    using map_step_item [of "i_data i" ps k] beer_iter_map_next_True by fastforce
  show "map_at M (i_data i) ps k \<Longrightarrow> length ps \<le> k \<Longrightarrow> k < 2147483648 \<Longrightarrow>
      \<exists>i'. beer_iter_map_next M i = Some (False, i') \<and> map_at M (i_data i') ps (Suc k)"
    using map_step_end [of M "i_data i" ps k] beer_iter_map_next_False by fastforce
  show "map_at M (i_data i) ps k \<Longrightarrow> map_at M (i_data (beer_iter_map_rewind i)) ps 0"
    by (simp add: beer_iter_map_rewind_data map_at_reset)
  show "map_at M (i_data i) ps k \<Longrightarrow> length ps < 2147483648"
    by (rule map_at_bound)
qed

text \<open>What the two interpretations give, for use outside the locale.\<close>

context msgpuck_laws begin
lemmas array_drain = arr.drain_all arr.drain_again
lemmas map_drain = mp.drain_all mp.drain_again
end

end
