(* ===== verification/Reply_Reader.thy ===== *)
theory Reply_Reader
  imports Beer_Proto Beer_Iter
begin

text \<open>
  What the two response parsers share: reads at an offset of the response, the bitmap of the
  fields that were seen, and the specification of a response package.
\<close>

section \<open>Reads\<close>

definition rd_type :: "msgpuck \<Rightarrow> bytes \<Rightarrow> nat \<Rightarrow> mp_type option" where
  "rd_type M buf p = (if p < length buf then Some (mp_typeof M (buf ! p)) else None)"

definition rd_uint :: "msgpuck \<Rightarrow> bytes \<Rightarrow> nat \<Rightarrow> (u64 \<times> nat) option" where
  "rd_uint M buf p = map_option (\<lambda>(v, n). (v, p + n)) (mp_decode_uint M (drop p buf))"

definition rd_map :: "msgpuck \<Rightarrow> bytes \<Rightarrow> nat \<Rightarrow> (u32 \<times> nat) option" where
  "rd_map M buf p = map_option (\<lambda>(k, n). (k, p + n)) (mp_decode_map M (drop p buf))"

definition rd_next :: "msgpuck \<Rightarrow> bytes \<Rightarrow> nat \<Rightarrow> nat option" where
  "rd_next M buf p = map_option ((+) p) (mp_next M (drop p buf))"

text \<open>\<open>mp_decode_str(&p, &len)\<close>: the start of the characters, their number, and the new pointer.\<close>

definition rd_str :: "msgpuck \<Rightarrow> bytes \<Rightarrow> nat \<Rightarrow> (nat \<times> u32 \<times> nat) option" where
  "rd_str M buf p = map_option (\<lambda>(w, h). (p + h, w, p + h + unat w)) (mp_decode_strl M (drop p buf))"

text \<open>\<open>mp_check\<close> from \<open>p\<close> and the type of what is there: \<open>Some True\<close> if both are as wanted.\<close>

definition rd_checked :: "msgpuck \<Rightarrow> bytes \<Rightarrow> nat \<Rightarrow> mp_type \<Rightarrow> bool option" where
  "rd_checked M buf p ty =
     (if mp_check M (drop p buf) = None then Some False
      else do { t \<leftarrow> rd_type M buf p; Some (t = ty) })"

text \<open>\<open>1ULL << key\<close>, which C defines for keys below 64.\<close>

definition key_bit :: "u32 \<Rightarrow> u64 option" where
  "key_bit key = (if unat key < 64 then Some (push_bit (unat key) 1) else None)"

unbundle bit_operations_syntax

lemma bit_key_u64: "n < 64 \<Longrightarrow> unat (k :: u64) < 64 \<Longrightarrow>
    bit (b OR push_bit (unat k) (1 :: u64)) n \<longleftrightarrow> bit b n \<or> n = unat k"
  by (auto simp: bit_or_iff bit_exp_iff)

lemma drop_shift: "drop p buf = x @ r \<Longrightarrow> drop (p + length x) buf = r"
  by (metis append_eq_conv_conj drop_drop add.commute)

lemma rd_type_hd: "drop p buf = x @ r \<Longrightarrow> x \<noteq> [] \<Longrightarrow> rd_type M buf p = Some (mp_typeof M (hd x))"
  by (cases "p < length buf") (auto simp: rd_type_def hd_drop_conv_nth [symmetric])

lemma slice_shift: "drop p buf = x @ r \<Longrightarrow> x \<noteq> [] \<Longrightarrow> slice p (length x) buf = Some x"
proof -
  assume d: "drop p buf = x @ r" and ne: "x \<noteq> []"
  have "p + length x \<le> length buf"
  proof (rule ccontr)
    assume "\<not> ?thesis"
    then have "length (drop p buf) < length x" using ne by (cases "p \<le> length buf") auto
    then show False by (simp add: d)
  qed
  then show ?thesis by (simp add: slice_def d)
qed

lemma span_shift: "drop p buf = x @ r \<Longrightarrow> x \<noteq> [] \<Longrightarrow> span buf (Some p) (Some (p + length x)) = Some x"
  using slice_shift [of p buf x r] by (simp add: span_def)

section \<open>Responses\<close>

text \<open>
  A response package: a header of unsigned integers and a body.  Of fields with the same key the
  last one counts.
\<close>

definition uint_fields :: "msgpuck \<Rightarrow> (u64 \<times> u64) list \<Rightarrow> fields" where
  "uint_fields M hs = map (\<lambda>(k, v). (k, mp_encode_uint M v)) hs"

definition reply_package :: "msgpuck \<Rightarrow> (u64 \<times> u64) list \<Rightarrow> fields \<Rightarrow> bytes" where
  "reply_package M hs fs = package (body_bytes M (uint_fields M hs) @ body_bytes M fs)"

definition last_of :: "(u64 \<times> 'v) list \<Rightarrow> u64 \<Rightarrow> 'v option" where
  "last_of fs k = map_of (rev fs) k"

lemma last_of_simps [simp]: "last_of [] k = None"
  "last_of ((j, v) # fs) k = (case last_of fs k of None \<Rightarrow> if k = j then Some v else None | Some w \<Rightarrow> Some w)"
  by (auto simp: last_of_def map_add_def split: option.splits)

definition small_keys :: "(u64 \<times> 'v) list \<Rightarrow> bool" where
  "small_keys fs \<longleftrightarrow> (\<forall>f \<in> set fs. unat (fst f) < 64)"

text \<open>Data is an array, an error message is a string.\<close>

definition response_field :: "msgpuck \<Rightarrow> u64 \<times> bytes \<Rightarrow> bool" where
  "response_field M f \<longleftrightarrow> mp_obj M (snd f) \<and>
     (fst f = 0x30 \<longrightarrow> mp_typeof M (hd (snd f)) = MP_ARRAY) \<and>
     (fst f = 0x31 \<longrightarrow> (\<exists>s. length s < 4294967296 \<and> snd f = mp_encode_str M s))"

text \<open>Where a string of a response lies.\<close>

definition text_at :: "msgpuck \<Rightarrow> bytes \<Rightarrow> nat option \<Rightarrow> nat option \<Rightarrow> bytes \<Rightarrow> bool" where
  "text_at M buf a b v \<longleftrightarrow> (\<exists>s. v = mp_encode_str M s \<and> span buf a b = Some s)"

lemma small_key: "unat (k :: u64) < 64 \<Longrightarrow> unat (ucast k :: u32) = unat k"
  by (simp add: unat_u32_of_u64)

context msgpuck_laws begin

lemma rd_uint_enc: "drop p buf = mp_encode_uint M v @ r \<Longrightarrow>
    rd_uint M buf p = Some (v, p + length (mp_encode_uint M v))"
  by (simp add: rd_uint_def dec_uint len_uint)

lemma rd_next_obj: "drop p buf = x @ r \<Longrightarrow> mp_obj M x \<Longrightarrow> rd_next M buf p = Some (p + length x)"
  by (simp add: rd_next_def next_obj)

lemma rd_str_enc:
  assumes "drop p buf = mp_encode_str M s @ r" "length s < 4294967296"
  shows "rd_str M buf p = Some (p + str_hdr_size (length s), word_of_nat (length s), p + length (mp_encode_str M s))"
    "span buf (Some (p + str_hdr_size (length s))) (Some (p + str_hdr_size (length s) + length s)) = Some s"
proof -
  define w where "w = (word_of_nat (length s) :: u32)"
  have w: "unat w = length s" using assms(2) by (simp add: w_def unat_of_nat)
  have d: "drop p buf = mp_encode_strl M w @ s @ r" using assms(1) by (simp add: enc_str w_def)
  then show "rd_str M buf p = Some (p + str_hdr_size (length s), word_of_nat (length s), p + length (mp_encode_str M s))"
    using w by (simp add: rd_str_def dec_strl enc_str len_strl w_def)
  have e: "drop (p + str_hdr_size (length s)) buf = s @ r"
    using drop_shift [OF d] by (simp add: len_strl w)
  have "p + str_hdr_size (length s) + length s \<le> length buf"
  proof -
    have "p < length buf"
    proof (rule ccontr)
      assume "\<not> p < length buf"
      then show False using d enc_ne(6) [of w] by simp
    qed
    then show ?thesis using arg_cong [OF d, of length] by (simp add: len_strl w)
  qed
  then show "span buf (Some (p + str_hdr_size (length s))) (Some (p + str_hdr_size (length s) + length s)) = Some s"
    by (simp add: span_def slice_def e)
qed

lemma rd_map_enc: "drop p buf = mp_encode_map M k @ r \<Longrightarrow>
    rd_map M buf p = Some (k, p + length (mp_encode_map M k))"
  by (simp add: rd_map_def dec_map len_map)

text \<open>A map of a response is checked as a whole.\<close>

lemma body_obj:
  assumes "length fs < 4294967296" "\<forall>f \<in> set fs. mp_obj M (snd f)"
  shows "mp_check M (body_bytes M fs @ r) = Some (length (body_bytes M fs))"
proof -
  have n: "unat (word_of_nat (length fs) :: u32) = length fs" using assms(1) by (simp add: unat_of_nat)
  have "mp_objs M (2 * length fs) (concat (map (field_bytes M) fs) @ r) = Some (length (concat (map (field_bytes M) fs)))"
    using assms(2)
  proof (induction fs)
    case (Cons f fs)
    then show ?case by (simp add: field_bytes_objs del: mp_objs.simps)
  qed simp
  then show ?thesis by (simp add: body_bytes_def check_enc_map n len_map)
qed

lemma uint_fields_obj: "\<forall>f \<in> set (uint_fields M hs). mp_obj M (snd f)"
  by (auto simp: uint_fields_def mp_obj_uint)

lemma body_hd: "body_bytes M fs \<noteq> []" "mp_typeof M (hd (body_bytes M fs @ r)) = MP_MAP"
  by (simp_all add: body_bytes_def enc_ne type_map)

text \<open>The length prefix: five bytes, and nothing less is an object.\<close>

lemma prefix_check: "mp_check M (0xce # be 4 (unat (w :: u32)) @ r) = Some 5"
  using dec_uint_fixed(1) [of w r] by (simp add: check_uint type_uint_fixed)

lemma prefix_short: "k < 5 \<Longrightarrow> mp_check M (take k (0xce # be 4 (unat (w :: u32)) @ r)) = None"
proof (cases "mp_check M (take k (0xce # be 4 (unat w) @ r))")
  case (Some n)
  assume k: "k < 5"
  have "n \<le> k" using check_bound [OF Some] by simp
  moreover have "n = 5"
    using check_app [OF Some, of "drop k (0xce # be 4 (unat w) @ r)"] prefix_check [of w r]
    by (simp add: append_take_drop_id del: append_Cons)
  ultimately show ?thesis using k by simp
qed

lemma package_prefix:
  assumes "length bs < 4294967296"
  shows "package bs = 0xce # be 4 (unat (word_of_nat (length bs) :: u32)) @ bs" "length (package bs) = 5 + length bs"
  using assms by (simp_all add: package_def luint_def unat_of_nat)

lemma rd_checked_obj:
  assumes "drop p buf = x @ r" "mp_check M (x @ r) = Some n" "x \<noteq> []" "mp_typeof M (hd x) = ty"
  shows "rd_checked M buf p ty = Some True"
  using assms rd_type_hd [OF assms(1,3)] by (simp add: rd_checked_def)

text \<open>Entering a map: the check, the type and the number of pairs.\<close>

lemma enter_map:
  assumes "drop p buf = body_bytes M fs @ r" "length fs < 4294967296" "\<forall>f \<in> set fs. mp_obj M (snd f)"
  obtains q where "rd_checked M buf p MP_MAP = Some True" "rd_map M buf p = Some (word_of_nat (length fs), q)"
    "unat (word_of_nat (length fs) :: u32) = length fs"
    "drop q buf = concat (map (field_bytes M) fs) @ r"
    "q + length (concat (map (field_bytes M) fs)) = p + length (body_bytes M fs)"
proof -
  define n where "n = (word_of_nat (length fs) :: u32)"
  have d: "drop p buf = mp_encode_map M n @ concat (map (field_bytes M) fs) @ r"
    using assms(1) by (simp add: body_bytes_def n_def)
  have "mp_typeof M (hd (body_bytes M fs)) = MP_MAP" using body_hd(2) [of fs "[]"] by simp
  with rd_checked_obj [OF assms(1) body_obj [OF assms(2,3)] body_hd(1)]
  have "rd_checked M buf p MP_MAP = Some True" by simp
  moreover have "unat n = length fs" using assms(2) by (simp add: n_def unat_of_nat)
  ultimately show thesis
    using rd_map_enc [OF d] drop_shift [OF d]
    by (intro that [of "p + length (mp_encode_map M n)"]) (simp_all add: n_def body_bytes_def)
qed

end

end
