(* ===== verification/Tp_Reply.thy ===== *)
theory Tp_Reply
  imports Reply_Reader
begin

text \<open>
  The response reader of \<open>include/tp.h\<close>: greeting, iterators over MessagePack, \<open>tp_reply\<close> and the
  accessors of a response.  \<open>struct tp_array_itr\<close> and \<open>struct tp_map_itr\<close> have the fields of the
  iterators of \<open>Beer_Iter\<close>.

  A response buffer is the object from \<open>buf\<close> to \<open>buf + size\<close>.  A parsing loop ends with
  \<open>Inl\<close> of the response so far where the code returns \<open>-1\<close>, and with \<open>Inr\<close> of the pointer and the
  response otherwise.
\<close>

section \<open>Greeting\<close>

record tpgreeting =
  g_description :: "nat option"
  g_salt_base64 :: "nat option"

definition tp_greeting :: "tpgreeting \<Rightarrow> bytes \<Rightarrow> nat \<times> tpgreeting" where
  "tp_greeting g buf =
     (if length buf < 128 then (0, g)
      else (128, g\<lparr>g_description := Some 0, g_salt_base64 := Some 64\<rparr>))"

section \<open>Iterators\<close>

type_synonym tp_array_itr = array_itr
type_synonym tp_map_itr = map_itr

definition zero_array_itr :: tp_array_itr where
  "zero_array_itr = \<lparr>ai_data = [], ai_first = 0, ai_elem = None, ai_end = None, ai_count = 0, ai_cur = 0\<rparr>"

definition zero_map_itr :: tp_map_itr where
  "zero_map_itr = \<lparr>mi_data = [], mi_first = 0, mi_key = None, mi_key_end = None, mi_value = None,
     mi_value_end = None, mi_count = 0, mi_cur = 0\<rparr>"

definition tp_array_itr_init :: "msgpuck \<Rightarrow> bytes \<Rightarrow> (int \<times> tp_array_itr) option" where
  "tp_array_itr_init M data =
     (if data = [] \<or> mp_typeof M (hd data) \<noteq> MP_ARRAY then Some (-1, zero_array_itr)
      else if mp_check M data = None then Some (-1, zero_array_itr)
      else do {
        (n, h) \<leftarrow> mp_decode_array M data;
        Some (0, \<lparr>ai_data = data, ai_first = h, ai_elem = None, ai_end = None, ai_count = n, ai_cur = -1\<rparr>) })"

definition tp_array_itr_next :: "msgpuck \<Rightarrow> tp_array_itr \<Rightarrow> (bool \<times> tp_array_itr) option" where
  "tp_array_itr_next M itr = do {
     cur \<leftarrow> int_incr (ai_cur itr);
     let itr = itr\<lparr>ai_cur := cur\<rparr>;
     if as_u32 cur \<ge> unat (ai_count itr) then Some (False, itr)
     else do {
       let elem = (if cur = 0 then Some (ai_first itr) else ai_end itr);
       e \<leftarrow> mp_skip M (ai_data itr) elem;
       Some (True, itr\<lparr>ai_elem := elem, ai_end := Some e\<rparr>) } }"

definition tp_array_itr_reset :: "tp_array_itr \<Rightarrow> tp_array_itr" where
  "tp_array_itr_reset itr = itr\<lparr>ai_cur := -1, ai_elem := None, ai_end := None\<rparr>"

definition tp_map_itr_init :: "msgpuck \<Rightarrow> bytes \<Rightarrow> (int \<times> tp_map_itr) option" where
  "tp_map_itr_init M data =
     (if data = [] \<or> mp_typeof M (hd data) \<noteq> MP_MAP then Some (-1, zero_map_itr)
      else if mp_check M data = None then Some (-1, zero_map_itr)
      else do {
        (n, h) \<leftarrow> mp_decode_map M data;
        Some (0, \<lparr>mi_data = data, mi_first = h, mi_key = None, mi_key_end = None, mi_value = None,
                  mi_value_end = None, mi_count = n, mi_cur = -1\<rparr>) })"

definition tp_map_itr_next :: "msgpuck \<Rightarrow> tp_map_itr \<Rightarrow> (bool \<times> tp_map_itr) option" where
  "tp_map_itr_next M itr = do {
     cur \<leftarrow> int_incr (mi_cur itr);
     let itr = itr\<lparr>mi_cur := cur\<rparr>;
     if as_u32 cur \<ge> unat (mi_count itr) then Some (False, itr)
     else do {
       let key = (if cur = 0 then Some (mi_first itr) else mi_value_end itr);
       ke \<leftarrow> mp_skip M (mi_data itr) key;
       ve \<leftarrow> mp_skip M (mi_data itr) (Some ke);
       Some (True, itr\<lparr>mi_key := key, mi_key_end := Some ke, mi_value := Some ke, mi_value_end := Some ve\<rparr>) } }"

definition tp_map_itr_reset :: "tp_map_itr \<Rightarrow> tp_map_itr" where
  "tp_map_itr_reset itr = itr\<lparr>mi_cur := -1, mi_key := None, mi_key_end := None, mi_value := None, mi_value_end := None\<rparr>"

section \<open>Responses\<close>

datatype tp_response_key = TP_DATA | TP_ERROR

fun tp_response_code :: "tp_response_key \<Rightarrow> u32" where
  "tp_response_code TP_DATA = 0x30" | "tp_response_code TP_ERROR = 0x31"

record tpresponse =
  r_bitmap :: u64
  r_buf :: "nat option"
  r_code :: u32
  r_sync :: u64
  r_error :: "nat option"
  r_error_end :: "nat option"
  r_data :: "nat option"
  r_data_end :: "nat option"
  r_tuple_itr :: tp_array_itr
  r_field_itr :: tp_array_itr

definition zero_response :: tpresponse where
  "zero_response = \<lparr>r_bitmap = 0, r_buf = None, r_code = 0, r_sync = 0, r_error = None, r_error_end = None, r_data = None,
     r_data_end = None, r_tuple_itr = zero_array_itr, r_field_itr = zero_array_itr\<rparr>"

unbundle bit_operations_syntax

text \<open>
  The header loop.  The value's type is tested before the \<open>switch\<close>, so the tests in its cases
  (the same test at the same place) never fail.
\<close>

fun tp_reply_header :: "msgpuck \<Rightarrow> bytes \<Rightarrow> nat \<Rightarrow> nat \<Rightarrow> tpresponse \<Rightarrow> (tpresponse + nat \<times> tpresponse) option" where
  "tp_reply_header M buf 0 p r = Some (Inr (p, r))"
| "tp_reply_header M buf (Suc n) p r = do {
     t \<leftarrow> rd_type M buf p;
     if t \<noteq> MP_UINT then Some (Inl r)
     else do {
       (key, p) \<leftarrow> rd_uint M buf p;
       let key = (ucast key :: u32);
       t \<leftarrow> rd_type M buf p;
       if t \<noteq> MP_UINT then Some (Inl r)
       else do {
         (p, r) \<leftarrow> (if key = 1 then do { (v, p) \<leftarrow> rd_uint M buf p; Some (p, r\<lparr>r_sync := v\<rparr>) }
                    else if key = 0 then do { (v, p) \<leftarrow> rd_uint M buf p; Some (p, r\<lparr>r_code := ucast v\<rparr>) }
                    else do { p \<leftarrow> rd_next M buf p; Some (p, r) });
         b \<leftarrow> key_bit key;
         tp_reply_header M buf n p (r\<lparr>r_bitmap := r_bitmap r OR b\<rparr>) } } }"

text \<open>The body loop; the type of a key is not tested.\<close>

fun tp_reply_body :: "msgpuck \<Rightarrow> bytes \<Rightarrow> nat \<Rightarrow> nat \<Rightarrow> tpresponse \<Rightarrow> (tpresponse + nat \<times> tpresponse) option" where
  "tp_reply_body M buf 0 p r = Some (Inr (p, r))"
| "tp_reply_body M buf (Suc n) p r = do {
     (key, p) \<leftarrow> rd_uint M buf p;
     let key = (ucast key :: u32);
     x \<leftarrow> (if key = tp_response_code TP_ERROR then do {
              t \<leftarrow> rd_type M buf p;
              if t \<noteq> MP_STR then Some (Inl r)
              else do {
                (e, elen, p) \<leftarrow> rd_str M buf p;
                Some (Inr (p, r\<lparr>r_error := Some e, r_error_end := Some (e + unat elen)\<rparr>)) } }
           else if key = tp_response_code TP_DATA then do {
              t \<leftarrow> rd_type M buf p;
              if t \<noteq> MP_ARRAY then Some (Inl r)
              else do {
                q \<leftarrow> rd_next M buf p;
                Some (Inr (q, r\<lparr>r_data := Some p, r_data_end := Some q\<rparr>)) } }
           else do { p \<leftarrow> rd_next M buf p; Some (Inr (p, r)) });
     case x of
       Inl r \<Rightarrow> Some (Inl r)
     | Inr (p, r) \<Rightarrow> do {
         b \<leftarrow> key_bit key;
         tp_reply_body M buf n p (r\<lparr>r_bitmap := r_bitmap r OR b\<rparr>) } }"

text \<open>The end of \<open>tp_reply\<close>, behind the header.\<close>

definition tp_reply_rest :: "msgpuck \<Rightarrow> bytes \<Rightarrow> u32 \<Rightarrow> nat \<Rightarrow> tpresponse \<Rightarrow> (int \<times> tpresponse) option" where
  "tp_reply_rest M buf len p r =
     (if p = unat len + 5 then Some (int (unat (len + 5)), r)
      else do {
        ok \<leftarrow> rd_checked M buf p MP_MAP;
        if \<not> ok then Some (-1, r)
        else do {
          (n, p) \<leftarrow> rd_map M buf p;
          x \<leftarrow> tp_reply_body M buf (unat n) p r;
          case x of
            Inl r \<Rightarrow> Some (-1, r)
          | Inr (p, r) \<Rightarrow>
              (case r_data r of
                 None \<Rightarrow> Some (int p, r)
               | Some _ \<Rightarrow> do {
                   data \<leftarrow> span buf (r_data r) (r_data_end r);
                   (rc, itr) \<leftarrow> tp_array_itr_init M data;
                   let r = r\<lparr>r_tuple_itr := itr\<rparr>;
                   if rc \<noteq> 0 then Some (-1, r) else Some (int p, r) }) } })"

definition tp_reply :: "msgpuck \<Rightarrow> bytes \<Rightarrow> (int \<times> tpresponse) option" where
  "tp_reply M buf =
     (let r = zero_response in
      if buf = [] then Some (0, r)
      else do {
        ok \<leftarrow> rd_checked M buf 0 MP_UINT;
        if \<not> ok then Some (-1, r)
        else do {
          (v, p) \<leftarrow> rd_uint M buf 0;
          let len = (ucast v :: u32);
          if length buf < unat (len + word_of_nat p) then Some (0, r)
          else do {
            ok \<leftarrow> rd_checked M buf p MP_MAP;
            if \<not> ok then Some (-1, r)
            else do {
              (n, p) \<leftarrow> rd_map M buf p;
              x \<leftarrow> tp_reply_header M buf (unat n) p r;
              case x of
                Inl r \<Rightarrow> Some (-1, r)
              | Inr (p, r) \<Rightarrow> tp_reply_rest M buf len p r } } } })"

section \<open>Accessors\<close>

definition tp_getreqid :: "tpresponse \<Rightarrow> u32" where
  "tp_getreqid r = ucast (r_sync r)"

definition tp_hasdata :: "tpresponse \<Rightarrow> bool" where
  "tp_hasdata r \<longleftrightarrow> 0 < unat (ai_count (r_tuple_itr r))"

definition tp_tuplecount :: "tpresponse \<Rightarrow> u32" where
  "tp_tuplecount r = ai_count (r_tuple_itr r)"

definition tp_rewind :: "tpresponse \<Rightarrow> tpresponse" where
  "tp_rewind r = r\<lparr>r_tuple_itr := tp_array_itr_reset (r_tuple_itr r), r_field_itr := zero_array_itr\<rparr>"

definition tp_next :: "msgpuck \<Rightarrow> tpresponse \<Rightarrow> (bool \<times> tpresponse) option" where
  "tp_next M r = do {
     (more, itr) \<leftarrow> tp_array_itr_next M (r_tuple_itr r);
     let r = r\<lparr>r_tuple_itr := itr\<rparr>;
     if \<not> more then Some (False, r\<lparr>r_field_itr := zero_array_itr\<rparr>)
     else do {
       tuple \<leftarrow> span (ai_data itr) (ai_elem itr) (ai_end itr);
       (rc, fitr) \<leftarrow> tp_array_itr_init M tuple;
       Some (True, r\<lparr>r_field_itr := fitr\<rparr>) } }"

text \<open>\<open>(uint32_t)(cur_index + 1)\<close>\<close>

definition itr_hasnext :: "array_itr \<Rightarrow> bool option" where
  "itr_hasnext itr = do { c \<leftarrow> int_incr (ai_cur itr); Some (as_u32 c < unat (ai_count itr)) }"

definition tp_hasnext :: "tpresponse \<Rightarrow> bool option" where
  "tp_hasnext r = itr_hasnext (r_tuple_itr r)"

definition tp_gettuple :: "tpresponse \<Rightarrow> nat option" where
  "tp_gettuple r = ai_elem (r_tuple_itr r)"

text \<open>The difference of two pointers as a \<open>uint32_t\<close>; both are NULL before the first element.\<close>

definition ptr_size :: "nat option \<Rightarrow> nat option \<Rightarrow> u32 option" where
  "ptr_size a b = (case (a, b) of
       (Some a, Some b) \<Rightarrow> Some (word_of_int (int b - int a))
     | (None, None) \<Rightarrow> Some 0
     | _ \<Rightarrow> None)"

definition tp_tuplesize :: "tpresponse \<Rightarrow> u32 option" where
  "tp_tuplesize r = ptr_size (ai_elem (r_tuple_itr r)) (ai_end (r_tuple_itr r))"

definition tp_tupleend :: "tpresponse \<Rightarrow> nat option" where
  "tp_tupleend r = ai_end (r_tuple_itr r)"

definition tp_rewindfield :: "tpresponse \<Rightarrow> tpresponse" where
  "tp_rewindfield r = r\<lparr>r_field_itr := tp_array_itr_reset (r_field_itr r)\<rparr>"

definition tp_nextfield :: "msgpuck \<Rightarrow> tpresponse \<Rightarrow> (bool \<times> tpresponse) option" where
  "tp_nextfield M r = do {
     (more, itr) \<leftarrow> tp_array_itr_next M (r_field_itr r);
     Some (more, r\<lparr>r_field_itr := itr\<rparr>) }"

definition tp_hasnextfield :: "tpresponse \<Rightarrow> bool option" where
  "tp_hasnextfield r = itr_hasnext (r_field_itr r)"

definition tp_getfield :: "tpresponse \<Rightarrow> nat option" where
  "tp_getfield r = ai_elem (r_field_itr r)"

definition tp_getfieldsize :: "tpresponse \<Rightarrow> u32 option" where
  "tp_getfieldsize r = ptr_size (ai_elem (r_field_itr r)) (ai_end (r_field_itr r))"

text \<open>\<open>enum tp_type\<close> renames the types of msgpuck.\<close>

definition tp_typeof :: "msgpuck \<Rightarrow> byte \<Rightarrow> mp_type" where
  "tp_typeof M c = mp_typeof M c"

text \<open>The values of a field: its bytes to the end of the response.\<close>

definition tp_get_uint :: "msgpuck \<Rightarrow> bytes \<Rightarrow> u64 option" where
  "tp_get_uint M field = map_option fst (mp_decode_uint M field)"

definition tp_get_int :: "msgpuck \<Rightarrow> bytes \<Rightarrow> u64 option" where
  "tp_get_int M field = map_option fst (mp_decode_int M field)"

definition tp_get_float :: "msgpuck \<Rightarrow> bytes \<Rightarrow> u32 option" where
  "tp_get_float M field = map_option fst (mp_decode_float M field)"

definition tp_get_double :: "msgpuck \<Rightarrow> bytes \<Rightarrow> u64 option" where
  "tp_get_double M field = map_option fst (mp_decode_double M field)"

definition tp_get_bool :: "msgpuck \<Rightarrow> bytes \<Rightarrow> bool option" where
  "tp_get_bool M field = map_option fst (mp_decode_bool M field)"

text \<open>The start of the characters and \<open>*size\<close>.\<close>

definition tp_get_str :: "msgpuck \<Rightarrow> bytes \<Rightarrow> (nat \<times> u32) option" where
  "tp_get_str M field = map_option (\<lambda>(w, h). (h, w)) (mp_decode_strl M field)"

definition tp_get_bin :: "msgpuck \<Rightarrow> bytes \<Rightarrow> (nat \<times> u32) option" where
  "tp_get_bin M field = map_option (\<lambda>(w, h). (h, w)) (mp_decode_binl M field)"

end
