(* ===== verification/Tp_Response.thy ===== *)
theory Tp_Response
  imports Tp_Reply
begin

text \<open>
  The response reader of \<open>include/tp.h\<close> against the specification of a response: its two loops
  read every well-formed package, a prefix of one is recognised, and the iterators meet the
  contract \<open>cursor\<close> of \<open>Beer_Iter\<close>.
\<close>

section \<open>The loops\<close>

unbundle bit_operations_syntax

lemma key_bit_simps: "key_bit 0 = Some 1" "key_bit 1 = Some 2"
  by (simp_all add: key_bit_def)

context msgpuck_laws begin

lemma tp_header_turn:
  assumes "drop p buf = field_bytes M (k, mp_encode_uint M v) @ s" "unat k < 64"
  shows "tp_reply_header M buf (Suc n) p r = tp_reply_header M buf n (p + length (field_bytes M (k, mp_encode_uint M v)))
    (r\<lparr>r_bitmap := r_bitmap r OR push_bit (unat k) 1, r_code := (if k = 0 then ucast v else r_code r),
       r_sync := (if k = 1 then v else r_sync r)\<rparr>)"
proof -
  have d1: "drop p buf = mp_encode_uint M k @ mp_encode_uint M v @ s"
    using assms(1) by (simp add: field_bytes_def)
  define q where "q = p + length (mp_encode_uint M k)"
  have d2: "drop q buf = mp_encode_uint M v @ s" using drop_shift [OF d1] by (simp add: q_def)
  have t: "rd_type M buf p = Some MP_UINT" "rd_type M buf q = Some MP_UINT"
    using rd_type_hd [OF d1] rd_type_hd [OF d2] by (simp_all add: enc_ne type_uint)
  have n: "rd_uint M buf p = Some (k, q)" "rd_uint M buf q = Some (v, q + length (mp_encode_uint M v))"
    "rd_next M buf q = Some (q + length (mp_encode_uint M v))"
    using rd_uint_enc [OF d1] rd_uint_enc [OF d2] rd_next_obj [OF d2 mp_obj_uint] by (simp_all add: q_def)
  have k: "unat (ucast k :: u32) = unat k" using assms(2) by (rule small_key)
  have k0: "(ucast k :: u32) = 0 \<longleftrightarrow> k = 0" "(ucast k :: u32) = 1 \<longleftrightarrow> k = 1"
    using k by (auto simp: unat_eq_zero [symmetric] word_unat_eq_iff)
  have e: "p + length (field_bytes M (k, mp_encode_uint M v)) = q + length (mp_encode_uint M v)"
    by (simp add: field_bytes_def q_def)
  have kb: "key_bit (ucast k) = Some (push_bit (unat k) 1)" using k assms(2) by (simp add: key_bit_def)
  show ?thesis
    unfolding e by (cases "k = 0"; cases "k = 1"; cases r) (simp_all add: t n k0 kb key_bit_simps)
qed

lemma tp_reply_header_walk:
  assumes "drop p buf = concat (map (field_bytes M) (uint_fields M hs)) @ s" "small_keys hs"
  shows "\<exists>b. tp_reply_header M buf (length hs) p r
    = Some (Inr (p + length (concat (map (field_bytes M) (uint_fields M hs))),
        r\<lparr>r_bitmap := b, r_code := (case last_of hs 0 of None \<Rightarrow> r_code r | Some v \<Rightarrow> ucast v),
          r_sync := (case last_of hs 1 of None \<Rightarrow> r_sync r | Some v \<Rightarrow> v)\<rparr>)) \<and>
    (\<forall>n<64. bit b n \<longleftrightarrow> bit (r_bitmap r) n \<or> n \<in> unat ` fst ` set hs)"
  using assms
proof (induction hs arbitrary: p r)
  case Nil
  then show ?case by (intro exI [of _ "r_bitmap r"]) (simp add: uint_fields_def)
next
  case (Cons h hs)
  obtain k v where h: "h = (k, v)" by (cases h)
  define x where "x = field_bytes M (k, mp_encode_uint M v)"
  define t where "t = concat (map (field_bytes M) (uint_fields M hs))"
  have k: "unat k < 64" "small_keys hs" using Cons.prems(2) by (simp_all add: h small_keys_def)
  have d: "drop p buf = x @ t @ s" using Cons.prems(1) by (simp add: h x_def t_def uint_fields_def)
  define r1 where "r1 = r\<lparr>r_bitmap := r_bitmap r OR push_bit (unat k) 1, r_code := (if k = 0 then ucast v else r_code r),
       r_sync := (if k = 1 then v else r_sync r)\<rparr>"
  have turn: "tp_reply_header M buf (length (h # hs)) p r = tp_reply_header M buf (length hs) (p + length x) r1"
    using tp_header_turn [OF d [unfolded x_def] k(1)] by (simp add: x_def r1_def del: tp_reply_header.simps)
  from Cons.IH [OF drop_shift [OF d, unfolded t_def] k(2), of r1, folded t_def] obtain b where
    b: "tp_reply_header M buf (length hs) (p + length x) r1 = Some (Inr (p + length x + length t,
        r1\<lparr>r_bitmap := b, r_code := (case last_of hs 0 of None \<Rightarrow> r_code r1 | Some v \<Rightarrow> ucast v),
          r_sync := (case last_of hs 1 of None \<Rightarrow> r_sync r1 | Some v \<Rightarrow> v)\<rparr>))"
    "\<forall>n<64. bit b n \<longleftrightarrow> bit (r_bitmap r1) n \<or> n \<in> unat ` fst ` set hs" by blast
  have "p + length x + length t = p + length (concat (map (field_bytes M) (uint_fields M (h # hs))))"
    by (simp add: h x_def t_def uint_fields_def)
  moreover have "\<forall>n<64. bit b n \<longleftrightarrow> bit (r_bitmap r) n \<or> n \<in> unat ` fst ` set (h # hs)"
    using b(2) bit_key_u64 [of _ k "r_bitmap r"] k(1) by (auto simp: h r1_def)
  ultimately show ?case
    using turn b(1) by (intro exI [of _ b]) (cases r; auto simp: h r1_def split: option.splits)
qed

end

text \<open>What a header leaves in the response.\<close>

definition head_read :: "(u64 \<times> u64) list \<Rightarrow> tpresponse \<Rightarrow> bool" where
  "head_read hs r \<longleftrightarrow>
     (\<exists>b. r = zero_response\<lparr>r_bitmap := b, r_code := (case last_of hs 0 of None \<Rightarrow> 0 | Some v \<Rightarrow> ucast v),
          r_sync := (case last_of hs 1 of None \<Rightarrow> 0 | Some v \<Rightarrow> v)\<rparr> \<and>
        (\<forall>n<64. bit b n \<longleftrightarrow> n \<in> unat ` fst ` set hs))"

text \<open>What a run over body fields leaves in the response.\<close>

definition body_read :: "msgpuck \<Rightarrow> bytes \<Rightarrow> fields \<Rightarrow> tpresponse \<Rightarrow> tpresponse \<Rightarrow> bool" where
  "body_read M buf fs r r' \<longleftrightarrow>
     r_code r' = r_code r \<and> r_sync r' = r_sync r \<and> r_tuple_itr r' = r_tuple_itr r \<and> r_field_itr r' = r_field_itr r \<and>
     (case last_of fs 0x30 of None \<Rightarrow> r_data r' = r_data r \<and> r_data_end r' = r_data_end r
      | Some v \<Rightarrow> r_data r' \<noteq> None \<and> span buf (r_data r') (r_data_end r') = Some v) \<and>
     (case last_of fs 0x31 of None \<Rightarrow> r_error r' = r_error r \<and> r_error_end r' = r_error_end r
      | Some v \<Rightarrow> text_at M buf (r_error r') (r_error_end r') v) \<and>
     (\<forall>n<64. bit (r_bitmap r') n \<longleftrightarrow> bit (r_bitmap r) n \<or> n \<in> unat ` fst ` set fs)"

lemma body_read_Cons:
  "body_read M buf [f] r r1 \<Longrightarrow> body_read M buf fs r1 r2 \<Longrightarrow> body_read M buf (f # fs) r r2"
  by (cases f) (auto simp: body_read_def split: option.splits if_splits)

context msgpuck_laws begin

lemma tp_body_turn:
  assumes "drop p buf = field_bytes M f @ s" "unat (fst f) < 64" "response_field M f"
  shows "\<exists>r1. tp_reply_body M buf (Suc n) p r = tp_reply_body M buf n (p + length (field_bytes M f)) r1 \<and>
    body_read M buf [f] r r1"
proof -
  obtain k x where f: "f = (k, x)" by (cases f)
  have d1: "drop p buf = mp_encode_uint M k @ x @ s" using assms(1) by (simp add: f field_bytes_def)
  define q where "q = p + length (mp_encode_uint M k)"
  have d2: "drop q buf = x @ s" using drop_shift [OF d1] by (simp add: q_def)
  have x: "mp_obj M x" "x \<noteq> []" using assms(3) mp_obj_ne by (auto simp: f response_field_def)
  have kk: "unat (ucast k :: u32) = unat k" "unat k < 64" using assms(2) by (simp_all add: f small_key)
  have n: "rd_uint M buf p = Some (k, q)" "rd_next M buf q = Some (q + length x)"
    using rd_uint_enc [OF d1] rd_next_obj [OF d2 x(1)] by (simp_all add: q_def)
  have e: "p + length (field_bytes M f) = q + length x" by (simp add: f field_bytes_def q_def)
  have bits: "\<forall>n<64. bit (b OR push_bit (unat k) 1) n \<longleftrightarrow> bit b n \<or> n = unat k" for b :: u64
    using bit_key_u64 kk(2) by blast
  consider (error) "k = 0x31" | (data) "k = 0x30" | (other) "k \<noteq> 0x30" "k \<noteq> 0x31" by blast
  then show ?thesis
  proof cases
    case error
    then obtain str where str: "length str < 4294967296" "x = mp_encode_str M str"
      using assms(3) by (auto simp: f response_field_def)
    define a where "a = q + str_hdr_size (length str)"
    note d3 = rd_str_enc [OF d2 [unfolded str(2)] str(1), folded a_def]
    have "mp_typeof M (hd x) = MP_STR" using type_str enc_ne(6) by (simp add: str(2) enc_str)
    then have t: "rd_type M buf q = Some MP_STR" using rd_type_hd [OF d2 x(2)] by simp
    define r1 where "r1 = r\<lparr>r_error := Some a, r_error_end := Some (a + length str),
      r_bitmap := r_bitmap r OR push_bit (unat k) 1\<rparr>"
    have "tp_reply_body M buf (Suc n) p r = tp_reply_body M buf n (q + length x) r1"
      using str(1) t n d3(1) error by (simp add: unat_of_nat r1_def str(2) key_bit_def)
    moreover have "body_read M buf [f] r r1"
      using d3(2) bits by (auto simp: body_read_def f r1_def error text_at_def str(2))
    ultimately show ?thesis unfolding e by blast
  next
    case data
    then have t: "rd_type M buf q = Some MP_ARRAY"
      using rd_type_hd [OF d2 x(2)] assms(3) by (simp add: f response_field_def)
    define r1 where "r1 = r\<lparr>r_data := Some q, r_data_end := Some (q + length x),
      r_bitmap := r_bitmap r OR push_bit (unat k) 1\<rparr>"
    have "tp_reply_body M buf (Suc n) p r = tp_reply_body M buf n (q + length x) r1"
      using t n data by (simp add: r1_def key_bit_def)
    moreover have "body_read M buf [f] r r1"
      using span_shift [OF d2 x(2)] bits by (auto simp: body_read_def f r1_def data)
    ultimately show ?thesis unfolding e by blast
  next
    case other
    then have "(ucast k :: u32) \<noteq> 0x30" "(ucast k :: u32) \<noteq> 0x31"
      using kk(1) by (auto simp: word_unat_eq_iff)
    moreover define r1 where "r1 = r\<lparr>r_bitmap := r_bitmap r OR push_bit (unat k) 1\<rparr>"
    ultimately have "tp_reply_body M buf (Suc n) p r = tp_reply_body M buf n (q + length x) r1"
      using n kk by (simp add: key_bit_def)
    moreover have "body_read M buf [f] r r1"
      using other bits by (auto simp: body_read_def f r1_def)
    ultimately show ?thesis unfolding e by blast
  qed
qed

lemma tp_reply_body_walk:
  assumes "drop p buf = concat (map (field_bytes M) fs) @ s" "small_keys fs" "\<forall>f \<in> set fs. response_field M f"
  shows "\<exists>r'. tp_reply_body M buf (length fs) p r = Some (Inr (p + length (concat (map (field_bytes M) fs)), r')) \<and>
    body_read M buf fs r r'"
  using assms
proof (induction fs arbitrary: p r)
  case Nil
  then show ?case by (simp add: body_read_def)
next
  case (Cons f fs)
  define t where "t = concat (map (field_bytes M) fs)"
  have d: "drop p buf = field_bytes M f @ t @ s" using Cons.prems(1) by (simp add: t_def)
  obtain r1 where r1: "tp_reply_body M buf (Suc (length fs)) p r
      = tp_reply_body M buf (length fs) (p + length (field_bytes M f)) r1" "body_read M buf [f] r r1"
    using tp_body_turn [OF d, of "length fs" r] Cons.prems(2,3) unfolding small_keys_def by auto
  have "small_keys fs" "\<forall>f \<in> set fs. response_field M f" using Cons.prems by (simp_all add: small_keys_def)
  from Cons.IH [OF drop_shift [OF d, unfolded t_def] this, of r1, folded t_def] obtain r2 where
    "tp_reply_body M buf (length fs) (p + length (field_bytes M f)) r1
       = Some (Inr (p + length (field_bytes M f) + length t, r2))" "body_read M buf fs r1 r2" by blast
  with r1 body_read_Cons [OF r1(2)] show ?case
    by (intro exI [of _ r2]) (simp add: t_def add.assoc del: tp_reply_body.simps)
qed

section \<open>A whole response\<close>

lemma zero_response_sel [simp]: "r_bitmap zero_response = 0" "r_code zero_response = 0" "r_sync zero_response = 0"
  "r_data zero_response = None" "r_data_end zero_response = None" "r_error zero_response = None"
  "r_error_end zero_response = None"
  by (simp_all add: zero_response_def)

lemma tp_reply_head:
  assumes "small_keys hs" "length hs < 4294967296" "pl = body_bytes M (uint_fields M hs) @ rest"
    "length pl + 5 < 4294967296"
  shows "\<exists>r. tp_reply M (package pl @ tail) = tp_reply_rest M (package pl @ tail) (word_of_nat (length pl))
      (5 + length (body_bytes M (uint_fields M hs))) r \<and> head_read hs r"
proof -
  define w where "w = (word_of_nat (length pl) :: u32)"
  define buf where "buf = package pl @ tail"
  have w: "unat w = length pl" using assms(4) by (simp add: w_def unat_of_nat)
  have b: "buf = (0xce # be 4 (unat w)) @ pl @ tail"
    using package_prefix(1) [of pl] assms(4) by (simp add: buf_def w_def)
  have d0: "drop 0 buf = (0xce # be 4 (unat w)) @ pl @ tail" using b by simp
  have c0: "rd_checked M buf 0 MP_UINT = Some True"
    using rd_checked_obj [OF d0, of 5 MP_UINT] prefix_check [of w "pl @ tail"] by (simp add: type_uint_fixed)
  have u0: "rd_uint M buf 0 = Some (ucast w, 5)"
    using dec_uint_fixed(1) [of w "pl @ tail"] b by (simp add: rd_uint_def)
  have ww: "ucast (ucast w :: u64) = w" by (simp add: word_unat_eq_iff unat_u32_of_u64)
  have size: "\<not> length buf < unat (w + word_of_nat 5)"
  proof -
    have "unat (w + word_of_nat 5) = length pl + 5"
      using w assms(4) by (subst unat_add_lem [THEN iffD1]) (simp_all add: unat_of_nat)
    then show ?thesis by (simp add: b)
  qed
  have d5: "drop 5 buf = body_bytes M (uint_fields M hs) @ rest @ tail" using b by (simp add: assms(3))
  have lh: "length (uint_fields M hs) = length hs" by (simp add: uint_fields_def)
  obtain q where q: "rd_checked M buf 5 MP_MAP = Some True"
    "rd_map M buf 5 = Some (word_of_nat (length hs), q)" "unat (word_of_nat (length hs) :: u32) = length hs"
    "drop q buf = concat (map (field_bytes M) (uint_fields M hs)) @ rest @ tail"
    "q + length (concat (map (field_bytes M) (uint_fields M hs))) = 5 + length (body_bytes M (uint_fields M hs))"
    using enter_map [OF d5, unfolded lh, OF assms(2) uint_fields_obj] by metis
  obtain r where r: "tp_reply_header M buf (length hs) q zero_response
      = Some (Inr (5 + length (body_bytes M (uint_fields M hs)), r))" "head_read hs r"
    using tp_reply_header_walk [OF q(4) assms(1), of zero_response, unfolded zero_response_sel] q(5)
    by (auto simp: head_read_def)
  have "buf \<noteq> []" by (simp add: b)
  then have "tp_reply M buf = tp_reply_rest M buf w (5 + length (body_bytes M (uint_fields M hs))) r"
    using c0 u0 size q(1-3) r(1) by (simp add: tp_reply_def Let_def ww)
  with r(2) show ?thesis by (auto simp: buf_def w_def)
qed

text \<open>The two ends of a response: no body, or a body.\<close>

lemma tp_reply_rest_none: "unat len + 5 < 4294967296 \<Longrightarrow>
    tp_reply_rest M buf len (unat len + 5) r = Some (int (unat len + 5), r)"
  by (simp add: tp_reply_rest_def unat_add_lem [THEN iffD1])

lemma tp_array_itr_init_obj:
  assumes "mp_obj M v" "mp_typeof M (hd v) = MP_ARRAY"
  shows "\<exists>itr xs hdr. tp_array_itr_init M v = Some (0, itr) \<and> v = hdr @ concat xs \<and> unat (ai_count itr) = length xs \<and>
    mp_decode_array M v = Some (ai_count itr, length hdr) \<and> (length xs < 2147483648 \<longrightarrow> array_at M itr xs 0)"
proof -
  have c: "v \<noteq> []" "mp_check M v = Some (length v)"
    using assms(1) mp_obj_ne by (auto simp: mp_obj_def)
  from beer_iter_array_start [OF _ c(1) assms(2) c(2), of True True] obtain it xs r hd where
    it: "beer_iter_array M True True v = Some (Some it)" "v = hd @ concat xs @ r" "length (hd @ concat xs) = length v"
    "mp_decode_array M v = Some (ai_count (i_data it), length hd)" "unat (ai_count (i_data it)) = length xs"
    "length xs < 2147483648 \<longrightarrow> array_at M (i_data it) xs 0" by auto
  have "it = \<lparr>i_status = BEER_ITER_OK, i_alloc = False, i_data = \<lparr>ai_data = v, ai_first = length hd,
      ai_elem = None, ai_end = None, ai_count = ai_count (i_data it), ai_cur = -1\<rparr>\<rparr>"
    using it(1,4) c assms(2) by (simp add: beer_iter_array_eq)
  then have "i_data it = \<lparr>ai_data = v, ai_first = length hd, ai_elem = None, ai_end = None,
      ai_count = ai_count (i_data it), ai_cur = -1\<rparr>"
    by (metis beer_iter.select_convs(3))
  then have "tp_array_itr_init M v = Some (0, i_data it)"
    using it(4) c assms(2) by (simp add: tp_array_itr_init_def)
  moreover have "r = []" using arg_cong [OF it(2), of length] it(3) by simp
  ultimately show ?thesis using it by auto
qed

lemma tp_reply_rest_body:
  assumes "drop p buf = body_bytes M fs @ tail" "small_keys fs" "\<forall>f \<in> set fs. response_field M f"
    "length fs < 4294967296" "p + length (body_bytes M fs) = unat len + 5" "r_data r = None"
  shows "\<exists>r'. tp_reply_rest M buf len p r = Some (int (unat len + 5), r') \<and>
    body_read M buf fs (r\<lparr>r_tuple_itr := r_tuple_itr r'\<rparr>) r' \<and>
    (case last_of fs 0x30 of None \<Rightarrow> r_tuple_itr r' = r_tuple_itr r
     | Some v \<Rightarrow> tp_array_itr_init M v = Some (0, r_tuple_itr r'))"
proof -
  have objs: "\<forall>f \<in> set fs. mp_obj M (snd f)" using assms(3) by (simp add: response_field_def)
  obtain q where q: "rd_checked M buf p MP_MAP = Some True" "rd_map M buf p = Some (word_of_nat (length fs), q)"
    "unat (word_of_nat (length fs) :: u32) = length fs" "drop q buf = concat (map (field_bytes M) fs) @ tail"
    "q + length (concat (map (field_bytes M) fs)) = p + length (body_bytes M fs)"
    using enter_map [OF assms(1,4) objs] by metis
  obtain r1 where r1: "tp_reply_body M buf (length fs) q r = Some (Inr (unat len + 5, r1))" "body_read M buf fs r r1"
    using tp_reply_body_walk [OF q(4) assms(2,3), of r] q(5) assms(5) by auto
  have p: "p \<noteq> unat len + 5" using assms(5) body_hd(1) [of fs] by auto
  show ?thesis
  proof (cases "last_of fs 0x30")
    case None
    then have "r_data r1 = None" "r_tuple_itr r1 = r_tuple_itr r"
      using r1(2) assms(6) by (simp_all add: body_read_def)
    then show ?thesis
      using p q(1-3) r1 None by (intro exI [of _ r1]) (simp add: tp_reply_rest_def body_read_def)
  next
    case (Some v)
    then have v: "r_data r1 \<noteq> None" "span buf (r_data r1) (r_data_end r1) = Some v"
      using r1(2) by (simp_all add: body_read_def)
    have "(0x30, v) \<in> set fs" using Some by (auto simp: last_of_def dest: map_of_SomeD)
    then have "mp_obj M v" "mp_typeof M (hd v) = MP_ARRAY"
      using assms(3) by (auto simp: response_field_def)
    from tp_array_itr_init_obj [OF this] obtain itr where i: "tp_array_itr_init M v = Some (0, itr)" by auto
    have "tp_reply_rest M buf len p r = Some (int (unat len + 5), r1\<lparr>r_tuple_itr := itr\<rparr>)"
      using p q(1-3) r1(1) v i by (auto simp: tp_reply_rest_def)
    moreover have "body_read M buf fs (r\<lparr>r_tuple_itr := itr\<rparr>) (r1\<lparr>r_tuple_itr := itr\<rparr>)"
      using r1(2) by (simp add: body_read_def cong: option.case_cong)
    ultimately show ?thesis using i Some by (intro exI [of _ "r1\<lparr>r_tuple_itr := itr\<rparr>"]) simp
  qed
qed

text \<open>A response that has not arrived completely.\<close>

lemma tp_reply_partial:
  assumes "length pl + 5 < 4294967296" "5 \<le> k" "k < length (package pl)"
  shows "tp_reply M (take k (package pl)) = Some (0, zero_response)"
proof -
  define w where "w = (word_of_nat (length pl) :: u32)"
  define buf where "buf = take k (package pl)"
  have w: "unat w = length pl" using assms(1) by (simp add: w_def unat_of_nat)
  have b: "buf = (0xce # be 4 (unat w)) @ take (k - 5) pl"
    using package_prefix(1) [of pl] assms(1,2) by (cases k) (auto simp: buf_def w_def)
  have d0: "drop 0 buf = (0xce # be 4 (unat w)) @ take (k - 5) pl" using b by simp
  have c0: "rd_checked M buf 0 MP_UINT = Some True"
    using rd_checked_obj [OF d0, of 5 MP_UINT] prefix_check [of w "take (k - 5) pl"] by (simp add: type_uint_fixed)
  have u0: "rd_uint M buf 0 = Some (ucast w, 5)"
    using dec_uint_fixed(1) [of w "take (k - 5) pl"] b by (simp add: rd_uint_def)
  have ww: "ucast (ucast w :: u64) = w" by (simp add: word_unat_eq_iff unat_u32_of_u64)
  have "unat (w + word_of_nat 5) = length pl + 5"
    using w assms(1) by (subst unat_add_lem [THEN iffD1]) (simp_all add: unat_of_nat)
  then have "length buf < unat (w + word_of_nat 5)"
    using assms package_prefix(2) [of pl] by (simp add: buf_def)
  moreover have "buf \<noteq> []" by (simp add: b)
  ultimately show ?thesis using c0 u0 by (simp add: tp_reply_def Let_def ww buf_def [symmetric])
qed

text \<open>With less than the five bytes of the prefix it reports an error.\<close>

lemma tp_reply_short_prefix:
  assumes "length pl < 4294967296" "0 < k" "k < 5"
  shows "tp_reply M (take k (package pl)) = Some (-1, zero_response)"
proof -
  have "mp_check M (take k (package pl)) = None"
    using prefix_short [OF assms(3), of "word_of_nat (length pl)" pl] package_prefix(1) [OF assms(1)] by simp
  moreover have "take k (package pl) \<noteq> []" using assms(2) by (simp add: package_def luint_def)
  ultimately show ?thesis by (simp add: tp_reply_def rd_checked_def Let_def)
qed

end

section \<open>The iterators meet the contract\<close>

lemma tp_array_itr_next_step: "tp_array_itr_next M itr = array_step M itr"
  by (cases "int_incr (ai_cur itr)") (auto simp: tp_array_itr_next_def array_step_def Let_def)

lemma tp_map_itr_next_step: "tp_map_itr_next M itr = map_step M itr"
  by (cases "int_incr (mi_cur itr)") (auto simp: tp_map_itr_next_def map_step_def Let_def)

lemma tp_itr_reset: "tp_array_itr_reset itr = array_reset itr" "tp_map_itr_reset m = map_reset m"
  by (simp_all add: tp_array_itr_reset_def array_reset_def tp_map_itr_reset_def map_reset_def)

sublocale msgpuck_laws \<subseteq> tp_arr: cursor "tp_array_itr_next M" tp_array_itr_reset iarray_elem "array_at M"
  by unfold_locales
    (auto simp: tp_array_itr_next_step tp_itr_reset intro: array_step_item array_step_end array_at_reset array_at_bound)

sublocale msgpuck_laws \<subseteq> tp_map: cursor "tp_map_itr_next M" tp_map_itr_reset imap_pair "map_at M"
  by unfold_locales
    (auto simp: tp_map_itr_next_step tp_itr_reset intro: map_step_item map_step_end map_at_reset map_at_bound)

text \<open>The tuples of a response, and the fields of its current tuple.\<close>

definition cur_tuple :: "tpresponse \<Rightarrow> bytes option" where
  "cur_tuple r = iarray_elem (r_tuple_itr r)"

definition cur_field :: "tpresponse \<Rightarrow> bytes option" where
  "cur_field r = iarray_elem (r_field_itr r)"

text \<open>The bytes of a tuple with the fields \<open>ys\<close>.\<close>

definition is_row :: "msgpuck \<Rightarrow> bytes \<Rightarrow> bytes list \<Rightarrow> bool" where
  "is_row M x ys \<longleftrightarrow> mp_obj M x \<and> mp_typeof M (hd x) = MP_ARRAY \<and> length ys < 2147483648 \<and>
     (\<forall>y \<in> set ys. mp_obj M y) \<and>
     (\<exists>w h. mp_decode_array M x = Some (w, h) \<and> unat w = length ys \<and> drop h x = concat ys)"

text \<open>The inner loop of a client, with fuel.\<close>

definition row_of :: "msgpuck \<Rightarrow> nat \<Rightarrow> tpresponse \<Rightarrow> bytes list option" where
  "row_of M n r = map_option fst (drain (tp_nextfield M) cur_field n r)"

definition rows_at :: "msgpuck \<Rightarrow> nat \<Rightarrow> tpresponse \<Rightarrow> bytes list list \<Rightarrow> nat \<Rightarrow> bool" where
  "rows_at M n r rows k \<longleftrightarrow> (\<exists>xs. array_at M (r_tuple_itr r) xs k \<and> list_all2 (is_row M) xs rows \<and>
     (\<forall>ys \<in> set rows. length ys < n))"

sublocale msgpuck_laws \<subseteq> tp_fields: cursor "tp_nextfield M" tp_rewindfield cur_field
    "\<lambda>r. array_at M (r_field_itr r)"
proof
  fix r xs k
  show "array_at M (r_field_itr r) xs k \<Longrightarrow> k < length xs \<Longrightarrow>
      \<exists>r'. tp_nextfield M r = Some (True, r') \<and> array_at M (r_field_itr r') xs (Suc k) \<and> cur_field r' = Some (xs ! k)"
    using tp_arr.next_item [of "r_field_itr r" xs k] by (auto simp: tp_nextfield_def cur_field_def)
  show "array_at M (r_field_itr r) xs k \<Longrightarrow> length xs \<le> k \<Longrightarrow> k < 2147483648 \<Longrightarrow>
      \<exists>r'. tp_nextfield M r = Some (False, r') \<and> array_at M (r_field_itr r') xs (Suc k)"
    using tp_arr.next_end [of "r_field_itr r" xs k] by (auto simp: tp_nextfield_def)
  show "array_at M (r_field_itr r) xs k \<Longrightarrow> array_at M (r_field_itr (tp_rewindfield r)) xs 0"
    using tp_arr.rewind_start by (simp add: tp_rewindfield_def)
  show "array_at M (r_field_itr r) xs k \<Longrightarrow> length xs < 2147483648"
    by (rule array_at_bound)
qed

context msgpuck_laws begin

lemma is_row_init:
  assumes "is_row M x ys"
  obtains itr where "tp_array_itr_init M x = Some (0, itr)" "array_at M itr ys 0"
proof -
  from assms obtain w h where w: "mp_decode_array M x = Some (w, h)" "unat w = length ys" "drop h x = concat ys"
    by (auto simp: is_row_def)
  have x: "x \<noteq> []" "mp_check M x \<noteq> None" "mp_typeof M (hd x) = MP_ARRAY"
    using assms mp_obj_ne by (auto simp: is_row_def mp_obj_def)
  have "h \<le> length x" using dec_array_bound [OF w(1)] by simp
  then have "array_at M \<lparr>ai_data = x, ai_first = h, ai_elem = None, ai_end = None, ai_count = w, ai_cur = -1\<rparr> ys 0"
    using assms w by (simp add: array_at_def is_row_def)
  with x w(1) show thesis
    by (intro that [of "\<lparr>ai_data = x, ai_first = h, ai_elem = None, ai_end = None, ai_count = w, ai_cur = -1\<rparr>"])
       (simp_all add: tp_array_itr_init_def)
qed

text \<open>A step to the next tuple puts the field iterator at its start.\<close>

lemma tp_next_row:
  assumes "array_at M (r_tuple_itr r) xs k" "k < length xs" "is_row M (xs ! k) ys"
  shows "\<exists>r'. tp_next M r = Some (True, r') \<and> array_at M (r_tuple_itr r') xs (Suc k) \<and>
    cur_tuple r' = Some (xs ! k) \<and> array_at M (r_field_itr r') ys 0"
proof -
  obtain itr where itr: "tp_array_itr_next M (r_tuple_itr r) = Some (True, itr)" "array_at M itr xs (Suc k)"
    "iarray_elem itr = Some (xs ! k)"
    using tp_arr.next_item [OF assms(1,2)] by auto
  obtain fitr where f: "tp_array_itr_init M (xs ! k) = Some (0, fitr)" "array_at M fitr ys 0"
    by (rule is_row_init [OF assms(3)])
  have "span (ai_data itr) (ai_elem itr) (ai_end itr) = Some (xs ! k)"
    using itr(3) by (simp add: iarray_elem_def)
  then show ?thesis using itr f by (simp add: tp_next_def cur_tuple_def)
qed

end

sublocale msgpuck_laws \<subseteq> tp_rows: cursor "tp_next M" tp_rewind "row_of M n" "rows_at M n" for n
proof
  fix r rows k
  show "rows_at M n r rows k \<Longrightarrow> k < length rows \<Longrightarrow>
      \<exists>r'. tp_next M r = Some (True, r') \<and> rows_at M n r' rows (Suc k) \<and> row_of M n r' = Some (rows ! k)"
  proof -
    assume at: "rows_at M n r rows k" and k: "k < length rows"
    obtain xs where xs: "array_at M (r_tuple_itr r) xs k" "list_all2 (is_row M) xs rows" "\<forall>ys \<in> set rows. length ys < n"
      using at by (auto simp: rows_at_def)
    then have "k < length xs" "is_row M (xs ! k) (rows ! k)"
      using k by (simp_all add: list_all2_lengthD list_all2_nthD2)
    from tp_next_row [OF xs(1) this] obtain r' where r': "tp_next M r = Some (True, r')"
      "array_at M (r_tuple_itr r') xs (Suc k)" "array_at M (r_field_itr r') (rows ! k) 0" by blast
    have "length (rows ! k) < n" using xs(3) k by simp
    from tp_fields.drain_all [OF r'(3) this] have "row_of M n r' = Some (rows ! k)"
      by (auto simp: row_of_def)
    with r' xs show ?thesis by (auto simp: rows_at_def)
  qed
  show "rows_at M n r rows k \<Longrightarrow> length rows \<le> k \<Longrightarrow> k < 2147483648 \<Longrightarrow>
      \<exists>r'. tp_next M r = Some (False, r') \<and> rows_at M n r' rows (Suc k)"
  proof -
    assume at: "rows_at M n r rows k" and k: "length rows \<le> k" "k < 2147483648"
    obtain xs where xs: "array_at M (r_tuple_itr r) xs k" "list_all2 (is_row M) xs rows" "\<forall>ys \<in> set rows. length ys < n"
      using at by (auto simp: rows_at_def)
    then have "length xs \<le> k" using k by (simp add: list_all2_lengthD)
    from tp_arr.next_end [OF xs(1) this k(2)] show ?thesis
      using xs(2,3) by (auto simp: tp_next_def rows_at_def)
  qed
  show "rows_at M n r rows k \<Longrightarrow> rows_at M n (tp_rewind r) rows 0"
    using tp_arr.rewind_start by (auto simp: rows_at_def tp_rewind_def)
  show "rows_at M n r rows k \<Longrightarrow> length rows < 2147483648"
    by (auto simp: rows_at_def array_at_def dest: list_all2_lengthD)
qed

text \<open>What the interpretations give, for use outside the locale.\<close>

context msgpuck_laws begin
lemmas rows_drain = tp_rows.drain_all tp_rows.drain_again
end

end
