(* ===== verification/Beer_Reply.thy ===== *)
theory Beer_Reply
  imports Reply_Reader Beer_Mem
begin

text \<open>
  Responses (\<open>beer/beer_reply.c\<close>, \<open>include/bee/beer_reply.h\<close>) and their reading from a buffer
  stream (\<open>beer_buf_reply\<close> of \<open>beer/beer_buf.c\<close>).

  The receive callback gets its state and a size, and returns its result code, the bytes that it
  stored and the state.  A pointer into the response is an offset into \<open>rp_buf\<close>.  The loops end
  with \<open>Inl\<close> where the code jumps to \<open>rollback\<close>.
\<close>

section \<open>The structure\<close>

record beer_reply_struct =
  rp_alloc :: bool
  rp_bitmap :: u64
  rp_buf :: blk
  rp_buf_size :: nat
  rp_code :: u64
  rp_sync :: u64
  rp_schema_id :: u64
  rp_error :: "nat option"
  rp_error_end :: "nat option"
  rp_data :: "nat option"
  rp_data_end :: "nat option"

definition zero_reply :: "bool \<Rightarrow> beer_reply_struct" where
  "zero_reply alloc = \<lparr>rp_alloc = alloc, rp_bitmap = 0, rp_buf = Null, rp_buf_size = 0, rp_code = 0, rp_sync = 0,
     rp_schema_id = 0, rp_error = None, rp_error_end = None, rp_data = None, rp_data_end = None\<rparr>"

text \<open>\<open>given\<close>: the caller passed a structure; \<open>mem\<close>: a new one is found.\<close>

definition beer_reply_init :: "bool \<Rightarrow> bool \<Rightarrow> beer_reply_struct option" where
  "beer_reply_init given mem =
     (let alloc = \<not> given in if alloc \<and> \<not> mem then None else Some (zero_reply alloc))"

definition beer_reply_free :: "allocator \<Rightarrow> beer_reply_struct \<Rightarrow> beer_reply_struct option" where
  "beer_reply_free A r =
     (if rp_buf r = Null then Some r
      else do { _ \<leftarrow> beer_mem_free A (rp_buf r); Some (r\<lparr>rp_buf := Null\<rparr>) })"

section \<open>Parsing\<close>

type_synonym 's beer_reply_t = "'s \<Rightarrow> nat \<Rightarrow> (int \<times> bytes \<times> 's) option"

unbundle bit_operations_syntax

text \<open>
  The header loop.  The value's type is tested before the \<open>switch\<close>, so the same tests in its
  cases never fail.
\<close>

fun beer_reply_header :: "msgpuck \<Rightarrow> bytes \<Rightarrow> nat \<Rightarrow> nat \<Rightarrow> beer_reply_struct \<Rightarrow> (beer_reply_struct + nat \<times> beer_reply_struct) option" where
  "beer_reply_header M buf 0 p r = Some (Inr (p, r))"
| "beer_reply_header M buf (Suc n) p r = do {
     t \<leftarrow> rd_type M buf p;
     if t \<noteq> MP_UINT then Some (Inl r)
     else do {
       (key, p) \<leftarrow> rd_uint M buf p;
       let key = (ucast key :: u32);
       t \<leftarrow> rd_type M buf p;
       if t \<noteq> MP_UINT then Some (Inl r)
       else if ucast key \<notin> {header_key BEER_SYNC, header_key BEER_CODE, header_key BEER_SCHEMA_ID} then Some (Inl r)
       else do {
         (v, p) \<leftarrow> rd_uint M buf p;
         let r = (if ucast key = header_key BEER_SYNC then r\<lparr>rp_sync := v\<rparr>
                  else if ucast key = header_key BEER_CODE then r\<lparr>rp_code := v\<rparr>
                  else r\<lparr>rp_schema_id := v\<rparr>);
         b \<leftarrow> key_bit key;
         beer_reply_header M buf n p (r\<lparr>rp_bitmap := rp_bitmap r OR b\<rparr>) } } }"

text \<open>The body loop: the value of an unknown key is not skipped.\<close>

fun beer_reply_body :: "msgpuck \<Rightarrow> bytes \<Rightarrow> nat \<Rightarrow> nat \<Rightarrow> beer_reply_struct \<Rightarrow> (beer_reply_struct + nat \<times> beer_reply_struct) option" where
  "beer_reply_body M buf 0 p r = Some (Inr (p, r))"
| "beer_reply_body M buf (Suc n) p r = do {
     (key, p) \<leftarrow> rd_uint M buf p;
     let key = (ucast key :: u32);
     x \<leftarrow> (if ucast key = response_key BEER_ERROR then do {
              t \<leftarrow> rd_type M buf p;
              if t \<noteq> MP_STR then Some (Inl r)
              else do {
                (e, elen, p) \<leftarrow> rd_str M buf p;
                Some (Inr (p, r\<lparr>rp_error := Some e, rp_error_end := Some (e + unat elen),
                               rp_code := rp_code r AND 0x7fff\<rparr>)) } }
           else if ucast key = response_key BEER_DATA then do {
              t \<leftarrow> rd_type M buf p;
              if t \<noteq> MP_ARRAY then Some (Inl r)
              else do {
                q \<leftarrow> rd_next M buf p;
                Some (Inr (q, r\<lparr>rp_data := Some p, rp_data_end := Some q\<rparr>)) } }
           else Some (Inr (p, r)));
     case x of
       Inl r \<Rightarrow> Some (Inl r)
     | Inr (p, r) \<Rightarrow> do {
         b \<leftarrow> key_bit key;
         beer_reply_body M buf n p (r\<lparr>rp_bitmap := rp_bitmap r OR b\<rparr>) } }"

text \<open>
  What is done with a package of \<open>size\<close> bytes: \<open>Inl\<close> for \<open>rollback\<close>, \<open>Inr\<close> of the result.  The
  test for an absent body compares with a pointer five bytes behind the package.
\<close>

definition beer_reply_package :: "msgpuck \<Rightarrow> bytes \<Rightarrow> beer_reply_struct \<Rightarrow> (beer_reply_struct + int \<times> beer_reply_struct) option" where
  "beer_reply_package M buf r = do {
     ok \<leftarrow> rd_checked M buf 0 MP_MAP;
     if \<not> ok then Some (Inl r)
     else do {
       (n, p) \<leftarrow> rd_map M buf 0;
       x \<leftarrow> beer_reply_header M buf (unat n) p r;
       case x of
         Inl r \<Rightarrow> Some (Inl r)
       | Inr (p, r) \<Rightarrow>
           if p = length buf + 5 then Some (Inr (int (length buf + 5), r))
           else do {
             ok \<leftarrow> rd_checked M buf p MP_MAP;
             if \<not> ok then Some (Inl r)
             else do {
               (n, p) \<leftarrow> rd_map M buf p;
               x \<leftarrow> beer_reply_body M buf (unat n) p r;
               case x of
                 Inl r \<Rightarrow> Some (Inl r)
               | Inr (p, r) \<Rightarrow> Some (Inr (0, r)) } } } }"

definition rollback :: "allocator \<Rightarrow> beer_reply_struct \<Rightarrow> (int \<times> beer_reply_struct) option" where
  "rollback A r = do {
     _ \<leftarrow> (if rp_buf r = Null then Some () else beer_mem_free A (rp_buf r));
     Some (-1, zero_reply (rp_alloc r)) }"

text \<open>Five bytes of \<open>char length[9]\<close> are received; the rest is indeterminate.\<close>

definition beer_reply_from :: "msgpuck \<Rightarrow> allocator \<Rightarrow> 's beer_reply_t \<Rightarrow> 's \<Rightarrow> beer_reply_struct
    \<Rightarrow> (int \<times> beer_reply_struct \<times> 's) option" where
  "beer_reply_from M A rcv ptr r = do {
     let r = zero_reply (rp_alloc r);
     (rc, hd5, ptr) \<leftarrow> rcv ptr 5;
     if rc = -1 then do { (rc, r) \<leftarrow> rollback A r; Some (rc, r, ptr) }
     else do {
       t \<leftarrow> rd_type M hd5 0;
       if t \<noteq> MP_UINT then do { (rc, r) \<leftarrow> rollback A r; Some (rc, r, ptr) }
       else do {
         (v, _) \<leftarrow> mp_decode_uint M hd5;
         let size = unat v;
         blk \<leftarrow> beer_mem_alloc A size;
         let r = r\<lparr>rp_buf := blk, rp_buf_size := size\<rparr>;
         case blk of
           Live mem \<Rightarrow> do {
             (rc, bs, ptr) \<leftarrow> rcv ptr size;
             mem \<leftarrow> poke 0 bs mem;
             let r = r\<lparr>rp_buf := Live mem\<rparr>;
             if rc = -1 then do { (rc, r) \<leftarrow> rollback A r; Some (rc, r, ptr) }
             else do {
               x \<leftarrow> beer_reply_package M mem r;
               case x of
                 Inl r \<Rightarrow> do { (rc, r) \<leftarrow> rollback A r; Some (rc, r, ptr) }
               | Inr (rc, r) \<Rightarrow> Some (rc, r, ptr) } }
         | _ \<Rightarrow> do { (rc, r) \<leftarrow> rollback A r; Some (rc, r, ptr) } } } }"

text \<open>\<open>beer_reply_cb\<close> copies from a buffer; its state is the offset.\<close>

definition beer_reply_cb :: "bytes \<Rightarrow> nat beer_reply_t" where
  "beer_reply_cb src off n = map_option (\<lambda>bs. (int n, bs, off + n)) (slice off n src)"

text \<open>\<open>off\<close> is the value of \<open>*off\<close>, which is left alone by an error in the length.\<close>

definition beer_reply :: "msgpuck \<Rightarrow> allocator \<Rightarrow> beer_reply_struct \<Rightarrow> bytes \<Rightarrow> nat \<Rightarrow> (int \<times> beer_reply_struct \<times> nat) option" where
  "beer_reply M A r buf off =
     (let size = length buf in
      if size < 5 then Some (1, r, 5 - size)
      else do {
        t \<leftarrow> rd_type M buf 0;
        if t \<noteq> MP_UINT then Some (-1, r, off)
        else do {
          (v, _) \<leftarrow> mp_decode_uint M buf;
          let need = (unat v + 5) mod 18446744073709551616;
          if size < need then Some (1, r, need - size)
          else beer_reply_from M A (beer_reply_cb buf) 0 r } })"

section \<open>Replies on a buffer stream\<close>

definition beer_buf_reply :: "msgpuck \<Rightarrow> allocator \<Rightarrow> buf_stream \<Rightarrow> beer_reply_struct \<Rightarrow> (int \<times> beer_reply_struct \<times> buf_stream) option"
where
  "beer_buf_reply M A s r =
     (let sb = s_data s in
      case sb_data sb of
        Null \<Rightarrow> Some (-1, r, s)
      | Dangling \<Rightarrow> None
      | Live mem \<Rightarrow>
          if sb_size sb = sb_rdoff sb then Some (1, r, s)
          else do {
            data \<leftarrow> slice (sb_rdoff sb) (sb_size sb - sb_rdoff sb) mem;
            (rc, r, off) \<leftarrow> beer_reply M A r data 0;
            if rc = 0 then Some (rc, r, s\<lparr>s_data := sb\<lparr>sb_rdoff := sb_rdoff sb + off\<rparr>\<rparr>)
            else Some (rc, r, s) })"

end
