(* ===== verification/Beer_Response.thy ===== *)
theory Beer_Response
  imports Beer_Reply
begin

text \<open>
  \<open>beer_reply\<close> against the specification of a response: a complete package is read, of an incomplete
  one the number of missing bytes is told, and a package without a body is refused.
\<close>

section \<open>The loops\<close>

unbundle bit_operations_syntax

definition known_header :: "(u64 \<times> u64) list \<Rightarrow> bool" where
  "known_header hs \<longleftrightarrow> fst ` set hs \<subseteq> {header_key BEER_SYNC, header_key BEER_CODE, header_key BEER_SCHEMA_ID}"

definition known_body :: "fields \<Rightarrow> bool" where
  "known_body fs \<longleftrightarrow> fst ` set fs \<subseteq> {response_key BEER_ERROR, response_key BEER_DATA}"

definition or0 :: "u64 option \<Rightarrow> u64 \<Rightarrow> u64" where
  "or0 v d = (case v of None \<Rightarrow> d | Some v \<Rightarrow> v)"

lemma or0_simps [simp]: "or0 None d = d" "or0 (Some v) d = v"
  by (simp_all add: or0_def)

context msgpuck_laws begin

lemma beer_header_turn:
  assumes "drop p buf = field_bytes M (k, mp_encode_uint M v) @ s" "k \<in> {0, 1, 5}"
  shows "beer_reply_header M buf (Suc n) p r = beer_reply_header M buf n (p + length (field_bytes M (k, mp_encode_uint M v)))
    (r\<lparr>rp_bitmap := rp_bitmap r OR push_bit (unat k) 1, rp_code := (if k = 0 then v else rp_code r),
       rp_sync := (if k = 1 then v else rp_sync r), rp_schema_id := (if k = 5 then v else rp_schema_id r)\<rparr>)"
proof -
  have d1: "drop p buf = mp_encode_uint M k @ mp_encode_uint M v @ s"
    using assms(1) by (simp add: field_bytes_def)
  define q where "q = p + length (mp_encode_uint M k)"
  have d2: "drop q buf = mp_encode_uint M v @ s" using drop_shift [OF d1] by (simp add: q_def)
  have t: "rd_type M buf p = Some MP_UINT" "rd_type M buf q = Some MP_UINT"
    using rd_type_hd [OF d1] rd_type_hd [OF d2] by (simp_all add: enc_ne type_uint)
  have n: "rd_uint M buf p = Some (k, q)" "rd_uint M buf q = Some (v, q + length (mp_encode_uint M v))"
    using rd_uint_enc [OF d1] rd_uint_enc [OF d2] by (simp_all add: q_def)
  have e: "p + length (field_bytes M (k, mp_encode_uint M v)) = q + length (mp_encode_uint M v)"
    by (simp add: field_bytes_def q_def)
  from assms(2) consider "k = 0" | "k = 1" | "k = 5" by blast
  then show ?thesis
    unfolding e by cases (use t n in \<open>cases r; simp add: key_bit_def\<close>)+
qed

lemma beer_reply_header_walk:
  assumes "drop p buf = concat (map (field_bytes M) (uint_fields M hs)) @ s" "known_header hs"
  shows "\<exists>b. beer_reply_header M buf (length hs) p r
    = Some (Inr (p + length (concat (map (field_bytes M) (uint_fields M hs))),
        r\<lparr>rp_bitmap := b, rp_code := or0 (last_of hs 0) (rp_code r), rp_sync := or0 (last_of hs 1) (rp_sync r),
          rp_schema_id := or0 (last_of hs 5) (rp_schema_id r)\<rparr>)) \<and>
    (\<forall>n<64. bit b n \<longleftrightarrow> bit (rp_bitmap r) n \<or> n \<in> unat ` fst ` set hs)"
  using assms
proof (induction hs arbitrary: p r)
  case Nil
  then show ?case by (intro exI [of _ "rp_bitmap r"]) (simp add: uint_fields_def)
next
  case (Cons h hs)
  obtain k v where h: "h = (k, v)" by (cases h)
  define x where "x = field_bytes M (k, mp_encode_uint M v)"
  define t where "t = concat (map (field_bytes M) (uint_fields M hs))"
  have k: "k \<in> {0, 1, 5}" "known_header hs" using Cons.prems(2) by (auto simp: h known_header_def)
  have d: "drop p buf = x @ t @ s" using Cons.prems(1) by (simp add: h x_def t_def uint_fields_def)
  define r1 where "r1 = r\<lparr>rp_bitmap := rp_bitmap r OR push_bit (unat k) 1, rp_code := (if k = 0 then v else rp_code r),
       rp_sync := (if k = 1 then v else rp_sync r), rp_schema_id := (if k = 5 then v else rp_schema_id r)\<rparr>"
  have turn: "beer_reply_header M buf (length (h # hs)) p r = beer_reply_header M buf (length hs) (p + length x) r1"
    using beer_header_turn [OF d [unfolded x_def] k(1)] by (simp add: x_def r1_def del: beer_reply_header.simps)
  from Cons.IH [OF drop_shift [OF d, unfolded t_def] k(2), of r1, folded t_def] obtain b where
    b: "beer_reply_header M buf (length hs) (p + length x) r1 = Some (Inr (p + length x + length t,
        r1\<lparr>rp_bitmap := b, rp_code := or0 (last_of hs 0) (rp_code r1), rp_sync := or0 (last_of hs 1) (rp_sync r1),
          rp_schema_id := or0 (last_of hs 5) (rp_schema_id r1)\<rparr>))"
    "\<forall>n<64. bit b n \<longleftrightarrow> bit (rp_bitmap r1) n \<or> n \<in> unat ` fst ` set hs" by blast
  have "p + length x + length t = p + length (concat (map (field_bytes M) (uint_fields M (h # hs))))"
    by (simp add: h x_def t_def uint_fields_def)
  moreover have "unat k < 64" using k(1) by auto
  then have "\<forall>n<64. bit b n \<longleftrightarrow> bit (rp_bitmap r) n \<or> n \<in> unat ` fst ` set (h # hs)"
    using b(2) bit_key_u64 [of _ k "rp_bitmap r"] by (auto simp: h r1_def)
  ultimately show ?case
    using turn b(1) by (intro exI [of _ b]) (cases r; auto simp: h r1_def or0_def split: option.splits)
qed

end

text \<open>What a run over body fields leaves in the response.\<close>

definition rp_body_read :: "msgpuck \<Rightarrow> bytes \<Rightarrow> fields \<Rightarrow> beer_reply_struct \<Rightarrow> beer_reply_struct \<Rightarrow> bool" where
  "rp_body_read M buf fs r r' \<longleftrightarrow>
     rp_sync r' = rp_sync r \<and> rp_schema_id r' = rp_schema_id r \<and> rp_buf r' = rp_buf r \<and> rp_alloc r' = rp_alloc r \<and>
     rp_buf_size r' = rp_buf_size r \<and>
     (case last_of fs 0x30 of None \<Rightarrow> rp_data r' = rp_data r \<and> rp_data_end r' = rp_data_end r
      | Some v \<Rightarrow> span buf (rp_data r') (rp_data_end r') = Some v) \<and>
     (case last_of fs 0x31 of None \<Rightarrow> rp_error r' = rp_error r \<and> rp_error_end r' = rp_error_end r \<and> rp_code r' = rp_code r
      | Some v \<Rightarrow> text_at M buf (rp_error r') (rp_error_end r') v \<and> rp_code r' = rp_code r AND 0x7fff) \<and>
     (\<forall>n<64. bit (rp_bitmap r') n \<longleftrightarrow> bit (rp_bitmap r) n \<or> n \<in> unat ` fst ` set fs)"

lemma rp_body_read_Cons:
  "rp_body_read M buf [f] r r1 \<Longrightarrow> rp_body_read M buf fs r1 r2 \<Longrightarrow> rp_body_read M buf (f # fs) r r2"
  by (cases f) (auto simp: rp_body_read_def and.assoc split: option.splits if_splits)

context msgpuck_laws begin

lemma beer_body_turn:
  assumes "drop p buf = field_bytes M f @ s" "fst f \<in> {0x30, 0x31}" "response_field M f"
  shows "\<exists>r1. beer_reply_body M buf (Suc n) p r = beer_reply_body M buf n (p + length (field_bytes M f)) r1 \<and>
    rp_body_read M buf [f] r r1"
proof -
  obtain k x where f: "f = (k, x)" by (cases f)
  have d1: "drop p buf = mp_encode_uint M k @ x @ s" using assms(1) by (simp add: f field_bytes_def)
  define q where "q = p + length (mp_encode_uint M k)"
  have d2: "drop q buf = x @ s" using drop_shift [OF d1] by (simp add: q_def)
  have x: "mp_obj M x" "x \<noteq> []" using assms(3) mp_obj_ne by (auto simp: f response_field_def)
  have n: "rd_uint M buf p = Some (k, q)" "rd_next M buf q = Some (q + length x)"
    using rd_uint_enc [OF d1] rd_next_obj [OF d2 x(1)] by (simp_all add: q_def)
  have e: "p + length (field_bytes M f) = q + length x" by (simp add: f field_bytes_def q_def)
  have k64: "unat k < 64" using assms(2) by (auto simp: f)
  have bits: "\<forall>n<64. bit (b OR push_bit (unat k) 1) n \<longleftrightarrow> bit b n \<or> n = unat k" for b :: u64
    using bit_key_u64 k64 by blast
  from assms(2) consider (error) "k = 0x31" | (data) "k = 0x30" by (auto simp: f)
  then show ?thesis
  proof cases
    case error
    then obtain str where str: "length str < 4294967296" "x = mp_encode_str M str"
      using assms(3) by (auto simp: f response_field_def)
    define a where "a = q + str_hdr_size (length str)"
    note d3 = rd_str_enc [OF d2 [unfolded str(2)] str(1), folded a_def]
    have "mp_typeof M (hd x) = MP_STR" using type_str enc_ne(6) by (simp add: str(2) enc_str)
    then have t: "rd_type M buf q = Some MP_STR" using rd_type_hd [OF d2 x(2)] by simp
    define r1 where "r1 = r\<lparr>rp_error := Some a, rp_error_end := Some (a + length str),
      rp_code := rp_code r AND 0x7fff, rp_bitmap := rp_bitmap r OR push_bit (unat k) 1\<rparr>"
    have "beer_reply_body M buf (Suc n) p r = beer_reply_body M buf n (q + length x) r1"
      using str(1) t n d3(1) error by (simp add: unat_of_nat r1_def str(2) key_bit_def)
    moreover have "rp_body_read M buf [f] r r1"
      using d3(2) bits by (auto simp: rp_body_read_def f r1_def error text_at_def str(2))
    ultimately show ?thesis unfolding e by blast
  next
    case data
    then have t: "rd_type M buf q = Some MP_ARRAY"
      using rd_type_hd [OF d2 x(2)] assms(3) by (simp add: f response_field_def)
    define r1 where "r1 = r\<lparr>rp_data := Some q, rp_data_end := Some (q + length x),
      rp_bitmap := rp_bitmap r OR push_bit (unat k) 1\<rparr>"
    have "beer_reply_body M buf (Suc n) p r = beer_reply_body M buf n (q + length x) r1"
      using t n data by (simp add: r1_def key_bit_def)
    moreover have "rp_body_read M buf [f] r r1"
      using span_shift [OF d2 x(2)] bits by (auto simp: rp_body_read_def f r1_def data)
    ultimately show ?thesis unfolding e by blast
  qed
qed

lemma beer_reply_body_walk:
  assumes "drop p buf = concat (map (field_bytes M) fs) @ s" "known_body fs" "\<forall>f \<in> set fs. response_field M f"
  shows "\<exists>r'. beer_reply_body M buf (length fs) p r = Some (Inr (p + length (concat (map (field_bytes M) fs)), r')) \<and>
    rp_body_read M buf fs r r'"
  using assms
proof (induction fs arbitrary: p r)
  case Nil
  then show ?case by (simp add: rp_body_read_def)
next
  case (Cons f fs)
  define t where "t = concat (map (field_bytes M) fs)"
  have d: "drop p buf = field_bytes M f @ t @ s" using Cons.prems(1) by (simp add: t_def)
  have f: "fst f \<in> {0x30, 0x31}" "response_field M f" "known_body fs"
    using Cons.prems(2,3) by (auto simp: known_body_def)
  obtain r1 where r1: "beer_reply_body M buf (Suc (length fs)) p r
      = beer_reply_body M buf (length fs) (p + length (field_bytes M f)) r1" "rp_body_read M buf [f] r r1"
    using beer_body_turn [OF d f(1,2), of "length fs" r] by auto
  have "\<forall>f \<in> set fs. response_field M f" using Cons.prems by simp
  from Cons.IH [OF drop_shift [OF d, unfolded t_def] f(3) this, of r1, folded t_def] obtain r2 where
    "beer_reply_body M buf (length fs) (p + length (field_bytes M f)) r1
       = Some (Inr (p + length (field_bytes M f) + length t, r2))" "rp_body_read M buf fs r1 r2" by blast
  with r1 rp_body_read_Cons [OF r1(2)] show ?case
    by (intro exI [of _ r2]) (simp add: t_def add.assoc del: beer_reply_body.simps)
qed

end

section \<open>Packages\<close>

text \<open>The structure after a package \<open>pl\<close> with header \<open>hs\<close> and body \<open>fs\<close> was read.\<close>

definition reply_holds :: "msgpuck \<Rightarrow> (u64 \<times> u64) list \<Rightarrow> fields \<Rightarrow> bytes \<Rightarrow> beer_reply_struct \<Rightarrow> bool" where
  "reply_holds M hs fs pl r \<longleftrightarrow>
     rp_buf r = Live pl \<and> rp_buf_size r = length pl \<and>
     rp_sync r = or0 (last_of hs 1) 0 \<and> rp_schema_id r = or0 (last_of hs 5) 0 \<and>
     rp_code r = (if last_of fs 0x31 = None then or0 (last_of hs 0) 0 else or0 (last_of hs 0) 0 AND 0x7fff) \<and>
     (case last_of fs 0x30 of None \<Rightarrow> rp_data r = None
      | Some v \<Rightarrow> span pl (rp_data r) (rp_data_end r) = Some v) \<and>
     (case last_of fs 0x31 of None \<Rightarrow> rp_error r = None
      | Some v \<Rightarrow> text_at M pl (rp_error r) (rp_error_end r) v) \<and>
     (\<forall>n<64. bit (rp_bitmap r) n \<longleftrightarrow> n \<in> unat ` fst ` set hs \<union> unat ` fst ` set fs)"

text \<open>The structure when the parsing of a package starts.\<close>

definition fresh_reply :: "bool \<Rightarrow> bytes \<Rightarrow> beer_reply_struct" where
  "fresh_reply al pl = (zero_reply al)\<lparr>rp_buf := Live pl, rp_buf_size := length pl\<rparr>"

lemma fresh_reply_sel [simp]: "rp_alloc (fresh_reply al pl) = al" "rp_bitmap (fresh_reply al pl) = 0"
  "rp_buf (fresh_reply al pl) = Live pl" "rp_buf_size (fresh_reply al pl) = length pl"
  "rp_code (fresh_reply al pl) = 0" "rp_sync (fresh_reply al pl) = 0" "rp_schema_id (fresh_reply al pl) = 0"
  "rp_error (fresh_reply al pl) = None" "rp_data (fresh_reply al pl) = None"
  by (simp_all add: fresh_reply_def zero_reply_def)

context msgpuck_laws begin

text \<open>Through the header.\<close>

lemma beer_package_head:
  assumes "known_header hs" "length hs < 4294967296" "pl = body_bytes M (uint_fields M hs) @ rest"
  obtains n p b where "rd_checked M pl 0 MP_MAP = Some True" "rd_map M pl 0 = Some (n, p)"
    "beer_reply_header M pl (unat n) p (fresh_reply al pl) = Some (Inr (length (body_bytes M (uint_fields M hs)),
      (fresh_reply al pl)\<lparr>rp_bitmap := b, rp_code := or0 (last_of hs 0) 0, rp_sync := or0 (last_of hs 1) 0,
        rp_schema_id := or0 (last_of hs 5) 0\<rparr>))"
    "\<forall>n<64. bit b n \<longleftrightarrow> n \<in> unat ` fst ` set hs"
proof -
  have d: "drop 0 pl = body_bytes M (uint_fields M hs) @ rest" by (simp add: assms(3))
  have lh: "length (uint_fields M hs) = length hs" by (simp add: uint_fields_def)
  obtain q where q: "rd_checked M pl 0 MP_MAP = Some True"
    "rd_map M pl 0 = Some (word_of_nat (length hs), q)" "unat (word_of_nat (length hs) :: u32) = length hs"
    "drop q pl = concat (map (field_bytes M) (uint_fields M hs)) @ rest"
    "q + length (concat (map (field_bytes M) (uint_fields M hs))) = length (body_bytes M (uint_fields M hs))"
    using enter_map [OF d, unfolded lh, OF assms(2) uint_fields_obj] by (metis add_0)
  from beer_reply_header_walk [OF q(4) assms(1), of "fresh_reply al pl", unfolded fresh_reply_sel q(5)]
  obtain b where b: "beer_reply_header M pl (length hs) q (fresh_reply al pl) = Some (Inr (length (body_bytes M (uint_fields M hs)),
      (fresh_reply al pl)\<lparr>rp_bitmap := b, rp_code := or0 (last_of hs 0) 0, rp_sync := or0 (last_of hs 1) 0,
        rp_schema_id := or0 (last_of hs 5) 0\<rparr>))"
    "\<forall>n<64. bit b n \<longleftrightarrow> n \<in> unat ` fst ` set hs" by auto
  show thesis
    by (rule that [OF q(1,2) _ b(2)]) (simp add: q(3) b(1))
qed

lemma beer_package_read:
  assumes "known_header hs" "length hs < 4294967296" "known_body fs" "\<forall>f \<in> set fs. response_field M f"
    "length fs < 4294967296" "pl = body_bytes M (uint_fields M hs) @ body_bytes M fs"
  shows "\<exists>r. beer_reply_package M pl (fresh_reply al pl) = Some (Inr (0, r)) \<and> reply_holds M hs fs pl r \<and> rp_alloc r = al"
proof -
  define h where "h = length (body_bytes M (uint_fields M hs))"
  obtain n p b where a: "rd_checked M pl 0 MP_MAP = Some True" "rd_map M pl 0 = Some (n, p)"
    "beer_reply_header M pl (unat n) p (fresh_reply al pl) = Some (Inr (h,
      (fresh_reply al pl)\<lparr>rp_bitmap := b, rp_code := or0 (last_of hs 0) 0, rp_sync := or0 (last_of hs 1) 0,
        rp_schema_id := or0 (last_of hs 5) 0\<rparr>))"
    "\<forall>n<64. bit b n \<longleftrightarrow> n \<in> unat ` fst ` set hs"
    unfolding h_def by (rule beer_package_head [OF assms(1,2,6)])
  define r1 where "r1 = (fresh_reply al pl)\<lparr>rp_bitmap := b, rp_code := or0 (last_of hs 0) 0,
    rp_sync := or0 (last_of hs 1) 0, rp_schema_id := or0 (last_of hs 5) 0\<rparr>"
  have d: "drop h pl = body_bytes M fs @ []" by (simp add: assms(6) h_def)
  have objs: "\<forall>f \<in> set fs. mp_obj M (snd f)" using assms(4) by (simp add: response_field_def)
  obtain q where q: "rd_checked M pl h MP_MAP = Some True" "rd_map M pl h = Some (word_of_nat (length fs), q)"
    "unat (word_of_nat (length fs) :: u32) = length fs" "drop q pl = concat (map (field_bytes M) fs) @ []"
    using enter_map [OF d assms(5) objs] by metis
  from beer_reply_body_walk [OF q(4) assms(3,4), of r1] obtain e r where
    r: "beer_reply_body M pl (length fs) q r1 = Some (Inr (e, r))" "rp_body_read M pl fs r1 r" by auto
  have "h \<noteq> length pl + 5" by (simp add: assms(6) h_def)
  then have "beer_reply_package M pl (fresh_reply al pl) = Some (Inr (0, r))"
    using a(1,2) q(1-3) r(1) by (simp add: beer_reply_package_def a(3) [folded r1_def])
  moreover have "reply_holds M hs fs pl r" "rp_alloc r = al"
    using r(2) a(4) by (auto simp: rp_body_read_def reply_holds_def r1_def split: option.splits)
  ultimately show ?thesis by blast
qed

text \<open>A header alone goes to \<open>rollback\<close>, since nothing is left to check.\<close>

lemma beer_package_no_body:
  assumes "known_header hs" "length hs < 4294967296" "pl = body_bytes M (uint_fields M hs)"
  shows "\<exists>r. beer_reply_package M pl (fresh_reply al pl) = Some (Inl r) \<and> rp_buf r = Live pl \<and> rp_alloc r = al"
proof -
  have pl: "pl = body_bytes M (uint_fields M hs) @ []" using assms(3) by simp
  obtain n p b where a: "rd_checked M pl 0 MP_MAP = Some True" "rd_map M pl 0 = Some (n, p)"
    "beer_reply_header M pl (unat n) p (fresh_reply al pl) = Some (Inr (length pl,
      (fresh_reply al pl)\<lparr>rp_bitmap := b, rp_code := or0 (last_of hs 0) 0, rp_sync := or0 (last_of hs 1) 0,
        rp_schema_id := or0 (last_of hs 5) 0\<rparr>))"
    using beer_package_head [OF assms(1,2) pl, of al] assms(3) by metis
  have "rd_checked M pl (length pl) MP_MAP = Some False" by (simp add: rd_checked_def check_nil)
  then show ?thesis using a by (simp add: beer_reply_package_def)
qed

section \<open>The whole response in a buffer\<close>

lemma reply_prefix:
  assumes "length pl + 5 < 4294967296" "5 \<le> k" "buf = take k (package pl @ tail)"
  shows "rd_type M buf 0 = Some MP_UINT" "mp_decode_uint M buf = Some (word_of_nat (length pl), 5)"
    "slice 0 5 buf = Some (0xce # be 4 (length pl))"
    "mp_decode_uint M (0xce # be 4 (length pl)) = Some (word_of_nat (length pl), 5)"
    "rd_type M (0xce # be 4 (length pl)) 0 = Some MP_UINT"
proof -
  define w where "w = (word_of_nat (length pl) :: u32)"
  have w: "unat w = length pl" using assms(1) by (simp add: w_def unat_of_nat)
  have u: "ucast w = (word_of_nat (length pl) :: u64)"
    using w assms(1) by (simp add: word_unat_eq_iff unat_of_nat)
  have b: "buf = (0xce # be 4 (unat w)) @ take (k - 5) (pl @ tail)"
    using package_prefix(1) [of pl] assms w by (cases k) (auto simp: w_def)
  show "rd_type M buf 0 = Some MP_UINT" by (simp add: b rd_type_def type_uint_fixed)
  show "mp_decode_uint M buf = Some (word_of_nat (length pl), 5)"
    using dec_uint_fixed(1) [of w "take (k - 5) (pl @ tail)"] b u by simp
  show "slice 0 5 buf = Some (0xce # be 4 (length pl))" by (simp add: b slice_def w)
  show "mp_decode_uint M (0xce # be 4 (length pl)) = Some (word_of_nat (length pl), 5)"
    using dec_uint_fixed(1) [of w "[]"] u w by simp
  show "rd_type M (0xce # be 4 (length pl)) 0 = Some MP_UINT" by (simp add: rd_type_def type_uint_fixed)
qed

text \<open>Any source that hands out the bytes of a package.\<close>

lemma beer_reply_from_package:
  assumes "length pl + 5 < 4294967296" "alloc_total A" "pl \<noteq> []"
    "rcv ptr 5 = Some (rc, take 5 (package pl), ptr')" "rc \<noteq> -1" "rcv ptr' (length pl) = Some (rc', pl, ptr'')" "rc' \<noteq> -1"
  shows "beer_reply_from M A rcv ptr r =
    (case beer_reply_package M pl (fresh_reply (rp_alloc r) pl) of
       None \<Rightarrow> None
     | Some (Inl r') \<Rightarrow> map_option (\<lambda>(rc, r). (rc, r, ptr'')) (rollback A r')
     | Some (Inr (rc, r')) \<Rightarrow> Some (rc, r', ptr''))"
proof -
  have len: "length (package pl) = 5 + length pl" using package_prefix(2) [of pl] assms(1) by simp
  have t: "take 5 (package pl) = 0xce # be 4 (length pl)" using assms(1) by (simp add: package_def luint_def)
  note pre = reply_prefix(4,5) [OF assms(1), of 5 "take 5 (package pl)" "[]"]
  have u: "unat (word_of_nat (length pl) :: u64) = length pl" using assms(1) by (simp add: unat_of_nat)
  have mem: "beer_mem_alloc A (length pl) = Some (Live (replicate (length pl) 0))"
    using assms(2,3) by (auto simp: beer_mem_alloc_def custom_realloc_def alloc_total_def split: option.split)
  have poke: "poke 0 pl (replicate (length pl) 0) = Some pl" by (simp add: poke_def)
  have f: "(zero_reply (rp_alloc r))\<lparr>rp_buf_size := length pl, rp_buf := Live pl\<rparr> = fresh_reply (rp_alloc r) pl"
    by (simp add: fresh_reply_def zero_reply_def)
  show ?thesis
    using assms(4-7) pre mem poke
    by (auto simp: beer_reply_from_def u f t Let_def map_option_case split: option.split sum.split)
qed

lemma beer_reply_from_cut:
  assumes "length pl + 5 < 4294967296" "alloc_total A" "pl \<noteq> []"
    "rcv ptr 5 = Some (rc, take 5 (package pl), ptr')" "rc \<noteq> -1" "rcv ptr' (length pl) = Some (-1, bs, ptr'')" "length bs \<le> length pl"
  shows "beer_reply_from M A rcv ptr r = Some (-1, zero_reply (rp_alloc r), ptr'')"
proof -
  have t: "take 5 (package pl) = 0xce # be 4 (length pl)" using assms(1) by (simp add: package_def luint_def)
  note pre = reply_prefix(4,5) [OF assms(1), of 5 "take 5 (package pl)" "[]"]
  have u: "unat (word_of_nat (length pl) :: u64) = length pl" using assms(1) by (simp add: unat_of_nat)
  have mem: "beer_mem_alloc A (length pl) = Some (Live (replicate (length pl) 0))"
    using assms(2,3) by (auto simp: beer_mem_alloc_def custom_realloc_def alloc_total_def split: option.split)
  obtain mem' where poke: "poke 0 bs (replicate (length pl) 0) = Some mem'" using assms(7) by (simp add: poke_def)
  show ?thesis
    using assms(4-6) pre mem poke by (simp add: beer_reply_from_def u t Let_def rollback_def zero_reply_def)
qed

lemma beer_reply_complete:
  assumes "length pl + 5 < 4294967296" "alloc_total A" "pl \<noteq> []" "buf = package pl @ tail"
  shows "beer_reply M A r buf off =
    (case beer_reply_package M pl (fresh_reply (rp_alloc r) pl) of
       None \<Rightarrow> None
     | Some (Inl r') \<Rightarrow> map_option (\<lambda>(rc, r). (rc, r, length (package pl))) (rollback A r')
     | Some (Inr (rc, r')) \<Rightarrow> Some (rc, r', length (package pl)))"
proof -
  have len: "length (package pl) = 5 + length pl" using package_prefix(2) [of pl] assms(1) by simp
  have bt: "5 \<le> length buf" "buf = take (length buf) (package pl @ tail)" by (simp_all add: assms(4) len)
  note pre = reply_prefix [OF assms(1) bt]
  have u: "unat (word_of_nat (length pl) :: u64) = length pl" using assms(1) by (simp add: unat_of_nat)
  have t: "take 5 (package pl) = 0xce # be 4 (length pl)" using assms(1) by (simp add: package_def luint_def)
  have cb: "beer_reply_cb buf 0 5 = Some (5, take 5 (package pl), 5)"
    using pre(3) by (simp add: beer_reply_cb_def t)
  have "slice 5 (length pl) buf = Some pl" using package_prefix(1) [of pl] assms(1,4) by (simp add: slice_def)
  then have cb': "beer_reply_cb buf 5 (length pl) = Some (int (length pl), pl, 5 + length pl)"
    by (simp add: beer_reply_cb_def)
  have "beer_reply M A r buf off = beer_reply_from M A (beer_reply_cb buf) 0 r"
    using pre(1,2) assms(1) len by (simp add: beer_reply_def u assms(4) Let_def)
  then show ?thesis
    using beer_reply_from_package [OF assms(1-3) cb _ cb', of r] unfolding len by simp
qed

lemma beer_reply_partial:
  assumes "length pl + 5 < 4294967296" "k < length (package pl)"
  shows "beer_reply M A r (take k (package pl)) off = Some (1, r, if k < 5 then 5 - k else length (package pl) - k)"
proof (cases "k < 5")
  case True
  then show ?thesis
    using assms(2) by (simp add: beer_reply_def Let_def)
next
  case False
  have len: "length (package pl) = 5 + length pl" using package_prefix(2) [of pl] assms(1) by simp
  have u: "unat (word_of_nat (length pl) :: u64) = length pl" using assms(1) by (simp add: unat_of_nat)
  show ?thesis
    using reply_prefix(1,2) [OF assms(1), of k "take k (package pl)" "[]"] False assms len
    by (simp add: beer_reply_def Let_def u)
qed

end

end
