(* ===== verification/Beer_Request.thy ===== *)
theory Beer_Request
  imports Beer_Requests
begin

text \<open>
  Request objects (\<open>beer/beer_request.c\<close>, \<open>include/bee/beer_request.h\<close>): setters that collect the
  parts of a request, and \<open>beer_request_writeout\<close> that encodes them as one vector.

  A pair of pointers \<open>key\<close>, \<open>key_end\<close> is the bytes between them at the time of the setter; a
  client leaves them alone until the request is written.
\<close>

section \<open>Data\<close>

datatype beer_iterator_t =
  BEER_ITER_EQ | BEER_ITER_REQ | BEER_ITER_ALL | BEER_ITER_LT | BEER_ITER_LE | BEER_ITER_GE | BEER_ITER_GT
| BEER_ITER_BITS_ALL_SET | BEER_ITER_BITS_ANY_SET | BEER_ITER_BITS_ALL_NOT_SET | BEER_ITER_OVERLAP
| BEER_ITER_NEIGHBOR

fun iterator_code :: "beer_iterator_t \<Rightarrow> u64" where
  "iterator_code BEER_ITER_EQ = 0" | "iterator_code BEER_ITER_REQ = 1" | "iterator_code BEER_ITER_ALL = 2"
| "iterator_code BEER_ITER_LT = 3" | "iterator_code BEER_ITER_LE = 4" | "iterator_code BEER_ITER_GE = 5"
| "iterator_code BEER_ITER_GT = 6" | "iterator_code BEER_ITER_BITS_ALL_SET = 7"
| "iterator_code BEER_ITER_BITS_ANY_SET = 8" | "iterator_code BEER_ITER_BITS_ALL_NOT_SET = 9"
| "iterator_code BEER_ITER_OVERLAP = 10" | "iterator_code BEER_ITER_NEIGHBOR = 11"

text \<open>\<open>rq_type\<close> is the number of the enumeration; a request that was only initialised has type 0.\<close>

record beer_request =
  rq_sync :: u64
  rq_type :: u32
  rq_space_id :: u32
  rq_index_id :: u32
  rq_offset :: u32
  rq_limit :: u32
  rq_iterator :: beer_iterator_t
  rq_key :: "bytes option"
  rq_key_object :: "buf_stream option"
  rq_tuple :: "bytes option"
  rq_tuple_object :: "buf_stream option"
  rq_index_base :: u32
  rq_alloc :: bool

section \<open>Construction\<close>

text \<open>\<open>given\<close>: the caller passed a structure; \<open>mem\<close>: a new one is found.\<close>

definition beer_request_init :: "bool \<Rightarrow> bool \<Rightarrow> beer_request option" where
  "beer_request_init given mem =
     (let alloc = \<not> given in
      if \<not> given \<and> \<not> mem then None
      else Some \<lparr>rq_sync = 0, rq_type = 0, rq_space_id = 0, rq_index_id = 0, rq_offset = 0, rq_limit = 0xffffffff,
                 rq_iterator = BEER_ITER_EQ, rq_key = None, rq_key_object = None, rq_tuple = None,
                 rq_tuple_object = None, rq_index_base = 0, rq_alloc = alloc\<rparr>)"

definition beer_request_custom :: "beer_request_t \<Rightarrow> bool \<Rightarrow> bool \<Rightarrow> beer_request option" where
  "beer_request_custom op given mem = map_option (\<lambda>req. req\<lparr>rq_type := op_code op\<rparr>) (beer_request_init given mem)"

definition beer_request_free :: "allocator \<Rightarrow> beer_request \<Rightarrow> beer_request option" where
  "beer_request_free A req = do {
     _ \<leftarrow> (case rq_key_object req of None \<Rightarrow> Some () | Some s \<Rightarrow> beer_buf_free A s);
     _ \<leftarrow> (case rq_tuple_object req of None \<Rightarrow> Some () | Some s \<Rightarrow> beer_buf_free A s);
     Some (req\<lparr>rq_key_object := None, rq_tuple_object := None\<rparr>) }"

section \<open>Setters\<close>

definition beer_request_set_space :: "beer_request \<Rightarrow> u32 \<Rightarrow> int \<times> beer_request" where
  "beer_request_set_space req space = (0, req\<lparr>rq_space_id := space\<rparr>)"

definition beer_request_set_index :: "beer_request \<Rightarrow> u32 \<Rightarrow> int \<times> beer_request" where
  "beer_request_set_index req index = (0, req\<lparr>rq_index_id := index\<rparr>)"

definition beer_request_set_offset :: "beer_request \<Rightarrow> u32 \<Rightarrow> int \<times> beer_request" where
  "beer_request_set_offset req offset = (0, req\<lparr>rq_offset := offset\<rparr>)"

definition beer_request_set_limit :: "beer_request \<Rightarrow> u32 \<Rightarrow> int \<times> beer_request" where
  "beer_request_set_limit req limit = (0, req\<lparr>rq_limit := limit\<rparr>)"

definition beer_request_set_iterator :: "beer_request \<Rightarrow> beer_iterator_t \<Rightarrow> int \<times> beer_request" where
  "beer_request_set_iterator req iterator = (0, req\<lparr>rq_iterator := iterator\<rparr>)"

definition beer_request_set_index_base :: "beer_request \<Rightarrow> u32 \<Rightarrow> int \<times> beer_request" where
  "beer_request_set_index_base req index_base = (0, req\<lparr>rq_index_base := index_base\<rparr>)"

text \<open>\<open>BEER_SBUF_DATA\<close> with \<open>BEER_SBUF_SIZE\<close>: NULL for a buffer that was never written.\<close>

definition sbuf_ptr :: "buf_stream \<Rightarrow> bytes option" where
  "sbuf_ptr s = (if sb_data (s_data s) = Null then None else Some (sbuf_iov s))"

definition beer_request_set_key :: "beer_request \<Rightarrow> buf_stream \<Rightarrow> int \<times> beer_request" where
  "beer_request_set_key req s = (0, req\<lparr>rq_key := sbuf_ptr s\<rparr>)"

definition beer_request_set_tuple :: "beer_request \<Rightarrow> buf_stream \<Rightarrow> int \<times> beer_request" where
  "beer_request_set_tuple req s = (0, req\<lparr>rq_tuple := sbuf_ptr s\<rparr>)"

text \<open>The builder of a format: the one that is there, reset, or a new one (\<open>mem\<close>).\<close>

definition format_object :: "bool \<Rightarrow> buf_stream option \<Rightarrow> buf_stream option option" where
  "format_object mem ob =
     (case ob of
        Some s \<Rightarrow> map_option (\<lambda>(rc, s). Some s) (beer_object_reset s)
      | None \<Rightarrow> beer_object mem mem)"

definition beer_request_set_key_format :: "msgpuck \<Rightarrow> allocator \<Rightarrow> bool \<Rightarrow> beer_request \<Rightarrow> string \<Rightarrow> va list
    \<Rightarrow> (int \<times> beer_request) option" where
  "beer_request_set_key_format M A mem req fmt args = do {
     ob \<leftarrow> format_object mem (rq_key_object req);
     case ob of
       None \<Rightarrow> Some (-1, req\<lparr>rq_key_object := None\<rparr>)
     | Some s \<Rightarrow> do {
         (res, s) \<leftarrow> beer_object_vformat M A s fmt args;
         let req = req\<lparr>rq_key_object := Some s\<rparr>;
         if res = -1 then Some (-1, req) else Some (beer_request_set_key req s) } }"

definition beer_request_set_tuple_format :: "msgpuck \<Rightarrow> allocator \<Rightarrow> bool \<Rightarrow> beer_request \<Rightarrow> string \<Rightarrow> va list
    \<Rightarrow> (int \<times> beer_request) option" where
  "beer_request_set_tuple_format M A mem req fmt args = do {
     ob \<leftarrow> format_object mem (rq_tuple_object req);
     case ob of
       None \<Rightarrow> Some (-1, req\<lparr>rq_tuple_object := None\<rparr>)
     | Some s \<Rightarrow> do {
         (res, s) \<leftarrow> beer_object_vformat M A s fmt args;
         let req = req\<lparr>rq_tuple_object := Some s\<rparr>;
         if res = -1 then Some (-1, req) else Some (beer_request_set_tuple req s) } }"

definition type_is_call :: "u32 \<Rightarrow> bool" where
  "type_is_call ty \<longleftrightarrow> ty = op_code BEER_OP_CALL \<or> ty = op_code BEER_OP_CALL_16"

text \<open>\<open>func\<close> is NULL or the object behind the pointer.\<close>

definition beer_request_set_func :: "beer_request \<Rightarrow> bytes option \<Rightarrow> u32 \<Rightarrow> (int \<times> beer_request) option" where
  "beer_request_set_func req func flen =
     (if \<not> type_is_call (rq_type req) then Some (-1, req)
      else case func of
        None \<Rightarrow> Some (-1, req)
      | Some f \<Rightarrow> do { k \<leftarrow> slice 0 (unat flen) f; Some (0, req\<lparr>rq_key := Some k\<rparr>) })"

definition beer_request_set_funcz :: "beer_request \<Rightarrow> bytes option \<Rightarrow> (int \<times> beer_request) option" where
  "beer_request_set_funcz req func =
     (if \<not> type_is_call (rq_type req) then Some (-1, req)
      else case func of
        None \<Rightarrow> Some (-1, req)
      | Some f \<Rightarrow> do { n \<leftarrow> c_strlen f; Some (0, req\<lparr>rq_key := Some (take n f)\<rparr>) })"

definition beer_request_set_expr :: "beer_request \<Rightarrow> bytes option \<Rightarrow> u32 \<Rightarrow> (int \<times> beer_request) option" where
  "beer_request_set_expr req expr elen =
     (if rq_type req \<noteq> op_code BEER_OP_EVAL then Some (-1, req)
      else case expr of
        None \<Rightarrow> Some (-1, req)
      | Some f \<Rightarrow> do { k \<leftarrow> slice 0 (unat elen) f; Some (0, req\<lparr>rq_key := Some k\<rparr>) })"

definition beer_request_set_exprz :: "beer_request \<Rightarrow> bytes option \<Rightarrow> (int \<times> beer_request) option" where
  "beer_request_set_exprz req expr =
     (if rq_type req \<noteq> op_code BEER_OP_EVAL then Some (-1, req)
      else case expr of
        None \<Rightarrow> Some (-1, req)
      | Some f \<Rightarrow> do { n \<leftarrow> c_strlen f; Some (0, req\<lparr>rq_key := Some (take n f)\<rparr>) })"

definition beer_request_set_ops :: "beer_request \<Rightarrow> buf_stream \<Rightarrow> int \<times> beer_request" where
  "beer_request_set_ops req s =
     (if rq_type req = op_code BEER_OP_UPDATE then (0, req\<lparr>rq_tuple := sbuf_ptr s\<rparr>)
      else if rq_type req = op_code BEER_OP_UPSERT then (0, req\<lparr>rq_key := sbuf_ptr s\<rparr>)
      else (-1, req))"

section \<open>Encoding\<close>

text \<open>
  The header buffer \<open>char header[128]\<close> from its tenth byte on, of 119 bytes; the nine bytes before
  take the length.  An optional field: its key, its value, and a count.
\<close>

definition opt_field :: "msgpuck \<Rightarrow> bool \<Rightarrow> beer_body_key \<Rightarrow> u64 \<Rightarrow> bytes \<times> nat \<Rightarrow> (bytes \<times> nat) option" where
  "opt_field M c k v hn =
     (if c then do {
        h \<leftarrow> emit 119 (mp_encode_uint M (body_key k)) (fst hn);
        h \<leftarrow> emit 119 (mp_encode_uint M v) h;
        Some (h, snd hn + 1) }
      else Some hn)"

text \<open>A vector entry is a part of the header buffer or memory of the client.\<close>

datatype seg = Hdr nat nat | Ext bytes

fun seg_bytes :: "bytes \<Rightarrow> seg \<Rightarrow> bytes" where
  "seg_bytes h (Hdr i j) = take (j - i) (drop i h)"
| "seg_bytes h (Ext bs) = bs"

text \<open>What the \<open>switch\<close> over the type writes before the key; \<open>None\<close> for its default case.\<close>

definition key_prefix :: "msgpuck \<Rightarrow> u32 \<Rightarrow> nat \<Rightarrow> bytes option" where
  "key_prefix M tp len =
     (if tp = op_code BEER_OP_EVAL
        then Some (mp_encode_uint M (body_key BEER_EXPRESSION) @ mp_encode_strl M (word_of_nat len))
      else if type_is_call tp
        then Some (mp_encode_uint M (body_key BEER_FUNCTION) @ mp_encode_strl M (word_of_nat len))
      else if tp = op_code BEER_OP_SELECT \<or> tp = op_code BEER_OP_UPDATE \<or> tp = op_code BEER_OP_DELETE
        then Some (mp_encode_uint M (body_key BEER_KEY))
      else if tp = op_code BEER_OP_UPSERT
        then Some (mp_encode_uint M (body_key BEER_OPS))
      else None)"

unbundle bit_operations_syntax

text \<open>The five fields before the key.\<close>

definition scalar_fields :: "msgpuck \<Rightarrow> beer_request \<Rightarrow> bytes \<Rightarrow> (bytes \<times> nat) option" where
  "scalar_fields M req h = (let tp = rq_type req; sel = op_code BEER_OP_SELECT in do {
     hn \<leftarrow> opt_field M (tp < op_code BEER_OP_CALL_16) BEER_SPACE (ucast (rq_space_id req)) (h, 0);
     hn \<leftarrow> opt_field M (rq_index_id req \<noteq> 0 \<and> (tp = sel \<or> tp = op_code BEER_OP_UPDATE \<or> tp = op_code BEER_OP_DELETE))
             BEER_INDEX (ucast (rq_index_id req)) hn;
     hn \<leftarrow> opt_field M (tp = sel) BEER_LIMIT (ucast (rq_limit req)) hn;
     hn \<leftarrow> opt_field M (rq_offset req \<noteq> 0 \<and> tp = sel) BEER_OFFSET (ucast (rq_offset req)) hn;
     opt_field M (iterator_code (rq_iterator req) \<noteq> 0 \<and> tp = sel) BEER_ITERATOR (iterator_code (rq_iterator req)) hn })"

text \<open>
  \<open>sync\<close> is NULL or the value behind the pointer.  The byte at \<open>map\<close> is left out at first and
  stored when the number of fields is known.
\<close>

definition beer_request_writeout :: "msgpuck \<Rightarrow> 'd writev \<Rightarrow> 'd beer_stream \<Rightarrow> beer_request \<Rightarrow> u64 option
    \<Rightarrow> (int \<times> 'd beer_stream \<times> beer_request \<times> u64 option) option" where
  "beer_request_writeout M wv s req sync = do {
     let tp = rq_type req;
     let s = (if sync = Some 0x7fffffffffffffff \<and> s_reqid s AND 0x7fffffffffffffff = 0x7fffffffffffffff
              then s\<lparr>s_reqid := 0\<rparr> else s);
     let (reqid, s) = next_reqid s;
     let req = req\<lparr>rq_sync := reqid\<rparr>;
     h \<leftarrow> emit 119 (mp_encode_map M 2) [];
     h \<leftarrow> emit 119 (mp_encode_uint M (header_key BEER_CODE)) h;
     h \<leftarrow> emit 119 (mp_encode_uint M (ucast tp)) h;
     h \<leftarrow> emit 119 (mp_encode_uint M (header_key BEER_SYNC)) h;
     h \<leftarrow> emit 119 (mp_encode_uint M reqid) h;
     let m = length h;
     h \<leftarrow> emit 119 [0] h;
     (h, nd) \<leftarrow> scalar_fields M req h;
     let pre = (case rq_key req of None \<Rightarrow> Some [] | Some key \<Rightarrow> key_prefix M tp (length key));
     case pre of
       None \<Rightarrow> Some (-1, s, req, sync)
     | Some pre \<Rightarrow> do {
         h \<leftarrow> emit 119 pre h;
         let (v, begin, nd) = (case rq_key req of None \<Rightarrow> ([], 0, nd)
                               | Some key \<Rightarrow> ([Hdr 0 (length h), Ext key], length h, nd + 1));
         (v, begin, nd, h) \<leftarrow> (case rq_tuple req of None \<Rightarrow> Some (v, begin, nd, h)
            | Some tuple \<Rightarrow> do {
                h \<leftarrow> emit 119 (mp_encode_uint M (body_key BEER_TUPLE)) h;
                Some (v @ [Hdr begin (length h), Ext tuple], length h, nd + 1, h) });
         (h, nd) \<leftarrow> opt_field M (rq_index_base req \<noteq> 0 \<and> (tp = op_code BEER_OP_UPDATE \<or> tp = op_code BEER_OP_UPSERT))
                     BEER_INDEX_BASE (scast (rq_index_base req)) (h, nd);
         if mp_sizeof_map M (word_of_nat nd) \<noteq> 1 then None
         else do {
           let v = (if length h \<noteq> begin then v @ [Hdr begin (length h)] else v);
           h \<leftarrow> poke m (mp_encode_map M (word_of_nat nd)) h;
           (rv, s) \<leftarrow> send_package M wv s (map (seg_bytes h) v);
           if rv = -1 then Some (-1, s, req, sync)
           else Some (0, s, req, map_option (\<lambda>_. rq_sync req) sync) } } }"

definition beer_request_compile :: "msgpuck \<Rightarrow> 'd writev \<Rightarrow> 'd beer_stream \<Rightarrow> beer_request
    \<Rightarrow> (int \<times> 'd beer_stream \<times> beer_request) option" where
  "beer_request_compile M wv s req = do {
     (rc, s, req, sync) \<leftarrow> beer_request_writeout M wv s req (Some 0x7fffffffffffffff);
     if rc = -1 then Some (-1, s, req)
     else do { v \<leftarrow> sync; Some (sint v, s, req) } }"

section \<open>The fields of a request object\<close>

definition opt_fields :: "bool \<Rightarrow> beer_body_key \<Rightarrow> bytes \<Rightarrow> fields" where
  "opt_fields c k v = (if c then [(body_key k, v)] else [])"

text \<open>The value of a key as the server sees it: names and expressions are strings.\<close>

definition key_field :: "msgpuck \<Rightarrow> u32 \<Rightarrow> bytes \<Rightarrow> fields" where
  "key_field M tp key =
     (if tp = op_code BEER_OP_EVAL then [(body_key BEER_EXPRESSION, mp_encode_strl M (word_of_nat (length key)) @ key)]
      else if type_is_call tp then [(body_key BEER_FUNCTION, mp_encode_strl M (word_of_nat (length key)) @ key)]
      else if tp = op_code BEER_OP_UPSERT then [(body_key BEER_OPS, key)]
      else [(body_key BEER_KEY, key)])"

definition request_fields :: "msgpuck \<Rightarrow> beer_request \<Rightarrow> fields" where
  "request_fields M req = (let tp = rq_type req; sel = op_code BEER_OP_SELECT in
     opt_fields (tp < op_code BEER_OP_CALL_16) BEER_SPACE (mp_encode_uint M (ucast (rq_space_id req))) @
     opt_fields (rq_index_id req \<noteq> 0 \<and> (tp = sel \<or> tp = op_code BEER_OP_UPDATE \<or> tp = op_code BEER_OP_DELETE))
       BEER_INDEX (mp_encode_uint M (ucast (rq_index_id req))) @
     opt_fields (tp = sel) BEER_LIMIT (mp_encode_uint M (ucast (rq_limit req))) @
     opt_fields (rq_offset req \<noteq> 0 \<and> tp = sel) BEER_OFFSET (mp_encode_uint M (ucast (rq_offset req))) @
     opt_fields (iterator_code (rq_iterator req) \<noteq> 0 \<and> tp = sel) BEER_ITERATOR
       (mp_encode_uint M (iterator_code (rq_iterator req))) @
     (case rq_key req of None \<Rightarrow> [] | Some key \<Rightarrow> key_field M tp key) @
     (case rq_tuple req of None \<Rightarrow> [] | Some tuple \<Rightarrow> [(body_key BEER_TUPLE, tuple)]) @
     opt_fields (rq_index_base req \<noteq> 0 \<and> (tp = op_code BEER_OP_UPDATE \<or> tp = op_code BEER_OP_UPSERT))
       BEER_INDEX_BASE (mp_encode_uint M (scast (rq_index_base req))))"

text \<open>The types that have a key.\<close>

definition takes_key :: "u32 \<Rightarrow> bool" where
  "takes_key tp \<longleftrightarrow> tp \<in> {op_code BEER_OP_EVAL, op_code BEER_OP_CALL, op_code BEER_OP_CALL_16, op_code BEER_OP_SELECT,
     op_code BEER_OP_UPDATE, op_code BEER_OP_DELETE, op_code BEER_OP_UPSERT}"

end
