(* ===== verification/Request_Frames.thy ===== *)
theory Request_Frames
  imports Beer_Request
begin

text \<open>
  \<open>beer_request_writeout\<close> writes the frame with the fields of the request object, whatever parts
  it is made of.
\<close>

unbundle bit_operations_syntax

text \<open>The identifier that a request gets.\<close>

definition sync_base :: "u64 option \<Rightarrow> 'd beer_stream \<Rightarrow> 'd beer_stream" where
  "sync_base sync s = (if sync = Some 0x7fffffffffffffff \<and> s_reqid s AND 0x7fffffffffffffff = 0x7fffffffffffffff
     then s\<lparr>s_reqid := 0\<rparr> else s)"

section \<open>Optional fields\<close>

context msgpuck_laws begin

definition fields_bytes :: "fields \<Rightarrow> bytes" where
  "fields_bytes fs = concat (map (field_bytes M) fs)"

lemma fields_bytes_simps [simp]: "fields_bytes [] = []" "fields_bytes (fs @ gs) = fields_bytes fs @ fields_bytes gs"
  by (simp_all add: fields_bytes_def)

lemma body_bytes_fields: "body_bytes M fs = mp_encode_map M (word_of_nat (length fs)) @ fields_bytes fs"
  by (simp add: body_bytes_def fields_bytes_def)

lemma value_length: "length (mp_encode_uint M v) \<le> 9"
  by (simp add: len_uint uint_size_le9)

lemma opt_fields_length: "length (fields_bytes (opt_fields c k (mp_encode_uint M v))) \<le> 10"
  using value_length [of v] by (simp add: opt_fields_def fields_bytes_def field_bytes_def key_length)

lemma opt_field_eq:
  "length h \<le> 109 \<Longrightarrow> opt_field M c k v (h, n) = Some (h @ fields_bytes (opt_fields c k (mp_encode_uint M v)),
     n + length (opt_fields c k (mp_encode_uint M v)))"
  using value_length [of v]
  by (simp add: opt_field_def opt_fields_def emit_def fields_bytes_def field_bytes_def key_length)

definition scalar_list :: "beer_request \<Rightarrow> fields" where
  "scalar_list req = (let tp = rq_type req; sel = op_code BEER_OP_SELECT in
     opt_fields (tp < op_code BEER_OP_CALL_16) BEER_SPACE (mp_encode_uint M (ucast (rq_space_id req))) @
     opt_fields (rq_index_id req \<noteq> 0 \<and> (tp = sel \<or> tp = op_code BEER_OP_UPDATE \<or> tp = op_code BEER_OP_DELETE))
       BEER_INDEX (mp_encode_uint M (ucast (rq_index_id req))) @
     opt_fields (tp = sel) BEER_LIMIT (mp_encode_uint M (ucast (rq_limit req))) @
     opt_fields (rq_offset req \<noteq> 0 \<and> tp = sel) BEER_OFFSET (mp_encode_uint M (ucast (rq_offset req))) @
     opt_fields (iterator_code (rq_iterator req) \<noteq> 0 \<and> tp = sel) BEER_ITERATOR
       (mp_encode_uint M (iterator_code (rq_iterator req))))"

lemma scalar_fields_eq:
  assumes "length h \<le> 69"
  shows "scalar_fields M req h = Some (h @ fields_bytes (scalar_list req), length (scalar_list req))"
    "length (fields_bytes (scalar_list req)) \<le> 50"
proof -
  define a where "a = opt_fields (rq_type req < op_code BEER_OP_CALL_16) BEER_SPACE (mp_encode_uint M (ucast (rq_space_id req)))"
  define b where "b = opt_fields (rq_index_id req \<noteq> 0 \<and> (rq_type req = op_code BEER_OP_SELECT \<or>
      rq_type req = op_code BEER_OP_UPDATE \<or> rq_type req = op_code BEER_OP_DELETE))
    BEER_INDEX (mp_encode_uint M (ucast (rq_index_id req)))"
  define c where "c = opt_fields (rq_type req = op_code BEER_OP_SELECT) BEER_LIMIT (mp_encode_uint M (ucast (rq_limit req)))"
  define d where "d = opt_fields (rq_offset req \<noteq> 0 \<and> rq_type req = op_code BEER_OP_SELECT) BEER_OFFSET
    (mp_encode_uint M (ucast (rq_offset req)))"
  define e where "e = opt_fields (iterator_code (rq_iterator req) \<noteq> 0 \<and> rq_type req = op_code BEER_OP_SELECT) BEER_ITERATOR
    (mp_encode_uint M (iterator_code (rq_iterator req)))"
  have len: "length (fields_bytes a) \<le> 10" "length (fields_bytes b) \<le> 10" "length (fields_bytes c) \<le> 10"
    "length (fields_bytes d) \<le> 10" "length (fields_bytes e) \<le> 10"
    unfolding a_def b_def c_def d_def e_def by (rule opt_fields_length)+
  have list: "scalar_list req = a @ b @ c @ d @ e"
    by (simp only: scalar_list_def Let_def a_def b_def c_def d_def e_def)
  show "scalar_fields M req h = Some (h @ fields_bytes (scalar_list req), length (scalar_list req))"
    unfolding scalar_fields_def Let_def list
    by (subst opt_field_eq, use assms in simp, unfold a_def [symmetric] bind.bind_lunit,
        subst opt_field_eq, use assms len in simp, unfold b_def [symmetric] bind.bind_lunit,
        subst opt_field_eq, use assms len in simp, unfold c_def [symmetric] bind.bind_lunit,
        subst opt_field_eq, use assms len in simp, unfold d_def [symmetric] bind.bind_lunit,
        subst opt_field_eq, use assms len in simp, unfold e_def [symmetric])
       simp
  show "length (fields_bytes (scalar_list req)) \<le> 50"
    unfolding list using len by simp
qed

section \<open>The vector\<close>

text \<open>What precedes the key, and the field that results.\<close>

lemma key_field_bytes:
  assumes "rq_key req = None \<or> takes_key (rq_type req)"
  obtains pre where "(case rq_key req of None \<Rightarrow> Some [] | Some key \<Rightarrow> key_prefix M (rq_type req) (length key)) = Some pre"
    "length pre \<le> 6" "rq_key req = None \<Longrightarrow> pre = []"
    "\<And>key. rq_key req = Some key \<Longrightarrow> fields_bytes (key_field M (rq_type req) key) = pre @ key"
proof (cases "rq_key req")
  case None
  then show thesis by (intro that [of "[]"]) simp_all
next
  case (Some key)
  then have tk: "takes_key (rq_type req)" using assms by simp
  obtain pre where pre: "key_prefix M (rq_type req) (length key) = Some pre"
      "fields_bytes (key_field M (rq_type req) key) = pre @ key" "length pre \<le> 6"
    using tk strl_length [of "word_of_nat (length key)"]
    by (auto simp: takes_key_def key_prefix_def key_field_def type_is_call_def fields_bytes_def field_bytes_def
        key_length simp del: body_key.simps)
  with Some show thesis by (intro that [of pre]) simp_all
qed

lemma take_app2: "i = length a \<Longrightarrow> j = length b \<Longrightarrow> take j (drop i (a @ b @ c)) = b"
  by simp

text \<open>Whatever parts there are, the vector is the buffer with the key and the tuple put in.\<close>

lemma segs_concat:
  fixes P Q R :: bytes
  assumes "P \<noteq> []"
  shows "concat (map (seg_bytes (P @ Q @ R))
      (let (v, begin) = (case key of None \<Rightarrow> ([], 0) | Some k \<Rightarrow> ([Hdr 0 (length P), Ext k], length P));
           (v, begin) = (case tup of None \<Rightarrow> (v, begin)
             | Some t \<Rightarrow> (v @ [Hdr begin (length P + length Q), Ext t], length P + length Q))
       in if length (P @ Q @ R) \<noteq> begin then v @ [Hdr begin (length (P @ Q @ R))] else v))
    = P @ (case key of None \<Rightarrow> [] | Some k \<Rightarrow> k) @ Q @ (case tup of None \<Rightarrow> [] | Some t \<Rightarrow> t) @ R"
  using assms by (cases key; cases tup; cases "R = []"; cases "Q = []") auto

lemma header_emits:
  "Option.bind (emit 119 (mp_encode_map M 2) []) (\<lambda>h.
   Option.bind (emit 119 (mp_encode_uint M (header_key BEER_CODE)) h) (\<lambda>h.
   Option.bind (emit 119 (mp_encode_uint M (ucast code)) h) (\<lambda>h.
   Option.bind (emit 119 (mp_encode_uint M (header_key BEER_SYNC)) h) (\<lambda>h.
   Option.bind (emit 119 (mp_encode_uint M sync) h) f)))) = f (header_bytes M code sync)"
  using header_length [of code sync] by (simp add: put_simps emit_Some header_bytes_def)

lemma opt_fields_count: "length (opt_fields c k v) \<le> 1"
  by (simp add: opt_fields_def)

lemma scalar_list_count: "length (scalar_list req) \<le> 5"
  by (simp add: scalar_list_def Let_def opt_fields_def)


text \<open>The last fields, and the fields as a whole.\<close>

definition tail_list :: "beer_request \<Rightarrow> fields" where
  "tail_list req = opt_fields (rq_index_base req \<noteq> 0 \<and>
       (rq_type req = op_code BEER_OP_UPDATE \<or> rq_type req = op_code BEER_OP_UPSERT))
     BEER_INDEX_BASE (mp_encode_uint M (scast (rq_index_base req)))"

lemma request_fields_split: "request_fields M req = scalar_list req @
    (case rq_key req of None \<Rightarrow> [] | Some key \<Rightarrow> key_field M (rq_type req) key) @
    (case rq_tuple req of None \<Rightarrow> [] | Some tuple \<Rightarrow> [(body_key BEER_TUPLE, tuple)]) @ tail_list req"
  unfolding request_fields_def scalar_list_def tail_list_def Let_def by (simp only: append_assoc)

lemma key_field_count: "length (key_field M tp key) = 1"
  by (simp add: key_field_def)

lemma request_fields_count: "length (request_fields M req) \<le> 8"
proof -
  have "length (tail_list req) \<le> 1" unfolding tail_list_def by (rule opt_fields_count)
  then show ?thesis
    using scalar_list_count [of req] by (simp add: request_fields_split key_field_count split: option.split)
qed

lemma writeout_vector:
  fixes s :: "'d beer_stream" and req :: beer_request and sync :: "u64 option"
  assumes "rq_key req = None \<or> takes_key (rq_type req)"
  defines "t \<equiv> sync_base sync s" and "req' \<equiv> req\<lparr>rq_sync := s_reqid (sync_base sync s)\<rparr>"
  shows "\<exists>vs. concat vs = header_bytes M (rq_type req) (s_reqid t) @ body_bytes M (request_fields M req) \<and>
    beer_request_writeout M wv s req sync = Option.bind (send_package M wv (snd (next_reqid t)) vs)
      (\<lambda>(rv, s'). if rv = -1 then Some (-1, s', req', sync)
                 else Some (0, s', req', map_option (\<lambda>_. s_reqid t) sync))"
proof -
  define a where "a = header_bytes M (rq_type req) (s_reqid t)"
  have la: "length a \<le> 20" unfolding a_def by (rule header_length)
  define sf where "sf = scalar_list req"
  define S where "S = fields_bytes sf"
  have sl: "scalar_list req' = sf" "tail_list req' = tail_list req" "rq_key req' = rq_key req"
    "rq_tuple req' = rq_tuple req" "rq_type req' = rq_type req" "rq_index_base req' = rq_index_base req"
    by (simp_all add: sf_def scalar_list_def tail_list_def req'_def del: op_code.simps)
  have sc: "scalar_fields M req' (a @ [0]) = Some (a @ 0 # S, length sf)" "length S \<le> 50"
    using scalar_fields_eq [of "a @ [0]" req'] la by (simp_all add: sl S_def)
  obtain pre where pre: "(case rq_key req of None \<Rightarrow> Some [] | Some key \<Rightarrow> key_prefix M (rq_type req) (length key)) = Some pre"
    "length pre \<le> 6" "rq_key req = None \<Longrightarrow> pre = []"
    "\<And>key. rq_key req = Some key \<Longrightarrow> fields_bytes (key_field M (rq_type req) key) = pre @ key"
    using key_field_bytes [OF assms(1)] by metis
  define tk where "tk = mp_encode_uint M (body_key BEER_TUPLE)"
  have tk: "length tk = 1" by (simp add: tk_def key_length del: body_key.simps)
  define T where "T = (if rq_tuple req = None then [] else tk)"
  define B where "B = fields_bytes (tail_list req)"
  define n where "n = length (request_fields M req)"
  define mp where "mp = mp_encode_map M (word_of_nat n)"
  have n: "n \<le> 8" unfolding n_def by (rule request_fields_count)
  then have mp1: "length mp = 1" "mp_sizeof_map M (word_of_nat n) = 1"
    by (simp_all add: mp_def sizeof_map len_map unat_of_nat)
  have tl: "opt_field M (rq_index_base req \<noteq> 0 \<and> (rq_type req = op_code BEER_OP_UPDATE \<or> rq_type req = op_code BEER_OP_UPSERT))
      BEER_INDEX_BASE (scast (rq_index_base req)) (h, k) = Some (h @ B, k + length (tail_list req))"
    if "length h \<le> 109" for h k
    using opt_field_eq [OF that] by (simp add: B_def tail_list_def del: op_code.simps)
  have poke: "poke (length a) mp (a @ 0 # x) = Some (a @ mp @ x)" for x
    using mp1(1) by (simp add: poke_def)
  define P where "P = a @ mp @ S @ pre"
  have P: "P \<noteq> []" "length P = length a + 1 + length S + length pre"
    using mp1(1) by (auto simp: P_def)
  define vs where "vs = (let (v, begin) = (case rq_key req of None \<Rightarrow> ([], 0)
        | Some k \<Rightarrow> ([Hdr 0 (length P), Ext k], length P));
      (v, begin) = (case rq_tuple req of None \<Rightarrow> (v, begin)
        | Some t \<Rightarrow> (v @ [Hdr begin (length P + length T), Ext t], length P + length T))
     in if length (P @ T @ B) \<noteq> begin then v @ [Hdr begin (length (P @ T @ B))] else v)"
  have cc: "concat (map (seg_bytes (P @ T @ B)) vs) = P @ (case rq_key req of None \<Rightarrow> [] | Some k \<Rightarrow> k) @ T @
      (case rq_tuple req of None \<Rightarrow> [] | Some t \<Rightarrow> t) @ B"
    unfolding vs_def by (rule segs_concat [OF P(1)])
  have "\<dots> = a @ body_bytes M (request_fields M req)"
    using pre(3,4)
    by (auto simp: P_def body_bytes_fields request_fields_split sf_def [symmetric] S_def [symmetric] B_def [symmetric]
        mp_def n_def T_def tk_def fields_bytes_def [of "[_]"] field_bytes_def split: option.split simp del: body_key.simps)
  moreover have "beer_request_writeout M wv s req sync = Option.bind (send_package M wv (snd (next_reqid t))
      (map (seg_bytes (P @ T @ B)) vs))
      (\<lambda>(rv, s'). if rv = -1 then Some (-1, s', req', sync)
                 else Some (0, s', req', map_option (\<lambda>_. s_reqid t) sync))"
  proof -
    have t: "(if sync = Some 0x7fffffffffffffff \<and> s_reqid s AND 0x7fffffffffffffff = 0x7fffffffffffffff
              then s\<lparr>s_reqid := 0\<rparr> else s) = t" by (simp only: t_def sync_base_def)
    have e0: "emit 119 [0] a = Some (a @ [0])" using la by (simp add: emit_def)
    have e1: "emit 119 pre (a @ 0 # S) = Some (a @ 0 # S @ pre)" using la sc(2) pre(2) by (simp add: emit_def)
    have e2: "emit 119 tk (a @ 0 # S @ pre) = Some (a @ 0 # S @ pre @ tk)"
      using la sc(2) pre(2) tk by (simp add: emit_def)
    have r: "req\<lparr>rq_sync := s_reqid t\<rparr> = req'" by (simp only: req'_def t_def)
    have lP: "length (a @ 0 # S @ pre) = length P" by (simp add: P(2))
    have tl1: "opt_field M (rq_index_base req' \<noteq> 0 \<and> (rq_type req = op_code BEER_OP_UPDATE \<or> rq_type req = op_code BEER_OP_UPSERT))
      BEER_INDEX_BASE (scast (rq_index_base req')) (a @ 0 # S @ pre, k) = Some (a @ 0 # S @ pre @ B, k + length (tail_list req))" for k
      using tl [of "a @ 0 # S @ pre"] la sc(2) pre(2) by (simp add: sl)
    have tl2: "opt_field M (rq_index_base req' \<noteq> 0 \<and> (rq_type req = op_code BEER_OP_UPDATE \<or> rq_type req = op_code BEER_OP_UPSERT))
      BEER_INDEX_BASE (scast (rq_index_base req')) (a @ 0 # S @ pre @ tk, k) = Some (a @ 0 # S @ pre @ tk @ B, k + length (tail_list req))" for k
      using tl [of "a @ 0 # S @ pre @ tk"] la sc(2) pre(2) tk by (simp add: sl)
    have nn: "n = length sf + (if rq_key req = None then 0 else 1) + (if rq_tuple req = None then 0 else 1) + length (tail_list req)"
      by (simp add: n_def request_fields_split sf_def key_field_count split: option.split)
    have m1: "mp_sizeof_map M (word_of_nat k) = 1" "mp_encode_map M (word_of_nat k) = mp" if "k = n" for k
      using mp1(2) that by (simp_all add: mp_def)
    have reqid: "rq_sync req' = s_reqid t" by (simp add: req'_def t_def)
    show ?thesis
      unfolding beer_request_writeout_def Let_def t case_prod_unfold next_reqid_sel header_emits a_def [symmetric] e0
        bind.bind_lunit sc(1) fst_conv snd_conv r sl(3-5) pre(1) tk_def [symmetric] option.case e1
      by (cases "rq_key req"; cases "rq_tuple req")
        (simp_all add: tl1 tl2 e2 m1 nn poke reqid vs_def P_def T_def mp1(1) case_prod_unfold add.assoc split del: if_split
           cong: if_cong del: op_code.simps of_nat_add of_nat_Suc)
  qed
  ultimately show ?thesis using cc a_def by (intro exI [of _ "map (seg_bytes (P @ T @ B)) vs"]) simp
qed

section \<open>The frame arrives\<close>

lemma writeout_arrives:
  fixes sync :: "u64 option"
  assumes "rq_type req = op_code op" "rq_key req = None \<or> takes_key (rq_type req)" "alloc_total A" "sb_open (s_data s)"
    "\<forall>f \<in> set (request_fields M req). mp_obj M (snd f) \<and> length (snd f) \<le> 1152921504606846976"
  defines "reqid \<equiv> s_reqid (sync_base sync s)"
  shows "\<exists>s' fr. beer_request_writeout M (beer_buf_writev A) s req sync
      = Some (0, s', req\<lparr>rq_sync := reqid\<rparr>, map_option (\<lambda>_. reqid) sync) \<and>
    sb_open (s_data s') \<and> sb_bytes (s_data s') = sb_bytes (s_data s) @ fr \<and> s_reqid s' = reqid + 1 \<and>
    (\<forall>rest. parse_frame M (fr @ rest) = Some ((ucast (op_code op), reqid, request_fields M req), rest))"
proof -
  define t where "t = sync_base sync s"
  have td: "s_data t = s_data s" by (simp add: t_def sync_base_def)
  obtain vs where vs: "concat vs = header_bytes M (rq_type req) (s_reqid t) @ body_bytes M (request_fields M req)"
    "beer_request_writeout M (beer_buf_writev A) s req sync
      = Option.bind (send_package M (beer_buf_writev A) (snd (next_reqid t)) vs)
      (\<lambda>(rv, s'). if rv = -1 then Some (-1, s', req\<lparr>rq_sync := s_reqid t\<rparr>, sync)
                 else Some (0, s', req\<lparr>rq_sync := s_reqid t\<rparr>, map_option (\<lambda>_. s_reqid t) sync))"
    using writeout_vector [OF assms(2), where s = s and sync = sync and wv = "beer_buf_writev A"] unfolding t_def by blast
  have sends: "sends M (beer_buf_writev A) t (send_package M (beer_buf_writev A) (snd (next_reqid t)) vs) op
      (request_fields M req)"
    using vs(1) assms(1) by (auto simp: sends_def)
  obtain s' fr where r: "send_package M (beer_buf_writev A) (snd (next_reqid t)) vs = Some (int (length fr), s')"
    "sb_open (s_data s')" "sb_bytes (s_data s') = sb_bytes (s_data s) @ fr" "s_reqid s' = s_reqid t + 1"
    "\<forall>rest. parse_frame M (fr @ rest) = Some ((ucast (op_code op), s_reqid t, request_fields M req), rest)"
    using sends_arrives [OF sends request_fields_count assms(5,3)] assms(4) td by auto
  then show ?thesis by (intro exI [of _ s'] exI [of _ fr]) (simp add: vs(2) reqid_def t_def)
qed

end

end
