(* ===== verification/Beer_Opt.thy ===== *)
theory Beer_Opt
  imports Beer_Mem
begin

text \<open>
  Connection options (\<open>beer/beer_opt.c\<close>, \<open>include/bee/beer_opt.h\<close>), network buffers
  (\<open>beer/beer_iob.c\<close>, \<open>include/bee/beer_iob.h\<close>) and the error codes of the network stream
  (\<open>include/bee/beer_net.h\<close>).  Callbacks are function pointers in the code; here an
  option or a buffer only says whether one is set, and the callbacks are operations of the system interface that the
  I/O functions take as a parameter.  The URI parser is generated code and a parameter \<open>parse\<close>.
\<close>

section \<open>Error codes\<close>

datatype beer_error =
  BEER_EOK | BEER_EFAIL | BEER_EMEMORY | BEER_ESYSTEM | BEER_EBIG | BEER_ESIZE | BEER_ERESOLVE | BEER_ETMOUT
| BEER_EBADVAL | BEER_ELOGIN | BEER_LAST

section \<open>Options\<close>

datatype uri_host_hint = URI_NAME | URI_IPV4 | URI_IPV6 | URI_UNIX

record uri =
  u_login :: "bytes option"
  u_password :: "bytes option"
  u_host :: "bytes option"
  u_service :: "bytes option"
  u_hint :: uri_host_hint

text \<open>\<open>uri_parse\<close>: the status, and the structure as the parser leaves it.\<close>

type_synonym uri_parser = "bytes \<Rightarrow> int \<times> uri"

text \<open>A \<open>struct timeval\<close>: seconds and microseconds.\<close>

type_synonym timeval = "int \<times> int"

record beer_opt =
  o_uristr :: blk
  o_uri :: "uri option"
  o_tmout_connect :: timeval
  o_tmout_recv :: timeval
  o_tmout_send :: timeval
  o_send_cb :: bool
  o_send_cbv :: bool
  o_send_buf :: int
  o_recv_cb :: bool
  o_recv_buf :: int

text \<open>The option names with the argument each of them takes; \<open>Opt_other\<close> stands for any other number.
  The two callback arguments only travel to the callbacks.\<close>

datatype beer_opt_arg =
  BEER_OPT_URI bytes | BEER_OPT_TMOUT_CONNECT timeval | BEER_OPT_TMOUT_RECV timeval | BEER_OPT_TMOUT_SEND timeval
| BEER_OPT_SEND_CB bool | BEER_OPT_SEND_CBV bool | BEER_OPT_SEND_CB_ARG | BEER_OPT_SEND_BUF int
| BEER_OPT_RECV_CB bool | BEER_OPT_RECV_CB_ARG | BEER_OPT_RECV_BUF int | Opt_other

text \<open>\<open>mem\<close> says whether the block for the parsed URI could be allocated.  The block is not initialised: there
  is no URI to read before one has been set.\<close>

definition beer_opt_init :: "bool \<Rightarrow> int \<times> beer_opt" where
  "beer_opt_init mem =
     (if mem then 0 else -1,
      \<lparr>o_uristr = Null, o_uri = None, o_tmout_connect = (16, 0), o_tmout_recv = (0, 0), o_tmout_send = (0, 0),
       o_send_cb = False, o_send_cbv = False, o_send_buf = 16384, o_recv_cb = False, o_recv_buf = 16384\<rparr>)"

definition beer_opt_free :: "allocator \<Rightarrow> beer_opt \<Rightarrow> unit option" where
  "beer_opt_free A opt = (if o_uristr opt = Null then Some () else beer_mem_free A (o_uristr opt))"

text \<open>Setting a URI releases the old string, copies the new one and parses the copy.  The parsed structure
  points into the string: when the copy fails it keeps pointers into the released one, and \<open>None\<close> says that it is no
  longer usable.\<close>

definition beer_opt_set_uri :: "allocator \<Rightarrow> uri_parser \<Rightarrow> beer_opt \<Rightarrow> bytes \<Rightarrow> (beer_error \<times> beer_opt) option" where
  "beer_opt_set_uri A parse opt sz = do {
     _ \<leftarrow> (if o_uristr opt = Null then Some () else beer_mem_free A (o_uristr opt));
     str \<leftarrow> beer_mem_dup A sz;
     case str of
       Live mem \<Rightarrow>
         (let (rc, u) = parse mem; opt = opt\<lparr>o_uristr := str, o_uri := Some u\<rparr>
          in Some (if rc = -1 then BEER_EFAIL else BEER_EOK, opt))
     | _ \<Rightarrow> Some (BEER_EMEMORY, opt\<lparr>o_uristr := str, o_uri := (if o_uristr opt = Null then o_uri opt else None)\<rparr>) }"

fun beer_opt_set :: "allocator \<Rightarrow> uri_parser \<Rightarrow> beer_opt \<Rightarrow> beer_opt_arg \<Rightarrow> (beer_error \<times> beer_opt) option" where
  "beer_opt_set A parse opt (BEER_OPT_URI sz) = beer_opt_set_uri A parse opt sz"
| "beer_opt_set A parse opt (BEER_OPT_TMOUT_CONNECT tv) = Some (BEER_EOK, opt\<lparr>o_tmout_connect := tv\<rparr>)"
| "beer_opt_set A parse opt (BEER_OPT_TMOUT_RECV tv) = Some (BEER_EOK, opt\<lparr>o_tmout_recv := tv\<rparr>)"
| "beer_opt_set A parse opt (BEER_OPT_TMOUT_SEND tv) = Some (BEER_EOK, opt\<lparr>o_tmout_send := tv\<rparr>)"
| "beer_opt_set A parse opt (BEER_OPT_SEND_CB cb) = Some (BEER_EOK, opt\<lparr>o_send_cb := cb\<rparr>)"
| "beer_opt_set A parse opt (BEER_OPT_SEND_CBV cb) = Some (BEER_EOK, opt\<lparr>o_send_cbv := cb\<rparr>)"
| "beer_opt_set A parse opt BEER_OPT_SEND_CB_ARG = Some (BEER_EOK, opt)"
| "beer_opt_set A parse opt (BEER_OPT_SEND_BUF n) = Some (BEER_EOK, opt\<lparr>o_send_buf := n\<rparr>)"
| "beer_opt_set A parse opt (BEER_OPT_RECV_CB cb) = Some (BEER_EOK, opt\<lparr>o_recv_cb := cb\<rparr>)"
| "beer_opt_set A parse opt BEER_OPT_RECV_CB_ARG = Some (BEER_EOK, opt)"
| "beer_opt_set A parse opt (BEER_OPT_RECV_BUF n) = Some (BEER_EOK, opt\<lparr>o_recv_buf := n\<rparr>)"
| "beer_opt_set A parse opt Opt_other = Some (BEER_EFAIL, opt)"

text \<open>The string of the options is allocated or absent, never freed: setting options can be repeated and
  the options can be freed in the end.\<close>

definition opt_owned :: "beer_opt \<Rightarrow> bool" where
  "opt_owned opt \<longleftrightarrow> o_uristr opt \<noteq> Dangling"

lemma beer_mem_dup_not_dangling:
  assumes "beer_mem_dup A sz = Some p"
  shows "p \<noteq> Dangling"
proof -
  obtain len q where "beer_mem_alloc A (Suc len) = Some q" "(case q of Live mem \<Rightarrow> do {
         src \<leftarrow> slice 0 (Suc len) sz; mem' \<leftarrow> poke 0 src mem; Some (Live mem') }
     | _ \<Rightarrow> Some Null) = Some p"
    using assms by (auto simp: beer_mem_dup_def bind_eq_Some_conv)
  then show ?thesis by (cases q) (auto simp: bind_eq_Some_conv)
qed

lemma beer_opt_set_uri_owned:
  assumes "beer_opt_set_uri A parse opt sz = Some (e, opt')"
  shows "opt_owned opt'"
proof -
  obtain str where str: "beer_mem_dup A sz = Some str"
    using assms by (auto simp: beer_opt_set_uri_def bind_eq_Some_conv)
  then have "str \<noteq> Dangling" by (rule beer_mem_dup_not_dangling)
  then show ?thesis
    using assms str by (cases str) (auto simp: opt_owned_def beer_opt_set_uri_def bind_eq_Some_conv split: prod.splits if_splits)
qed

lemma beer_opt_set_owned:
  assumes "opt_owned opt" "beer_opt_set A parse opt arg = Some (e, opt')"
  shows "opt_owned opt'"
  using assms beer_opt_set_uri_owned by (cases arg) (auto simp: opt_owned_def)

lemma beer_opt_free_owned: "opt_owned opt \<Longrightarrow> beer_opt_free A opt = Some ()"
  by (cases "o_uristr opt") (simp_all add: opt_owned_def beer_opt_free_def)

section \<open>Network buffers\<close>

record iob =
  io_buf :: blk
  io_off :: nat
  io_top :: nat
  io_size :: nat
  io_tx :: bool
  io_txv :: bool

definition beer_iob_init :: "allocator \<Rightarrow> nat \<Rightarrow> bool \<Rightarrow> bool \<Rightarrow> (int \<times> iob) option" where
  "beer_iob_init A n tx txv = do {
     let b = \<lparr>io_buf = Null, io_off = 0, io_top = 0, io_size = n, io_tx = tx, io_txv = txv\<rparr>;
     if 0 < n then do {
       p \<leftarrow> beer_mem_alloc A n;
       case p of
         Live mem \<Rightarrow> Some (0, b\<lparr>io_buf := Live (replicate (length mem) 0)\<rparr>)
       | _ \<Rightarrow> Some (-1, b\<lparr>io_buf := p\<rparr>) }
     else Some (0, b) }"

definition beer_iob_clear :: "iob \<Rightarrow> iob" where
  "beer_iob_clear b = b\<lparr>io_top := 0, io_off := 0\<rparr>"

definition beer_iob_free :: "allocator \<Rightarrow> iob \<Rightarrow> unit option" where
  "beer_iob_free A b = (if io_buf b = Null then Some () else beer_mem_free A (io_buf b))"

text \<open>A buffer is absent or has its announced size, and its offsets are inside.\<close>

definition iob_inv :: "iob \<Rightarrow> bool" where
  "iob_inv b \<longleftrightarrow> io_off b \<le> io_size b \<and> io_top b \<le> io_size b \<and>
     (case io_buf b of Null \<Rightarrow> io_off b = 0 \<and> io_top b = 0 | Live mem \<Rightarrow> length mem = io_size b \<and> 0 < io_size b | Dangling \<Rightarrow> False)"

lemma beer_iob_init_inv:
  assumes "alloc_ok A"
  shows "\<exists>rc b. beer_iob_init A n tx txv = Some (rc, b) \<and> (rc = 0 \<longrightarrow> iob_inv b \<and> io_size b = n \<and> io_off b = 0 \<and> io_top b = 0) \<and>
    (rc = 0 \<or> rc = -1)"
  using beer_mem_realloc_cases [OF assms, of n Null]
  by (cases "n = 0") (auto simp: beer_iob_init_def iob_inv_def beer_mem_alloc_def beer_mem_realloc_def)

lemma beer_iob_clear_inv: "iob_inv b \<Longrightarrow> iob_inv (beer_iob_clear b)"
  by (auto simp: iob_inv_def beer_iob_clear_def split: blk.splits)

lemma beer_iob_free_inv: "iob_inv b \<Longrightarrow> beer_iob_free A b = Some ()"
  by (auto simp: iob_inv_def beer_iob_free_def split: blk.splits)

end
