(* ===== verification/Beer_Io.thy ===== *)
theory Beer_Io
  imports Beer_Opt Beer_Buf
begin

text \<open>
  Network input and output (\<open>beer/beer_io.c\<close>, from \<open>beer_io_close\<close> on) for the stream of
  \<open>include/bee/beer_net.h\<close>.  The system calls and the user's callbacks are the operations of \<open>net_sys\<close>, functions of
  the state \<open>'w\<close> of the world, which the stream carries along; each returns what the C function
  returns, \<open>errno\<close> and the new world.  Sending loops end because every turn sends something; only the
  inner loop that repeats an interrupted call may go on for ever, and is a partial function.
\<close>

section \<open>The system interface\<close>

text \<open>\<open>EINTR\<close> stands for the value of \<open>errno\<close> after an interrupted call.\<close>

definition EINTR :: int where
  "EINTR = 4"

record 'w net_sys =
  sys_send :: "bytes \<Rightarrow> 'w \<Rightarrow> (int \<times> int) \<times> 'w"
  sys_writev :: "bytes list \<Rightarrow> 'w \<Rightarrow> (int \<times> int) \<times> 'w"
  sys_recv :: "nat \<Rightarrow> 'w \<Rightarrow> (int \<times> int \<times> bytes) \<times> 'w"
  sys_close :: "int \<Rightarrow> 'w \<Rightarrow> 'w"
  cb_send :: "bytes \<Rightarrow> 'w \<Rightarrow> (int \<times> int) \<times> 'w"
  cb_sendv :: "bytes list \<Rightarrow> 'w \<Rightarrow> (int \<times> int) \<times> 'w"
  cb_recv :: "nat \<Rightarrow> 'w \<Rightarrow> (int \<times> int \<times> bytes) \<times> 'w"

text \<open>The network stream's own data; \<open>'x\<close> is the schema, which is none of the concern of this theory.\<close>

record ('w, 'x) stream_net =
  sn_opt :: beer_opt
  sn_connected :: bool
  sn_fd :: int
  sn_sbuf :: iob
  sn_rbuf :: iob
  sn_error :: beer_error
  sn_errno :: int
  sn_greeting :: blk
  sn_schema :: 'x
  sn_inited :: bool
  sn_world :: 'w

text \<open>\<open>do { r = f(); } while (r == -1 && errno == EINTR)\<close>\<close>

partial_function (option) eintr :: "('w \<Rightarrow> (int \<times> int \<times> 'a) \<times> 'w) \<Rightarrow> 'w \<Rightarrow> ((int \<times> int \<times> 'a) \<times> 'w) option" where
  "eintr f w = (case f w of ((r, e, x), w) \<Rightarrow> if r = -1 \<and> e = EINTR then eintr f w else Some ((r, e, x), w))"

definition no_data :: "(int \<times> int) \<times> 'w \<Rightarrow> (int \<times> int \<times> unit) \<times> 'w" where
  "no_data r = ((fst (fst r), snd (fst r), ()), snd r)"

section \<open>Sending\<close>

text \<open>One call of the transport for \<open>bs\<close>: the callback of the send buffer when there is one, else the socket.\<close>

definition io_tx_once :: "'w net_sys \<Rightarrow> bool \<Rightarrow> bytes \<Rightarrow> 'w \<Rightarrow> ((int \<times> int \<times> unit) \<times> 'w) option" where
  "io_tx_once T cb bs w = (if cb then Some (no_data (cb_send T bs w)) else eintr (\<lambda>w. no_data (sys_send T bs w)) w)"

text \<open>
  The loop of \<open>beer_io_send_raw\<close> over what is left of the buffer, after \<open>off\<close> bytes.  A transport
  that claims to have sent more than it was given makes the code read outside the buffer.
\<close>

function send_loop :: "'w net_sys \<Rightarrow> bool \<Rightarrow> bytes \<Rightarrow> bool \<Rightarrow> nat \<Rightarrow> 'w \<Rightarrow> ((int \<times> int) \<times> 'w) option" where
  "send_loop T cb bs all off w =
     (case io_tx_once T cb bs w of
        None \<Rightarrow> None
      | Some ((r, e, _), w) \<Rightarrow>
          if r \<le> 0 then Some ((-1, e), w)
          else if length bs < nat r then None
          else if nat r \<noteq> length bs \<and> all then send_loop T cb (drop (nat r) bs) all (off + nat r) w
          else Some ((int (off + nat r), e), w))"
  by pat_completeness auto
termination by (relation "measure (\<lambda>(T, cb, bs, all, off, w). length bs)") auto

declare send_loop.simps [simp del]

definition beer_io_send_raw :: "'w net_sys \<Rightarrow> ('w, 'x) stream_net \<Rightarrow> bytes \<Rightarrow> bool \<Rightarrow> (int \<times> ('w, 'x) stream_net) option" where
  "beer_io_send_raw T s buf all = do {
     ((r, e), w) \<leftarrow> send_loop T (io_tx (sn_sbuf s)) buf all 0 (sn_world s);
     let s = s\<lparr>sn_world := w\<rparr>;
     if r = -1 then Some (-1, s\<lparr>sn_error := BEER_ESYSTEM, sn_errno := e\<rparr>) else Some (r, s) }"

text \<open>\<open>IOV_MAX\<close>, and the number of vector entries given to one callback (the socket gets them all).\<close>

definition IOV_MAX :: nat where
  "IOV_MAX = 1024"

definition io_txv_once :: "'w net_sys \<Rightarrow> bool \<Rightarrow> bytes list \<Rightarrow> 'w \<Rightarrow> ((int \<times> int \<times> unit) \<times> 'w) option" where
  "io_txv_once T cb iov w =
     (if cb then Some (no_data (cb_sendv T (take (min (length iov) IOV_MAX) iov) w))
      else eintr (\<lambda>w. no_data (sys_writev T iov w)) w)"

text \<open>The inner loop of \<open>beer_io_sendv_raw\<close>: entries that have been sent are left behind, the one in the middle is shortened.\<close>

fun iov_advance :: "nat \<Rightarrow> bytes list \<Rightarrow> bytes list" where
  "iov_advance r [] = []"
| "iov_advance r (v # vs) = (if r < length v then drop r v # vs else iov_advance (r - length v) vs)"

lemma iov_advance_concat: "r \<le> length (concat iov) \<Longrightarrow> concat (iov_advance r iov) = drop r (concat iov)"
  by (induction iov arbitrary: r) (auto simp: not_less)

lemma iov_advance_size: "0 < r \<Longrightarrow> iov \<noteq> [] \<Longrightarrow>
    length (concat (iov_advance r iov)) + length (iov_advance r iov) < length (concat iov) + length iov"
proof (induction iov arbitrary: r)
  case (Cons v vs)
  have le: "length (concat (iov_advance k vs)) + length (iov_advance k vs) \<le> length (concat vs) + length vs" for k
    by (induction k vs rule: iov_advance.induct) auto
  from Cons.prems le [of "r - length v"] show ?case by auto
qed simp

text \<open>Running off the vector with bytes to spare means that the transport claimed too much; the code then stops as well.\<close>

function sendv_loop :: "'w net_sys \<Rightarrow> bool \<Rightarrow> bytes list \<Rightarrow> bool \<Rightarrow> int \<Rightarrow> 'w \<Rightarrow> ((int \<times> int) \<times> 'w) option" where
  "sendv_loop T cb iov all tot w =
     (if iov = [] then Some ((tot, 0), w)
      else case io_txv_once T cb iov w of
        None \<Rightarrow> None
      | Some ((r, e, _), w) \<Rightarrow>
          if r \<le> 0 then Some ((-1, e), w)
          else if \<not> all then Some ((tot + r, e), w)
          else sendv_loop T cb (iov_advance (nat r) iov) all (tot + r) w)"
  by pat_completeness auto
termination
  by (relation "measure (\<lambda>(T, cb, iov, all, total, w). length (concat iov) + length iov)") (auto simp: iov_advance_size)

declare sendv_loop.simps [simp del]

definition beer_io_sendv_raw :: "'w net_sys \<Rightarrow> ('w, 'x) stream_net \<Rightarrow> bytes list \<Rightarrow> bool \<Rightarrow> (int \<times> ('w, 'x) stream_net) option" where
  "beer_io_sendv_raw T s iov all = do {
     ((r, e), w) \<leftarrow> sendv_loop T (io_txv (sn_sbuf s)) iov all 0 (sn_world s);
     let s = s\<lparr>sn_world := w\<rparr>;
     if r = -1 then Some (-1, s\<lparr>sn_error := BEER_ESYSTEM, sn_errno := e\<rparr>) else Some (r, s) }"

text \<open>The bytes that wait in a buffer, and a store behind them.\<close>

definition io_waiting :: "iob \<Rightarrow> bytes" where
  "io_waiting b = (case io_buf b of Live mem \<Rightarrow> take (io_off b) mem | _ \<Rightarrow> [])"

definition io_store :: "iob \<Rightarrow> bytes \<Rightarrow> iob option" where
  "io_store b bs =
     (case io_buf b of
        Live mem \<Rightarrow> map_option (\<lambda>mem. b\<lparr>io_buf := Live mem, io_off := io_off b + length bs\<rparr>) (poke (io_off b) bs mem)
      | _ \<Rightarrow> None)"

definition beer_io_flush :: "'w net_sys \<Rightarrow> ('w, 'x) stream_net \<Rightarrow> (int \<times> ('w, 'x) stream_net) option" where
  "beer_io_flush T s =
     (if io_off (sn_sbuf s) = 0 then Some (0, s)
      else do {
        (rc, s) \<leftarrow> beer_io_send_raw T s (io_waiting (sn_sbuf s)) True;
        if rc = -1 then Some (-1, s) else Some (rc, s\<lparr>sn_sbuf := (sn_sbuf s)\<lparr>io_off := 0\<rparr>\<rparr>) })"

definition beer_io_send :: "'w net_sys \<Rightarrow> ('w, 'x) stream_net \<Rightarrow> bytes \<Rightarrow> (int \<times> ('w, 'x) stream_net) option" where
  "beer_io_send T s buf =
     (if io_buf (sn_sbuf s) = Null then beer_io_send_raw T s buf True
      else if io_size (sn_sbuf s) < length buf then Some (-1, s\<lparr>sn_error := BEER_EBIG\<rparr>)
      else if io_off (sn_sbuf s) + length buf \<le> io_size (sn_sbuf s) then do {
        b \<leftarrow> io_store (sn_sbuf s) buf;
        Some (int (length buf), s\<lparr>sn_sbuf := b\<rparr>) }
      else do {
        (r, s) \<leftarrow> beer_io_send_raw T s (io_waiting (sn_sbuf s)) True;
        if r = -1 then Some (-1, s)
        else do {
          b \<leftarrow> io_store ((sn_sbuf s)\<lparr>io_off := 0\<rparr>) buf;
          Some (int (length buf), s\<lparr>sn_sbuf := b\<rparr>) } })"

fun beer_io_sendv_put :: "iob \<Rightarrow> bytes list \<Rightarrow> iob option" where
  "beer_io_sendv_put b [] = Some b"
| "beer_io_sendv_put b (v # vs) = Option.bind (io_store b v) (\<lambda>b. beer_io_sendv_put b vs)"

definition beer_io_sendv :: "'w net_sys \<Rightarrow> ('w, 'x) stream_net \<Rightarrow> bytes list \<Rightarrow> (int \<times> ('w, 'x) stream_net) option" where
  "beer_io_sendv T s iov =
     (if io_buf (sn_sbuf s) = Null then beer_io_sendv_raw T s iov True
      else let n = sum_list (map length iov) in
        if io_size (sn_sbuf s) < n then Some (-1, s\<lparr>sn_error := BEER_EBIG\<rparr>)
        else if io_off (sn_sbuf s) + n \<le> io_size (sn_sbuf s) then do {
          b \<leftarrow> beer_io_sendv_put (sn_sbuf s) iov;
          Some (int n, s\<lparr>sn_sbuf := b\<rparr>) }
        else do {
          (r, s) \<leftarrow> beer_io_send_raw T s (io_waiting (sn_sbuf s)) True;
          if r = -1 then Some (-1, s)
          else do {
            b \<leftarrow> beer_io_sendv_put ((sn_sbuf s)\<lparr>io_off := 0\<rparr>) iov;
            Some (int n, s\<lparr>sn_sbuf := b\<rparr>) } })"

section \<open>Receiving\<close>

definition io_rx_once :: "'w net_sys \<Rightarrow> bool \<Rightarrow> nat \<Rightarrow> 'w \<Rightarrow> ((int \<times> int \<times> bytes) \<times> 'w) option" where
  "io_rx_once T cb n w = (if cb then Some (cb_recv T n w) else eintr (sys_recv T n) w)"

text \<open>The loop of \<open>beer_io_recv_raw\<close>; \<open>acc\<close> is what the caller's buffer has received, \<open>n\<close> the room left.\<close>

function recv_loop :: "'w net_sys \<Rightarrow> bool \<Rightarrow> nat \<Rightarrow> bool \<Rightarrow> bytes \<Rightarrow> 'w \<Rightarrow> ((int \<times> int \<times> bytes) \<times> 'w) option" where
  "recv_loop T cb n all acc w =
     (case io_rx_once T cb n w of
        None \<Rightarrow> None
      | Some ((r, e, bs), w) \<Rightarrow>
          if r \<le> 0 then Some ((-1, e, acc), w)
          else if n < nat r \<or> length bs \<noteq> nat r then None
          else if nat r \<noteq> n \<and> all then recv_loop T cb (n - nat r) all (acc @ bs) w
          else Some ((int (length (acc @ bs)), e, acc @ bs), w))"
  by pat_completeness auto
termination by (relation "measure (\<lambda>(T, cb, n, all, acc, w). n)") auto

declare recv_loop.simps [simp del]

definition beer_io_recv_raw :: "'w net_sys \<Rightarrow> ('w, 'x) stream_net \<Rightarrow> nat \<Rightarrow> bool \<Rightarrow> (int \<times> bytes \<times> ('w, 'x) stream_net) option" where
  "beer_io_recv_raw T s n all = do {
     ((r, e, bs), w) \<leftarrow> recv_loop T (io_tx (sn_rbuf s)) n all [] (sn_world s);
     let s = s\<lparr>sn_world := w\<rparr>;
     if r = -1 then Some (-1, bs, s\<lparr>sn_error := BEER_ESYSTEM, sn_errno := e\<rparr>) else Some (r, bs, s) }"

text \<open>Reading \<open>n\<close> bytes from the receive buffer at its offset.\<close>

definition io_take :: "iob \<Rightarrow> nat \<Rightarrow> bytes option" where
  "io_take b n = (case io_buf b of Live mem \<Rightarrow> slice (io_off b) n mem | _ \<Rightarrow> None)"

lemma beer_io_recv_raw_frame:
  assumes "beer_io_recv_raw T s n all = Some (r, bs, s')"
  shows "sn_rbuf s' = sn_rbuf s" "sn_sbuf s' = sn_sbuf s"
  using assms by (auto simp: beer_io_recv_raw_def bind_eq_Some_conv Let_def split: prod.splits if_splits)

text \<open>
  The loop of \<open>beer_io_recv\<close>: \<open>left\<close> bytes are still to come behind \<open>acc\<close>.  What is in the buffer is copied first, then
  the buffer is filled once.
\<close>

function recv_buffered :: "'w net_sys \<Rightarrow> nat \<Rightarrow> bytes \<Rightarrow> ('w, 'x) stream_net \<Rightarrow> (int \<times> bytes \<times> ('w, 'x) stream_net) option" where
  "recv_buffered T left acc s =
     (let b = sn_rbuf s in
      if io_off b + left \<le> io_top b then
        (case io_take b left of
           None \<Rightarrow> None
         | Some bs \<Rightarrow> Some (int (length (acc @ bs)), acc @ bs, s\<lparr>sn_rbuf := b\<lparr>io_off := io_off b + left\<rparr>\<rparr>))
      else if io_top b < io_off b then None
      else
        (case io_take b (io_top b - io_off b) of
           None \<Rightarrow> None
         | Some bs \<Rightarrow>
             (let lv = io_top b - io_off b; acc = acc @ bs; s = s\<lparr>sn_rbuf := b\<lparr>io_off := 0\<rparr>\<rparr> in
              case beer_io_recv_raw T s (io_size b) False of
                None \<Rightarrow> None
              | Some (tp, got, s) \<Rightarrow>
                  (case io_buf (sn_rbuf s) of
                     Live mem \<Rightarrow>
                       (case poke 0 got mem of
                          None \<Rightarrow> None
                        | Some mem \<Rightarrow>
                            (let s = s\<lparr>sn_rbuf := (sn_rbuf s)\<lparr>io_buf := Live mem\<rparr>\<rparr> in
                             if tp \<le> 0 then Some (-1, acc, s\<lparr>sn_error := BEER_ESYSTEM\<rparr>)
                             else
                               (let s = s\<lparr>sn_rbuf := (sn_rbuf s)\<lparr>io_top := nat tp\<rparr>\<rparr> in
                                if left - lv \<le> nat tp then
                                  (case slice 0 (left - lv) mem of
                                     None \<Rightarrow> None
                                   | Some bs \<Rightarrow> Some (int (length (acc @ bs)), acc @ bs,
                                       s\<lparr>sn_rbuf := (sn_rbuf s)\<lparr>io_off := left - lv\<rparr>\<rparr>))
                                else recv_buffered T (left - lv) acc s)))
                   | _ \<Rightarrow> None))))"
  by pat_completeness auto

termination
proof (relation "measure (\<lambda>(T, left, acc, s). 2 * left + (if io_off (sn_rbuf s) < io_top (sn_rbuf s) then 0 else 1))", goal_cases)
  case 1
  then show ?case by simp
next
  case (2 T left acc s b x1 lv acc' s1 y tp z got s2 mem mem' s3 s4)
  then have "io_off (sn_rbuf s4) = 0" "io_top (sn_rbuf s4) = nat tp" "\<not> tp \<le> 0" "io_off b \<le> io_top b" "b = sn_rbuf s"
    "\<not> io_off b + left \<le> io_top b" "lv = io_top b - io_off b"
    using beer_io_recv_raw_frame [of T s1 "io_size b" False tp got s2] by auto
  then show ?case by auto
qed

declare recv_buffered.simps [simp del]

definition beer_io_recv :: "'w net_sys \<Rightarrow> ('w, 'x) stream_net \<Rightarrow> nat \<Rightarrow> (int \<times> bytes \<times> ('w, 'x) stream_net) option" where
  "beer_io_recv T s n =
     (if io_buf (sn_rbuf s) = Null then beer_io_recv_raw T s n True else recv_buffered T n [] s)"

section \<open>Closing\<close>

definition beer_io_close :: "'w net_sys \<Rightarrow> ('w, 'x) stream_net \<Rightarrow> ('w, 'x) stream_net" where
  "beer_io_close T s =
     (let s = (if 0 < sn_fd s then s\<lparr>sn_world := sys_close T (sn_fd s) (sn_world s), sn_fd := -1\<rparr> else s)
      in s\<lparr>sn_connected := False\<rparr>)"

end
