(* ===== verification/Beer_Auth.thy ===== *)
theory Beer_Auth
  imports Beer_Requests Beer_Io
begin

text \<open>
  Authentication (\<open>beer/beer_auth.c\<close>): the scramble of the chap-sha1 exchange and the request that carries it.  SHA-1
  and base64 are third-party code and parameters: \<open>sha1\<close> digests the bytes of all updates, \<open>base64\<close> gives
  the bytes that \<open>base64_decode\<close> stores.

  What is shown: a server that keeps nothing but the digest of the password's digest accepts the scramble, and the
  request is one package with the user name and the method, or the guest's package without a scramble.
\<close>

unbundle bit_operations_syntax

section \<open>The scramble\<close>

definition BEER_SCRAMBLE_SIZE :: nat where "BEER_SCRAMBLE_SIZE = 20"
definition BEER_GREETING_SIZE :: nat where "BEER_GREETING_SIZE = 128"
definition BEER_VERSION_SIZE :: nat where "BEER_VERSION_SIZE = 64"
definition BEER_SALT_SIZE :: nat where "BEER_SALT_SIZE = 44"

fun beer_xor :: "nat \<Rightarrow> bytes \<Rightarrow> bytes \<Rightarrow> bytes option" where
  "beer_xor 0 ls rs = Some []"
| "beer_xor (Suc n) (l # ls) (r # rs) = map_option ((#) (l XOR r)) (beer_xor n ls rs)"
| "beer_xor (Suc n) _ _ = None"

definition beer_scramble_prepare :: "(bytes \<Rightarrow> bytes) \<Rightarrow> bytes \<Rightarrow> bytes \<Rightarrow> bytes option" where
  "beer_scramble_prepare sha1 salt pass = do {
     let hash1 = sha1 pass;
     let hash2 = sha1 hash1;
     salt \<leftarrow> slice 0 BEER_SCRAMBLE_SIZE salt;
     let out = sha1 (salt @ hash2);
     beer_xor BEER_SCRAMBLE_SIZE hash1 out }"

text \<open>
  What the server does with a scramble: it knows \<open>hash2\<close>, the digest of the password's digest, takes the digest of the password back
  out of the scramble and compares its digest with what it knows.
\<close>

definition server_accepts :: "(bytes \<Rightarrow> bytes) \<Rightarrow> bytes \<Rightarrow> bytes \<Rightarrow> bytes \<Rightarrow> bool" where
  "server_accepts sha1 salt hash2 scramble \<longleftrightarrow>
     (case beer_xor BEER_SCRAMBLE_SIZE scramble (sha1 (take BEER_SCRAMBLE_SIZE salt @ hash2)) of
        None \<Rightarrow> False
      | Some hash1 \<Rightarrow> sha1 hash1 = hash2)"

lemma beer_xor_length: "beer_xor n ls rs = Some os \<Longrightarrow> length os = n"
  by (induction n ls rs arbitrary: os rule: beer_xor.induct) auto

lemma beer_xor_total: "n \<le> length ls \<Longrightarrow> n \<le> length rs \<Longrightarrow> \<exists>os. beer_xor n ls rs = Some os"
  by (induction n ls rs rule: beer_xor.induct) auto

lemma beer_xor_back: "beer_xor n ls rs = Some os \<Longrightarrow> beer_xor n os rs = Some (take n ls)"
  by (induction n ls rs arbitrary: os rule: beer_xor.induct) (auto simp: xor.assoc)

lemma scramble_total:
  assumes "\<And>x. length (sha1 x) = 20" "20 \<le> length salt"
  obtains sc where "beer_scramble_prepare sha1 salt pass = Some sc" "length sc = 20"
    "server_accepts sha1 salt (sha1 (sha1 pass)) sc"
proof -
  obtain sc where sc: "beer_xor 20 (sha1 pass) (sha1 (take 20 salt @ sha1 (sha1 pass))) = Some sc"
    using beer_xor_total [of 20 "sha1 pass" "sha1 (take 20 salt @ sha1 (sha1 pass))"] assms(1) by auto
  then have "beer_scramble_prepare sha1 salt pass = Some sc"
    using assms(2) by (simp add: beer_scramble_prepare_def BEER_SCRAMBLE_SIZE_def slice_def Let_def)
  moreover have "server_accepts sha1 salt (sha1 (sha1 pass)) sc"
    using beer_xor_back [OF sc] assms(1) by (simp add: server_accepts_def BEER_SCRAMBLE_SIZE_def)
  ultimately show ?thesis using that beer_xor_length [OF sc] by blast
qed

section \<open>The request\<close>

definition guest_name :: bytes where
  "guest_name = [103, 117, 101, 115, 116]"

definition chap_sha1 :: bytes where
  "chap_sha1 = [99, 104, 97, 112, 45, 115, 104, 97, 49]"

definition is_guest :: "bytes option \<Rightarrow> nat \<Rightarrow> bool" where
  "is_guest user ulen = (case user of None \<Rightarrow> True | Some u \<Rightarrow> ulen = 5 \<and> take 5 u = guest_name)"

definition beer_auth_raw :: "msgpuck \<Rightarrow> (bytes \<Rightarrow> bytes) \<Rightarrow> (bytes \<Rightarrow> bytes) \<Rightarrow> 'd writev \<Rightarrow> 'd beer_stream \<Rightarrow> bytes option \<Rightarrow> nat
    \<Rightarrow> bytes option \<Rightarrow> nat \<Rightarrow> bytes \<Rightarrow> (int \<times> 'd beer_stream) option" where
  "beer_auth_raw M sha1 base64 wv s user ulen pass plen base64_salt = do {
     let guest = is_guest user ulen;
     let (user, ulen) = (if guest then (Some guest_name, 5) else (user, ulen));
     let (reqid, s) = next_reqid s;
     hdr \<leftarrow> encode_header M (op_code BEER_OP_AUTH) reqid;
     b \<leftarrow> emit 64 (mp_encode_map M 2) [];
     b \<leftarrow> emit 64 (mp_encode_uint M (body_key BEER_USERNAME)) b;
     b \<leftarrow> emit 64 (mp_encode_strl M (word_of_nat ulen)) b;
     user \<leftarrow> user;
     v3 \<leftarrow> slice 0 ulen user;
     d \<leftarrow> emit 64 (mp_encode_uint M (body_key BEER_TUPLE)) b;
     if \<not> guest then do {
       d \<leftarrow> emit 64 (mp_encode_array M 2) d;
       d \<leftarrow> emit 64 (mp_encode_str M chap_sha1) d;
       d \<leftarrow> emit 64 (mp_encode_strl M (word_of_nat BEER_SCRAMBLE_SIZE)) d;
       src \<leftarrow> slice 0 BEER_SALT_SIZE base64_salt;
       pass \<leftarrow> (case pass of None \<Rightarrow> if plen = 0 then Some [] else None | Some p \<Rightarrow> slice 0 plen p);
       scramble \<leftarrow> beer_scramble_prepare sha1 (base64 src) pass;
       send_package M wv s [hdr, b, v3, drop (length b) d, scramble] }
     else do {
       d \<leftarrow> emit 64 (mp_encode_array M 0) d;
       send_package M wv s [hdr, b, v3, drop (length b) d] } }"

text \<open>The salt is the second line of the greeting.\<close>

definition beer_auth :: "msgpuck \<Rightarrow> (bytes \<Rightarrow> bytes) \<Rightarrow> (bytes \<Rightarrow> bytes) \<Rightarrow> ('w, 'x) stream_net writev \<Rightarrow> ('w, 'x) stream_net beer_stream
    \<Rightarrow> bytes option \<Rightarrow> nat \<Rightarrow> bytes option \<Rightarrow> nat \<Rightarrow> (int \<times> ('w, 'x) stream_net beer_stream) option" where
  "beer_auth M sha1 base64 wv s user ulen pass plen =
     (case sn_greeting (s_data s) of
        Live g \<Rightarrow> beer_auth_raw M sha1 base64 wv s user ulen pass plen (drop BEER_VERSION_SIZE g)
      | _ \<Rightarrow> None)"

definition beer_deauth :: "msgpuck \<Rightarrow> (bytes \<Rightarrow> bytes) \<Rightarrow> (bytes \<Rightarrow> bytes) \<Rightarrow> ('w, 'x) stream_net writev \<Rightarrow> ('w, 'x) stream_net beer_stream
    \<Rightarrow> (int \<times> ('w, 'x) stream_net beer_stream) option" where
  "beer_deauth M sha1 base64 wv s = beer_auth M sha1 base64 wv s None 0 None 0"

text \<open>The fields of the request.\<close>

definition auth_fields :: "msgpuck \<Rightarrow> bytes \<Rightarrow> bytes option \<Rightarrow> fields" where
  "auth_fields M user scramble =
     [(body_key BEER_USERNAME, mp_encode_str M user),
      (body_key BEER_TUPLE, case scramble of None \<Rightarrow> mp_encode_array M 0
        | Some sc \<Rightarrow> mp_encode_array M 2 @ mp_encode_str M chap_sha1 @ mp_encode_str M sc)]"

context msgpuck_laws begin

lemma beer_auth_raw_sends:
  assumes "\<And>x. length (sha1 x) = 20" "44 \<le> length salt" "20 \<le> length (base64 (take 44 salt))" "\<not> is_guest (Some user) (length user)"
  obtains sc where "server_accepts sha1 (base64 (take 44 salt)) (sha1 (sha1 pass)) sc" "length sc = 20"
    "sends M wv s (beer_auth_raw M sha1 base64 wv s (Some user) (length user) (Some pass) (length pass) salt) BEER_OP_AUTH
       (auth_fields M user (Some sc))"
proof -
  obtain sc where sc: "beer_scramble_prepare sha1 (base64 (take 44 salt)) pass = Some sc" "length sc = 20"
    "server_accepts sha1 (base64 (take 44 salt)) (sha1 (sha1 pass)) sc"
    by (rule scramble_total [OF assms(1,3)])
  define b where "b = mp_encode_map M 2 @ mp_encode_uint M (body_key BEER_USERNAME) @ mp_encode_strl M (word_of_nat (length user))"
  define t where "t = mp_encode_uint M (body_key BEER_TUPLE) @ mp_encode_array M 2 @ mp_encode_str M chap_sha1 @
    mp_encode_strl M (word_of_nat BEER_SCRAMBLE_SIZE)"
  have l: "length b \<le> 7" "length t \<le> 17"
    using strl_length [of "word_of_nat (length user)"] strl_length [of "word_of_nat BEER_SCRAMBLE_SIZE"]
    by (simp_all add: b_def t_def key_length small_map_length len_array enc_str chap_sha1_def len_strl str_hdr_size_def
        del: body_key.simps)
  then have e: "emit 64 t b = Some (b @ t)" "emit 64 b [] = Some b" by (simp_all add: emit_def)
  have "beer_auth_raw M sha1 base64 wv s (Some user) (length user) (Some pass) (length pass) salt
      = Option.bind (emit 64 b []) (\<lambda>b. Option.bind (emit 64 t b) (\<lambda>d.
          send_package M wv (snd (next_reqid s)) [header_bytes M (op_code BEER_OP_AUTH) (s_reqid s), b, user, drop (length b) d, sc]))"
    unfolding b_def t_def using assms(2,4) sc(1)
    by (simp add: beer_auth_raw_def encode_header_bytes Let_def case_prod_unfold slice_def BEER_SALT_SIZE_def
        emit_emit_bind [symmetric] emit_emit [symmetric] del: body_key.simps op_code.simps)
  then have "beer_auth_raw M sha1 base64 wv s (Some user) (length user) (Some pass) (length pass) salt
      = send_package M wv (snd (next_reqid s)) [header_bytes M (op_code BEER_OP_AUTH) (s_reqid s), b, user, t, sc]"
    by (simp add: e)
  then have "sends M wv s (beer_auth_raw M sha1 base64 wv s (Some user) (length user) (Some pass) (length pass) salt) BEER_OP_AUTH
       (auth_fields M user (Some sc))"
    using sc(2) by (auto simp: sends_def b_def t_def auth_fields_def body_bytes_def field_bytes_def enc_str BEER_SCRAMBLE_SIZE_def)
  with sc that show ?thesis by blast
qed

lemma beer_auth_raw_guest_sends:
  assumes "is_guest user ulen"
  shows "sends M wv s (beer_auth_raw M sha1 base64 wv s user ulen pass plen salt) BEER_OP_AUTH (auth_fields M guest_name None)"
proof -
  define b where "b = mp_encode_map M 2 @ mp_encode_uint M (body_key BEER_USERNAME) @ mp_encode_strl M (word_of_nat 5)"
  define t where "t = mp_encode_uint M (body_key BEER_TUPLE) @ mp_encode_array M 0"
  have l: "length b \<le> 7" "length t \<le> 17"
    using strl_length [of "word_of_nat 5"]
    by (simp_all add: b_def t_def key_length small_map_length len_array del: body_key.simps)
  then have e: "emit 64 t b = Some (b @ t)" "emit 64 b [] = Some b" by (simp_all add: emit_def)
  have "beer_auth_raw M sha1 base64 wv s user ulen pass plen salt
      = Option.bind (emit 64 b []) (\<lambda>b. Option.bind (emit 64 t b) (\<lambda>d.
          send_package M wv (snd (next_reqid s)) [header_bytes M (op_code BEER_OP_AUTH) (s_reqid s), b, guest_name, drop (length b) d]))"
    unfolding b_def t_def using assms
    by (simp add: beer_auth_raw_def encode_header_bytes Let_def case_prod_unfold slice_def guest_name_def
        emit_emit_bind [symmetric] emit_emit [symmetric] del: body_key.simps op_code.simps)
  then have "beer_auth_raw M sha1 base64 wv s user ulen pass plen salt
      = send_package M wv (snd (next_reqid s)) [header_bytes M (op_code BEER_OP_AUTH) (s_reqid s), b, guest_name, t]"
    by (simp add: e)
  then show ?thesis
    by (auto simp: sends_def b_def t_def auth_fields_def body_bytes_def field_bytes_def enc_str guest_name_def)
qed

lemma auth_field_objs:
  assumes "length user < 4294967296" "\<And>sc. scramble = Some sc \<Longrightarrow> length sc < 4294967296"
  shows "\<forall>f \<in> set (auth_fields M user scramble). mp_obj M (snd f)"
proof -
  have str: "mp_obj M (mp_encode_str M x)" if "length x < 4294967296" for x
    using that by (simp add: enc_str mp_obj_str unat_of_nat take_bit_nat_eq_self_iff)
  have "mp_obj M (mp_encode_array M 2 @ mp_encode_str M chap_sha1 @ mp_encode_str M sc)" if "length sc < 4294967296" for sc
    using mp_obj_array [of 2 "[mp_encode_str M chap_sha1, mp_encode_str M sc]"] str that by (simp add: chap_sha1_def)
  moreover have "mp_obj M (mp_encode_array M 0)" using mp_obj_array [of 0 "[]"] by simp
  ultimately show ?thesis using assms str by (auto simp: auth_fields_def split: option.splits)
qed

end

end
