(* ===== verification/Tp_Auth.thy ===== *)
theory Tp_Auth
  imports Tp_Frames Beer_Auth Reply_Reader
begin

text \<open>
  Authentication in \<open>include/tp.h\<close>.  The scramble is that of \<open>Beer_Auth\<close>.  The size that both functions
  compute leaves out the map, the keys and the user name: what is shown is that the package they finish ends inside
  its body.
\<close>

unbundle bit_operations_syntax

section \<open>The functions\<close>

definition SCRAMBLE_SIZE :: nat where "SCRAMBLE_SIZE = 20"

fun tpi_xor :: "nat \<Rightarrow> bytes \<Rightarrow> bytes \<Rightarrow> bytes option" where
  "tpi_xor 0 ls rs = Some []"
| "tpi_xor (Suc n) (l # ls) (r # rs) = map_option ((#) (l XOR r)) (tpi_xor n ls rs)"
| "tpi_xor (Suc n) _ _ = None"

definition tpi_scramble_prepare :: "(bytes \<Rightarrow> bytes) \<Rightarrow> bytes \<Rightarrow> bytes \<Rightarrow> bytes option" where
  "tpi_scramble_prepare sha1 salt password = do {
     let hash1 = sha1 password;
     let hash2 = sha1 hash1;
     salt \<leftarrow> slice 0 SCRAMBLE_SIZE salt;
     let out = sha1 (salt @ hash2);
     tpi_xor SCRAMBLE_SIZE hash1 out }"

definition tp_auth :: "msgpuck \<Rightarrow> (bytes \<Rightarrow> bytes) \<Rightarrow> (bytes \<Rightarrow> bytes) \<Rightarrow> tp \<Rightarrow> bytes \<Rightarrow> bytes \<Rightarrow> nat \<Rightarrow> bytes \<Rightarrow> nat \<Rightarrow> tp_result" where
  "tp_auth M sha1 base64 p salt_base64 user ulen pass plen = do {
     let hsz = tpi_sizeof_header M (tp_code TP_AUTH);
     sz \<leftarrow> as_int (mp_sizeof_array M 2 + mp_sizeof_str M 0 + mp_sizeof_str M (word_of_nat SCRAMBLE_SIZE));
     let (rc, p) = tp_ensure p (sz + hsz);
     if rc = -1 then Some (None, p)
     else do {
       (p, h) \<leftarrow> tpi_encode_header M p (tp_code TP_AUTH);
       c \<leftarrow> put (mp_encode_map M 2) (tp_mem p, h);
       c \<leftarrow> put (mp_encode_uint M (tp_key_code TP_USERNAME)) c;
       name \<leftarrow> slice 0 ulen user;
       c \<leftarrow> put (mp_encode_str M name) c;
       c \<leftarrow> put (mp_encode_uint M (tp_key_code TP_TUPLE)) c;
       c \<leftarrow> put (mp_encode_array M 2) c;
       c \<leftarrow> put (mp_encode_str M chap_sha1) c;
       src \<leftarrow> slice 0 44 salt_base64;
       pw \<leftarrow> slice 0 plen pass;
       scramble \<leftarrow> tpi_scramble_prepare sha1 (base64 src) pw;
       c \<leftarrow> put (mp_encode_str M scramble) c;
       tp_finish p c (sz + hsz) } }"

definition tp_deauth :: "msgpuck \<Rightarrow> tp \<Rightarrow> tp_result" where
  "tp_deauth M p = do {
     let hsz = tpi_sizeof_header M (tp_code TP_AUTH);
     sz \<leftarrow> as_int (mp_sizeof_array M 0);
     let (rc, p) = tp_ensure p (sz + hsz);
     if rc = -1 then Some (None, p)
     else do {
       let p = p\<lparr>tp_szp := Some (tp_p p)\<rparr>;
       (p, h) \<leftarrow> tpi_encode_header M p (tp_code TP_AUTH);
       c \<leftarrow> put (mp_encode_map M 2) (tp_mem p, h);
       c \<leftarrow> put (mp_encode_uint M (tp_key_code TP_USERNAME)) c;
       c \<leftarrow> put (mp_encode_str M guest_name) c;
       c \<leftarrow> put (mp_encode_uint M (tp_key_code TP_TUPLE)) c;
       c \<leftarrow> put (mp_encode_array M 0) c;
       tp_finish p c (sz + hsz) } }"

section \<open>The scramble is the same\<close>

lemma tpi_xor_eq: "tpi_xor n ls rs = beer_xor n ls rs"
  by (induction n ls rs rule: tpi_xor.induct) auto

lemma tpi_scramble_eq: "tpi_scramble_prepare = beer_scramble_prepare"
  by (intro ext) (simp add: tpi_scramble_prepare_def beer_scramble_prepare_def SCRAMBLE_SIZE_def BEER_SCRAMBLE_SIZE_def tpi_xor_eq)

section \<open>A package that is finished too early\<close>

text \<open>Header and body are stored behind the gap for the length, then the package is closed after \<open>k\<close> bytes of the body.\<close>

lemma finish_early:
  assumes "tp_p p \<le> tp_size p" "tp_p p + 5 + length (hdr @ body) \<le> length (tp_mem p)" "k \<le> length body" "length (hdr @ body) < 4294967296"
    "put (hdr @ body) (tp_mem p, tp_p p + 5) = Some c"
  shows "\<exists>q. tp_add (p\<lparr>tp_szp := Some (tp_p p), tp_sync := sync, tp_mem := fst c\<rparr>) (5 + length hdr + k) = Some (Some (tp_p p), q) \<and>
    tp_buf q = tp_buf p @ package (hdr @ take k body) \<and> take (length body - k) (drop (tp_p q) (tp_mem q)) = drop k body"
proof -
  let ?p = "p\<lparr>tp_szp := Some (tp_p p), tp_sync := sync, tp_mem := fst c\<rparr>"
  define gap where "gap = take 5 (drop (tp_p p) (tp_mem p))"
  have gap: "length gap = 5" "take (tp_p p + 5) (tp_mem p) = tp_buf p @ gap"
    using assms(2) by (simp_all add: gap_def tp_buf_def take_add)
  have lb: "length (tp_buf p) = tp_p p" using assms(1) by (rule tp_buf_length)
  have c: "fst c = tp_buf p @ gap @ hdr @ body @ drop (tp_p p + 5 + length (hdr @ body)) (tp_mem p)"
    using assms(5) gap(2) by (simp add: put_eq_Some)
  have "take (tp_p ?p + (5 + length hdr + k)) (tp_mem ?p) = tp_buf p @ gap @ hdr @ take k body"
    using lb gap(1) assms(3) by (simp add: c)
  moreover have "tp_p ?p + (5 + length hdr + k) \<le> length (tp_mem ?p)"
    using lb gap(1) assms(3) by (simp add: c)
  moreover have "length (hdr @ take k body) < 4294967296" using assms(4) by simp
  moreover have "drop (tp_p ?p + (5 + length hdr + k)) (tp_mem ?p) = drop k body @ drop (tp_p p + 5 + length (hdr @ body)) (tp_mem p)"
    using lb gap(1) assms(3) by (simp add: c)
  ultimately show ?thesis
    using tp_add_block [of ?p "5 + length hdr + k" "tp_buf p" gap "hdr @ take k body"] gap(1) lb by auto
qed

context msgpuck_laws begin

lemma truncated_object: "mp_obj M x \<Longrightarrow> k < length x \<Longrightarrow> mp_check M (take k x) = None"
proof (rule ccontr)
  assume a: "mp_obj M x" "k < length x" "mp_check M (take k x) \<noteq> None"
  then obtain n where n: "mp_check M (take k x) = Some n" by auto
  from check_app [OF n, of "drop k x"] have "mp_check M x = Some n" by simp
  with a check_bound [OF n] show False by (simp add: mp_obj_def)
qed

lemma body_object:
  "length fs < 4294967296 \<Longrightarrow> \<forall>f \<in> set fs. mp_obj M (snd f) \<Longrightarrow> mp_obj M (body_bytes M fs)"
  using body_obj [of fs "[]"] by (simp add: mp_obj_def)

lemma auth_header: "length (tp_header M 7 0) = 9" "tpi_sizeof_header M 7 = 14"
  by (simp_all add: tpi_sizeof_header_eq tp_header_def lens)

text \<open>What both functions come to, when the buffer has room for all they write.\<close>

lemma early_package:
  assumes "tp_safe p" "14 + length body \<le> tp_unused p" "k < length body" "length body < 4294967000" "mp_obj M body"
  shows "\<exists>q. Option.bind (tpi_encode_header M p 7) (\<lambda>(p, h). Option.bind (put body (tp_mem p, h)) (\<lambda>c. tp_finish p c (k + 14)))
      = Some (Some (tp_p p), q) \<and> tp_buf q = tp_buf p @ tp_frame M 7 0 (take k body) \<and> mp_check M (take k body) = None \<and>
    take (length body - k) (drop (tp_p q) (tp_mem q)) = drop k body"
proof -
  let ?h = "tp_header M 7 0"
  have room: "tp_p p \<le> tp_size p" "tp_p p + 5 + length (?h @ body) \<le> length (tp_mem p)"
    using assms(1,2) by (auto simp: tp_safe_def tp_unused_def tp_size_def auth_header)
  then obtain c where c: "put (?h @ body) (tp_mem p, tp_p p + 5) = Some c" by (simp add: put_eq_Some)
  obtain d where d: "put ?h (tp_mem p, tp_p p + 5) = Some d" using room(2) by (simp add: put_eq_Some)
  have e: "put body d = Some c" using c d put_put [of ?h "(tp_mem p, tp_p p + 5)" body] by simp
  have "Option.bind (tpi_encode_header M p 7) (\<lambda>(p, h). Option.bind (put body (tp_mem p, h)) (\<lambda>c. tp_finish p c (k + 14)))
      = tp_add (p\<lparr>tp_szp := Some (tp_p p), tp_sync := Some (tp_p p + 9), tp_mem := fst c\<rparr>) (5 + length ?h + k)"
    using d e by (simp add: tpi_encode_header_put tp_finish_def auth_header add.commute)
  moreover obtain q where "tp_add (p\<lparr>tp_szp := Some (tp_p p), tp_sync := Some (tp_p p + 9), tp_mem := fst c\<rparr>) (5 + length ?h + k)
      = Some (Some (tp_p p), q)" "tp_buf q = tp_buf p @ package (?h @ take k body)"
    "take (length body - k) (drop (tp_p q) (tp_mem q)) = drop k body"
    using finish_early [OF room _ _ c, of k "Some (tp_p p + 9)"] assms(3,4) by (auto simp: auth_header)
  ultimately show ?thesis using truncated_object [OF assms(5,3)] by (simp add: tp_frame_def)
qed

text \<open>Without that room one of the stores falls behind the buffer.\<close>

lemma early_no_room:
  assumes "tp_safe p" "tp_unused p < 14 + length body"
  shows "Option.bind (tpi_encode_header M p 7) (\<lambda>(p, h). Option.bind (put body (tp_mem p, h)) (f p)) = None"
proof -
  let ?h = "tp_header M 7 0"
  have none: "put (?h @ body) (tp_mem p, tp_p p + 5) = None"
    using assms by (auto simp: tp_safe_def tp_unused_def tp_size_def auth_header put_eq_Some simp flip: not_Some_eq)
  then have "Option.bind (put ?h (tp_mem p, tp_p p + 5)) (put body) = None"
    by (cases "put ?h (tp_mem p, tp_p p + 5)") (use put_put [of ?h "(tp_mem p, tp_p p + 5)" body] in auto)
  then show ?thesis by (cases "put ?h (tp_mem p, tp_p p + 5)") (auto simp: tpi_encode_header_put)
qed

lemma auth_body:
  "mp_encode_map M 2 @ mp_encode_uint M 0x23 @ mp_encode_str M user @ mp_encode_uint M 0x21 @ mp_encode_array M 2 @
     mp_encode_str M chap_sha1 @ mp_encode_str M sc = body_bytes M (auth_fields M user (Some sc))"
  "mp_encode_map M 2 @ mp_encode_uint M 0x23 @ mp_encode_str M user @ mp_encode_uint M 0x21 @ mp_encode_array M 0
     = body_bytes M (auth_fields M user None)"
  by (simp_all add: auth_fields_def body_bytes_def field_bytes_def)

lemma tp_auth_early:
  assumes "\<And>x. length (sha1 x) = 20" "44 \<le> length salt" "20 \<le> length (base64 (take 44 salt))"
    "tp_safe p" "length user < 4294960000" "37 \<le> tp_unused p"
  shows "\<exists>sc body. length sc = 20 \<and> server_accepts sha1 (base64 (take 44 salt)) (sha1 (sha1 pass)) sc \<and>
    body = body_bytes M (auth_fields M user (Some sc)) \<and> mp_check M (take 23 body) = None \<and>
    length body = 35 + length (mp_encode_str M user) \<and>
    (if 14 + length body \<le> tp_unused p
     then \<exists>q. tp_auth M sha1 base64 p salt user (length user) pass (length pass) = Some (Some (tp_p p), q) \<and>
       tp_buf q = tp_buf p @ tp_frame M 7 0 (take 23 body) \<and> take (length body - 23) (drop (tp_p q) (tp_mem q)) = drop 23 body
     else tp_auth M sha1 base64 p salt user (length user) pass (length pass) = None)"
proof -
  obtain sc where sc: "beer_scramble_prepare sha1 (base64 (take 44 salt)) pass = Some sc" "length sc = 20"
    "server_accepts sha1 (base64 (take 44 salt)) (sha1 (sha1 pass)) sc"
    by (rule scramble_total [OF assms(1,3)])
  let ?b = "body_bytes M (auth_fields M user (Some sc))"
  have lb: "length ?b = 35 + length (mp_encode_str M user)" "length ?b \<le> 40 + length user"
    using str_hdr_size_bounds [of "unat (word_of_nat (length user) :: u32)"] sc(2)
    by (simp_all add: auth_fields_def body_bytes_def field_bytes_def enc_str lens chap_sha1_def str_hdr_size_def)
  have ob: "mp_obj M ?b"
    using body_object [of "auth_fields M user (Some sc)"] auth_field_objs [of user "Some sc"] assms(5) sc(2) by (simp add: auth_fields_def)
  have ens: "tp_ensure p 37 = (0, p)" using assms(6) by (intro tp_ensure_room) simp
  have sz: "mp_sizeof_array M 2 + mp_sizeof_str M 0 + mp_sizeof_str M 20 = 23"
    by (simp add: lens str_hdr_size_def)
  have e: "tp_auth M sha1 base64 p salt user (length user) pass (length pass)
      = Option.bind (tpi_encode_header M p 7) (\<lambda>(p, h). Option.bind (put ?b (tp_mem p, h)) (\<lambda>c. tp_finish p c 37))"
    using assms(2) sc(1)
    by (simp add: tp_auth_def sz as_int_def ens auth_header SCRAMBLE_SIZE_def slice_def tpi_scramble_eq put_simps
        auth_body [symmetric] case_prod_unfold)
  have "mp_check M (take 23 ?b) = None" using truncated_object [OF ob] lb(1) by simp
  moreover have "if 14 + length ?b \<le> tp_unused p
     then \<exists>q. tp_auth M sha1 base64 p salt user (length user) pass (length pass) = Some (Some (tp_p p), q) \<and>
       tp_buf q = tp_buf p @ tp_frame M 7 0 (take 23 ?b) \<and> take (length ?b - 23) (drop (tp_p q) (tp_mem q)) = drop 23 ?b
     else tp_auth M sha1 base64 p salt user (length user) pass (length pass) = None"
  proof (cases "14 + length ?b \<le> tp_unused p")
    case True
    from early_package [OF assms(4) True _ _ ob, of 23] lb assms(5) True show ?thesis unfolding e by auto
  next
    case False
    with early_no_room [OF assms(4), of ?b "\<lambda>p c. tp_finish p c 37"] show ?thesis unfolding e by simp
  qed
  ultimately show ?thesis using sc(2,3) lb(1) by blast
qed

lemma tp_deauth_early:
  assumes "tp_safe p" "15 \<le> tp_unused p"
  shows "\<exists>body. body = body_bytes M (auth_fields M guest_name None) \<and> length body = 10 \<and>
    take 1 body = mp_encode_map M 2 \<and> mp_check M (take 1 body) = None \<and>
    (if 14 + length body \<le> tp_unused p
     then \<exists>q. tp_deauth M p = Some (Some (tp_p p), q) \<and> tp_buf q = tp_buf p @ tp_frame M 7 0 (take 1 body) \<and>
       take (length body - 1) (drop (tp_p q) (tp_mem q)) = drop 1 body
     else tp_deauth M p = None)"
proof -
  let ?p = "p\<lparr>tp_szp := Some (tp_p p)\<rparr>" and ?b = "body_bytes M (auth_fields M guest_name None)"
  have lb: "length ?b = 10"
    by (simp add: auth_fields_def body_bytes_def field_bytes_def enc_str lens guest_name_def str_hdr_size_def)
  have sel: "tp_p ?p = tp_p p" "tp_buf ?p = tp_buf p" "tp_safe ?p" "tp_unused ?p = tp_unused p"
    using assms(1) by (simp_all add: tp_buf_def tp_safe_def tp_unused_def tp_size_def)
  have ob: "mp_obj M ?b"
    using body_object [of "auth_fields M guest_name None"] auth_field_objs [of guest_name None] by (simp add: auth_fields_def guest_name_def)
  have one: "take 1 ?b = mp_encode_map M 2"
    using len_map [of 2] by (simp add: auth_fields_def body_bytes_def)
  have ens: "tp_ensure p 15 = (0, p)" using assms(2) by (intro tp_ensure_room) simp
  have e: "tp_deauth M p
      = Option.bind (tpi_encode_header M ?p 7) (\<lambda>(p, h). Option.bind (put ?b (tp_mem p, h)) (\<lambda>c. tp_finish p c 15))"
    by (simp add: tp_deauth_def lens as_int_def ens auth_header put_simps auth_body [symmetric] case_prod_unfold)
  have chk: "mp_check M (take 1 ?b) = None" using truncated_object [OF ob] lb by simp
  have "if 14 + length ?b \<le> tp_unused p
     then \<exists>q. tp_deauth M p = Some (Some (tp_p p), q) \<and> tp_buf q = tp_buf p @ tp_frame M 7 0 (take 1 ?b) \<and>
       take (length ?b - 1) (drop (tp_p q) (tp_mem q)) = drop 1 ?b
     else tp_deauth M p = None"
  proof (cases "14 + length ?b \<le> tp_unused p")
    case True
    then have "14 + length ?b \<le> tp_unused ?p" unfolding sel(4) .
    from early_package [OF sel(3) this _ _ ob, of 1, unfolded sel(1,2)] lb True show ?thesis unfolding e by auto
  next
    case False
    then have "tp_unused ?p < 14 + length ?b" unfolding sel(4) by simp
    from early_no_room [OF sel(3) this, of "\<lambda>p c. tp_finish p c 15"] False show ?thesis unfolding e by simp
  qed
  with lb one chk show ?thesis by blast
qed

end

end
