(* ===== verification/Io_Transport.thy ===== *)
theory Io_Transport
  imports Beer_Io
begin

text \<open>
  What the network I/O relies on and what it promises.  The locale \<open>transport\<close> states the documented behaviour of a
  byte stream: a call sends a prefix of what it is given, or hands out the next bytes that arrive, or fails
  without effect, and it is not interrupted for ever.  On such a transport every operation of
  \<open>Beer_Io\<close> returns, what is sent and what waits in the send buffer are together the bytes written, in
  order, and a read returns the next bytes however they were cut on the way.
\<close>

section \<open>Transports\<close>

locale transport =
  fixes T :: "'w net_sys"
    and sent :: "'w \<Rightarrow> bytes"
    and incoming :: "'w \<Rightarrow> bytes"
    and patience :: "'w \<Rightarrow> nat"
  assumes send_law: "f \<in> {sys_send T, cb_send T} \<Longrightarrow> f bs w = ((r, e), w') \<Longrightarrow>
      r \<le> int (length bs) \<and> sent w' = sent w @ take (nat r) bs"
    and writev_law: "g \<in> {sys_writev T, cb_sendv T} \<Longrightarrow> g iov w = ((r, e), w') \<Longrightarrow>
      r \<le> int (length (concat iov)) \<and> sent w' = sent w @ take (nat r) (concat iov)"
    and recv_law: "h \<in> {sys_recv T, cb_recv T} \<Longrightarrow> h n w = ((r, e, bs), w') \<Longrightarrow>
      r \<le> int n \<and> length bs = nat r \<and> incoming w = bs @ incoming w' \<and> sent w' = sent w"
    and send_interrupted: "sys_send T bs w = ((-1, EINTR), w') \<Longrightarrow> patience w' < patience w"
    and writev_interrupted: "sys_writev T iov w = ((-1, EINTR), w') \<Longrightarrow> patience w' < patience w"
    and recv_interrupted: "sys_recv T n w = ((-1, EINTR, bs), w') \<Longrightarrow> patience w' < patience w"

text \<open>An interrupted call that is repeated returns in the end, with a result of the call in some world that differs
  only by interruptions.\<close>

lemma eintr_returns:
  fixes f :: "'w \<Rightarrow> (int \<times> int \<times> 'a) \<times> 'w"
  assumes "\<And>w w' x. f w = ((-1, EINTR, x), w') \<Longrightarrow> patience w' < (patience w :: nat) \<and> P w w'"
    and "\<And>w. P w w" "\<And>u v w. P u v \<Longrightarrow> P v w \<Longrightarrow> P u w"
  shows "\<exists>v r e x w'. P w v \<and> f v = ((r, e, x), w') \<and> eintr f w = Some ((r, e, x), w') \<and> \<not> (r = -1 \<and> e = EINTR)"
proof (induction "patience w" arbitrary: w rule: less_induct)
  case less
  obtain r e x w' where f: "f w = ((r, e, x), w')" by (metis prod.exhaust)
  show ?case
  proof (cases "r = -1 \<and> e = EINTR")
    case True
    with f assms(1) have "patience w' < patience w" "P w w'" by auto
    with less [of w'] obtain v q d y u where i: "P w' v" "f v = ((q, d, y), u)" "eintr f w' = Some ((q, d, y), u)" "\<not> (q = -1 \<and> d = EINTR)" by blast
    moreover have "eintr f w = eintr f w'" using True f by (simp add: eintr.simps [of f w])
    moreover have "P w v" by (rule assms(3) [OF \<open>P w w'\<close> i(1)])
    ultimately show ?thesis by (metis (no_types))
  next
    case False
    then have "eintr f w = Some ((r, e, x), w')" by (auto simp: f eintr.simps [of f w])
    with False f assms(2) show ?thesis by blast
  qed
qed

lemma no_data_eq: "no_data p = ((r, e, x), w) \<longleftrightarrow> p = ((r, e), w)"
  by (cases p) (auto simp: no_data_def)

text \<open>
  What makes a call fail for good: the transport, asked to move at least one byte, moves none and was not just
  interrupted.  \<open>declines\<close> is for sending; \<open>refuses inc\<close> for receiving when \<open>inc\<close> is still to arrive.
\<close>

definition declines :: "'w net_sys \<Rightarrow> bool" where
  "declines T \<longleftrightarrow> (\<exists>iov w r e w'. concat iov \<noteq> [] \<and> r \<le> 0 \<and>
     (cb_send T (concat iov) w = ((r, e), w') \<or> cb_sendv T iov w = ((r, e), w') \<or>
      \<not> (r = -1 \<and> e = EINTR) \<and> (sys_send T (concat iov) w = ((r, e), w') \<or> sys_writev T iov w = ((r, e), w'))))"

definition refuses :: "'w net_sys \<Rightarrow> ('w \<Rightarrow> bytes) \<Rightarrow> bytes \<Rightarrow> bool" where
  "refuses T incoming inc \<longleftrightarrow> (\<exists>n w r e bs w'. 0 < n \<and> incoming w = inc \<and> r \<le> 0 \<and>
     (cb_recv T n w = ((r, e, bs), w') \<or> \<not> (r = -1 \<and> e = EINTR) \<and> sys_recv T n w = ((r, e, bs), w')))"

text \<open>The excuses a write has for failing, when it has something to write.\<close>

definition write_excused :: "'w net_sys \<Rightarrow> iob \<Rightarrow> bytes \<Rightarrow> bool \<Rightarrow> int \<Rightarrow> bool" where
  "write_excused T b bs ne rv \<longleftrightarrow> (rv = -1 \<and> ne \<longrightarrow> declines T \<or> io_buf b \<noteq> Null \<and> io_size b < length bs)"

definition read_excused :: "'w net_sys \<Rightarrow> ('w \<Rightarrow> bytes) \<Rightarrow> bytes \<Rightarrow> nat \<Rightarrow> int \<Rightarrow> bool" where
  "read_excused T incoming inc n rv \<longleftrightarrow> (rv = -1 \<and> 0 < n \<longrightarrow> (\<exists>m < n. refuses T incoming (drop m inc)))"

lemma declinesI:
  assumes "concat iov \<noteq> []" "r \<le> 0"
  shows "cb_send T (concat iov) w = ((r, e), w') \<Longrightarrow> declines T" "cb_sendv T iov w = ((r, e), w') \<Longrightarrow> declines T"
    "\<not> (r = -1 \<and> e = EINTR) \<Longrightarrow> sys_send T (concat iov) w = ((r, e), w') \<Longrightarrow> declines T"
    "\<not> (r = -1 \<and> e = EINTR) \<Longrightarrow> sys_writev T iov w = ((r, e), w') \<Longrightarrow> declines T"
  using assms unfolding declines_def by blast+

text \<open>The buffers of a network stream.\<close>

definition net_inv :: "('w, 'x) stream_net \<Rightarrow> bool" where
  "net_inv s \<longleftrightarrow> iob_inv (sn_sbuf s) \<and> iob_inv (sn_rbuf s) \<and> io_off (sn_rbuf s) \<le> io_top (sn_rbuf s)"

definition io_unread :: "iob \<Rightarrow> bytes" where
  "io_unread b = (case io_buf b of Live mem \<Rightarrow> drop (io_off b) (take (io_top b) mem) | _ \<Rightarrow> [])"

definition net_out :: "('w \<Rightarrow> bytes) \<Rightarrow> ('w, 'x) stream_net \<Rightarrow> bytes" where
  "net_out sent s = sent (sn_world s) @ io_waiting (sn_sbuf s)"

definition net_in :: "('w \<Rightarrow> bytes) \<Rightarrow> ('w, 'x) stream_net \<Rightarrow> bytes" where
  "net_in incoming s = io_unread (sn_rbuf s) @ incoming (sn_world s)"

text \<open>
  What writing \<open>bs\<close> means.  A success adds exactly these bytes to what has been sent or waits; a failure leaves the
  buffer as it was, and may have sent a part of it.
\<close>

definition net_writes :: "('w \<Rightarrow> bytes) \<Rightarrow> ('w, 'x) stream_net \<Rightarrow> bytes \<Rightarrow> int \<Rightarrow> ('w, 'x) stream_net \<Rightarrow> bool" where
  "net_writes sent s bs rv s' \<longleftrightarrow> net_inv s' \<and> sn_rbuf s' = sn_rbuf s \<and>
     (rv = int (length bs) \<and> net_out sent s' = net_out sent s @ bs \<or>
      rv = -1 \<and> sn_sbuf s' = sn_sbuf s \<and> sn_error s' \<in> {BEER_ESYSTEM, BEER_EBIG} \<and>
        (\<exists>n. sent (sn_world s') = sent (sn_world s) @ take n (io_waiting (sn_sbuf s) @ bs)))"

text \<open>What reading \<open>n\<close> bytes means: the next \<open>n\<close> of those that arrive, or a failure.\<close>

definition net_reads :: "('w \<Rightarrow> bytes) \<Rightarrow> ('w, 'x) stream_net \<Rightarrow> nat \<Rightarrow> int \<Rightarrow> bytes \<Rightarrow> ('w, 'x) stream_net \<Rightarrow> bool" where
  "net_reads incoming s n rv bs s' \<longleftrightarrow>
     sn_sbuf s' = sn_sbuf s \<and> length bs \<le> n \<and> (rv = int n \<and> length bs = n \<and> net_inv s' \<and> net_in incoming s = bs @ net_in incoming s' \<or>
      rv = -1 \<and> sn_error s' = BEER_ESYSTEM)"

lemma io_waiting_length: "iob_inv b \<Longrightarrow> length (io_waiting b) = io_off b"
  by (auto simp: iob_inv_def io_waiting_def split: blk.splits)

lemma io_waiting_empty: "iob_inv b \<Longrightarrow> io_waiting b = [] \<longleftrightarrow> io_off b = 0"
  using io_waiting_length by fastforce

lemma io_waiting_reset: "io_waiting (b\<lparr>io_off := 0\<rparr>) = []"
  by (simp add: io_waiting_def split: blk.splits)

lemma iob_inv_reset: "iob_inv b \<Longrightarrow> iob_inv (b\<lparr>io_off := 0\<rparr>)"
  by (auto simp: iob_inv_def split: blk.splits)

lemma io_store_ok:
  assumes "iob_inv b" "io_buf b \<noteq> Null" "io_off b + length bs \<le> io_size b"
  shows "\<exists>b'. io_store b bs = Some b' \<and> iob_inv b' \<and> io_waiting b' = io_waiting b @ bs \<and> io_off b' = io_off b + length bs \<and>
    io_size b' = io_size b \<and> io_buf b' \<noteq> Null"
proof -
  obtain mem where m: "io_buf b = Live mem" "length mem = io_size b" "io_off b \<le> io_size b" "io_top b \<le> io_size b" "0 < io_size b"
    using assms(1,2) by (auto simp: iob_inv_def split: blk.splits)
  then show ?thesis using assms(3) by (auto simp: io_store_def poke_def iob_inv_def io_waiting_def)
qed

lemma beer_io_sendv_put_ok:
  assumes "iob_inv b" "io_buf b \<noteq> Null" "io_off b + length (concat iov) \<le> io_size b"
  shows "\<exists>b'. beer_io_sendv_put b iov = Some b' \<and> iob_inv b' \<and> io_waiting b' = io_waiting b @ concat iov"
  using assms
proof (induction iov arbitrary: b)
  case (Cons v vs)
  from io_store_ok [OF Cons.prems(1,2), of v] Cons.prems(3)
  obtain b' where b': "io_store b v = Some b'" "iob_inv b'" "io_waiting b' = io_waiting b @ v"
    "io_off b' = io_off b + length v" "io_size b' = io_size b" "io_buf b' \<noteq> Null" by auto
  with Cons.IH [of b'] Cons.prems(3) show ?case by auto
qed simp

context transport begin

lemmas sys_send_law = send_law [of "sys_send T", simplified] and cb_send_law = send_law [of "cb_send T", simplified]
lemmas sys_writev_law = writev_law [of "sys_writev T", simplified] and cb_sendv_law = writev_law [of "cb_sendv T", simplified]
lemmas sys_recv_law = recv_law [of "sys_recv T", simplified] and cb_recv_law = recv_law [of "cb_recv T", simplified]

section \<open>Sending\<close>

definition sends_some :: "bytes \<Rightarrow> bool \<Rightarrow> 'w \<Rightarrow> ((int \<times> int \<times> unit) \<times> 'w) option \<Rightarrow> bool" where
  "sends_some bs ne w r \<longleftrightarrow> (\<exists>k e w'. r = Some ((k, e, ()), w') \<and> k \<le> int (length bs) \<and> sent w' = sent w @ take (nat k) bs \<and>
     (k \<le> 0 \<and> ne \<longrightarrow> declines T))"

lemma io_tx_once_sends: "sends_some bs (bs \<noteq> []) w (io_tx_once T cb bs w)"
proof (cases cb)
  case True
  obtain k e w' where c: "cb_send T bs w = ((k, e), w')" by (metis prod.exhaust)
  with True cb_send_law [OF c] declinesI(1) [of "[bs]" k T w e w'] show ?thesis by (auto simp: sends_some_def io_tx_once_def no_data_def)
next
  case False
  have "\<exists>v r e x w'. sent v = sent w \<and> no_data (sys_send T bs v) = ((r, e, x), w') \<and>
      eintr (\<lambda>w. no_data (sys_send T bs w)) w = Some ((r, e, x), w') \<and> \<not> (r = -1 \<and> e = EINTR)"
  proof (rule eintr_returns [where patience = patience and P = "\<lambda>w v. sent v = sent w"])
    fix u v and x :: unit
    assume "no_data (sys_send T bs u) = ((-1, EINTR, x), v)"
    then have c: "sys_send T bs u = ((-1, EINTR), v)" by (simp add: no_data_eq)
    then show "patience v < patience u \<and> sent v = sent u" using sys_send_law [OF c] send_interrupted [OF c] by simp
  qed auto
  then obtain v k e w' where "sent v = sent w" "sys_send T bs v = ((k, e), w')"
    "eintr (\<lambda>w. no_data (sys_send T bs w)) w = Some ((k, e, ()), w')" "\<not> (k = -1 \<and> e = EINTR)"
    by (auto simp: no_data_eq)
  with False sys_send_law [of bs v k e w'] declinesI(3) [of "[bs]" k e T v w'] show ?thesis by (auto simp: sends_some_def io_tx_once_def)
qed

text \<open>The callback gets a part of the vector, which is not empty if the first entry is not.\<close>

lemma io_txv_once_sends: "sends_some (concat iov) (iov \<noteq> [] \<and> hd iov \<noteq> []) w (io_txv_once T cb iov w)"
proof (cases cb)
  case True
  let ?v = "take (min (length iov) IOV_MAX) iov"
  obtain k e w' where c: "cb_sendv T ?v w = ((k, e), w')" by (metis prod.exhaust)
  have "concat iov = concat ?v @ concat (drop (min (length iov) IOV_MAX) iov)"
    by (simp flip: concat_append)
  then have p: "\<exists>r. concat iov = concat ?v @ r" by blast
  have ne: "iov \<noteq> [] \<and> hd iov \<noteq> [] \<Longrightarrow> concat ?v \<noteq> []" by (cases iov) (simp_all add: IOV_MAX_def)
  have d: "k \<le> 0 \<and> iov \<noteq> [] \<and> hd iov \<noteq> [] \<Longrightarrow> declines T" using declinesI(2) [OF _ _ c] ne by blast
  have "k \<le> int (length (concat iov)) \<and> sent w' = sent w @ take (nat k) (concat iov)" using cb_sendv_law [OF c] p by fastforce
  with True c d show ?thesis by (simp add: sends_some_def io_txv_once_def no_data_def)
next
  case False
  have "\<exists>v r e x w'. sent v = sent w \<and> no_data (sys_writev T iov v) = ((r, e, x), w') \<and>
      eintr (\<lambda>w. no_data (sys_writev T iov w)) w = Some ((r, e, x), w') \<and> \<not> (r = -1 \<and> e = EINTR)"
  proof (rule eintr_returns [where patience = patience and P = "\<lambda>w v. sent v = sent w"])
    fix u v and x :: unit
    assume "no_data (sys_writev T iov u) = ((-1, EINTR, x), v)"
    then have c: "sys_writev T iov u = ((-1, EINTR), v)" by (simp add: no_data_eq)
    then show "patience v < patience u \<and> sent v = sent u" using sys_writev_law [OF c] writev_interrupted [OF c] by simp
  qed auto
  then obtain v k e w' where "sent v = sent w" "sys_writev T iov v = ((k, e), w')"
    "eintr (\<lambda>w. no_data (sys_writev T iov w)) w = Some ((k, e, ()), w')" "\<not> (k = -1 \<and> e = EINTR)"
    by (auto simp: no_data_eq)
  moreover from this have "k \<le> 0 \<and> iov \<noteq> [] \<and> hd iov \<noteq> [] \<Longrightarrow> declines T"
    using declinesI(4) [of iov k e T v w'] by (cases iov) auto
  ultimately show ?thesis using False sys_writev_law [of iov v k e w'] by (auto simp: sends_some_def io_txv_once_def)
qed

text \<open>A loop sends everything or fails after a part.\<close>

definition sends_all :: "bytes \<Rightarrow> bool \<Rightarrow> int \<Rightarrow> 'w \<Rightarrow> ((int \<times> int) \<times> 'w) option \<Rightarrow> bool" where
  "sends_all bs ne tot w r \<longleftrightarrow> (\<exists>k e w'. r = Some ((k, e), w') \<and>
     (k = -1 \<and> (ne \<longrightarrow> declines T) \<and> (\<exists>n \<le> length bs. sent w' = sent w @ take n bs) \<or> k = tot + int (length bs) \<and> sent w' = sent w @ bs))"

lemma sends_all_step:
  assumes "sent w' = sent w @ take n bs" "n \<le> length bs" "sends_all (drop n bs) ne' (tot + int n) w' r" "ne \<Longrightarrow> ne'"
  shows "sends_all bs ne tot w r"
proof -
  have "\<exists>m \<le> length bs. sent u = sent w @ take m bs" if "sent u = sent w' @ take k (drop n bs)" "k \<le> length bs - n" for u k
    using assms(1,2) that by (intro exI [of _ "n + k"]) (simp add: take_add)
  with assms show ?thesis by (fastforce simp: sends_all_def)
qed

lemma sends_all_fails: "sent w' = sent w \<Longrightarrow> (ne \<Longrightarrow> declines T) \<Longrightarrow> sends_all bs ne tot w (Some ((-1, e), w'))"
  by (auto simp: sends_all_def intro: exI [of _ "0::nat"])

lemma send_loop_sends: "sends_all bs (bs \<noteq> []) (int off) w (send_loop T cb bs True off w)"
proof (induction "length bs" arbitrary: bs off w rule: less_induct)
  case less
  obtain k e w' where c: "io_tx_once T cb bs w = Some ((k, e, ()), w')" "k \<le> int (length bs)"
    "sent w' = sent w @ take (nat k) bs" "k \<le> 0 \<and> bs \<noteq> [] \<longrightarrow> declines T"
    using io_tx_once_sends [of bs w cb] by (auto simp: sends_some_def)
  consider "k \<le> 0" | "0 < k" "nat k \<noteq> length bs" | "0 < k" "nat k = length bs" by linarith
  then show ?case
  proof cases
    case 1
    with c show ?thesis by (simp add: send_loop.simps [of T cb bs True off w] sends_all_fails)
  next
    case 2
    then have "send_loop T cb bs True off w = send_loop T cb (drop (nat k) bs) True (off + nat k) w'"
      using c(1,2) by (auto simp: send_loop.simps [of T cb bs True off w])
    moreover have "nat k < length bs" using 2 c(2) by linarith
    moreover from this have "sends_all (drop (nat k) bs) True (int off + int (nat k)) w' (send_loop T cb (drop (nat k) bs) True (off + nat k) w')"
      using less [of "drop (nat k) bs" "off + nat k" w'] 2(1) by simp
    ultimately show ?thesis using sends_all_step [OF c(3), of True] by simp
  next
    case 3
    with c show ?thesis by (simp add: send_loop.simps [of T cb bs True off w]) (simp add: sends_all_def)
  qed
qed

lemma iov_advance_hd: "iov_advance r iov \<noteq> [] \<Longrightarrow> hd (iov_advance r iov) \<noteq> []"
  by (induction r iov rule: iov_advance.induct) auto

lemma sendv_loop_sends: "sends_all (concat iov) (iov = [] \<or> hd iov \<noteq> []) tot w (sendv_loop T cb iov True tot w)"
proof (induction "length (concat iov) + length iov" arbitrary: iov tot w rule: less_induct)
  case less
  show ?case
  proof (cases "iov = []")
    case True
    then show ?thesis by (simp add: sendv_loop.simps [of T cb "[]"] sends_all_def)
  next
    case False
    obtain k e w' where c: "io_txv_once T cb iov w = Some ((k, e, ()), w')" "k \<le> int (length (concat iov))"
      "sent w' = sent w @ take (nat k) (concat iov)" "k \<le> 0 \<and> iov \<noteq> [] \<and> hd iov \<noteq> [] \<longrightarrow> declines T"
      using io_txv_once_sends [of iov w cb] by (auto simp: sends_some_def)
    show ?thesis
    proof (cases "k \<le> 0")
      case True
      with c False show ?thesis by (simp add: sendv_loop.simps [of T cb iov] sends_all_fails)
    next
      case k: False
      have "sendv_loop T cb iov True tot w = sendv_loop T cb (iov_advance (nat k) iov) True (tot + int (nat k)) w'"
        using k False c(1) by (simp add: sendv_loop.simps [of T cb iov])
      moreover have "concat (iov_advance (nat k) iov) = drop (nat k) (concat iov)"
        using c(2) by (intro iov_advance_concat) simp
      moreover have "sends_all (drop (nat k) (concat iov)) True (tot + int (nat k)) w'
          (sendv_loop T cb (iov_advance (nat k) iov) True (tot + int (nat k)) w')"
        using less [OF iov_advance_size [of "nat k" iov], of "tot + int (nat k)" w'] k False calculation(2) iov_advance_hd [of "nat k" iov]
        by (cases "iov_advance (nat k) iov = []") simp_all
      ultimately show ?thesis using sends_all_step [OF c(3), of True] c(2) by simp
    qed
  qed
qed

text \<open>A raw send changes the world, and the error when it fails.\<close>

definition raw_sent :: "('w, 'x) stream_net \<Rightarrow> bytes \<Rightarrow> int \<Rightarrow> ('w, 'x) stream_net \<Rightarrow> bool" where
  "raw_sent s bs rv s' \<longleftrightarrow> sn_sbuf s' = sn_sbuf s \<and> sn_rbuf s' = sn_rbuf s \<and>
     (rv = -1 \<and> sn_error s' = BEER_ESYSTEM \<and> (\<exists>n \<le> length bs. sent (sn_world s') = sent (sn_world s) @ take n bs) \<or>
      rv = int (length bs) \<and> sent (sn_world s') = sent (sn_world s) @ bs)"

lemma beer_io_send_raw_sends: "\<exists>rv s'. beer_io_send_raw T s bs True = Some (rv, s') \<and> raw_sent s bs rv s' \<and>
    (rv = -1 \<and> bs \<noteq> [] \<longrightarrow> declines T)"
  using send_loop_sends [of bs 0 "sn_world s" "io_tx (sn_sbuf s)"]
  by (auto simp: sends_all_def raw_sent_def beer_io_send_raw_def Let_def)

lemma beer_io_sendv_raw_sends: "\<exists>rv s'. beer_io_sendv_raw T s iov True = Some (rv, s') \<and> raw_sent s (concat iov) rv s' \<and>
    (rv = -1 \<and> (iov = [] \<or> hd iov \<noteq> []) \<longrightarrow> declines T)"
  using sendv_loop_sends [of iov 0 "sn_world s" "io_txv (sn_sbuf s)"]
  by (auto simp: sends_all_def raw_sent_def beer_io_sendv_raw_def Let_def)

lemma raw_sent_unbuffered:
  assumes "raw_sent s bs rv s'" "net_inv s" "io_buf (sn_sbuf s) = Null"
  shows "net_writes sent s bs rv s'"
  using assms by (auto simp: raw_sent_def net_writes_def net_inv_def net_out_def io_waiting_def)

lemma raw_sent_waiting_fails:
  assumes "raw_sent s (io_waiting (sn_sbuf s)) (-1) s'" "net_inv s"
  shows "net_writes sent s bs (-1) s'"
  using assms unfolding raw_sent_def net_writes_def net_inv_def by (fastforce simp: take_append)

lemma flush_sends:
  assumes "net_inv s"
  shows "\<exists>rv s'. beer_io_flush T s = Some (rv, s') \<and> net_inv s' \<and> sn_rbuf s' = sn_rbuf s \<and>
    (rv = -1 \<and> sn_sbuf s' = sn_sbuf s \<and> sn_error s' = BEER_ESYSTEM \<and> declines T \<or>
     0 \<le> rv \<and> io_waiting (sn_sbuf s') = [] \<and> sent (sn_world s') = net_out sent s)"
proof (cases "io_off (sn_sbuf s) = 0")
  case True
  with assms show ?thesis
    by (simp add: beer_io_flush_def net_out_def io_waiting_def net_inv_def split: blk.splits)
next
  case False
  obtain rv s' where "beer_io_send_raw T s (io_waiting (sn_sbuf s)) True = Some (rv, s')" "raw_sent s (io_waiting (sn_sbuf s)) rv s'"
    "rv = -1 \<and> io_waiting (sn_sbuf s) \<noteq> [] \<longrightarrow> declines T"
    using beer_io_send_raw_sends by blast
  moreover have "io_waiting (sn_sbuf s) \<noteq> []" using False assms by (simp add: net_inv_def io_waiting_empty)
  ultimately show ?thesis using False assms
    by (auto simp: beer_io_flush_def raw_sent_def net_inv_def net_out_def iob_inv_reset io_waiting_reset)
qed

text \<open>A store into the buffer, behind what waits or, after that has been sent, from the start.\<close>

lemma stored_writes:
  assumes "net_inv s" "sn_rbuf s' = sn_rbuf s" "iob_inv b" "io_waiting b = io_waiting b0 @ bs"
    and "sent (sn_world s') @ io_waiting b0 = net_out sent s"
  shows "net_writes sent s bs (int (length bs)) (s'\<lparr>sn_sbuf := b\<rparr>)"
  using assms by (simp add: net_writes_def net_inv_def net_out_def flip: append_assoc)

text \<open>The buffered part of \<open>beer_io_send\<close> and \<open>beer_io_sendv\<close>, for any way to put \<open>bs\<close> into the buffer.\<close>

lemma buffered_writes:
  assumes inv: "net_inv s" and buf: "io_buf (sn_sbuf s) \<noteq> Null"
    and fill: "\<And>b. iob_inv b \<Longrightarrow> io_buf b \<noteq> Null \<Longrightarrow> io_off b + length bs \<le> io_size b \<Longrightarrow>
      \<exists>b'. fill b = Some b' \<and> iob_inv b' \<and> io_waiting b' = io_waiting b @ bs"
  shows "\<exists>rv s'. (if io_size (sn_sbuf s) < length bs then Some (-1, s\<lparr>sn_error := BEER_EBIG\<rparr>)
      else if io_off (sn_sbuf s) + length bs \<le> io_size (sn_sbuf s) then do {
        b \<leftarrow> fill (sn_sbuf s);
        Some (int (length bs), s\<lparr>sn_sbuf := b\<rparr>) }
      else do {
        (r, s) \<leftarrow> beer_io_send_raw T s (io_waiting (sn_sbuf s)) True;
        if r = -1 then Some (-1, s)
        else do {
          b \<leftarrow> fill ((sn_sbuf s)\<lparr>io_off := 0\<rparr>);
          Some (int (length bs), s\<lparr>sn_sbuf := b\<rparr>) } }) = Some (rv, s') \<and> net_writes sent s bs rv s' \<and>
      write_excused T (sn_sbuf s) bs ne rv"
    (is "\<exists>rv s'. ?body = _ \<and> _")
proof -
  let ?b = "sn_sbuf s"
  have b: "iob_inv ?b" using inv by (simp add: net_inv_def)
  consider "io_size ?b < length bs" | "io_off ?b + length bs \<le> io_size ?b"
    | "\<not> io_size ?b < length bs" "\<not> io_off ?b + length bs \<le> io_size ?b" by linarith
  then show ?thesis
  proof cases
    case 1
    with inv buf show ?thesis by (auto simp: net_writes_def net_inv_def write_excused_def intro: exI [of _ "0::nat"])
  next
    case 2
    from fill [OF b buf 2] obtain b' where "fill ?b = Some b'" "iob_inv b'" "io_waiting b' = io_waiting ?b @ bs" by blast
    with 2 stored_writes [OF inv, of s b' ?b bs] show ?thesis by (simp add: net_out_def write_excused_def)
  next
    case 3
    obtain rv s' where raw: "beer_io_send_raw T s (io_waiting ?b) True = Some (rv, s')" "raw_sent s (io_waiting ?b) rv s'"
      "rv = -1 \<and> io_waiting ?b \<noteq> [] \<longrightarrow> declines T"
      using beer_io_send_raw_sends by blast
    then have same: "sn_sbuf s' = ?b" "sn_rbuf s' = sn_rbuf s" by (simp_all add: raw_sent_def)
    obtain b' where b': "fill (?b\<lparr>io_off := 0\<rparr>) = Some b'" "iob_inv b'" "io_waiting b' = io_waiting (?b\<lparr>io_off := 0\<rparr>) @ bs"
      using fill [OF iob_inv_reset [OF b]] buf 3 by auto
    have "io_waiting ?b \<noteq> []" using 3 b by (simp add: io_waiting_empty)
    show ?thesis
    proof (cases "rv = -1")
      case True
      with 3 raw raw_sent_waiting_fails [OF _ inv, of s' bs] \<open>io_waiting ?b \<noteq> []\<close> show ?thesis by (simp add: write_excused_def)
    next
      case False
      then have "sent (sn_world s') = net_out sent s" using raw(2) by (simp add: raw_sent_def net_out_def)
      with False 3 raw(1) b' same stored_writes [OF inv same(2) b'(2,3)] show ?thesis by (simp add: io_waiting_reset write_excused_def)
    qed
  qed
qed

lemma send_writes:
  assumes "net_inv s"
  shows "\<exists>rv s'. beer_io_send T s bs = Some (rv, s') \<and> net_writes sent s bs rv s' \<and> write_excused T (sn_sbuf s) bs (bs \<noteq> []) rv"
proof (cases "io_buf (sn_sbuf s) = Null")
  case True
  with assms beer_io_send_raw_sends [of s bs] raw_sent_unbuffered show ?thesis by (simp add: beer_io_send_def write_excused_def) blast
next
  case False
  have "\<exists>b'. io_store b bs = Some b' \<and> iob_inv b' \<and> io_waiting b' = io_waiting b @ bs"
    if "iob_inv b" "io_buf b \<noteq> Null" "io_off b + length bs \<le> io_size b" for b
    using io_store_ok [OF that] by blast
  from buffered_writes [OF assms False this] False show ?thesis by (simp add: beer_io_send_def)
qed

lemma sendv_writes:
  assumes "net_inv s"
  shows "\<exists>rv s'. beer_io_sendv T s iov = Some (rv, s') \<and> net_writes sent s (concat iov) rv s' \<and>
    write_excused T (sn_sbuf s) (concat iov) (iov = [] \<or> hd iov \<noteq> []) rv"
proof (cases "io_buf (sn_sbuf s) = Null")
  case True
  with assms beer_io_sendv_raw_sends [of s iov] raw_sent_unbuffered show ?thesis by (simp add: beer_io_sendv_def write_excused_def) blast
next
  case False
  from buffered_writes [OF assms False beer_io_sendv_put_ok, of iov] False show ?thesis
    unfolding beer_io_sendv_def Let_def length_concat by simp
qed

section \<open>Receiving\<close>

lemma io_rx_once_recvs:
  "\<exists>k e bs w'. io_rx_once T cb n w = Some ((k, e, bs), w') \<and> k \<le> int n \<and> length bs = nat k \<and>
    incoming w = bs @ incoming w' \<and> sent w' = sent w \<and> (k \<le> 0 \<and> 0 < n \<longrightarrow> refuses T incoming (incoming w))"
proof (cases cb)
  case True
  obtain k e bs w' where c: "cb_recv T n w = ((k, e, bs), w')" by (metis prod.exhaust)
  moreover from this have "k \<le> 0 \<and> 0 < n \<longrightarrow> refuses T incoming (incoming w)" unfolding refuses_def by blast
  ultimately show ?thesis using True cb_recv_law [OF c] by (auto simp: io_rx_once_def)
next
  case False
  have "\<exists>v r e x w'. (incoming v = incoming w \<and> sent v = sent w) \<and> sys_recv T n v = ((r, e, x), w') \<and>
      eintr (sys_recv T n) w = Some ((r, e, x), w') \<and> \<not> (r = -1 \<and> e = EINTR)"
  proof (rule eintr_returns [where patience = patience and P = "\<lambda>w v. incoming v = incoming w \<and> sent v = sent w"])
    fix u v x
    assume c: "sys_recv T n u = ((-1, EINTR, x), v)"
    then show "patience v < patience u \<and> incoming v = incoming u \<and> sent v = sent u"
      using sys_recv_law [OF c] recv_interrupted [OF c] by simp
  qed auto
  then obtain v k e bs w' where v: "incoming v = incoming w" "sent v = sent w" "sys_recv T n v = ((k, e, bs), w')"
    "eintr (sys_recv T n) w = Some ((k, e, bs), w')" "\<not> (k = -1 \<and> e = EINTR)" by auto
  then have "k \<le> 0 \<and> 0 < n \<longrightarrow> refuses T incoming (incoming w)" unfolding refuses_def by blast
  with v False sys_recv_law [of n v k e bs w'] show ?thesis by (auto simp: io_rx_once_def)
qed

text \<open>Everything that is asked for, or a failure; without \<open>all\<close> at least one byte.\<close>

lemma recv_loop_recvs:
  "\<exists>k e bs w'. recv_loop T cb n all acc w = Some ((k, e, acc @ bs), w') \<and> sent w' = sent w \<and>
    incoming w = bs @ incoming w' \<and> length bs \<le> n \<and>
    (k = -1 \<and> (0 < n \<longrightarrow> (\<exists>m < n. refuses T incoming (drop m (incoming w)) \<and> (all \<or> m = 0))) \<or>
     k = int (length (acc @ bs)) \<and> bs \<noteq> [] \<and> (all \<longrightarrow> length bs = n))"
proof (induction n arbitrary: acc w rule: less_induct)
  case (less n)
  obtain k e bs w' where c: "io_rx_once T cb n w = Some ((k, e, bs), w')" "k \<le> int n" "length bs = nat k"
    "incoming w = bs @ incoming w'" "sent w' = sent w" "k \<le> 0 \<and> 0 < n \<longrightarrow> refuses T incoming (incoming w)"
    using io_rx_once_recvs by blast
  consider "k \<le> 0" | "0 < k" "nat k \<noteq> n" "all" | "0 < k" "nat k = n \<or> \<not> all" by linarith
  then show ?case
  proof cases
    case 1
    with c show ?thesis by (auto simp: recv_loop.simps [of T cb n all acc w] intro: exI [of _ "0::nat"])
  next
    case 2
    have lt: "n - nat k < n" using 2 c(2) by linarith
    from 2 have "recv_loop T cb n all acc w = recv_loop T cb (n - nat k) all (acc @ bs) w'"
      using c(1-3) unfolding recv_loop.simps [of T cb n all acc w] by auto
    moreover obtain j e' bs' u where r: "recv_loop T cb (n - nat k) all (acc @ bs) w' = Some ((j, e', (acc @ bs) @ bs'), u)" "sent u = sent w'"
      "incoming w' = bs' @ incoming u" "length bs' \<le> n - nat k"
      "j = -1 \<and> (0 < n - nat k \<longrightarrow> (\<exists>m < n - nat k. refuses T incoming (drop m (incoming w')) \<and> (all \<or> m = 0))) \<or>
       j = int (length ((acc @ bs) @ bs')) \<and> bs' \<noteq> [] \<and> (all \<longrightarrow> length bs' = n - nat k)"
      using less [OF lt, of "acc @ bs" w'] by (elim exE conjE) (rule that)
    moreover have "\<exists>m < n. refuses T incoming (drop m (incoming w)) \<and> (all \<or> m = 0)"
      if "m < n - nat k" "refuses T incoming (drop m (incoming w'))" for m
      using that c(3,4) 2 by (intro exI [of _ "nat k + m"]) (simp add: less_diff_conv2 add.commute)
    ultimately show ?thesis using 2 c(2-5) by (cases "j = -1") fastforce+
  next
    case 3
    with c show ?thesis by (auto simp: recv_loop.simps [of T cb n all acc w])
  qed
qed

lemma beer_io_recv_raw_reads:
  assumes "net_inv s" "io_buf (sn_rbuf s) = Null"
  shows "\<exists>rv bs s'. beer_io_recv_raw T s n True = Some (rv, bs, s') \<and> sent (sn_world s') = sent (sn_world s) \<and> net_reads incoming s n rv bs s' \<and>
    read_excused T incoming (net_in incoming s) n rv"
proof -
  obtain k e bs w' where "recv_loop T (io_tx (sn_rbuf s)) n True [] (sn_world s) = Some ((k, e, bs), w')" "sent w' = sent (sn_world s)"
    "incoming (sn_world s) = bs @ incoming w'" "length bs \<le> n"
    "k = -1 \<and> read_excused T incoming (incoming (sn_world s)) n (-1) \<or> k = int (length bs) \<and> bs \<noteq> [] \<and> length bs = n"
    using recv_loop_recvs [of "io_tx (sn_rbuf s)" n True "[]" "sn_world s"] unfolding read_excused_def by auto blast+
  moreover have "net_in incoming s = incoming (sn_world s)" using assms(2) by (simp add: net_in_def io_unread_def)
  moreover have "read_excused T incoming i n (int m)" for i m by (simp add: read_excused_def)
  ultimately show ?thesis using assms
    by (auto simp: beer_io_recv_raw_def net_reads_def net_inv_def net_in_def io_unread_def Let_def)
qed

text \<open>One refill of the receive buffer.\<close>

lemma refill_reads:
  "\<exists>r got s'. beer_io_recv_raw T s n False = Some (r, got, s') \<and> sn_rbuf s' = sn_rbuf s \<and> sn_sbuf s' = sn_sbuf s \<and>
    sent (sn_world s') = sent (sn_world s) \<and> length got \<le> n \<and> incoming (sn_world s) = got @ incoming (sn_world s') \<and>
    (r = -1 \<and> (0 < n \<longrightarrow> refuses T incoming (incoming (sn_world s))) \<or> r = int (length got) \<and> got \<noteq> [])"
proof -
  obtain k e bs w' where "recv_loop T (io_tx (sn_rbuf s)) n False [] (sn_world s) = Some ((k, e, bs), w')" "sent w' = sent (sn_world s)"
    "incoming (sn_world s) = bs @ incoming w'" "length bs \<le> n"
    "k = -1 \<and> (0 < n \<longrightarrow> refuses T incoming (incoming (sn_world s))) \<or> k = int (length bs) \<and> bs \<noteq> []"
    using recv_loop_recvs [of "io_tx (sn_rbuf s)" n False "[]" "sn_world s"] by fastforce
  then show ?thesis by (cases "k = -1") (auto simp: beer_io_recv_raw_def Let_def)
qed

lemma io_take_unread:
  assumes "iob_inv b" "io_buf b \<noteq> Null" "io_off b + n \<le> io_top b"
  shows "io_take b n = Some (take n (io_unread b))" "io_unread (b\<lparr>io_off := io_off b + n\<rparr>) = drop n (io_unread b)"
    "length (io_unread b) = io_top b - io_off b" "iob_inv (b\<lparr>io_off := io_off b + n\<rparr>)"
proof -
  obtain mem where m: "io_buf b = Live mem" "length mem = io_size b" "io_top b \<le> io_size b" "0 < io_size b"
    using assms(1,2) by (auto simp: iob_inv_def split: blk.splits)
  then have "io_off b + n \<le> length mem" using assms(3) by simp
  then show "io_take b n = Some (take n (io_unread b))"
    using m(1) assms(3) by (simp add: io_take_def io_unread_def slice_def drop_take min_def)
  show "io_unread (b\<lparr>io_off := io_off b + n\<rparr>) = drop n (io_unread b)"
    using m(1) by (simp add: io_unread_def add.commute)
  show "length (io_unread b) = io_top b - io_off b" "iob_inv (b\<lparr>io_off := io_off b + n\<rparr>)"
    using m assms(1,3) by (simp_all add: io_unread_def iob_inv_def)
qed

definition buffered_reads :: "('w, 'x) stream_net \<Rightarrow> nat \<Rightarrow> bytes \<Rightarrow> (int \<times> bytes \<times> ('w, 'x) stream_net) option \<Rightarrow> bool" where
  "buffered_reads s lv acc r \<longleftrightarrow> (\<exists>rv bs s'. r = Some (rv, acc @ bs, s') \<and> length bs \<le> lv \<and> sn_sbuf s' = sn_sbuf s \<and> sent (sn_world s') = sent (sn_world s) \<and>
     (rv = -1 \<and> sn_error s' = BEER_ESYSTEM \<and> (\<exists>m < lv. refuses T incoming (drop m (net_in incoming s))) \<or>
      rv = int (length (acc @ bs)) \<and> length bs = lv \<and> net_inv s' \<and> net_in incoming s = bs @ net_in incoming s'))"

text \<open>The buffer after a refill.\<close>

lemma refilled:
  assumes "iob_inv b" "io_buf b = Live mem" "length got \<le> io_size b" "poke 0 got mem = Some mem'"
  shows "iob_inv (b\<lparr>io_off := 0, io_buf := Live mem', io_top := length got\<rparr>)"
    "io_unread (b\<lparr>io_off := 0, io_buf := Live mem', io_top := length got\<rparr>) = got"
  using assms by (auto simp: iob_inv_def io_unread_def poke_def)

lemma recv_buffered_reads:
  assumes "net_inv s" "io_buf (sn_rbuf s) \<noteq> Null"
  shows "buffered_reads s lv acc (recv_buffered T lv acc s)"
  using assms
proof (induction "2 * lv + (if io_off (sn_rbuf s) < io_top (sn_rbuf s) then 0 else 1)" arbitrary: lv acc s rule: less_induct)
  case less
  let ?b = "sn_rbuf s"
  have b: "iob_inv ?b" "io_off ?b \<le> io_top ?b" "iob_inv (sn_sbuf s)" using less.prems(1) by (simp_all add: net_inv_def)
  obtain mem where mem: "io_buf ?b = Live mem" "length mem = io_size ?b"
    using b(1) less.prems(2) by (auto simp: iob_inv_def split: blk.splits)
  show ?case
  proof (cases "io_off ?b + lv \<le> io_top ?b")
    case True
    note t = io_take_unread [OF b(1) less.prems(2) True]
    have "length (take lv (io_unread ?b)) = lv" using t(3) True by simp
    moreover have "recv_buffered T lv acc s = Some (int (length (acc @ take lv (io_unread ?b))), acc @ take lv (io_unread ?b),
        s\<lparr>sn_rbuf := ?b\<lparr>io_off := io_off ?b + lv\<rparr>\<rparr>)"
      using True by (subst recv_buffered.simps) (simp add: t(1) Let_def)
    ultimately show ?thesis using t(2,4) True b by (simp add: buffered_reads_def net_inv_def net_in_def)
  next
    case False
    have size: "0 < io_size ?b" using b(1) mem by (simp add: iob_inv_def)
    define k where "k = io_top ?b - io_off ?b"
    have k: "io_off ?b + k \<le> io_top ?b" "k < lv" using False b(2) by (simp_all add: k_def)
    define s1 where "s1 = s\<lparr>sn_rbuf := ?b\<lparr>io_off := 0\<rparr>\<rparr>"
    note t = io_take_unread [OF b(1) less.prems(2) k(1)]
    have un: "take k (io_unread ?b) = io_unread ?b" using t(3) by (simp add: k_def)
    obtain r got s2 where raw: "beer_io_recv_raw T s1 (io_size ?b) False = Some (r, got, s2)" "sn_rbuf s2 = sn_rbuf s1"
      "sn_sbuf s2 = sn_sbuf s" "sent (sn_world s2) = sent (sn_world s)" "length got \<le> io_size ?b"
      "incoming (sn_world s) = got @ incoming (sn_world s2)"
      "r = -1 \<and> refuses T incoming (incoming (sn_world s)) \<or> r = int (length got) \<and> got \<noteq> []"
      using refill_reads [of s1 "io_size ?b"] size by (auto simp: s1_def)
    obtain mem' where mem': "poke 0 got mem = Some mem'" using raw(5) mem(2) by (simp add: poke_def)
    define s3 where "s3 = s2\<lparr>sn_rbuf := (sn_rbuf s2)\<lparr>io_buf := Live mem', io_top := length got\<rparr>\<rparr>"
    have s3b: "sn_rbuf s3 = ?b\<lparr>io_off := 0, io_buf := Live mem', io_top := length got\<rparr>"
      by (simp add: s3_def raw(2) s1_def)
    note rf = refilled [OF b(1) mem(1) raw(5) mem']
    have inv3: "net_inv s3" "io_buf (sn_rbuf s3) \<noteq> Null" "sn_sbuf s3 = sn_sbuf s" "sn_world s3 = sn_world s2"
      using rf(1) b(3) raw(3) by (simp_all add: net_inv_def s3b) (simp_all add: s3_def raw)
    have in3: "net_in incoming s = io_unread ?b @ net_in incoming s3" and un3: "io_unread (sn_rbuf s3) = got"
      using rf(2) raw(6) inv3(4) by (simp_all add: net_in_def s3b)
    define rest where "rest r = (if r \<le> 0 then Some (-1, acc @ io_unread ?b, (s2\<lparr>sn_rbuf := (sn_rbuf s2)\<lparr>io_buf := Live mem'\<rparr>, sn_error := BEER_ESYSTEM\<rparr>))
      else if lv - k \<le> nat r then (case slice 0 (lv - k) mem' of None \<Rightarrow> None
        | Some bs \<Rightarrow> Some (int (length ((acc @ io_unread ?b) @ bs)), (acc @ io_unread ?b) @ bs, s3\<lparr>sn_rbuf := (sn_rbuf s3)\<lparr>io_off := lv - k\<rparr>\<rparr>))
      else recv_buffered T (lv - k) (acc @ io_unread ?b) s3)" for r :: int
    have eq: "recv_buffered T lv acc s = rest r"
    proof (cases r "0 :: int" rule: le_cases)
      case le
      then show ?thesis
        using False mem mem' k raw(1) t(1) un
        by (subst recv_buffered.simps) (simp add: rest_def Let_def s1_def k_def raw(2))
    next
      case ge
      then have r: "r = int (length got)" "got \<noteq> []" using raw(7) by auto
      have "s2\<lparr>sn_rbuf := (sn_rbuf s2)\<lparr>io_buf := Live mem', io_top := length got\<rparr>\<rparr> = s3" by (simp add: s3_def)
      with r False mem mem' k raw(1) t(1) un show ?thesis
        by (subst recv_buffered.simps) (simp add: rest_def Let_def s1_def k_def raw(2) cong: option.case_cong)
    qed
    show ?thesis
    proof (cases "r = -1")
      case True
      have lk: "length (io_unread ?b) = k" using t(3) by (simp add: k_def)
      then have "drop k (net_in incoming s) = incoming (sn_world s)" by (simp add: net_in_def)
      then have "\<exists>m < lv. refuses T incoming (drop m (net_in incoming s))"
        using True raw(7) k(2) by (intro exI [of _ k]) auto
      with True raw(3,4) lk k show ?thesis by (simp add: eq rest_def buffered_reads_def)
    next
      case False
      then have r: "r = int (length got)" "got \<noteq> []" using raw(7) by auto
      show ?thesis
      proof (cases "lv - k \<le> length got")
        case True
        have sl: "slice 0 (lv - k) mem' = Some (take (lv - k) got)"
          using True mem' by (auto simp: slice_def poke_def split: if_splits)
        have off: "io_unread ((sn_rbuf s3)\<lparr>io_off := lv - k\<rparr>) = drop (lv - k) got" "iob_inv ((sn_rbuf s3)\<lparr>io_off := lv - k\<rparr>)"
          "lv - k \<le> io_top (sn_rbuf s3)"
          using io_take_unread [of "sn_rbuf s3" "lv - k"] True rf(1) un3 by (simp_all add: s3b)
        have "net_in incoming s = io_unread ?b @ take (lv - k) got @ net_in incoming (s3\<lparr>sn_rbuf := (sn_rbuf s3)\<lparr>io_off := lv - k\<rparr>\<rparr>)"
          using in3 un3 off(1) by (simp add: net_in_def)
        moreover have "length (io_unread ?b) + length (take (lv - k) got) = lv" using t(3) k True by (simp add: k_def)
        ultimately show ?thesis using off b(3) inv3 raw(4) sl r True
          by (simp add: eq rest_def buffered_reads_def net_inv_def)
      next
        case False
        then have "rest r = recv_buffered T (lv - k) (acc @ io_unread ?b) s3" using r by (simp add: rest_def)
        moreover have "buffered_reads s3 (lv - k) (acc @ io_unread ?b) (recv_buffered T (lv - k) (acc @ io_unread ?b) s3)"
          using r k by (intro less inv3) (auto simp: s3b k_def)
        moreover have "\<exists>m < lv. refuses T incoming (drop m (net_in incoming s))"
          if "m < lv - k" "refuses T incoming (drop m (net_in incoming s3))" for m
          using that in3 t(3) by (intro exI [of _ "k + m"]) (simp add: k_def)
        ultimately show ?thesis
          using in3 inv3 raw(4) t(3) k un unfolding eq buffered_reads_def k_def by fastforce
      qed
    qed
  qed
qed

lemma recv_reads:
  assumes "net_inv s"
  shows "\<exists>rv bs s'. beer_io_recv T s n = Some (rv, bs, s') \<and> sent (sn_world s') = sent (sn_world s) \<and> net_reads incoming s n rv bs s' \<and>
    read_excused T incoming (net_in incoming s) n rv"
proof (cases "io_buf (sn_rbuf s) = Null")
  case True
  with beer_io_recv_raw_reads [OF assms] show ?thesis by (simp add: beer_io_recv_def)
next
  case False
  from recv_buffered_reads [OF assms False, of n "[]"] False show ?thesis
    by (auto simp: beer_io_recv_def buffered_reads_def net_reads_def read_excused_def)
qed

end

section \<open>A concrete transport\<close>

text \<open>
  A world that holds what has been sent, what is still to arrive, the largest piece one call moves, how many calls are interrupted before
  one goes through, and how many more bytes it accepts.
\<close>

record wire =
  wi_sent :: bytes
  wi_incoming :: bytes
  wi_chunk :: nat
  wi_signals :: nat
  wi_room :: nat

definition wire_send :: "bytes \<Rightarrow> wire \<Rightarrow> (int \<times> int) \<times> wire" where
  "wire_send bs w =
     (if 0 < wi_signals w then ((-1, EINTR), w\<lparr>wi_signals := wi_signals w - 1\<rparr>)
      else let n = min (length bs) (min (wi_chunk w) (wi_room w)) in
        if n = 0 \<and> bs \<noteq> [] then ((-1, 32), w)
        else ((int n, 0), w\<lparr>wi_sent := wi_sent w @ take n bs, wi_room := wi_room w - n\<rparr>))"

definition wire_recv :: "nat \<Rightarrow> wire \<Rightarrow> (int \<times> int \<times> bytes) \<times> wire" where
  "wire_recv n w =
     (if 0 < wi_signals w then ((-1, EINTR, []), w\<lparr>wi_signals := wi_signals w - 1\<rparr>)
      else let bs = take (min n (wi_chunk w)) (wi_incoming w) in
        ((int (length bs), 0, bs), w\<lparr>wi_incoming := drop (min n (wi_chunk w)) (wi_incoming w)\<rparr>))"

definition wire_sys :: "wire net_sys" where
  "wire_sys = \<lparr>sys_send = wire_send, sys_writev = (\<lambda>iov. wire_send (concat iov)), sys_recv = wire_recv, sys_close = (\<lambda>fd w. w),
     cb_send = wire_send, cb_sendv = (\<lambda>iov. wire_send (concat iov)), cb_recv = wire_recv\<rparr>"

lemma wire_send_law:
  assumes "wire_send bs w = ((r, e), w')"
  shows "r \<le> int (length bs) \<and> wi_sent w' = wi_sent w @ take (nat r) bs \<and> (r = -1 \<and> e = EINTR \<longrightarrow> wi_signals w' < wi_signals w)"
  using assms by (auto simp: wire_send_def EINTR_def Let_def split: if_splits)

lemma wire_recv_law:
  assumes "wire_recv n w = ((r, e, bs), w')"
  shows "r \<le> int n \<and> length bs = nat r \<and> wi_incoming w = bs @ wi_incoming w' \<and> wi_sent w' = wi_sent w \<and>
    (r = -1 \<and> e = EINTR \<longrightarrow> wi_signals w' < wi_signals w)"
  using assms by (auto simp: wire_recv_def EINTR_def Let_def split: if_splits)

interpretation wire: transport wire_sys wi_sent wi_incoming wi_signals
  by unfold_locales (auto simp: wire_sys_def dest: wire_send_law wire_recv_law)

text \<open>A transport that is interrupted and slow, and never fails: it moves at least one byte when there is one.\<close>

definition steady_take :: "bytes \<Rightarrow> wire \<Rightarrow> (int \<times> int) \<times> wire" where
  "steady_take bs w =
     (let n = min (length bs) (Suc (wi_chunk w)) in ((int n, 0), w\<lparr>wi_sent := wi_sent w @ take n bs\<rparr>))"

definition steady_give :: "nat \<Rightarrow> wire \<Rightarrow> (int \<times> int \<times> bytes) \<times> wire" where
  "steady_give n w =
     (let bs = take (min n (Suc (wi_chunk w))) (wi_incoming w) in
      ((int (length bs), 0, bs), w\<lparr>wi_incoming := drop (min n (Suc (wi_chunk w))) (wi_incoming w)\<rparr>))"

definition steady_send :: "bytes \<Rightarrow> wire \<Rightarrow> (int \<times> int) \<times> wire" where
  "steady_send bs w =
     (if 0 < wi_signals w then ((-1, EINTR), w\<lparr>wi_signals := wi_signals w - 1\<rparr>) else steady_take bs w)"

definition steady_recv :: "nat \<Rightarrow> wire \<Rightarrow> (int \<times> int \<times> bytes) \<times> wire" where
  "steady_recv n w =
     (if 0 < wi_signals w then ((-1, EINTR, []), w\<lparr>wi_signals := wi_signals w - 1\<rparr>) else steady_give n w)"

definition steady_sys :: "wire net_sys" where
  "steady_sys = \<lparr>sys_send = steady_send, sys_writev = (\<lambda>iov. steady_send (concat iov)), sys_recv = steady_recv, sys_close = (\<lambda>fd w. w),
     cb_send = steady_take, cb_sendv = (\<lambda>iov. steady_take (concat iov)), cb_recv = steady_give\<rparr>"

lemma steady_send_law:
  assumes "steady_send bs w = ((r, e), w') \<or> steady_take bs w = ((r, e), w')"
  shows "r \<le> int (length bs) \<and> wi_sent w' = wi_sent w @ take (nat r) bs \<and> (r = -1 \<and> e = EINTR \<longrightarrow> wi_signals w' < wi_signals w) \<and>
    (bs \<noteq> [] \<and> \<not> (r = -1 \<and> e = EINTR) \<longrightarrow> 0 < r)"
  using assms by (auto simp: steady_send_def steady_take_def EINTR_def Let_def split: if_splits)

lemma steady_recv_law:
  assumes "steady_recv n w = ((r, e, bs), w') \<or> steady_give n w = ((r, e, bs), w')"
  shows "r \<le> int n \<and> length bs = nat r \<and> wi_incoming w = bs @ wi_incoming w' \<and> wi_sent w' = wi_sent w \<and>
    (r = -1 \<and> e = EINTR \<longrightarrow> wi_signals w' < wi_signals w) \<and>
    (0 < n \<and> wi_incoming w \<noteq> [] \<and> \<not> (r = -1 \<and> e = EINTR) \<longrightarrow> 0 < r)"
  using assms by (auto simp: steady_recv_def steady_give_def EINTR_def Let_def split: if_splits)

interpretation steady: transport steady_sys wi_sent wi_incoming wi_signals
  by unfold_locales (auto simp: steady_sys_def dest: steady_send_law [OF disjI1] steady_send_law [OF disjI2]
      steady_recv_law [OF disjI1] steady_recv_law [OF disjI2])

lemma steady_take_pos: "bs \<noteq> [] \<Longrightarrow> steady_take bs w = ((r, e), w') \<Longrightarrow> 0 < r"
  by (auto simp: steady_take_def Let_def)

lemma steady_give_pos: "0 < n \<Longrightarrow> wi_incoming w \<noteq> [] \<Longrightarrow> steady_give n w = ((r, e, bs), w') \<Longrightarrow> 0 < r"
  by (auto simp: steady_give_def Let_def)

lemma steady_accepts: "\<not> declines steady_sys"
proof
  assume "declines steady_sys"
  then obtain iov w r e w' where d: "concat iov \<noteq> []" "r \<le> 0"
    "steady_take (concat iov) w = ((r, e), w') \<or> \<not> (r = -1 \<and> e = EINTR) \<and> steady_send (concat iov) w = ((r, e), w')"
    unfolding declines_def steady_sys_def net_sys.select_convs by blast
  then show False
    using steady_take_pos [OF d(1), of w r e w'] steady_send_law [OF disjI1, of "concat iov" w r e w'] by auto
qed

lemma steady_delivers: "refuses steady_sys wi_incoming inc \<Longrightarrow> inc = []"
proof (rule ccontr)
  assume "refuses steady_sys wi_incoming inc" and ne: "inc \<noteq> []"
  then obtain n w r e bs w' where d: "0 < n" "wi_incoming w = inc" "r \<le> 0"
    "steady_give n w = ((r, e, bs), w') \<or> \<not> (r = -1 \<and> e = EINTR) \<and> steady_recv n w = ((r, e, bs), w')"
    unfolding refuses_def steady_sys_def net_sys.select_convs using ne by blast
  then show False
    using ne steady_give_pos [OF d(1), of w r e bs w'] steady_recv_law [OF disjI1, of n w r e bs w'] by auto
qed

end
