(* ===== verification/Beer_Connect.thy ===== *)
theory Beer_Connect
  imports Beer_Io
begin

text \<open>
  Establishing a connection (\<open>beer/beer_io.c\<close>, up to \<open>beer_io_connect\<close>).  The system calls are
  the operations of \<open>conn_sys\<close>, each returning the C result, \<open>errno\<close> and the new world.  The wait for
  the connection and the search for the largest socket buffer are partial functions, which the code repeats as long as
  the system makes it.

  What is shown: the buffer search stops and leaves the largest size the system accepts; an interrupted wait is
  answered with a timeout exactly as long as the time has not run out; a connection made at once stays non-blocking.
\<close>

unbundle bit_operations_syntax

section \<open>The system interface\<close>

datatype sockopt =
  TCP_NODELAY int | SO_SNDBUF u32 | SO_RCVBUF u32 | SO_SNDTIMEO timeval | SO_RCVTIMEO timeval

datatype sockaddr = Sockaddr_in nat bytes | Sockaddr_un bytes

record 'w conn_sys =
  sys_socket :: "int \<Rightarrow> 'w \<Rightarrow> (int \<times> int) \<times> 'w"
  sys_setsockopt :: "int \<Rightarrow> sockopt \<Rightarrow> 'w \<Rightarrow> (int \<times> int) \<times> 'w"
  sys_getaddrinfo :: "bytes \<Rightarrow> 'w \<Rightarrow> (int \<times> bytes) \<times> 'w"
  sys_getfl :: "int \<Rightarrow> 'w \<Rightarrow> (int \<times> int) \<times> 'w"
  sys_setfl :: "int \<Rightarrow> int \<Rightarrow> 'w \<Rightarrow> (int \<times> int) \<times> 'w"
  sys_connect :: "int \<Rightarrow> sockaddr \<Rightarrow> 'w \<Rightarrow> (int \<times> int) \<times> 'w"
  sys_gettimeofday :: "'w \<Rightarrow> (int \<times> int \<times> timeval) \<times> 'w"
  sys_select :: "int \<Rightarrow> timeval \<Rightarrow> 'w \<Rightarrow> (int \<times> int) \<times> 'w"
  sys_so_error :: "int \<Rightarrow> 'w \<Rightarrow> (int \<times> int \<times> int) \<times> 'w"

text \<open>The numbers of the platform that the code names.\<close>

definition EAGAIN :: int where "EAGAIN = 11"
definition EINPROGRESS :: int where "EINPROGRESS = 115"
definition O_NONBLOCK :: int where "O_NONBLOCK = 2048"

text \<open>A call on the stream's world.\<close>

definition on_world :: "('w \<Rightarrow> 'a \<times> 'w) \<Rightarrow> ('w, 'x) stream_net \<Rightarrow> 'a \<times> ('w, 'x) stream_net" where
  "on_world f s = (let (r, w) = f (sn_world s) in (r, s\<lparr>sn_world := w\<rparr>))"

section \<open>Connecting\<close>

definition beer_io_resolve :: "'w conn_sys \<Rightarrow> ('w, 'x) stream_net \<Rightarrow> bytes \<Rightarrow> nat
    \<Rightarrow> beer_error \<times> sockaddr \<times> ('w, 'x) stream_net" where
  "beer_io_resolve C s hostname port =
     (let ((rc, ip), s) = on_world (sys_getaddrinfo C hostname) s in
      if rc = 0 then (BEER_EOK, Sockaddr_in port ip, s) else (BEER_ERESOLVE, Sockaddr_in port [], s))"

definition beer_io_nonblock :: "'w conn_sys \<Rightarrow> ('w, 'x) stream_net \<Rightarrow> bool \<Rightarrow> beer_error \<times> ('w, 'x) stream_net" where
  "beer_io_nonblock C s on =
     (let ((flags, e), s) = on_world (sys_getfl C (sn_fd s)) s in
      if flags = -1 then (BEER_ESYSTEM, s\<lparr>sn_errno := e\<rparr>)
      else let flags = (if on then flags OR O_NONBLOCK else flags AND NOT O_NONBLOCK);
               ((rc, e), s) = on_world (sys_setfl C (sn_fd s) flags) s in
           if rc = -1 then (BEER_ESYSTEM, s\<lparr>sn_errno := e\<rparr>) else (BEER_EOK, s))"

text \<open>
  The loop of \<open>beer_io_connect_do\<close>; \<open>BEER_EOK\<close> stands for leaving it by \<open>break\<close>.  \<open>curr_tmeout\<close> is the time
  passed less the time allowed, as the code has it.
\<close>

definition micro :: int where "micro = 1000000"

definition passed_usec :: "timeval \<Rightarrow> timeval \<Rightarrow> int" where
  "passed_usec start now = (fst now - fst start) * micro + (snd now - snd start)"

partial_function (option) connect_wait :: "'w conn_sys \<Rightarrow> timeval \<Rightarrow> int \<Rightarrow> timeval \<Rightarrow> ('w, 'x) stream_net
    \<Rightarrow> (beer_error \<times> ('w, 'x) stream_net) option" where
  "connect_wait C start tmout_usec tmout s =
     (let ((ret, e), s) = on_world (sys_select C (sn_fd s) tmout) s in
      if ret = -1 then
        if e = EINTR \<or> e = EAGAIN then
          (let ((rc, e, now), s) = on_world (sys_gettimeofday C) s in
           if rc = -1 then Some (BEER_ESYSTEM, s\<lparr>sn_errno := e\<rparr>)
           else let curr_tmeout = passed_usec start now - tmout_usec in
             if curr_tmeout \<le> 0 then Some (BEER_ETMOUT, s)
             else connect_wait C start tmout_usec (curr_tmeout div micro, curr_tmeout mod micro) s)
        else Some (BEER_ESYSTEM, s\<lparr>sn_errno := e\<rparr>)
      else if ret = 0 then Some (BEER_ETMOUT, s)
      else Some (BEER_EOK, s))"

definition beer_io_connect_do :: "'w conn_sys \<Rightarrow> ('w, 'x) stream_net \<Rightarrow> sockaddr \<Rightarrow> (beer_error \<times> ('w, 'x) stream_net) option" where
  "beer_io_connect_do C s addr =
     (let (result, s) = beer_io_nonblock C s True in
      if result \<noteq> BEER_EOK then Some (result, s)
      else let ((rc, e), s) = on_world (sys_connect C (sn_fd s) addr) s in
      if rc \<noteq> -1 then Some (BEER_EOK, s)
      else if e = EINPROGRESS then
        (let tmout_usec = fst (o_tmout_connect (sn_opt s)) * micro;
             ((rc, e, start), s) = on_world (sys_gettimeofday C) s in
         if rc = -1 then Some (BEER_ESYSTEM, s\<lparr>sn_errno := e\<rparr>)
         else do {
           (result, s) \<leftarrow> connect_wait C start tmout_usec (o_tmout_connect (sn_opt s)) s;
           if result \<noteq> BEER_EOK then Some (result, s)
           else let ((rc, e, opt), s) = on_world (sys_so_error C (sn_fd s)) s in
             if rc = -1 \<or> opt \<noteq> 0 then Some (BEER_ESYSTEM, s\<lparr>sn_errno := (if opt \<noteq> 0 then opt else e)\<rparr>)
             else Some (beer_io_nonblock C s False) })
      else Some (BEER_ESYSTEM, s\<lparr>sn_errno := e\<rparr>))"

definition beer_io_connect_tcp :: "'w conn_sys \<Rightarrow> ('w, 'x) stream_net \<Rightarrow> bytes \<Rightarrow> nat
    \<Rightarrow> (beer_error \<times> ('w, 'x) stream_net) option" where
  "beer_io_connect_tcp C s host port =
     (let (result, addr, s) = beer_io_resolve C s host (port mod 65536) in
      if result \<noteq> BEER_EOK then Some (result, s) else beer_io_connect_do C s addr)"

text \<open>\<open>sun_path\<close> has 108 bytes, which \<open>strcpy\<close> does not check.\<close>

definition beer_io_connect_unix :: "'w conn_sys \<Rightarrow> ('w, 'x) stream_net \<Rightarrow> bytes \<Rightarrow> (beer_error \<times> ('w, 'x) stream_net) option" where
  "beer_io_connect_unix C s path =
     (if 108 \<le> length path then None
      else let ((rc, e), s) = on_world (sys_connect C (sn_fd s) (Sockaddr_un path)) s in
        if rc \<noteq> -1 then Some (BEER_EOK, s) else Some (BEER_ESYSTEM, s\<lparr>sn_errno := e\<rparr>))"

section \<open>Socket options\<close>

text \<open>\<open>avg\<close> is unsigned, the bounds are signed.\<close>

partial_function (option) xbufmax_loop :: "'w conn_sys \<Rightarrow> (u32 \<Rightarrow> sockopt) \<Rightarrow> int \<Rightarrow> int \<Rightarrow> ('w, 'x) stream_net
    \<Rightarrow> ('w, 'x) stream_net option" where
  "xbufmax_loop C opt mn mx s =
     (if mn \<le> mx then
        (let avg = (word_of_int (mn + mx) :: u32) div 2;
             ((rc, e), s) = on_world (sys_setsockopt C (sn_fd s) (opt avg)) s in
         if rc = 0 then xbufmax_loop C opt (sint (avg + 1)) mx s
         else xbufmax_loop C opt mn (sint (avg - 1)) s)
      else Some s)"

definition beer_io_xbufmax :: "'w conn_sys \<Rightarrow> ('w, 'x) stream_net \<Rightarrow> (u32 \<Rightarrow> sockopt) \<Rightarrow> int \<Rightarrow> ('w, 'x) stream_net option" where
  "beer_io_xbufmax C s opt mn = xbufmax_loop C opt (if mn = 0 then 16384 else mn) (128 * 1024 * 1024) s"

definition beer_io_setopts :: "'w conn_sys \<Rightarrow> ('w, 'x) stream_net \<Rightarrow> uri \<Rightarrow> (beer_error \<times> ('w, 'x) stream_net) option" where
  "beer_io_setopts C s uri =
     (let ((rc, e), s) = (if u_hint uri \<noteq> URI_UNIX then on_world (sys_setsockopt C (sn_fd s) (TCP_NODELAY 1)) s else ((0, 0), s)) in
      if rc = -1 then Some (BEER_ESYSTEM, s\<lparr>sn_errno := e\<rparr>)
      else do {
        s \<leftarrow> beer_io_xbufmax C s SO_SNDBUF (o_send_buf (sn_opt s));
        s \<leftarrow> beer_io_xbufmax C s SO_RCVBUF (o_recv_buf (sn_opt s));
        let ((rc, e), s) = on_world (sys_setsockopt C (sn_fd s) (SO_SNDTIMEO (o_tmout_send (sn_opt s)))) s;
        if rc = -1 then Some (BEER_ESYSTEM, s\<lparr>sn_errno := e\<rparr>)
        else let ((rc, e), s) = on_world (sys_setsockopt C (sn_fd s) (SO_RCVTIMEO (o_tmout_recv (sn_opt s)))) s in
          if rc = -1 then Some (BEER_ESYSTEM, s\<lparr>sn_errno := e\<rparr>) else Some (BEER_EOK, s) })"

fun beer_io_htopf :: "uri_host_hint \<Rightarrow> int" where
  "beer_io_htopf URI_NAME = 2" | "beer_io_htopf URI_IPV4 = 2" | "beer_io_htopf URI_IPV6 = 10" | "beer_io_htopf URI_UNIX = 1"

section \<open>The whole\<close>

text \<open>\<open>strtol(s, NULL, 10)\<close>: white space, a sign, digits, up to the end of the service; the value saturates.\<close>

fun digits_val :: "nat \<Rightarrow> bytes \<Rightarrow> nat" where
  "digits_val acc [] = acc"
| "digits_val acc (c # cs) = (if 48 \<le> c \<and> c \<le> 57 then digits_val (10 * acc + unat (c - 48)) cs else acc)"

definition strtol10 :: "bytes \<Rightarrow> int" where
  "strtol10 str =
     (case dropWhile (\<lambda>c. c = 32 \<or> 9 \<le> c \<and> c \<le> 13) str of
        [] \<Rightarrow> 0
      | c # cs \<Rightarrow> if c = 45 then max (- (2 ^ 63)) (- int (digits_val 0 cs))
                  else min (2 ^ 63 - 1) (int (digits_val 0 (if c = 43 then cs else c # cs))))"

text \<open>A name is copied into 128 bytes on the stack together with its terminator.\<close>

definition stack_copy :: "bytes \<Rightarrow> bytes option" where
  "stack_copy str = (if length str < 128 then Some (takeWhile (\<lambda>c. c \<noteq> 0) str) else None)"

definition beer_io_connect :: "'w net_sys \<Rightarrow> 'w conn_sys \<Rightarrow> ('w, 'x) stream_net \<Rightarrow> (beer_error \<times> ('w, 'x) stream_net) option" where
  "beer_io_connect T C s = do {
     uri \<leftarrow> o_uri (sn_opt s);
     let ((fd, e), s) = on_world (sys_socket C (beer_io_htopf (u_hint uri))) s;
     let s = s\<lparr>sn_fd := fd\<rparr>;
     if fd < 0 then Some (BEER_ESYSTEM, s\<lparr>sn_errno := e\<rparr>)
     else do {
       (result, s) \<leftarrow> beer_io_setopts C s uri;
       if result \<noteq> BEER_EOK then Some (result, beer_io_close T s)
       else do {
         (result, s) \<leftarrow>
           (if u_hint uri = URI_UNIX then do {
              service \<leftarrow> stack_copy (case u_service uri of None \<Rightarrow> [] | Some b \<Rightarrow> b);
              beer_io_connect_unix C s service }
            else do {
              host \<leftarrow> stack_copy (case u_host uri of None \<Rightarrow> [] | Some b \<Rightarrow> b);
              let port = (case u_service uri of None \<Rightarrow> 3301 | Some b \<Rightarrow> unat (word_of_int (strtol10 b) :: u32));
              beer_io_connect_tcp C s host port });
         if result \<noteq> BEER_EOK then Some (result, beer_io_close T s)
         else Some (BEER_EOK, s\<lparr>sn_connected := True\<rparr>) } } }"

section \<open>The interrupted wait\<close>

lemma connect_wait_interrupted:
  assumes "sys_select C (sn_fd s) tmout (sn_world s) = ((-1, EINTR), w)" "sys_gettimeofday C w = ((0, 0, now), w')"
  shows "connect_wait C start tmout_usec tmout s =
    (if passed_usec start now \<le> tmout_usec then Some (BEER_ETMOUT, s\<lparr>sn_world := w'\<rparr>)
     else connect_wait C start tmout_usec
       ((passed_usec start now - tmout_usec) div micro, (passed_usec start now - tmout_usec) mod micro) (s\<lparr>sn_world := w'\<rparr>))"
  using assms by (subst connect_wait.simps) (simp add: on_world_def Let_def)

lemma connect_at_once:
  assumes "sys_getfl C (sn_fd s) (sn_world s) = ((flags, e), w1)" "0 \<le> flags"
    "sys_setfl C (sn_fd s) (flags OR O_NONBLOCK) w1 = ((0, e'), w2)"
    "sys_connect C (sn_fd s) addr w2 = ((0, e''), w3)"
  shows "beer_io_connect_do C s addr = Some (BEER_EOK, s\<lparr>sn_world := w3\<rparr>)"
  using assms by (simp add: beer_io_connect_do_def beer_io_nonblock_def on_world_def Let_def)

section \<open>The search for the largest buffer\<close>

text \<open>The system takes sizes up to a limit and remembers the last one it took.\<close>

definition takes_up_to :: "'w conn_sys \<Rightarrow> int \<Rightarrow> (u32 \<Rightarrow> sockopt) \<Rightarrow> ('w \<Rightarrow> nat) \<Rightarrow> nat \<Rightarrow> bool" where
  "takes_up_to C fd opt sz limit \<longleftrightarrow> (\<forall>n w. \<exists>rc e w'. sys_setsockopt C fd (opt n) w = ((rc, e), w') \<and>
     (if unat n \<le> limit then rc = 0 \<and> sz w' = unat n else rc \<noteq> 0 \<and> sz w' = sz w))"

lemma unat_word_small: "0 \<le> k \<Longrightarrow> k < 4294967296 \<Longrightarrow> unat (word_of_int k :: u32) = nat k"
  unfolding unat_eq_nat_uint uint_word_of_int_eq by (simp add: take_bit_int_eq_self)

lemma avg_word:
  assumes "0 \<le> a" "a \<le> b" "b \<le> 2 ^ 27"
  shows "int (unat ((word_of_int (a + b) :: u32) div 2)) = (a + b) div 2"
proof -
  have "unat (word_of_int (a + b) :: u32) = nat (a + b)" using assms by (intro unat_word_small) simp_all
  moreover have "unat (w div 2) = unat w div 2" for w :: u32 by (simp add: unat_div)
  ultimately have "unat ((word_of_int (a + b) :: u32) div 2) = nat (a + b) div 2" by simp
  then show ?thesis using assms by (simp only: zdiv_int) simp
qed

lemma sint_word_small: "-1 \<le> k \<Longrightarrow> k \<le> 2 ^ 28 \<Longrightarrow> sint (word_of_int k :: u32) = k"
  unfolding sint_sbintrunc' by (rule signed_take_bit_int_eq_self) simp_all

lemma sint_step:
  assumes "int (unat (v :: u32)) \<le> 2 ^ 27"
  shows "sint (v + 1) = int (unat v) + 1" "sint (v - 1) = int (unat v) - 1"
proof -
  have v: "v = word_of_int (int (unat v))" by simp
  have e: "v + 1 = word_of_int (int (unat v) + 1)" "v - 1 = word_of_int (int (unat v) - 1)"
    by (subst v, simp only: wi_hom_syms word_1_wi)+
  define k where "k = int (unat v)"
  have k: "0 \<le> k" "k \<le> 2 ^ 27" using assms by (simp_all add: k_def)
  show "sint (v + 1) = int (unat v) + 1" "sint (v - 1) = int (unat v) - 1"
    unfolding e unfolding k_def [symmetric]
    using k sint_word_small [of "k + 1"] sint_word_small [of "k - 1"] by simp_all
qed

text \<open>The largest size the system takes stays between the bounds; what has been taken last is just below the lower one.\<close>

lemma xbufmax_loop_finds:
  assumes "takes_up_to C (sn_fd s) opt sz limit" "L = min (int limit) (2 ^ 27)" "0 \<le> a" "a \<le> L + 1" "L \<le> b" "b \<le> 2 ^ 27"
    "int (sz (sn_world s)) = a - 1 \<or> a \<le> L"
  shows "\<exists>w. xbufmax_loop C opt a b s = Some (s\<lparr>sn_world := w\<rparr>) \<and> int (sz w) = L"
  using assms
proof (induction "nat (b + 1 - a)" arbitrary: a b s rule: less_induct)
  case less
  show ?case
  proof (cases "a \<le> b")
    case False
    with less.prems have "int (sz (sn_world s)) = L" by linarith
    with False show ?thesis by (subst xbufmax_loop.simps) (auto intro: exI [of _ "sn_world s"])
  next
    case True
    define n where "n = (word_of_int (a + b) :: u32) div 2"
    have n: "int (unat n) = (a + b) div 2" "a \<le> int (unat n)" "int (unat n) \<le> b"
      using avg_word [of a b] less.prems(3,6) True by (simp_all add: n_def)
    have "int (unat n) \<le> 2 ^ 27" by (rule order_trans [OF n(3) less.prems(6)])
    note st = sint_step [OF this]
    obtain rc e w where c: "sys_setsockopt C (sn_fd s) (opt n) (sn_world s) = ((rc, e), w)"
      "if unat n \<le> limit then rc = 0 \<and> sz w = unat n else rc \<noteq> 0 \<and> sz w = sz (sn_world s)"
      using less.prems(1) unfolding takes_up_to_def by meson
    let ?s = "s\<lparr>sn_world := w\<rparr>"
    have t: "takes_up_to C (sn_fd ?s) opt sz limit" using less.prems(1) by simp
    show ?thesis
    proof (cases "unat n \<le> limit")
      case nl: True
      then have "int (unat n) \<le> int limit" by (simp only: of_nat_le_iff)
      then have le: "(a + b) div 2 \<le> int limit" unfolding n(1) .
      from nl have "xbufmax_loop C opt a b s = xbufmax_loop C opt (int (unat n) + 1) b ?s"
        using True c st unfolding xbufmax_loop.simps [of C opt a b s] unfolding n_def [symmetric] Let_def on_world_def by simp
      moreover have "\<exists>w'. xbufmax_loop C opt (int (unat n) + 1) b ?s = Some (?s\<lparr>sn_world := w'\<rparr>) \<and> int (sz w') = L"
        using n le nl c(2) less.prems(2,3,5,6) by (intro less.hyps [OF _ t less.prems(2)]) auto
      ultimately show ?thesis by simp
    next
      case nl: False
      then have "int limit < int (unat n)" by (simp only: of_nat_less_iff not_le)
      then have le: "int limit < (a + b) div 2" unfolding n(1) .
      from nl have "xbufmax_loop C opt a b s = xbufmax_loop C opt a (int (unat n) - 1) ?s"
        using True c st unfolding xbufmax_loop.simps [of C opt a b s] unfolding n_def [symmetric] Let_def on_world_def by simp
      moreover have "\<exists>w'. xbufmax_loop C opt a (int (unat n) - 1) ?s = Some (?s\<lparr>sn_world := w'\<rparr>) \<and> int (sz w') = L"
        using n le nl c(2) less.prems(2-) by (intro less.hyps [OF _ t less.prems(2)]) auto
      ultimately show ?thesis by simp
    qed
  qed
qed

lemma beer_io_xbufmax_finds:
  assumes "takes_up_to C (sn_fd s) opt sz limit" "0 \<le> mn" "(if mn = 0 then 16384 else mn) \<le> min (int limit) (2 ^ 27)"
  shows "\<exists>w. beer_io_xbufmax C s opt mn = Some (s\<lparr>sn_world := w\<rparr>) \<and> int (sz w) = min (int limit) (2 ^ 27)"
  using xbufmax_loop_finds [OF assms(1) refl, of "if mn = 0 then 16384 else mn" "128 * 1024 * 1024"] assms(2,3)
  by (auto simp: beer_io_xbufmax_def)

text \<open>Whatever the system answers, the bounds close in.\<close>

lemma xbufmax_loop_returns:
  assumes "0 \<le> a" "b \<le> 2 ^ 27"
  shows "\<exists>w. xbufmax_loop C opt a b s = Some (s\<lparr>sn_world := w\<rparr>)"
  using assms
proof (induction "nat (b + 1 - a)" arbitrary: a b s rule: less_induct)
  case less
  show ?case
  proof (cases "a \<le> b")
    case False
    then show ?thesis by (subst xbufmax_loop.simps) (auto intro: exI [of _ "sn_world s"])
  next
    case True
    define n where "n = (word_of_int (a + b) :: u32) div 2"
    have n: "a \<le> int (unat n)" "int (unat n) \<le> b"
      using avg_word [of a b] less.prems True by (simp_all add: n_def)
    have "int (unat n) \<le> 2 ^ 27" by (rule order_trans [OF n(2) less.prems(2)])
    note st = sint_step [OF this]
    obtain rc e w where c: "sys_setsockopt C (sn_fd s) (opt n) (sn_world s) = ((rc, e), w)" by (metis prod.exhaust)
    let ?s = "s\<lparr>sn_world := w\<rparr>"
    have "xbufmax_loop C opt a b s =
        (if rc = 0 then xbufmax_loop C opt (int (unat n) + 1) b ?s else xbufmax_loop C opt a (int (unat n) - 1) ?s)"
      using True c st unfolding xbufmax_loop.simps [of C opt a b s] unfolding n_def [symmetric] Let_def on_world_def by simp
    moreover have "\<exists>w'. xbufmax_loop C opt (int (unat n) + 1) b ?s = Some (?s\<lparr>sn_world := w'\<rparr>)"
      using n less.prems by (intro less.hyps) simp_all
    moreover have "\<exists>w'. xbufmax_loop C opt a (int (unat n) - 1) ?s = Some (?s\<lparr>sn_world := w'\<rparr>)"
      using n less.prems by (intro less.hyps) simp_all
    ultimately show ?thesis by (simp split: if_split)
  qed
qed

lemma beer_io_xbufmax_returns: "0 \<le> mn \<Longrightarrow> \<exists>w. beer_io_xbufmax C s opt mn = Some (s\<lparr>sn_world := w\<rparr>)"
  using xbufmax_loop_returns [of "if mn = 0 then 16384 else mn" "128 * 1024 * 1024" C opt s] by (simp add: beer_io_xbufmax_def)

text \<open>A negative start: when every size is refused, the upper bound jumps back up by wrapping around, for ever.\<close>

lemma avg_half:
  assumes "-1 \<le> b" "b \<le> 2147483646"
  shows "sint ((word_of_int (-1 + b) :: u32) div 2 - 1) \<in> {-1..2147483646}"
proof -
  define v where "v = (word_of_int (-1 + b) :: u32) div 2"
  have "unat v = unat (word_of_int (-1 + b) :: u32) div 2" by (simp add: v_def unat_div)
  moreover have "unat (word_of_int (-1 + b) :: u32) < 4294967296" using unsigned_less [of "word_of_int (-1 + b) :: u32", where ?'a = nat] by simp
  ultimately have u: "int (unat v) \<le> 2147483647" by linarith
  have vv: "v = word_of_int (int (unat v))" by simp
  have v: "v - 1 = word_of_int (int (unat v) - 1)" by (subst vv, simp only: wi_hom_syms word_1_wi)
  define k where "k = int (unat v)"
  have k: "0 \<le> k" "k \<le> 2147483647" using u by (simp_all add: k_def)
  then have "sint (word_of_int (k - 1) :: u32) = k - 1"
    unfolding sint_sbintrunc' by (intro signed_take_bit_int_eq_self) simp_all
  with v k show ?thesis unfolding v_def [symmetric] k_def [symmetric] by simp
qed

lemma xbufmax_loop_stuck:
  assumes "xbufmax_loop C opt a b s = Some s'"
  shows "\<not> ((\<forall>n w. fst (fst (sys_setsockopt C (sn_fd s) (opt n) w)) \<noteq> 0) \<and> a = -1 \<and> -1 \<le> b \<and> b \<le> 2147483646)"
proof (rule xbufmax_loop.raw_induct [of "\<lambda>C opt a b s s'. \<not> ((\<forall>n w. fst (fst (sys_setsockopt C (sn_fd s) (opt n) w)) \<noteq> 0) \<and>
    a = -1 \<and> -1 \<le> b \<and> b \<le> 2147483646)", OF _ assms])
  fix loop and C :: "'a conn_sys" and opt a b and s s' :: "('a, 'b) stream_net"
  assume ih: "\<And>(C :: 'a conn_sys) opt a b (s :: ('a, 'b) stream_net) s'. loop C opt a b s = Some s' \<Longrightarrow>
      \<not> ((\<forall>n w. fst (fst (sys_setsockopt C (sn_fd s) (opt n) w)) \<noteq> 0) \<and> a = -1 \<and> -1 \<le> b \<and> b \<le> 2147483646)"
    and body: "(if a \<le> b then let avg = (word_of_int (a + b) :: u32) div 2; ((rc, e), s) = on_world (sys_setsockopt C (sn_fd s) (opt avg)) s
       in if rc = 0 then loop C opt (sint (avg + 1)) b s else loop C opt a (sint (avg - 1)) s else Some s) = Some s'"
  show "\<not> ((\<forall>n w. fst (fst (sys_setsockopt C (sn_fd s) (opt n) w)) \<noteq> 0) \<and> a = -1 \<and> -1 \<le> b \<and> b \<le> 2147483646)"
  proof
    assume a: "(\<forall>n w. fst (fst (sys_setsockopt C (sn_fd s) (opt n) w)) \<noteq> 0) \<and> a = -1 \<and> -1 \<le> b \<and> b \<le> 2147483646"
    define avg where "avg = (word_of_int (a + b) :: u32) div 2"
    obtain rc e w where c: "sys_setsockopt C (sn_fd s) (opt avg) (sn_world s) = ((rc, e), w)" by (metis prod.exhaust)
    have "rc \<noteq> 0" using conjunct1 [OF a] c by (metis fst_conv)
    with body a c have "loop C opt a (sint (avg - 1)) (s\<lparr>sn_world := w\<rparr>) = Some s'"
      by (simp add: avg_def on_world_def Let_def split: if_splits)
    from ih [OF this] a avg_half [of b] show False by (simp add: avg_def)
  qed
qed

lemma beer_io_xbufmax_stuck:
  assumes "\<And>n w. fst (fst (sys_setsockopt C (sn_fd s) (opt n) w)) \<noteq> 0"
  shows "beer_io_xbufmax C s opt (-1) = None"
  using xbufmax_loop_stuck [of C opt "-1" "128 * 1024 * 1024" s] assms
  by (cases "beer_io_xbufmax C s opt (-1)") (auto simp: beer_io_xbufmax_def)

text \<open>The connect whose wait is interrupted early.\<close>

lemma connect_interrupted:
  assumes "sys_getfl C (sn_fd s) (sn_world s) = ((flags, e1), w1)" "flags \<noteq> -1"
    "sys_setfl C (sn_fd s) (flags OR O_NONBLOCK) w1 = ((r2, e2), w2)" "r2 \<noteq> -1"
    "sys_connect C (sn_fd s) addr w2 = ((-1, EINPROGRESS), w3)" "sys_gettimeofday C w3 = ((0, e4, start), w4)"
    "sys_select C (sn_fd s) (o_tmout_connect (sn_opt s)) w4 = ((-1, EINTR), w5)" "sys_gettimeofday C w5 = ((0, 0, now), w6)"
    "passed_usec start now \<le> fst (o_tmout_connect (sn_opt s)) * micro"
  shows "beer_io_connect_do C s addr = Some (BEER_ETMOUT, s\<lparr>sn_world := w6\<rparr>)"
proof -
  let ?s = "s\<lparr>sn_world := w4\<rparr>"
  have "connect_wait C start (fst (o_tmout_connect (sn_opt s)) * micro) (o_tmout_connect (sn_opt s)) ?s
      = Some (BEER_ETMOUT, ?s\<lparr>sn_world := w6\<rparr>)"
    using connect_wait_interrupted [of C ?s "o_tmout_connect (sn_opt s)" w5 now w6 start "fst (o_tmout_connect (sn_opt s)) * micro"]
      assms(7-9) by simp
  then show ?thesis
    using assms(1-6) by (simp add: beer_io_connect_do_def beer_io_nonblock_def on_world_def Let_def)
qed

end
