(* ===== verification/Beer_Schema.thy ===== *)
theory Beer_Schema
  imports Beer_Reply Beer_Requests Beer_Object "HOL-Library.AList"
begin

text \<open>
  The schema (\<open>beer/beer_schema.c\<close>, \<open>include/bee/beer_schema.h\<close>): spaces and their indexes by name and by number,
  filled from the rows of the server's system spaces.  The hash table (\<open>third_party/mhash.h\<close>) is an association
  list from the bytes of a key to its data; spaces are shared between their two keys, so the table refers to
  them by position.  What is shown: after the rows of a reply have been added, every space is found under its name and every index
  under its space's number and its name, and releasing the table releases each space once.
\<close>

section \<open>Data\<close>

record schema_ival =
  iv_name :: bytes
  iv_number :: u32

record schema_sval =
  sv_name :: bytes
  sv_number :: u32
  sv_index :: "(bytes \<times> schema_ival) list"

record beer_schema =
  sc_hash :: "(bytes \<times> nat) list"
  sc_spaces :: "schema_sval list"
  sc_alloc :: bool

text \<open>The key of a number is the memory of the \<open>uint32_t\<close>, least significant byte first.\<close>

definition num_key :: "u32 \<Rightarrow> bytes" where
  "num_key w = rev (be 4 (unat w))"

text \<open>
  Allocations: \<open>mem None\<close> says whether those of structures succeed, \<open>mem (Some n)\<close> whether that of a name of \<open>n\<close> bytes does.
\<close>

type_synonym mem_ok = "nat option \<Rightarrow> bool"

definition beer_schema_new :: "beer_schema option \<Rightarrow> mem_ok \<Rightarrow> beer_schema option" where
  "beer_schema_new s mem =
     (if s = None \<and> \<not> mem None then None
      else Some \<lparr>sc_hash = [], sc_spaces = [], sc_alloc = (s = None)\<rparr>)"

section \<open>Adding\<close>

definition rd_array :: "msgpuck \<Rightarrow> bytes \<Rightarrow> nat \<Rightarrow> (u32 \<times> nat) option" where
  "rd_array M buf p = map_option (\<lambda>(k, n). (k, p + n)) (mp_decode_array M (drop p buf))"

text \<open>The label \<open>error\<close>: the row is skipped, what has been allocated is released.\<close>

definition skip_row :: "msgpuck \<Rightarrow> 's \<Rightarrow> bytes \<Rightarrow> nat \<Rightarrow> (int \<times> 's \<times> nat) option" where
  "skip_row M sc buf p = do { q \<leftarrow> rd_next M buf p; Some (-1, sc, q) }"

definition put_space :: "beer_schema \<Rightarrow> bytes \<Rightarrow> u32 \<Rightarrow> beer_schema" where
  "put_space sc name number =
     (let i = length (sc_spaces sc) in
      sc\<lparr>sc_hash := AList.update (num_key number) i (AList.update name i (sc_hash sc)),
         sc_spaces := sc_spaces sc @ [\<lparr>sv_name = name, sv_number = number, sv_index = []\<rparr>]\<rparr>)"

definition beer_schema_add_space :: "msgpuck \<Rightarrow> mem_ok \<Rightarrow> beer_schema \<Rightarrow> bytes \<Rightarrow> nat \<Rightarrow> (int \<times> beer_schema \<times> nat) option" where
  "beer_schema_add_space M mem sc buf data = do {
     t \<leftarrow> rd_type M buf data;
     if t \<noteq> MP_ARRAY then skip_row M sc buf data
     else do {
       (_, p) \<leftarrow> rd_array M buf data;
       if \<not> mem None then skip_row M sc buf data
       else do {
         t \<leftarrow> rd_type M buf p;
         if t \<noteq> MP_UINT then skip_row M sc buf data
         else do {
           (number, p) \<leftarrow> rd_uint M buf p;
           p \<leftarrow> rd_next M buf p;
           t \<leftarrow> rd_type M buf p;
           if t \<noteq> MP_STR then skip_row M sc buf data
           else do {
             (off, len, p) \<leftarrow> rd_str M buf p;
             if \<not> mem (Some (unat len)) then skip_row M sc buf data
             else do {
               name \<leftarrow> slice off (unat len) buf;
               let sc = put_space sc name (ucast number);
               data \<leftarrow> rd_next M buf data;
               Some (0, sc, data) } } } } } }"

text \<open>The rows of a reply, \<open>while (space_count-- > 0)\<close>.\<close>

fun add_rows :: "(beer_schema \<Rightarrow> bytes \<Rightarrow> nat \<Rightarrow> (int \<times> beer_schema \<times> nat) option) \<Rightarrow> beer_schema \<Rightarrow> bytes \<Rightarrow> nat \<Rightarrow> nat
    \<Rightarrow> (int \<times> beer_schema) option" where
  "add_rows add sc buf 0 p = Some (0, sc)"
| "add_rows add sc buf (Suc n) p = do {
     (rc, sc, p) \<leftarrow> add sc buf p;
     if rc \<noteq> 0 then Some (-1, sc) else add_rows add sc buf n p }"

definition add_reply :: "msgpuck \<Rightarrow> (beer_schema \<Rightarrow> bytes \<Rightarrow> nat \<Rightarrow> (int \<times> beer_schema \<times> nat) option) \<Rightarrow> beer_schema
    \<Rightarrow> beer_reply_struct \<Rightarrow> (int \<times> beer_schema) option" where
  "add_reply M add sc r =
     (case (rp_buf r, rp_data r, rp_data_end r) of
        (Live buf, Some p, Some e) \<Rightarrow>
          if mp_check M (take (e - p) (drop p buf)) = None then Some (-1, sc)
          else do {
            t \<leftarrow> rd_type M buf p;
            if t \<noteq> MP_ARRAY then Some (-1, sc)
            else do {
              (n, p) \<leftarrow> rd_array M buf p;
              add_rows add sc buf (unat n) p } }
      | (_, None, _) \<Rightarrow> Some (-1, sc)
      | _ \<Rightarrow> None)"

definition beer_schema_add_spaces :: "msgpuck \<Rightarrow> mem_ok \<Rightarrow> beer_schema \<Rightarrow> beer_reply_struct \<Rightarrow> (int \<times> beer_schema) option" where
  "beer_schema_add_spaces M mem sc r = add_reply M (beer_schema_add_space M mem) sc r"

definition put_index :: "beer_schema \<Rightarrow> nat \<Rightarrow> bytes \<Rightarrow> u32 \<Rightarrow> beer_schema" where
  "put_index sc i name number =
     (let v = \<lparr>iv_name = name, iv_number = number\<rparr>; sv = sc_spaces sc ! i in
      sc\<lparr>sc_spaces := (sc_spaces sc)[i := sv\<lparr>sv_index :=
         AList.update (num_key number) v (AList.update name v (sv_index sv))\<rparr>]\<rparr>)"

text \<open>The space number is decoded before any look at its type, and an unknown space leaves the row where it is.\<close>

definition beer_schema_add_index :: "msgpuck \<Rightarrow> mem_ok \<Rightarrow> beer_schema \<Rightarrow> bytes \<Rightarrow> nat \<Rightarrow> (int \<times> beer_schema \<times> nat) option" where
  "beer_schema_add_index M mem sc buf data = do {
     t \<leftarrow> rd_type M buf data;
     if t \<noteq> MP_ARRAY then skip_row M sc buf data
     else do {
       (_, p) \<leftarrow> rd_array M buf data;
       (space_number, p) \<leftarrow> rd_uint M buf p;
       t \<leftarrow> rd_type M buf p;
       if t \<noteq> MP_UINT then skip_row M sc buf data
       else case map_of (sc_hash sc) (num_key (ucast space_number)) of
         None \<Rightarrow> Some (-1, sc, data)
       | Some i \<Rightarrow>
           if \<not> mem None then skip_row M sc buf data
           else do {
             (number, p) \<leftarrow> rd_uint M buf p;
             t \<leftarrow> rd_type M buf p;
             if t \<noteq> MP_STR then skip_row M sc buf data
             else do {
               (off, len, p) \<leftarrow> rd_str M buf p;
               if \<not> mem (Some (unat len)) then skip_row M sc buf data
               else do {
                 name \<leftarrow> slice off (unat len) buf;
                 let sc = put_index sc i name (ucast number);
                 data \<leftarrow> rd_next M buf data;
                 Some (0, sc, data) } } } } }"

definition beer_schema_add_indexes :: "msgpuck \<Rightarrow> mem_ok \<Rightarrow> beer_schema \<Rightarrow> beer_reply_struct \<Rightarrow> (int \<times> beer_schema) option" where
  "beer_schema_add_indexes M mem sc r = add_reply M (beer_schema_add_index M mem) sc r"

section \<open>Looking up\<close>

text \<open>Both return \<open>int32_t\<close>.\<close>

definition beer_schema_stosid :: "beer_schema \<Rightarrow> bytes \<Rightarrow> int" where
  "beer_schema_stosid sc name =
     (case map_of (sc_hash sc) name of None \<Rightarrow> -1 | Some i \<Rightarrow> sint (sv_number (sc_spaces sc ! i)))"

definition beer_schema_stoiid :: "beer_schema \<Rightarrow> u32 \<Rightarrow> bytes \<Rightarrow> int" where
  "beer_schema_stoiid sc sid name =
     (case map_of (sc_hash sc) (num_key sid) of
        None \<Rightarrow> -1
      | Some i \<Rightarrow> (case map_of (sv_index (sc_spaces sc ! i)) name of None \<Rightarrow> -1 | Some v \<Rightarrow> sint (iv_number v)))"

section \<open>Releasing\<close>

text \<open>
  The walk over a table: at a key that is still there, the two entries of its space or index are taken out and it is
  released.  The second component collects what has been released.  A space takes its index table along.
\<close>

definition release_at :: "('i \<Rightarrow> bytes) \<Rightarrow> ('i \<Rightarrow> u32) \<Rightarrow> bytes \<Rightarrow> (bytes \<times> 'i) list \<times> 'i list \<Rightarrow> (bytes \<times> 'i) list \<times> 'i list" where
  "release_at name number k st =
     (case map_of (fst st) k of
        None \<Rightarrow> st
      | Some i \<Rightarrow> (AList.delete (name i) (AList.delete (num_key (number i)) (fst st)), snd st @ [i]))"

definition release_all :: "('i \<Rightarrow> bytes) \<Rightarrow> ('i \<Rightarrow> u32) \<Rightarrow> (bytes \<times> 'i) list \<Rightarrow> (bytes \<times> 'i) list \<times> 'i list" where
  "release_all name number tab = fold (release_at name number) (map fst tab) (tab, [])"

definition beer_schema_index_free :: "(bytes \<times> schema_ival) list \<Rightarrow> (bytes \<times> schema_ival) list \<times> schema_ival list" where
  "beer_schema_index_free ix = release_all iv_name iv_number ix"

definition beer_schema_space_free :: "beer_schema \<Rightarrow> (bytes \<times> nat) list \<times> nat list" where
  "beer_schema_space_free sc =
     release_all (\<lambda>i. sv_name (sc_spaces sc ! i)) (\<lambda>i. sv_number (sc_spaces sc ! i)) (sc_hash sc)"

definition beer_schema_flush :: "beer_schema \<Rightarrow> beer_schema" where
  "beer_schema_flush sc = sc\<lparr>sc_hash := fst (beer_schema_space_free sc)\<rparr>"

section \<open>Asking for the schema\<close>

definition beer_vsp_space :: u32 where "beer_vsp_space = 281"
definition beer_vsp_index :: u32 where "beer_vsp_index = 289"
definition beer_vin_name :: u32 where "beer_vin_name = 2"

text \<open>\<open>m1\<close> and \<open>m2\<close>: the two allocations of \<open>beer_object\<close>.\<close>

definition get_system :: "msgpuck \<Rightarrow> allocator \<Rightarrow> 'd writev \<Rightarrow> bool \<Rightarrow> bool \<Rightarrow> 'd beer_stream \<Rightarrow> u32
    \<Rightarrow> (int \<times> 'd beer_stream) option" where
  "get_system M A wv m1 m2 s space = do {
     obj \<leftarrow> beer_object m1 m2;
     case obj of
       None \<Rightarrow> Some (-1, s)
     | Some obj \<Rightarrow> do {
         (_, obj) \<leftarrow> beer_object_add_array M A (stack_mem A obj) obj 0;
         (retval, s) \<leftarrow> beer_select M wv s space beer_vin_name 0xffffffff 0 2 obj;
         _ \<leftarrow> beer_buf_free A obj;
         Some (retval, s) } }"

definition beer_get_space :: "msgpuck \<Rightarrow> allocator \<Rightarrow> 'd writev \<Rightarrow> bool \<Rightarrow> bool \<Rightarrow> 'd beer_stream \<Rightarrow> (int \<times> 'd beer_stream) option" where
  "beer_get_space M A wv m1 m2 s = get_system M A wv m1 m2 s beer_vsp_space"

definition beer_get_index :: "msgpuck \<Rightarrow> allocator \<Rightarrow> 'd writev \<Rightarrow> bool \<Rightarrow> bool \<Rightarrow> 'd beer_stream \<Rightarrow> (int \<times> 'd beer_stream) option" where
  "beer_get_index M A wv m1 m2 s = get_system M A wv m1 m2 s beer_vsp_index"

section \<open>The rows of the system spaces\<close>

text \<open>A row of \<open>_vspace\<close>: number, owner, name, and more; a row of \<open>_vindex\<close>: space, number, name, and more.\<close>

type_synonym space_row = "u32 \<times> bytes \<times> bytes \<times> bytes list"
type_synonym index_row = "u32 \<times> u32 \<times> bytes \<times> bytes list"

fun space_bytes :: "msgpuck \<Rightarrow> space_row \<Rightarrow> bytes" where
  "space_bytes M (number, owner, name, rest) = mp_encode_array M (word_of_nat (3 + length rest)) @
     mp_encode_uint M (ucast number) @ owner @ mp_encode_str M name @ concat rest"

fun index_bytes :: "msgpuck \<Rightarrow> index_row \<Rightarrow> bytes" where
  "index_bytes M (space, number, name, rest) = mp_encode_array M (word_of_nat (3 + length rest)) @
     mp_encode_uint M (ucast space) @ mp_encode_uint M (ucast number) @ mp_encode_str M name @ concat rest"

fun space_row_ok :: "msgpuck \<Rightarrow> space_row \<Rightarrow> bool" where
  "space_row_ok M (number, owner, name, rest) \<longleftrightarrow>
     mp_obj M owner \<and> length name < 4294967296 \<and> length rest < 4294967000 \<and> (\<forall>x \<in> set rest. mp_obj M x)"

fun index_row_ok :: "msgpuck \<Rightarrow> index_row \<Rightarrow> bool" where
  "index_row_ok M (space, number, name, rest) \<longleftrightarrow>
     length name < 4294967296 \<and> length rest < 4294967000 \<and> (\<forall>x \<in> set rest. mp_obj M x)"

fun space_of_row :: "beer_schema \<Rightarrow> space_row \<Rightarrow> beer_schema" where
  "space_of_row sc (number, owner, name, rest) = put_space sc name number"

fun index_of_row :: "beer_schema \<Rightarrow> index_row \<Rightarrow> beer_schema" where
  "index_of_row sc (space, number, name, rest) =
     (case map_of (sc_hash sc) (num_key space) of None \<Rightarrow> sc | Some i \<Rightarrow> put_index sc i name number)"

text \<open>A reply whose data is an array of these rows.\<close>

definition rows_reply :: "msgpuck \<Rightarrow> beer_reply_struct \<Rightarrow> bytes list \<Rightarrow> bool" where
  "rows_reply M r rows \<longleftrightarrow> length rows < 4294967296 \<and> (\<exists>buf. rp_buf r = Live buf \<and>
     span buf (rp_data r) (rp_data_end r) = Some (mp_encode_array M (word_of_nat (length rows)) @ concat rows))"

lemma add_rows_all:
  assumes "drop p buf = concat (map rb rows) @ s" "I sc"
    and "\<And>sc r p s. I sc \<Longrightarrow> r \<in> set rows \<Longrightarrow> drop p buf = rb r @ s \<Longrightarrow> add sc buf p = Some (0, f sc r, p + length (rb r)) \<and> I (f sc r)"
  shows "add_rows add sc buf (length rows) p = Some (0, foldl f sc rows) \<and> I (foldl f sc rows)"
  using assms
proof (induction rows arbitrary: p sc)
  case (Cons r rows)
  have d: "drop p buf = rb r @ concat (map rb rows) @ s" using Cons.prems(1) by simp
  from Cons.prems(3) [OF Cons.prems(2) _ d] have a: "add sc buf p = Some (0, f sc r, p + length (rb r))" "I (f sc r)" by simp_all
  with Cons.IH [OF drop_shift [OF d] a(2)] Cons.prems(3) show ?case by simp
qed simp

lemma ucast_back [simp]: "(ucast (ucast (w :: u32) :: u64) :: u32) = w"
  by (simp add: word_unat_eq_iff unat_u32_of_u64)

context msgpuck_laws begin

lemma rd_array_enc: "drop p buf = mp_encode_array M k @ r \<Longrightarrow> rd_array M buf p = Some (k, p + length (mp_encode_array M k))"
  by (simp add: rd_array_def dec_array len_array)

lemma rd_type_enc:
  "drop p buf = mp_encode_array M k @ r \<Longrightarrow> rd_type M buf p = Some MP_ARRAY"
  "drop p buf = mp_encode_uint M v @ r \<Longrightarrow> rd_type M buf p = Some MP_UINT"
  "drop p buf = mp_encode_str M x @ r \<Longrightarrow> rd_type M buf p = Some MP_STR"
  using enc_ne by (auto simp: rd_type_hd type_array type_uint enc_str type_str)

lemma row_name:
  assumes "drop p buf = mp_encode_str M name @ r" "length name < 4294967296"
  obtains off q where "rd_str M buf p = Some (off, word_of_nat (length name), q)" "unat (word_of_nat (length name) :: u32) = length name"
    "slice off (length name) buf = Some name"
proof -
  note r = rd_str_enc [OF assms]
  have "slice (p + str_hdr_size (length name)) (length name) buf = Some name" using r(2) by (simp add: span_def)
  moreover have "unat (word_of_nat (length name) :: u32) = length name"
    using assms(2) by (simp add: unat_of_nat take_bit_nat_eq_self_iff)
  ultimately show ?thesis using that r(1) by blast
qed

lemma row_object:
  assumes "length xs < 4294967296" "\<forall>x \<in> set xs. mp_obj M x"
  shows "mp_obj M (mp_encode_array M (word_of_nat (length xs)) @ concat xs)"
  using assms by (intro mp_obj_array) (simp_all add: unat_of_nat take_bit_nat_eq_self_iff)

lemma str_object: "length x < 4294967296 \<Longrightarrow> mp_obj M (mp_encode_str M x)"
  by (simp add: enc_str mp_obj_str unat_of_nat take_bit_nat_eq_self_iff)

lemma space_bytes_obj: "space_row_ok M r \<Longrightarrow> mp_obj M (space_bytes M r)"
proof (cases r)
  case (fields number owner name rest)
  assume "space_row_ok M r"
  with fields row_object [of "mp_encode_uint M (ucast number) # owner # mp_encode_str M name # rest"] show ?thesis
    by (simp add: mp_obj_uint str_object)
qed

lemma index_bytes_obj: "index_row_ok M r \<Longrightarrow> mp_obj M (index_bytes M r)"
proof (cases r)
  case (fields space number name rest)
  assume "index_row_ok M r"
  with fields row_object [of "mp_encode_uint M (ucast space) # mp_encode_uint M (ucast number) # mp_encode_str M name # rest"]
  show ?thesis by (simp add: mp_obj_uint str_object)
qed

lemma add_space_row:
  assumes "drop p buf = space_bytes M r @ s" "space_row_ok M r" "\<And>n. mem n"
  shows "beer_schema_add_space M mem sc buf p = Some (0, space_of_row sc r, p + length (space_bytes M r))"
proof (cases r)
  case (fields number owner name rest)
  let ?a = "mp_encode_array M (word_of_nat (3 + length rest))" and ?n = "mp_encode_uint M (ucast number)"
  have d0: "drop p buf = ?a @ ?n @ owner @ mp_encode_str M name @ concat rest @ s" using assms(1) fields by simp
  note d1 = drop_shift [OF d0] and a = rd_array_enc [OF d0] rd_type_enc(1) [OF d0]
  note d2 = drop_shift [OF d1] and n = rd_uint_enc [OF d1] rd_type_enc(2) [OF d1]
  have ok: "mp_obj M owner" "length name < 4294967296" using assms(2) fields by simp_all
  note d3 = drop_shift [OF d2] and o = rd_next_obj [OF d2 ok(1)]
  obtain off q where nm: "rd_str M buf (p + length ?a + length ?n + length owner) = Some (off, word_of_nat (length name), q)"
    "unat (word_of_nat (length name) :: u32) = length name" "slice off (length name) buf = Some name"
    using row_name [OF d3 ok(2)] by blast
  have "rd_next M buf p = Some (p + length (space_bytes M r))"
    using rd_next_obj [OF assms(1) space_bytes_obj [OF assms(2)]] .
  with a n o nm rd_type_enc(3) [OF d3] assms(3) fields show ?thesis
    by (simp add: beer_schema_add_space_def Let_def)
qed

lemma add_index_row:
  assumes "drop p buf = index_bytes M r @ s" "index_row_ok M r" "\<And>n. mem n" "map_of (sc_hash sc) (num_key (fst r)) \<noteq> None"
  shows "beer_schema_add_index M mem sc buf p = Some (0, index_of_row sc r, p + length (index_bytes M r))"
proof (cases r)
  case (fields space number name rest)
  let ?a = "mp_encode_array M (word_of_nat (3 + length rest))" and ?s = "mp_encode_uint M (ucast space)"
  let ?n = "mp_encode_uint M (ucast number)"
  have d0: "drop p buf = ?a @ ?s @ ?n @ mp_encode_str M name @ concat rest @ s" using assms(1) fields by simp
  note d1 = drop_shift [OF d0] and a = rd_array_enc [OF d0] rd_type_enc(1) [OF d0]
  note d2 = drop_shift [OF d1] and sp = rd_uint_enc [OF d1]
  note d3 = drop_shift [OF d2] and n = rd_uint_enc [OF d2] rd_type_enc(2) [OF d2]
  have ok: "length name < 4294967296" using assms(2) fields by simp
  obtain off q where nm: "rd_str M buf (p + length ?a + length ?s + length ?n) = Some (off, word_of_nat (length name), q)"
    "unat (word_of_nat (length name) :: u32) = length name" "slice off (length name) buf = Some name"
    using row_name [OF d3 ok] by blast
  obtain i where i: "map_of (sc_hash sc) (num_key space) = Some i" using assms(4) fields by auto
  have "rd_next M buf p = Some (p + length (index_bytes M r))"
    using rd_next_obj [OF assms(1) index_bytes_obj [OF assms(2)]] .
  with a sp n nm rd_type_enc(3) [OF d3] assms(3) fields i show ?thesis
    by (simp add: beer_schema_add_index_def Let_def)
qed

lemma add_reply_rows:
  assumes "rows_reply M r (map rb rows)" "\<forall>x \<in> set rows. mp_obj M (rb x)" "I sc"
    and "\<And>buf sc x p s. I sc \<Longrightarrow> x \<in> set rows \<Longrightarrow> drop p buf = rb x @ s \<Longrightarrow> add sc buf p = Some (0, f sc x, p + length (rb x)) \<and> I (f sc x)"
  shows "add_reply M add sc r = Some (0, foldl f sc rows) \<and> I (foldl f sc rows)"
proof -
  let ?a = "mp_encode_array M (word_of_nat (length rows))"
  obtain buf where b: "rp_buf r = Live buf" "span buf (rp_data r) (rp_data_end r) = Some (?a @ concat (map rb rows))" "length rows < 4294967296"
    using assms(1) by (auto simp: rows_reply_def)
  obtain p e where pe: "rp_data r = Some p" "rp_data_end r = Some e" "slice p (e - p) buf = Some (?a @ concat (map rb rows))"
    using b(2) by (auto simp: span_def bind_eq_Some_conv)
  have t: "take (e - p) (drop p buf) = ?a @ concat (map rb rows)" using pe(3) by (simp add: slice_def split: if_splits)
  then have d: "drop p buf = ?a @ concat (map rb rows) @ drop (e - p) (drop p buf)"
    by (metis append.assoc append_take_drop_id)
  have n: "unat (word_of_nat (length rows) :: u32) = length rows"
    using b(3) by (simp add: unat_of_nat take_bit_nat_eq_self_iff)
  have "mp_obj M (?a @ concat (map rb rows))" using row_object [of "map rb rows"] assms(2) b(3) by simp
  then have "mp_check M (take (e - p) (drop p buf)) \<noteq> None" by (simp add: t mp_obj_def)
  with b(1) pe(1,2) n rd_array_enc [OF d] rd_type_enc(1) [OF d] add_rows_all [where rb = rb and rows = rows and I = I and f = f and add = add,
      OF drop_shift [OF d] assms(3,4)]
  show ?thesis by (simp add: add_reply_def)
qed

end

section \<open>The table\<close>

text \<open>An entry refers to a space whose name or number is its key.\<close>

definition schema_inv :: "beer_schema \<Rightarrow> bool" where
  "schema_inv sc \<longleftrightarrow> distinct (map fst (sc_hash sc)) \<and>
     (\<forall>(k, i) \<in> set (sc_hash sc). i < length (sc_spaces sc) \<and>
        (k = sv_name (sc_spaces sc ! i) \<or> k = num_key (sv_number (sc_spaces sc ! i))))"

text \<open>No name can be mistaken for a number.\<close>

definition names_apart :: "beer_schema \<Rightarrow> bool" where
  "names_apart sc \<longleftrightarrow> (\<forall>sv \<in> set (sc_spaces sc). length (sv_name sv) \<noteq> 4)"

lemma num_key_length [simp]: "length (num_key w) = 4"
  by (simp add: num_key_def)

lemma num_key_inject [simp]: "num_key v = num_key w \<longleftrightarrow> v = w"
proof
  assume "num_key v = num_key w"
  then have "be_val (be 4 (unat v)) = be_val (be 4 (unat w))" by (simp add: num_key_def)
  then show "v = w" by (simp add: be_val_be word_unat_eq_iff)
qed simp

lemma schema_inv_new: "beer_schema_new s mem = Some sc \<Longrightarrow> schema_inv sc \<and> names_apart sc"
  by (auto simp: beer_schema_new_def schema_inv_def names_apart_def split: if_splits)

lemma schema_lookup:
  assumes "schema_inv sc" "map_of (sc_hash sc) k = Some i"
  shows "i < length (sc_spaces sc)" "k = sv_name (sc_spaces sc ! i) \<or> k = num_key (sv_number (sc_spaces sc ! i))"
  using assms map_of_SomeD [OF assms(2)] by (auto simp: schema_inv_def)

lemma set_update: "set (AList.update k v al) \<subseteq> insert (k, v) (set al)"
  by (induction al) auto

lemma put_space_inv:
  assumes "schema_inv sc"
  shows "schema_inv (put_space sc name number)"
proof -
  let ?i = "length (sc_spaces sc)"
  have sub: "set (sc_hash (put_space sc name number)) \<subseteq> {(num_key number, ?i), (name, ?i)} \<union> set (sc_hash sc)"
    using set_update [of "num_key number" ?i "AList.update name ?i (sc_hash sc)"] set_update [of name ?i "sc_hash sc"]
    by (auto simp: put_space_def Let_def)
  have "distinct (map fst (sc_hash (put_space sc name number)))"
    using assms by (simp add: put_space_def Let_def schema_inv_def distinct_update)
  moreover have "i < length (sc_spaces (put_space sc name number)) \<and>
      (k = sv_name (sc_spaces (put_space sc name number) ! i) \<or> k = num_key (sv_number (sc_spaces (put_space sc name number) ! i)))"
    if "(k, i) \<in> set (sc_hash (put_space sc name number))" for k i
    using subsetD [OF sub that] assms by (auto simp: put_space_def Let_def schema_inv_def nth_append)
  ultimately show ?thesis unfolding schema_inv_def by blast
qed

lemma put_index_keeps:
  "sc_hash (put_index sc i name number) = sc_hash sc" "length (sc_spaces (put_index sc i name number)) = length (sc_spaces sc)"
  "sv_name (sc_spaces (put_index sc i name number) ! j) = sv_name (sc_spaces sc ! j)"
  "sv_number (sc_spaces (put_index sc i name number) ! j) = sv_number (sc_spaces sc ! j)"
proof -
  let ?v = "\<lambda>sv. sv\<lparr>sv_index := AList.update (num_key number) \<lparr>iv_name = name, iv_number = number\<rparr>
    (AList.update name \<lparr>iv_name = name, iv_number = number\<rparr> (sv_index sv))\<rparr>"
  have e: "put_index sc i name number = sc\<lparr>sc_spaces := (sc_spaces sc)[i := ?v (sc_spaces sc ! i)]\<rparr>"
    by (simp add: put_index_def Let_def)
  show "sc_hash (put_index sc i name number) = sc_hash sc" "length (sc_spaces (put_index sc i name number)) = length (sc_spaces sc)"
    by (simp_all add: e)
  have "(sc_spaces sc)[i := ?v (sc_spaces sc ! i)] ! j = (if i = j \<and> i < length (sc_spaces sc) then ?v (sc_spaces sc ! i) else sc_spaces sc ! j)"
    by (cases "i < length (sc_spaces sc)") (simp_all add: nth_list_update list_update_beyond)
  then show "sv_name (sc_spaces (put_index sc i name number) ! j) = sv_name (sc_spaces sc ! j)"
    "sv_number (sc_spaces (put_index sc i name number) ! j) = sv_number (sc_spaces sc ! j)"
    by (simp_all add: e)
qed

lemma put_index_inv: "schema_inv sc \<Longrightarrow> schema_inv (put_index sc i name number)"
  by (simp add: schema_inv_def put_index_keeps)

text \<open>A row is found afterwards, and the rows before it still are.\<close>

lemma put_space_stosid:
  assumes "schema_inv sc" "length name \<noteq> 4"
  shows "beer_schema_stosid (put_space sc name number) name = sint number"
    "name' \<noteq> name \<Longrightarrow> length name' \<noteq> 4 \<Longrightarrow> beer_schema_stosid (put_space sc name number) name' = beer_schema_stosid sc name'"
proof -
  have ne: "x \<noteq> num_key number" if "length x \<noteq> 4" for x using that by auto
  show "beer_schema_stosid (put_space sc name number) name = sint number"
    using ne [OF assms(2)] by (simp add: beer_schema_stosid_def put_space_def Let_def update_conv nth_append)
  assume "name' \<noteq> name" "length name' \<noteq> 4"
  with ne [of name'] schema_lookup(1) [OF assms(1), of name']
  show "beer_schema_stosid (put_space sc name number) name' = beer_schema_stosid sc name'"
    by (auto simp: beer_schema_stosid_def put_space_def Let_def update_conv nth_append split: option.splits)
qed

fun row_name_of :: "space_row \<Rightarrow> bytes" where
  "row_name_of (number, owner, name, rest) = name"

fun index_key_of :: "index_row \<Rightarrow> u32 \<times> bytes" where
  "index_key_of (space, number, name, rest) = (space, name)"

definition names_long :: "beer_schema \<Rightarrow> space_row list \<Rightarrow> bool" where
  "names_long sc rows \<longleftrightarrow> names_apart sc \<and> (\<forall>r \<in> set rows. length (row_name_of r) \<noteq> 4)"

lemma spaces_of_rows:
  assumes "schema_inv sc" "names_long sc rows" "distinct (map row_name_of rows)"
  shows "schema_inv (foldl space_of_row sc rows) \<and> names_apart (foldl space_of_row sc rows) \<and>
    (\<forall>(number, owner, name, rest) \<in> set rows. beer_schema_stosid (foldl space_of_row sc rows) name = sint number \<and>
       map_of (sc_hash (foldl space_of_row sc rows)) (num_key number) \<noteq> None)"
  using assms
proof (induction rows rule: rev_induct)
  case (snoc r rows)
  obtain number owner name rest where r: "r = (number, owner, name, rest)" by (cases r)
  let ?sc = "foldl space_of_row sc rows"
  have ih: "schema_inv ?sc" "names_apart ?sc" "\<forall>(number, owner, name, rest) \<in> set rows. beer_schema_stosid ?sc name = sint number \<and>
       map_of (sc_hash ?sc) (num_key number) \<noteq> None"
    using snoc by (auto simp: names_long_def)
  have nm: "length name \<noteq> 4" "name \<notin> row_name_of ` set rows" "\<forall>r \<in> set rows. length (row_name_of r) \<noteq> 4"
    using snoc.prems r by (auto simp: names_long_def)
  have "names_apart (put_space ?sc name number)"
    using ih(2) nm(1) by (simp add: names_apart_def put_space_def Let_def)
  moreover have "beer_schema_stosid (put_space ?sc name number) name' = sint number' \<and>
      map_of (sc_hash (put_space ?sc name number)) (num_key number') \<noteq> None"
    if "(number', owner', name', rest') \<in> set rows" for number' owner' name' rest'
  proof -
    have "name' \<noteq> name" "length name' \<noteq> 4" using that nm(2,3) by force+
    with ih(3) that show ?thesis
      using put_space_stosid(2) [OF ih(1) nm(1), of name' number] by (fastforce simp: put_space_def Let_def update_conv)
  qed
  moreover have "map_of (sc_hash (put_space ?sc name number)) (num_key number) \<noteq> None"
    by (simp add: put_space_def Let_def update_conv)
  ultimately show ?case
    using r put_space_inv [OF ih(1)] put_space_stosid(1) [OF ih(1) nm(1)] by auto
qed (simp add: names_long_def)

text \<open>Indexes: the row's own lookup, and those of other names or other spaces.\<close>

lemma index_row_stoiid:
  fixes number :: u32 and rest :: "bytes list"
  assumes "schema_inv sc" "names_apart sc" "map_of (sc_hash sc) (num_key space) \<noteq> None" "length name \<noteq> 4"
  defines "sc' \<equiv> index_of_row sc (space, number, name, rest)"
  shows "beer_schema_stoiid sc' space name = sint number"
    "(space', name') \<noteq> (space, name) \<Longrightarrow> length name' \<noteq> 4 \<Longrightarrow> beer_schema_stoiid sc' space' name' = beer_schema_stoiid sc space' name'"
    "schema_inv sc'" "names_apart sc'" "sc_hash sc' = sc_hash sc" "beer_schema_stosid sc' x = beer_schema_stosid sc x"
proof -
  obtain i where i: "map_of (sc_hash sc) (num_key space) = Some i" using assms(3) by auto
  have sc': "sc' = put_index sc i name number" by (simp add: sc'_def i)
  note l = schema_lookup [OF assms(1) i]
  have ne: "x \<noteq> num_key number" if "length x \<noteq> 4" for x using that by auto
  have nu: "sv_number (sc_spaces sc ! j) = w" if "map_of (sc_hash sc) (num_key w) = Some j" for j w
    using schema_lookup [OF assms(1) that] assms(2) num_key_length [of w] nth_mem [of j "sc_spaces sc"]
    by (auto simp del: num_key_length simp: names_apart_def)
  show "beer_schema_stoiid sc' space name = sint number"
    using l ne [OF assms(4)] by (simp add: sc' beer_schema_stoiid_def put_index_keeps i) (simp add: put_index_def Let_def update_conv)
  show "schema_inv sc'" unfolding sc' by (rule put_index_inv [OF assms(1)])
  show "sc_hash sc' = sc_hash sc" by (simp add: sc' put_index_keeps)
  show "names_apart sc'"
    using assms(2) by (simp add: names_apart_def sc' all_set_conv_all_nth put_index_keeps)
  show "beer_schema_stosid sc' x = beer_schema_stosid sc x"
    by (simp add: beer_schema_stosid_def sc' put_index_keeps split: option.split)
  assume n: "(space', name') \<noteq> (space, name)" "length name' \<noteq> 4"
  have "map_of (sv_index (sc_spaces (put_index sc i name number) ! j)) name' = map_of (sv_index (sc_spaces sc ! j)) name'"
    if "map_of (sc_hash sc) (num_key space') = Some j" for j
  proof (cases "j = i")
    case True
    with nu [OF that] nu [OF i] n have "name' \<noteq> name" by auto
    with True ne [OF n(2)] l(1) show ?thesis by (simp add: put_index_def Let_def update_conv)
  qed (simp add: put_index_def Let_def)
  then show "beer_schema_stoiid sc' space' name' = beer_schema_stoiid sc space' name'"
    by (simp add: beer_schema_stoiid_def sc' put_index_keeps split: option.splits)
qed

definition indexes_ok :: "beer_schema \<Rightarrow> index_row list \<Rightarrow> bool" where
  "indexes_ok sc rows \<longleftrightarrow> (\<forall>(space, number, name, rest) \<in> set rows. length name \<noteq> 4 \<and> map_of (sc_hash sc) (num_key space) \<noteq> None)"

lemma indexes_of_rows:
  assumes "schema_inv sc" "names_apart sc" "indexes_ok sc rows" "distinct (map index_key_of rows)"
  shows "schema_inv (foldl index_of_row sc rows) \<and> names_apart (foldl index_of_row sc rows) \<and>
    sc_hash (foldl index_of_row sc rows) = sc_hash sc \<and>
    (\<forall>x. beer_schema_stosid (foldl index_of_row sc rows) x = beer_schema_stosid sc x) \<and>
    (\<forall>(space, number, name, rest) \<in> set rows. beer_schema_stoiid (foldl index_of_row sc rows) space name = sint number)"
  using assms
proof (induction rows rule: rev_induct)
  case (snoc r rows)
  obtain space number name rest where r: "r = (space, number, name, rest)" by (cases r)
  let ?sc = "foldl index_of_row sc rows"
  have ih: "schema_inv ?sc" "names_apart ?sc" "sc_hash ?sc = sc_hash sc" "\<forall>x. beer_schema_stosid ?sc x = beer_schema_stosid sc x"
    "\<forall>(space, number, name, rest) \<in> set rows. beer_schema_stoiid ?sc space name = sint number"
    using snoc by (auto simp: indexes_ok_def)
  have n: "length name \<noteq> 4" "map_of (sc_hash ?sc) (num_key space) \<noteq> None" "(space, name) \<notin> index_key_of ` set rows"
    using snoc.prems(3,4) r by (auto simp: indexes_ok_def ih(3))
  note row = index_row_stoiid [OF ih(1,2) n(2,1), where number = number and rest = rest]
  have "beer_schema_stoiid (index_of_row ?sc r) space' name' = sint number'"
    if "(space', number', name', rest') \<in> set rows" for space' number' name' rest'
  proof -
    have "(space', name') \<noteq> (space, name)" "length name' \<noteq> 4"
      using that n(3) snoc.prems(3) by (force simp: indexes_ok_def)+
    with ih(5) that show ?thesis using row(2) [of space' name'] r by fastforce
  qed
  with row(1,3,4,5,6) ih(3,4) r show ?case by auto
qed simp

text \<open>Loading both kinds of rows.\<close>

lemma schema_loaded:
  assumes "msgpuck_laws M" "\<And>n. mem n" "schema_inv sc" "names_long sc spaces" "distinct (map row_name_of spaces)"
    "rows_reply M r (map (space_bytes M) spaces)" "\<forall>x \<in> set spaces. space_row_ok M x"
    "rows_reply M r' (map (index_bytes M) indexes)" "\<forall>x \<in> set indexes. index_row_ok M x \<and> length (snd (index_key_of x)) \<noteq> 4"
    "fst ` set indexes \<subseteq> fst ` set spaces" "distinct (map index_key_of indexes)"
  shows "\<exists>sc1 sc2. beer_schema_add_spaces M mem sc r = Some (0, sc1) \<and> beer_schema_add_indexes M mem sc1 r' = Some (0, sc2) \<and> schema_inv sc2 \<and>
    (\<forall>(number, owner, name, rest) \<in> set spaces. beer_schema_stosid sc2 name = sint number) \<and>
    (\<forall>(space, number, name, rest) \<in> set indexes. beer_schema_stoiid sc2 space name = sint number) \<and>
    sc2 = foldl index_of_row (foldl space_of_row sc spaces) indexes"
proof -
  let ?sc1 = "foldl space_of_row sc spaces"
  have obj: "\<forall>x \<in> set spaces. mp_obj M (space_bytes M x)" "\<forall>x \<in> set indexes. mp_obj M (index_bytes M x)"
    using assms(7,9) msgpuck_laws.space_bytes_obj [OF assms(1)] msgpuck_laws.index_bytes_obj [OF assms(1)] by blast+
  have a1: "beer_schema_add_spaces M mem sc r = Some (0, ?sc1)"
    unfolding beer_schema_add_spaces_def
  proof (rule conjunct1, rule msgpuck_laws.add_reply_rows [OF assms(1,6) obj(1), where I = "\<lambda>_. True"])
    fix buf and sc' :: beer_schema and x p s
    assume x: "x \<in> set spaces" "drop p buf = space_bytes M x @ s"
    then have "beer_schema_add_space M mem sc' buf p = Some (0, space_of_row sc' x, p + length (space_bytes M x))"
      using assms(7) by (intro msgpuck_laws.add_space_row [OF assms(1) x(2) _ assms(2)]) blast
    then show "beer_schema_add_space M mem sc' buf p = Some (0, space_of_row sc' x, p + length (space_bytes M x)) \<and> True" by simp
  qed simp
  note sp = spaces_of_rows [OF assms(3,4,5)] and sp3 = spaces_of_rows [OF assms(3,4,5), THEN conjunct2, THEN conjunct2]
  have known: "map_of (sc_hash ?sc1) (num_key (fst x)) \<noteq> None" if "x \<in> set indexes" for x
  proof -
    from that assms(10) obtain y where y: "y \<in> set spaces" "fst x = fst y" by blast
    from bspec [OF sp3 y(1)] y(2) show ?thesis by (simp add: split_beta)
  qed
  have ix: "indexes_ok ?sc1 indexes"
    unfolding indexes_ok_def
  proof
    fix x assume x: "x \<in> set indexes"
    obtain space number name rest where e: "x = (space, number, name, rest)" by (cases x)
    show "case x of (space, number, name, rest) \<Rightarrow> length name \<noteq> 4 \<and> map_of (sc_hash ?sc1) (num_key space) \<noteq> None"
      using known [OF x] bspec [OF assms(9) x] by (simp add: e)
  qed
  have step: "index_of_row sc' x = sc' \<or> sc_hash (index_of_row sc' x) = sc_hash sc'" for sc' x
    by (cases x) (auto simp: put_index_keeps split: option.splits)
  have a2: "beer_schema_add_indexes M mem ?sc1 r' = Some (0, foldl index_of_row ?sc1 indexes)"
    unfolding beer_schema_add_indexes_def
  proof (rule conjunct1, rule msgpuck_laws.add_reply_rows [OF assms(1,8) obj(2), where I = "\<lambda>s. sc_hash s = sc_hash ?sc1"])
    fix buf and sc' :: beer_schema and x p s
    assume x: "sc_hash sc' = sc_hash ?sc1" "x \<in> set indexes" "drop p buf = index_bytes M x @ s"
    have "map_of (sc_hash sc') (num_key (fst x)) \<noteq> None" unfolding x(1) by (rule known [OF x(2)])
    moreover have "index_row_ok M x" using bspec [OF assms(9) x(2)] by (rule conjunct1)
    ultimately have "beer_schema_add_index M mem sc' buf p = Some (0, index_of_row sc' x, p + length (index_bytes M x))"
      by (intro msgpuck_laws.add_index_row [OF assms(1) x(3) _ assms(2)])
    moreover have "sc_hash (index_of_row sc' x) = sc_hash ?sc1" using step [of sc' x] x(1) by (elim disjE) (simp_all only:)
    ultimately show "beer_schema_add_index M mem sc' buf p = Some (0, index_of_row sc' x, p + length (index_bytes M x)) \<and>
        sc_hash (index_of_row sc' x) = sc_hash ?sc1" by (rule conjI)
  qed simp
  have "schema_inv ?sc1" "names_apart ?sc1" using sp by (rule conjunct1, rule conjunct1 [OF conjunct2])
  note res = indexes_of_rows [OF this ix assms(11)]
  let ?sc2 = "foldl index_of_row ?sc1 indexes"
  have keep: "beer_schema_stosid ?sc2 x = beer_schema_stosid ?sc1 x" for x
    using res by (elim conjE) (rule spec)
  have "\<forall>(number, owner, name, rest) \<in> set spaces. beer_schema_stosid ?sc2 name = sint number"
    unfolding keep
  proof
    fix y assume "y \<in> set spaces"
    from bspec [OF sp3 this] show "case y of (number, owner, name, rest) \<Rightarrow> beer_schema_stosid ?sc1 name = sint number"
      by (cases y) simp
  qed
  moreover have "schema_inv ?sc2 \<and> (\<forall>(space, number, name, rest) \<in> set indexes. beer_schema_stoiid ?sc2 space name = sint number)"
    using res by (elim conjE) (rule conjI)
  ultimately show ?thesis using a1 a2 by blast
qed

section \<open>Releasing the table\<close>

text \<open>Walking over keys: what is released is gone from the table, so nothing is released twice.\<close>

definition release_ok :: "('i \<Rightarrow> bytes) \<Rightarrow> ('i \<Rightarrow> u32) \<Rightarrow> (bytes \<times> 'i) list \<times> 'i list \<Rightarrow> bool" where
  "release_ok name number st \<longleftrightarrow> distinct (snd st) \<and>
     (\<forall>(k, i) \<in> set (fst st). (k = name i \<or> k = num_key (number i)) \<and> i \<notin> set (snd st))"

lemma set_delete: "set (AList.delete x al) = {p \<in> set al. fst p \<noteq> x}"
  by (auto simp: AList.delete_eq)

lemma release_at_ok:
  assumes "release_ok name number st"
  shows "release_ok name number (release_at name number k st)" "set (fst (release_at name number k st)) \<subseteq> set (fst st)"
    "k \<notin> fst ` set (fst (release_at name number k st))"
proof -
  show "set (fst (release_at name number k st)) \<subseteq> set (fst st)"
    by (auto simp: release_at_def set_delete split: option.splits)
  have "k \<notin> fst ` set (fst (release_at name number k st)) \<and> release_ok name number (release_at name number k st)"
  proof (cases "map_of (fst st) k")
    case None
    then have "release_at name number k st = st" by (simp add: release_at_def)
    with assms None show ?thesis by (simp add: map_of_eq_None_iff)
  next
    case (Some i)
    from map_of_SomeD [OF Some] assms have "k = name i \<or> k = num_key (number i)" "i \<notin> set (snd st)"
      by (auto simp: release_ok_def)
    with Some assms show ?thesis by (auto simp: release_at_def set_delete release_ok_def)
  qed
  then show "k \<notin> fst ` set (fst (release_at name number k st))" "release_ok name number (release_at name number k st)" by auto
qed

lemma release_walk:
  assumes "release_ok name number st"
  shows "release_ok name number (fold (release_at name number) ks st) \<and> set (fst (fold (release_at name number) ks st)) \<subseteq> set (fst st) \<and>
    fst ` set (fst (fold (release_at name number) ks st)) \<inter> set ks = {}"
  using assms
proof (induction ks arbitrary: st)
  case (Cons k ks)
  note r = release_at_ok [OF Cons.prems, of k]
  have "fst ` set (fst (fold (release_at name number) (k # ks) st)) \<subseteq> fst ` set (fst (release_at name number k st))"
    using Cons.IH [OF r(1)] by auto
  with Cons.IH [OF r(1)] r(2,3) show ?case by auto
qed simp

lemma release_all_once:
  fixes tab :: "(bytes \<times> 'i) list"
  assumes "\<forall>(k, i) \<in> set tab. k = name i \<or> k = num_key (number i)"
  shows "fst (release_all name number tab) = []" "distinct (snd (release_all name number tab))"
proof -
  have "release_ok name number (tab, [])" using assms by (auto simp: release_ok_def)
  from release_walk [OF this, of "map fst tab"]
  have "fst ` set (fst (release_all name number tab)) \<inter> fst ` set tab = {}" "set (fst (release_all name number tab)) \<subseteq> set tab"
    "distinct (snd (release_all name number tab))"
    by (simp_all add: release_all_def release_ok_def)
  moreover have "A = []" if "fst ` set A \<inter> fst ` set tab = {}" "set A \<subseteq> set tab" for A :: "(bytes \<times> 'i) list"
    using that by (cases A) auto
  ultimately show "fst (release_all name number tab) = []" "distinct (snd (release_all name number tab))" by blast+
qed

lemma space_free_once:
  assumes "schema_inv sc"
  shows "fst (beer_schema_space_free sc) = []" "distinct (snd (beer_schema_space_free sc))"
  using assms release_all_once [of "sc_hash sc" "\<lambda>i. sv_name (sc_spaces sc ! i)" "\<lambda>i. sv_number (sc_spaces sc ! i)"]
  by (auto simp: beer_schema_space_free_def schema_inv_def)

lemma beer_schema_flush_inv: "schema_inv sc \<Longrightarrow> schema_inv (beer_schema_flush sc)"
  by (simp add: beer_schema_flush_def space_free_once schema_inv_def)

text \<open>An entry that both its keys lead to is released by the walk; then each entry of the table is released exactly once.\<close>

definition paired :: "('i \<Rightarrow> bytes) \<Rightarrow> ('i \<Rightarrow> u32) \<Rightarrow> (bytes \<times> 'i) list \<Rightarrow> bool" where
  "paired name number tab \<longleftrightarrow> distinct (map fst tab) \<and>
     (\<forall>(k, i) \<in> set tab. (k = name i \<or> k = num_key (number i)) \<and> map_of tab (name i) = Some i \<and> map_of tab (num_key (number i)) = Some i)"

lemma paired_release_ok: "paired name number tab \<Longrightarrow> release_ok name number (tab, [])"
  by (auto simp: paired_def release_ok_def)

lemma release_at_paired:
  assumes "paired name number (fst st)"
  shows "paired name number (fst (release_at name number k st)) \<and>
    snd ` set (fst st) \<union> set (snd st) = snd ` set (fst (release_at name number k st)) \<union> set (snd (release_at name number k st))"
proof (cases "map_of (fst st) k")
  case None
  then have "release_at name number k st = st" by (simp add: release_at_def)
  with assms show ?thesis by simp
next
  case (Some i)
  define tab where "tab = fst st"
  define tab' where "tab' = AList.delete (name i) (AList.delete (num_key (number i)) tab)"
  have r: "release_at name number k st = (tab', snd st @ [i])" using Some by (simp add: release_at_def tab'_def tab_def)
  have d: "distinct (map fst tab)" and p: "\<And>k j. (k, j) \<in> set tab \<Longrightarrow> (k = name j \<or> k = num_key (number j)) \<and>
      map_of tab (name j) = Some j \<and> map_of tab (num_key (number j)) = Some j"
    using assms by (auto simp: paired_def tab_def)
  have i: "(k, i) \<in> set tab" "map_of tab (name i) = Some i" "map_of tab (num_key (number i)) = Some i"
    using map_of_SomeD [OF Some] p [of k i] by (auto simp: tab_def)
  have s: "set tab' = {q \<in> set tab. fst q \<noteq> name i \<and> fst q \<noteq> num_key (number i)}" by (auto simp: tab'_def set_delete)
  have same: "j = i" if "(k', j) \<in> set tab" "k' = name i \<or> k' = num_key (number i)" for k' j
    using map_of_is_SomeI [OF d that(1)] that(2) i(2,3) by (metis option.inject)
  have other: "name j \<noteq> name i \<and> name j \<noteq> num_key (number i) \<and> num_key (number j) \<noteq> name i \<and> num_key (number j) \<noteq> num_key (number i)"
    if "(k', j) \<in> set tab" "j \<noteq> i" for k' j
    using p [OF that(1)] i(2,3) that(2) by (metis option.inject)
  have "paired name number tab'"
    unfolding paired_def
  proof (intro conjI ballI)
    show "distinct (map fst tab')" using d unfolding tab'_def by (intro distinct_delete)
    fix q assume q: "q \<in> set tab'"
    obtain k' j where kj: "q = (k', j)" by (cases q)
    with q s have t: "(k', j) \<in> set tab" "k' \<noteq> name i" "k' \<noteq> num_key (number i)" by auto
    then have "j \<noteq> i" using p [OF t(1)] by metis
    note o = other [OF t(1) this]
    have "map_of tab' x = map_of tab x" if "x \<noteq> name i" "x \<noteq> num_key (number i)" for x
      using that by (simp add: tab'_def AList.delete_conv')
    then show "case q of (k, i) \<Rightarrow> (k = name i \<or> k = num_key (number i)) \<and> map_of tab' (name i) = Some i \<and> map_of tab' (num_key (number i)) = Some i"
      unfolding kj prod.case using p [OF t(1)] o by metis
  qed
  moreover have "snd ` set tab = insert i (snd ` set tab')"
  proof
    show "snd ` set tab \<subseteq> insert i (snd ` set tab')"
    proof
      fix j assume "j \<in> snd ` set tab"
      then obtain k' where k: "(k', j) \<in> set tab" by force
      show "j \<in> insert i (snd ` set tab')"
      proof (cases "k' = name i \<or> k' = num_key (number i)")
        case True
        then show ?thesis using same [OF k] by simp
      next
        case False
        with k have "(k', j) \<in> set tab'" by (simp add: s)
        then show ?thesis by force
      qed
    qed
    show "insert i (snd ` set tab') \<subseteq> snd ` set tab" using i(1) by (force simp: s)
  qed
  ultimately show ?thesis unfolding r tab_def fst_conv snd_conv by simp
qed

lemma release_all_each:
  assumes "paired name number tab"
  shows "set (snd (release_all name number tab)) = snd ` set tab"
proof -
  have "paired name number (fst (fold (release_at name number) ks st)) \<and> snd ` set (fst st) \<union> set (snd st) =
      snd ` set (fst (fold (release_at name number) ks st)) \<union> set (snd (fold (release_at name number) ks st))"
    if "paired name number (fst st)" for ks st
    using that
  proof (induction ks arbitrary: st)
    case (Cons k ks)
    from release_at_paired [OF Cons.prems, of k] Cons.IH [of "release_at name number k st"] show ?case by simp
  qed simp
  from this [of "(tab, [])" "map fst tab"] assms
  have "snd ` set tab = snd ` set (fst (release_all name number tab)) \<union> set (snd (release_all name number tab))"
    by (simp add: release_all_def)
  moreover have "fst (release_all name number tab) = []"
    using assms by (intro release_all_once) (auto simp: paired_def)
  ultimately show ?thesis by simp
qed

text \<open>The table of spaces.\<close>

definition spaces_paired :: "beer_schema \<Rightarrow> bool" where
  "spaces_paired sc \<longleftrightarrow> paired (\<lambda>i. sv_name (sc_spaces sc ! i)) (\<lambda>i. sv_number (sc_spaces sc ! i)) (sc_hash sc)"

lemma put_space_paired:
  assumes "schema_inv sc" "spaces_paired sc" "name \<notin> fst ` set (sc_hash sc)" "num_key number \<notin> fst ` set (sc_hash sc)" "length name \<noteq> 4"
  shows "spaces_paired (put_space sc name number) \<and>
    snd ` set (sc_hash (put_space sc name number)) = insert (length (sc_spaces sc)) (snd ` set (sc_hash sc)) \<and>
    fst ` set (sc_hash (put_space sc name number)) = {name, num_key number} \<union> fst ` set (sc_hash sc)"
proof -
  let ?i = "length (sc_spaces sc)"
  have ne: "name \<noteq> num_key number" using assms(5) by auto
  have u: "AList.update k v al = al @ [(k, v)]" if "k \<notin> fst ` set al" for k and v :: nat and al
    using that by (induction al) auto
  have h: "sc_hash (put_space sc name number) = sc_hash sc @ [(name, ?i), (num_key number, ?i)]"
    using u [OF assms(3)] u [of "num_key number" "sc_hash sc @ [(name, ?i)]"] assms(4) ne
    by (simp add: put_space_def Let_def)
  have sp: "sc_spaces (put_space sc name number) = sc_spaces sc @ [\<lparr>sv_name = name, sv_number = number, sv_index = []\<rparr>]"
    by (simp add: put_space_def Let_def)
  have b: "i < ?i" if "(k, i) \<in> set (sc_hash sc)" for k i using assms(1) that by (auto simp: schema_inv_def)
  have m: "map_of (sc_hash sc @ r) x = (case map_of (sc_hash sc) x of None \<Rightarrow> map_of r x | Some y \<Rightarrow> Some y)" for r x
    by (simp add: map_add_def)
  have nn: "map_of (sc_hash sc) name = None" "map_of (sc_hash sc) (num_key number) = None"
    using assms(3,4) by (simp_all add: map_of_eq_None_iff)
  have "spaces_paired (put_space sc name number)"
    unfolding spaces_paired_def paired_def h sp
  proof (intro conjI ballI)
    show "distinct (map fst (sc_hash sc @ [(name, ?i), (num_key number, ?i)]))"
      using assms(2-4) ne by (auto simp: spaces_paired_def paired_def)
    fix q assume "q \<in> set (sc_hash sc @ [(name, ?i), (num_key number, ?i)])"
    then have "q \<in> set (sc_hash sc) \<or> q = (name, ?i) \<or> q = (num_key number, ?i)" by auto
    then consider (old) k i where "q = (k, i)" "(k, i) \<in> set (sc_hash sc)" | (new) "q = (name, ?i) \<or> q = (num_key number, ?i)"
      by (metis surj_pair)
    then show "case q of (k, i) \<Rightarrow>
        (k = sv_name ((sc_spaces sc @ [\<lparr>sv_name = name, sv_number = number, sv_index = []\<rparr>]) ! i) \<or>
         k = num_key (sv_number ((sc_spaces sc @ [\<lparr>sv_name = name, sv_number = number, sv_index = []\<rparr>]) ! i))) \<and>
        map_of (sc_hash sc @ [(name, ?i), (num_key number, ?i)]) (sv_name ((sc_spaces sc @ [\<lparr>sv_name = name, sv_number = number, sv_index = []\<rparr>]) ! i)) = Some i \<and>
        map_of (sc_hash sc @ [(name, ?i), (num_key number, ?i)]) (num_key (sv_number ((sc_spaces sc @ [\<lparr>sv_name = name, sv_number = number, sv_index = []\<rparr>]) ! i))) = Some i"
    proof cases
      case old
      with assms(2) have "(k = sv_name (sc_spaces sc ! i) \<or> k = num_key (sv_number (sc_spaces sc ! i))) \<and>
        map_of (sc_hash sc) (sv_name (sc_spaces sc ! i)) = Some i \<and> map_of (sc_hash sc) (num_key (sv_number (sc_spaces sc ! i))) = Some i"
        by (auto simp: spaces_paired_def paired_def)
      with old b [OF old(2)] show ?thesis by (simp add: nth_append m)
    next
      case new
      then show ?thesis using nn ne by (auto simp: m map_add_def)
    qed
  qed
  then show ?thesis by (auto simp: h)
qed

lemma spaces_of_rows_paired:
  assumes "sc_hash sc = []" "\<forall>r \<in> set rows. length (row_name_of r) \<noteq> 4" "distinct (map row_name_of rows)" "distinct (map fst rows)"
  shows "schema_inv (foldl space_of_row sc rows) \<and> spaces_paired (foldl space_of_row sc rows) \<and>
    length (sc_spaces (foldl space_of_row sc rows)) = length (sc_spaces sc) + length rows \<and>
    snd ` set (sc_hash (foldl space_of_row sc rows)) = {length (sc_spaces sc)..<length (sc_spaces sc) + length rows} \<and>
    fst ` set (sc_hash (foldl space_of_row sc rows)) = row_name_of ` set rows \<union> num_key ` fst ` set rows"
  using assms
proof (induction rows rule: rev_induct)
  case Nil
  then show ?case by (simp add: schema_inv_def spaces_paired_def paired_def)
next
  case (snoc r rows)
  let ?sc = "foldl space_of_row sc rows"
  obtain number owner name rest where r: "r = (number, owner, name, rest)" by (cases r)
  have ih: "schema_inv ?sc" "spaces_paired ?sc" "length (sc_spaces ?sc) = length (sc_spaces sc) + length rows"
    "snd ` set (sc_hash ?sc) = {length (sc_spaces sc)..<length (sc_spaces sc) + length rows}"
    "fst ` set (sc_hash ?sc) = row_name_of ` set rows \<union> num_key ` fst ` set rows"
    using snoc by auto
  have nm: "length name \<noteq> 4" using snoc.prems(2) r by simp
  have n1: "name \<notin> fst ` set (sc_hash ?sc)" using snoc.prems(3) r nm unfolding ih(5) by auto
  have n2: "num_key number \<notin> fst ` set (sc_hash ?sc)"
  proof
    assume "num_key number \<in> fst ` set (sc_hash ?sc)"
    then consider x where "x \<in> set rows" "num_key number = row_name_of x" | x where "x \<in> set rows" "num_key number = num_key (fst x)"
      unfolding ih(5) by auto
    then show False
    proof cases
      case 1
      then show False using snoc.prems(2) num_key_length [of number] by (auto simp del: num_key_length)
    next
      case 2
      then show False using snoc.prems(4) r by auto
    qed
  qed
  note pp = put_space_paired [OF ih(1,2) n1 n2 nm]
  have l: "length (sc_spaces (put_space ?sc name number)) = Suc (length (sc_spaces ?sc))" by (simp add: put_space_def Let_def)
  show ?case
    using pp put_space_inv [OF ih(1)] l ih(3-5) r by (auto simp: atLeastLessThanSuc)
qed

lemma index_rows_keep:
  "beer_schema_space_free (foldl index_of_row sc rows) = beer_schema_space_free sc"
proof (induction rows arbitrary: sc)
  case (Cons r rows)
  have "beer_schema_space_free (index_of_row sc r) = beer_schema_space_free sc"
    by (cases r) (simp add: beer_schema_space_free_def put_index_keeps split: option.split)
  with Cons show ?case by simp
qed simp

lemma space_rows_data:
  "sc_spaces (foldl space_of_row sc rows) = sc_spaces sc @ map (\<lambda>(number, owner, name, rest). \<lparr>sv_name = name, sv_number = number, sv_index = []\<rparr>) rows"
  by (induction rows rule: rev_induct) (auto simp: put_space_def Let_def)

lemma index_rows_data:
  "sv_name (sc_spaces (foldl index_of_row sc rows) ! i) = sv_name (sc_spaces sc ! i) \<and>
   sv_number (sc_spaces (foldl index_of_row sc rows) ! i) = sv_number (sc_spaces sc ! i)"
proof (induction rows arbitrary: sc)
  case (Cons r rows)
  have "sv_name (sc_spaces (index_of_row sc r) ! i) = sv_name (sc_spaces sc ! i) \<and>
    sv_number (sc_spaces (index_of_row sc r) ! i) = sv_number (sc_spaces sc ! i)"
    by (cases r) (simp add: put_index_keeps split: option.split)
  with Cons show ?case by simp
qed simp

text \<open>The entry of a loaded row.\<close>

lemma entry_of_row:
  assumes "j < length rows" "rows ! j = (number, owner, name, rest)"
  shows "sv_name (sc_spaces (foldl index_of_row (foldl space_of_row sc rows) indexes) ! (length (sc_spaces sc) + j)) = name \<and>
    sv_number (sc_spaces (foldl index_of_row (foldl space_of_row sc rows) indexes) ! (length (sc_spaces sc) + j)) = number"
  using assms by (simp add: index_rows_data space_rows_data nth_append)

lemma spaces_released:
  assumes "sc_hash sc = []" "\<forall>r \<in> set rows. length (row_name_of r) \<noteq> 4" "distinct (map row_name_of rows)" "distinct (map fst rows)"
  shows "set (snd (beer_schema_space_free (foldl index_of_row (foldl space_of_row sc rows) indexes)))
    = {length (sc_spaces sc)..<length (sc_spaces sc) + length rows}"
  unfolding index_rows_keep
  using spaces_of_rows_paired [OF assms] release_all_each unfolding beer_schema_space_free_def spaces_paired_def by metis

end
