(* ===== verification/Reply_Iter.thy ===== *)
theory Reply_Iter
  imports Beer_Reply Beer_Iter
begin

text \<open>
  The iterator over the replies of a stream (\<open>beer_iter_reply\<close> in \<open>beer/beer_iter.c\<close>), over any stream: \<open>rd\<close> is
  the stream's \<open>read_reply\<close>, which returns 1 when there is nothing more to read and -1 on a failure.
\<close>

type_synonym 's read_reply = "'s \<Rightarrow> beer_reply_struct \<Rightarrow> (int \<times> beer_reply_struct \<times> 's) option"

record 's reply_itr =
  ri_stream :: 's
  ri_reply :: beer_reply_struct

definition beer_iter_reply :: "bool \<Rightarrow> bool \<Rightarrow> 's \<Rightarrow> 's reply_itr beer_iter option" where
  "beer_iter_reply i mem s =
     (case beer_iter_init i mem of
        None \<Rightarrow> None
      | Some alloc \<Rightarrow> Some \<lparr>i_status = BEER_ITER_OK, i_alloc = alloc,
          i_data = \<lparr>ri_stream = s, ri_reply = zero_reply False\<rparr>\<rparr>)"

definition beer_iter_reply_next :: "allocator \<Rightarrow> 's read_reply \<Rightarrow> 's reply_itr beer_iter \<Rightarrow> (bool \<times> 's reply_itr beer_iter) option" where
  "beer_iter_reply_next A rd i = do {
     let ir = i_data i;
     r \<leftarrow> beer_reply_free A (ri_reply ir);
     let r = zero_reply False;
     (rc, r, s) \<leftarrow> rd (ri_stream ir) r;
     let i = i\<lparr>i_data := \<lparr>ri_stream = s, ri_reply = r\<rparr>\<rparr>;
     if rc = -1 then Some (False, i\<lparr>i_status := BEER_ITER_FAIL\<rparr>)
     else Some (rc \<noteq> 1, i) }"

definition beer_iter_reply_free :: "allocator \<Rightarrow> 's reply_itr beer_iter \<Rightarrow> 's reply_itr beer_iter option" where
  "beer_iter_reply_free A i = do {
     r \<leftarrow> beer_reply_free A (ri_reply (i_data i));
     Some (i\<lparr>i_data := (i_data i)\<lparr>ri_reply := r\<rparr>\<rparr>) }"

text \<open>\<open>beer_iter_free\<close> calls the iterator's \<open>free\<close>, which only the reply iterator has.\<close>

definition beer_iter_free :: "('x beer_iter \<Rightarrow> 'x beer_iter option) option \<Rightarrow> 'x beer_iter \<Rightarrow> unit option" where
  "beer_iter_free free i = (case free of None \<Rightarrow> Some () | Some f \<Rightarrow> map_option (\<lambda>_. ()) (f i))"

text \<open>The reply that the iterator holds is never freed twice.\<close>

definition reply_owned :: "beer_reply_struct \<Rightarrow> bool" where
  "reply_owned r \<longleftrightarrow> rp_buf r \<noteq> Dangling"

lemma reply_owned_free: "reply_owned r \<Longrightarrow> \<exists>r'. beer_reply_free A r = Some r' \<and> rp_buf r' = Null"
  by (cases "rp_buf r") (simp_all add: reply_owned_def beer_reply_free_def)

lemma beer_iter_reply_next_reads:
  assumes "reply_owned (ri_reply (i_data i))" "rd (ri_stream (i_data i)) (zero_reply False) = Some (rc, r, s)"
  shows "beer_iter_reply_next A rd i = Some (rc \<noteq> -1 \<and> rc \<noteq> 1,
    i\<lparr>i_data := \<lparr>ri_stream = s, ri_reply = r\<rparr>, i_status := (if rc = -1 then BEER_ITER_FAIL else i_status i)\<rparr>)"
proof -
  obtain r0 where "beer_reply_free A (ri_reply (i_data i)) = Some r0" using reply_owned_free [OF assms(1)] by blast
  with assms(2) show ?thesis by (simp add: beer_iter_reply_next_def Let_def)
qed

end
