(* ===== verification/Beer_Net.thy ===== *)
theory Beer_Net
  imports Io_Transport Beer_Connect Beer_Auth Beer_Schema Beer_Response Reply_Iter
begin

text \<open>
  The network stream (\<open>beer/beer_net.c\<close>, \<open>include/bee/beer_net.h\<close>): reading and writing through
  \<open>Beer_Io\<close>, replies, the options, connecting with authentication and the loading of the schema.  The atomic
  operations on \<open>wrcnt\<close> are plain ones here: the model has one thread.

  What is shown: what is written arrives in order, whatever is sent at once; a reply is read however it was cut on the way;
  both for any transport, and a failure is reported.
\<close>

type_synonym 'w net = "('w, beer_schema option) stream_net"
type_synonym 'w net_stream = "'w net beer_stream"

section \<open>The operations of the stream\<close>

definition beer_net_read :: "'w net_sys \<Rightarrow> 'w net_stream \<Rightarrow> nat \<Rightarrow> (int \<times> bytes \<times> 'w net_stream) option" where
  "beer_net_read T s n = do {
     (rc, bs, sn) \<leftarrow> beer_io_recv T (s_data s) n;
     Some (rc, bs, s\<lparr>s_data := sn\<rparr>) }"

definition beer_net_write :: "'w net_sys \<Rightarrow> 'w net_stream \<Rightarrow> bytes \<Rightarrow> (int \<times> 'w net_stream) option" where
  "beer_net_write T s buf = do {
     (rc, sn) \<leftarrow> beer_io_send T (s_data s) buf;
     let s = s\<lparr>s_data := sn\<rparr>;
     Some (rc, if rc \<noteq> -1 then s\<lparr>s_wrcnt := s_wrcnt s + 1\<rparr> else s) }"

definition beer_net_writev :: "'w net_sys \<Rightarrow> 'w net writev" where
  "beer_net_writev T s iov = do {
     (rc, sn) \<leftarrow> beer_io_sendv T (s_data s) iov;
     let s = s\<lparr>s_data := sn\<rparr>;
     Some (rc, if rc \<noteq> -1 then s\<lparr>s_wrcnt := s_wrcnt s + 1\<rparr> else s) }"

definition beer_net_recv_cb :: "'w net_sys \<Rightarrow> 'w net_stream beer_reply_t" where
  "beer_net_recv_cb T s n = do {
     (rc, bs, sn) \<leftarrow> beer_io_recv T (s_data s) n;
     Some (rc, bs, s\<lparr>s_data := sn\<rparr>) }"

definition beer_net_reply :: "msgpuck \<Rightarrow> allocator \<Rightarrow> 'w net_sys \<Rightarrow> 'w net_stream read_reply" where
  "beer_net_reply M A T s r =
     (if s_wrcnt s = 0 then Some (1, r, s)
      else do {
        (rc, r, s) \<leftarrow> beer_reply_from M A (beer_net_recv_cb T) (s\<lparr>s_wrcnt := s_wrcnt s - 1\<rparr>) r;
        Some (rc, r, s) })"

section \<open>Life of a stream\<close>

definition zero_iob :: iob where
  "zero_iob = \<lparr>io_buf = Null, io_off = 0, io_top = 0, io_size = 0, io_tx = False, io_txv = False\<rparr>"

text \<open>The schema's own block is not followed; releasing a stream that has none is undefined, \<open>beer_schema_free\<close> looks into it.\<close>

definition beer_net_free :: "allocator \<Rightarrow> 'w net_sys \<Rightarrow> 'w net_stream \<Rightarrow> 'w option" where
  "beer_net_free A T s = do {
     let sn = beer_io_close T (s_data s);
     _ \<leftarrow> (if sn_greeting sn = Null then Some () else beer_mem_free A (sn_greeting sn));
     _ \<leftarrow> beer_iob_free A (sn_sbuf sn);
     _ \<leftarrow> beer_iob_free A (sn_rbuf sn);
     _ \<leftarrow> beer_opt_free A (sn_opt sn);
     _ \<leftarrow> sn_schema sn;
     Some (sn_world sn) }"

text \<open>
  \<open>m1\<close>, \<open>m2\<close>, \<open>m3\<close>: whether the stream, its data and the block of the URI could be had.  When the greeting or the
  options fail, the new stream is released, which is undefined for want of a schema, and returned.
\<close>

definition beer_net :: "allocator \<Rightarrow> bool \<Rightarrow> bool \<Rightarrow> bool \<Rightarrow> 'w \<Rightarrow> 'w net_stream option option" where
  "beer_net A m1 m2 m3 w =
     (if \<not> m1 \<or> \<not> m2 then Some None
      else do {
        g \<leftarrow> beer_mem_alloc A BEER_GREETING_SIZE;
        let (rc, opt) = beer_opt_init m3;
        if g = Null \<or> rc = -1 then None
        else Some (Some (beer_stream_init \<lparr>sn_opt = opt, sn_connected = False, sn_fd = -1, sn_sbuf = zero_iob, sn_rbuf = zero_iob,
          sn_error = BEER_EOK, sn_errno = 0, sn_greeting = g, sn_schema = None, sn_inited = False, sn_world = w\<rparr>)) })"

definition beer_set :: "allocator \<Rightarrow> uri_parser \<Rightarrow> 'w net_stream \<Rightarrow> beer_opt_arg \<Rightarrow> (int \<times> 'w net_stream) option" where
  "beer_set A parse s arg = do {
     (e, opt) \<leftarrow> beer_opt_set A parse (sn_opt (s_data s)) arg;
     Some (if e = BEER_EOK then 0 else -1, s\<lparr>s_data := (s_data s)\<lparr>sn_error := e, sn_opt := opt\<rparr>\<rparr>) }"

text \<open>The buffer sizes are converted to \<open>size_t\<close>.\<close>

definition as_size :: "int \<Rightarrow> nat" where
  "as_size n = nat (n mod 18446744073709551616)"

definition beer_init :: "allocator \<Rightarrow> mem_ok \<Rightarrow> 'w net_stream \<Rightarrow> (int \<times> 'w net_stream) option" where
  "beer_init A mem s =
     (let sn = s_data s; opt = sn_opt sn; fail = (\<lambda>sn. Some (-1, s\<lparr>s_data := sn\<lparr>sn_error := BEER_EMEMORY\<rparr>\<rparr>)) in
      case beer_schema_new None mem of
        None \<Rightarrow> fail (sn\<lparr>sn_schema := None\<rparr>)
      | Some sch \<Rightarrow> do {
          let sn = sn\<lparr>sn_schema := Some sch\<rparr>;
          (rc, b) \<leftarrow> beer_iob_init A (as_size (o_send_buf opt)) (o_send_cb opt) (o_send_cbv opt);
          let sn = sn\<lparr>sn_sbuf := b\<rparr>;
          if rc = -1 then fail sn
          else do {
            (rc, b) \<leftarrow> beer_iob_init A (as_size (o_recv_buf opt)) (o_recv_cb opt) False;
            let sn = sn\<lparr>sn_rbuf := b\<rparr>;
            if rc = -1 then fail sn
            else Some (0, s\<lparr>s_data := sn\<lparr>sn_inited := True\<rparr>\<rparr>) } })"

definition beer_flush :: "'w net_sys \<Rightarrow> 'w net_stream \<Rightarrow> (int \<times> 'w net_stream) option" where
  "beer_flush T s = do { (rc, sn) \<leftarrow> beer_io_flush T (s_data s); Some (rc, s\<lparr>s_data := sn\<rparr>) }"

definition beer_close :: "'w net_sys \<Rightarrow> 'w net_stream \<Rightarrow> 'w net_stream" where
  "beer_close T s =
     (let sn = s_data s; sn = sn\<lparr>sn_sbuf := beer_iob_clear (sn_sbuf sn), sn_rbuf := beer_iob_clear (sn_rbuf sn)\<rparr>
      in s\<lparr>s_data := beer_io_close T sn, s_wrcnt := 0, s_reqid := 0\<rparr>)"

definition beer_fd :: "'w net_stream \<Rightarrow> int" where
  "beer_fd s = sn_fd (s_data s)"

definition beer_error_get :: "'w net_stream \<Rightarrow> beer_error" where
  "beer_error_get s = sn_error (s_data s)"

fun beer_error_list :: "beer_error \<Rightarrow> string option" where
  "beer_error_list BEER_EOK = Some ''ok''"
| "beer_error_list BEER_EFAIL = Some ''fail''"
| "beer_error_list BEER_EMEMORY = Some ''memory allocation failed''"
| "beer_error_list BEER_ESYSTEM = Some ''system error''"
| "beer_error_list BEER_EBIG = Some ''buffer is too big''"
| "beer_error_list BEER_ESIZE = Some ''bad buffer size''"
| "beer_error_list BEER_ERESOLVE = Some ''gethostbyname(2) failed''"
| "beer_error_list BEER_ETMOUT = Some ''operation timeout''"
| "beer_error_list BEER_EBADVAL = Some ''bad argument''"
| "beer_error_list BEER_ELOGIN = Some ''failed to login''"
| "beer_error_list BEER_LAST = None"

text \<open>\<open>sysmsg\<close> prints the system's message for a number, cut to the 255 characters of the static buffer.\<close>

definition beer_strerror :: "(int \<Rightarrow> string) \<Rightarrow> 'w net_stream \<Rightarrow> string option" where
  "beer_strerror sysmsg s =
     (if sn_error (s_data s) = BEER_ESYSTEM then Some (take 255 (sysmsg (sn_errno (s_data s))))
      else beer_error_list (sn_error (s_data s)))"

definition beer_errno :: "'w net_stream \<Rightarrow> int" where
  "beer_errno s = sn_errno (s_data s)"

definition beer_get_spaceno :: "'w net_stream \<Rightarrow> bytes \<Rightarrow> int option" where
  "beer_get_spaceno s space = map_option (\<lambda>sch. beer_schema_stosid sch space) (sn_schema (s_data s))"

definition beer_get_indexno :: "'w net_stream \<Rightarrow> u32 \<Rightarrow> bytes \<Rightarrow> int option" where
  "beer_get_indexno s spaceno index = map_option (\<lambda>sch. beer_schema_stoiid sch spaceno index) (sn_schema (s_data s))"

section \<open>Loading the schema\<close>

definition on_schema :: "(beer_schema \<Rightarrow> (int \<times> beer_schema) option) \<Rightarrow> 'w net_stream \<Rightarrow> 'w net_stream option" where
  "on_schema f s = do {
     sch \<leftarrow> sn_schema (s_data s);
     (_, sch) \<leftarrow> f sch;
     Some (s\<lparr>s_data := (s_data s)\<lparr>sn_schema := Some sch\<rparr>\<rparr>) }"

text \<open>
  The loop over the replies: spaces answer to sync 127, indexes to 128.  Indexes that come first are kept aside, with their
  block, until the end.  \<open>Inl\<close> is the jump to \<open>error\<close>.
\<close>

partial_function (option) reload_loop :: "msgpuck \<Rightarrow> allocator \<Rightarrow> mem_ok \<Rightarrow> 'w net_sys \<Rightarrow> 'w net_stream reply_itr beer_iter
    \<Rightarrow> beer_reply_struct \<Rightarrow> int \<Rightarrow> ('w net_stream reply_itr beer_iter + 'w net_stream reply_itr beer_iter \<times> beer_reply_struct \<times> int) option"
where
  "reload_loop M A mem T it bkp sloaded = do {
     (more, it) \<leftarrow> beer_iter_reply_next A (beer_net_reply M A T) it;
     if \<not> more then Some (Inr (it, bkp, sloaded))
     else
       (let r = ri_reply (i_data it); s = ri_stream (i_data it) in
        if rp_sync r = 127 then
          if rp_error r \<noteq> None then Some (Inl it)
          else do {
            s \<leftarrow> on_schema (\<lambda>sch. beer_schema_add_spaces M mem sch r) s;
            reload_loop M A mem T (it\<lparr>i_data := (i_data it)\<lparr>ri_stream := s\<rparr>\<rparr>) bkp (sloaded + 1) }
        else if rp_sync r = 128 then
          if rp_error r \<noteq> None then Some (Inl it)
          else if even sloaded then
            reload_loop M A mem T (it\<lparr>i_data := (i_data it)\<lparr>ri_reply := r\<lparr>rp_buf := Null\<rparr>\<rparr>\<rparr>) r sloaded
          else do {
            s \<leftarrow> on_schema (\<lambda>sch. beer_schema_add_indexes M mem sch r) s;
            reload_loop M A mem T (it\<lparr>i_data := (i_data it)\<lparr>ri_stream := s\<rparr>\<rparr>) bkp (sloaded + 2) }
        else Some (Inl it)) }"

definition beer_reload_schema :: "msgpuck \<Rightarrow> allocator \<Rightarrow> mem_ok \<Rightarrow> 'w net_sys \<Rightarrow> bool \<Rightarrow> bool \<Rightarrow> 'w net_stream \<Rightarrow> (int \<times> 'w net_stream) option" where
  "beer_reload_schema M A mem T m1 m2 s =
     (if \<not> sn_connected (s_data s) \<or> s_wrcnt s \<noteq> 0 then Some (-1, s)
      else do {
        let (oldsync, s) = beer_stream_reqid s 127;
        (_, s) \<leftarrow> beer_get_space M A (beer_net_writev T) m1 m2 s;
        (_, s) \<leftarrow> beer_get_index M A (beer_net_writev T) m1 m2 s;
        let (_, s) = beer_stream_reqid s oldsync;
        (_, s) \<leftarrow> beer_flush T s;
        it \<leftarrow> beer_iter_reply True True s;
        res \<leftarrow> reload_loop M A mem T it (zero_reply False) 0;
        case res of
          Inl it \<Rightarrow> do { _ \<leftarrow> beer_iter_free (Some (beer_iter_reply_free A)) it; Some (-1, ri_stream (i_data it)) }
        | Inr (it, bkp, sloaded) \<Rightarrow> do {
            let s = ri_stream (i_data it);
            (s, sloaded) \<leftarrow>
              (if rp_buf bkp \<noteq> Null then do {
                 s \<leftarrow> on_schema (\<lambda>sch. beer_schema_add_indexes M mem sch bkp) s;
                 _ \<leftarrow> beer_reply_free A bkp;
                 Some (s, sloaded + 2) }
               else Some (s, sloaded));
            _ \<leftarrow> beer_iter_free (Some (beer_iter_reply_free A)) it;
            Some (if sloaded \<noteq> 3 then -1 else 0, s) } })"

section \<open>Connecting\<close>

definition BEER_ER_PASSWORD_MISMATCH :: u64 where
  "BEER_ER_PASSWORD_MISMATCH = 47"

definition text_len :: "bytes option \<Rightarrow> nat" where
  "text_len b = (case b of None \<Rightarrow> 0 | Some b \<Rightarrow> length b)"

definition beer_authenticate :: "msgpuck \<Rightarrow> (bytes \<Rightarrow> bytes) \<Rightarrow> (bytes \<Rightarrow> bytes) \<Rightarrow> allocator \<Rightarrow> mem_ok \<Rightarrow> 'w net_sys \<Rightarrow> bool \<Rightarrow> bool
    \<Rightarrow> 'w net_stream \<Rightarrow> (int \<times> 'w net_stream) option" where
  "beer_authenticate M sha1 base64 A mem T m1 m2 s =
     (if \<not> sn_connected (s_data s) \<or> s_wrcnt s \<noteq> 0 then Some (-1, s)
      else do {
        uri \<leftarrow> o_uri (sn_opt (s_data s));
        (_, s) \<leftarrow> beer_auth M sha1 base64 (beer_net_writev T) s (u_login uri) (text_len (u_login uri)) (u_password uri) (text_len (u_password uri));
        (_, s) \<leftarrow> beer_flush T s;
        (rc, rep, s) \<leftarrow> beer_net_reply M A T s (zero_reply False);
        if rc = -1 then Some (-1, s)
        else if rp_error rep \<noteq> None then
          Some (-1, if rp_code rep = BEER_ER_PASSWORD_MISMATCH then s\<lparr>s_data := (s_data s)\<lparr>sn_error := BEER_ELOGIN\<rparr>\<rparr> else s)
        else do {
          _ \<leftarrow> beer_reply_free A rep;
          (_, s) \<leftarrow> beer_reload_schema M A mem T m1 m2 s;
          Some (0, s) } })"

definition beer_connect :: "msgpuck \<Rightarrow> (bytes \<Rightarrow> bytes) \<Rightarrow> (bytes \<Rightarrow> bytes) \<Rightarrow> allocator \<Rightarrow> mem_ok \<Rightarrow> 'w net_sys \<Rightarrow> 'w conn_sys \<Rightarrow> bool \<Rightarrow> bool
    \<Rightarrow> 'w net_stream \<Rightarrow> (int \<times> 'w net_stream) option" where
  "beer_connect M sha1 base64 A mem T C m1 m2 s = do {
     (_, s) \<leftarrow> (if sn_inited (s_data s) then Some (0, s) else beer_init A mem s);
     let s = (if sn_connected (s_data s) then beer_close T s else s);
     (e, sn) \<leftarrow> beer_io_connect T C (s_data s);
     let s = s\<lparr>s_data := sn\<lparr>sn_error := e\<rparr>\<rparr>;
     if e \<noteq> BEER_EOK then Some (-1, s)
     else do {
       (rc, bs, s) \<leftarrow> beer_net_read T s BEER_GREETING_SIZE;
       g \<leftarrow> (case sn_greeting (s_data s) of Live g \<Rightarrow> poke 0 bs g | _ \<Rightarrow> None);
       let s = s\<lparr>s_data := (s_data s)\<lparr>sn_greeting := Live g\<rparr>\<rparr>;
       if rc = -1 \<or> sn_error (s_data s) \<noteq> BEER_EOK then Some (-1, s)
       else do {
         uri \<leftarrow> o_uri (sn_opt (s_data s));
         if u_login uri \<noteq> None \<and> u_password uri \<noteq> None then do {
           (rc, s) \<leftarrow> beer_authenticate M sha1 base64 A mem T m1 m2 s;
           Some (if rc = -1 then -1 else 0, s) }
         else Some (0, s) } } }"

section \<open>Writing\<close>

lemma net_writes_succeeds:
  "net_writes sent s bs rv s' \<Longrightarrow> rv \<noteq> -1 \<Longrightarrow>
     rv = int (length bs) \<and> net_inv s' \<and> sn_rbuf s' = sn_rbuf s \<and> net_out sent s' = net_out sent s @ bs"
  by (auto simp: net_writes_def)

lemma net_writes_inv: "net_writes sent s bs rv s' \<Longrightarrow> net_inv s'"
  by (simp add: net_writes_def)

context transport begin

lemma net_writev_writes:
  assumes "net_inv (s_data s)"
  shows "\<exists>rv s'. beer_net_writev T s iov = Some (rv, s') \<and> net_writes sent (s_data s) (concat iov) rv (s_data s') \<and>
    write_excused T (sn_sbuf (s_data s)) (concat iov) (iov = [] \<or> hd iov \<noteq> []) rv \<and>
    s_reqid s' = s_reqid s \<and> s_wrcnt s' = (if rv = -1 then s_wrcnt s else s_wrcnt s + 1)"
  using sendv_writes [OF assms, of iov] by (auto simp: beer_net_writev_def Let_def)

lemma net_write_writes:
  assumes "net_inv (s_data s)"
  shows "\<exists>rv s'. beer_net_write T s bs = Some (rv, s') \<and> net_writes sent (s_data s) bs rv (s_data s') \<and>
    write_excused T (sn_sbuf (s_data s)) bs (bs \<noteq> []) rv \<and>
    s_reqid s' = s_reqid s \<and> s_wrcnt s' = (if rv = -1 then s_wrcnt s else s_wrcnt s + 1)"
  using send_writes [OF assms, of bs] by (auto simp: beer_net_write_def Let_def)

lemma net_flush_sends:
  assumes "net_inv (s_data s)"
  shows "\<exists>rv s'. beer_flush T s = Some (rv, s') \<and> net_inv (s_data s') \<and> s_reqid s' = s_reqid s \<and> s_wrcnt s' = s_wrcnt s \<and>
    sn_rbuf (s_data s') = sn_rbuf (s_data s) \<and>
    (rv = -1 \<and> sn_sbuf (s_data s') = sn_sbuf (s_data s) \<and> sn_error (s_data s') = BEER_ESYSTEM \<and> declines T \<or>
     0 \<le> rv \<and> io_waiting (sn_sbuf (s_data s')) = [] \<and> sent (sn_world (s_data s')) = net_out sent (s_data s))"
  using flush_sends [OF assms] by (auto simp: beer_flush_def)

end

text \<open>The network stream is a sink for the request functions, as the buffer stream is.\<close>

sublocale transport \<subseteq> net: byte_sink "\<lambda>T'. T' = T" beer_net_writev net_inv "net_out sent"
proof
  fix e :: "'w net_sys" and s :: "'w net_stream" and iov :: "bytes list"
  assume a: "e = T" "net_inv (s_data s)" "concat iov \<noteq> []"
  obtain rv s' where r: "beer_net_writev T s iov = Some (rv, s')" "net_writes sent (s_data s) (concat iov) rv (s_data s')"
    "s_reqid s' = s_reqid s" "s_wrcnt s' = (if rv = -1 then s_wrcnt s else s_wrcnt s + 1)"
    using net_writev_writes [OF a(2)] by blast
  show "\<exists>rv s'. beer_net_writev e s iov = Some (rv, s') \<and> s_reqid s' = s_reqid s \<and>
      (rv = -1 \<and> s_wrcnt s' = s_wrcnt s \<or>
       rv = int (length (concat iov)) \<and> net_inv (s_data s') \<and>
       net_out sent (s_data s') = net_out sent (s_data s) @ concat iov \<and> s_wrcnt s' = s_wrcnt s + 1)"
  proof (cases "rv = -1")
    case False
    with r net_writes_succeeds [OF r(2)] a(1) show ?thesis by auto
  qed (use r a(1) in auto)
qed

text \<open>A request function on a network stream: a failure, or one frame behind what has been written so far.\<close>

lemma net_request:
  assumes "msgpuck_laws M" "transport T sent incoming patience" "net_inv (s_data s)" "sends M (beer_net_writev T) s r op fs"
    "length fs \<le> 8" "\<forall>f \<in> set fs. mp_obj M (snd f) \<and> length (snd f) \<le> 1152921504606846976"
  shows "\<exists>rv s'. r = Some (rv, s') \<and> s_reqid s' = s_reqid s + 1 \<and> net_inv (s_data s') \<and>
    (rv = -1 \<and> s_wrcnt s' = s_wrcnt s \<and> sn_sbuf (s_data s') = sn_sbuf (s_data s) \<and>
       (declines T \<or> io_buf (sn_sbuf (s_data s)) \<noteq> Null \<and> io_size (sn_sbuf (s_data s)) < length (frame M (op_code op) (s_reqid s) fs)) \<or>
     (\<exists>fr. rv = int (length fr) \<and> s_wrcnt s' = s_wrcnt s + 1 \<and> net_out sent (s_data s') = net_out sent (s_data s) @ fr \<and>
       (\<forall>rest. parse_frame M (fr @ rest) = Some ((ucast (op_code op), s_reqid s, fs), rest))))"
proof -
  have fits: "package_fits M op (s_reqid s) fs" using assms(5,6) by (intro msgpuck_laws.package_fitsI [OF assms(1)]) auto
  then obtain iov where iov: "r = beer_net_writev T (snd (next_reqid s)) iov" "concat iov = frame M (op_code op) (s_reqid s) fs"
    "hd iov \<noteq> []"
    using msgpuck_laws.sends_frame [OF assms(1,4)] by blast
  have inv: "net_inv (s_data (snd (next_reqid s)))" using assms(3) by simp
  obtain rv s' where w: "beer_net_writev T (snd (next_reqid s)) iov = Some (rv, s')" "net_writes sent (s_data s) (concat iov) rv (s_data s')"
    "s_reqid s' = s_reqid s + 1" "s_wrcnt s' = (if rv = -1 then s_wrcnt s else s_wrcnt s + 1)"
    "rv = -1 \<longrightarrow> declines T \<or> io_buf (sn_sbuf (s_data s)) \<noteq> Null \<and> io_size (sn_sbuf (s_data s)) < length (concat iov)"
    using transport.net_writev_writes [OF assms(2) inv, of iov] iov(3) by (auto simp: write_excused_def)
  have "\<forall>rest. parse_frame M (frame M (op_code op) (s_reqid s) fs @ rest) = Some ((ucast (op_code op), s_reqid s, fs), rest)"
    using msgpuck_laws.parse_package [OF assms(1), of fs "op_code op" "s_reqid s"] assms(5,6) fits by (simp add: package_fits_def)
  with w iov show ?thesis by (cases "rv = -1") (auto simp: net_writes_def)
qed

text \<open>Several writes, up to the first that fails.\<close>

fun net_write_all :: "'w net_sys \<Rightarrow> 'w net_stream \<Rightarrow> bytes list \<Rightarrow> (bool \<times> 'w net_stream) option" where
  "net_write_all T s [] = Some (True, s)"
| "net_write_all T s (b # bs) = do {
     (rc, s) \<leftarrow> beer_net_write T s b;
     if rc = -1 then Some (False, s) else net_write_all T s bs }"

text \<open>A write changes neither the size of the send buffer nor whether there is one.\<close>

lemma beer_net_write_frame:
  assumes "beer_net_write T s bs = Some (rv, s')"
  shows "io_size (sn_sbuf (s_data s')) = io_size (sn_sbuf (s_data s))"
    "io_buf (sn_sbuf (s_data s')) = Null \<longleftrightarrow> io_buf (sn_sbuf (s_data s)) = Null"
proof -
  have raw: "sn_sbuf u = sn_sbuf t" if "beer_io_send_raw T t x True = Some (r, u)" for t u :: "'a net" and r x
    using that by (auto simp: beer_io_send_raw_def bind_eq_Some_conv Let_def split: if_splits)
  have store: "io_size c = io_size b \<and> io_buf c \<noteq> Null \<and> io_buf b \<noteq> Null" if "io_store b x = Some c" for b c x
    using that by (auto simp: io_store_def split: blk.splits)
  from assms obtain sn where sn: "beer_io_send T (s_data s) bs = Some (rv, sn)" "s_data s' = sn"
    by (auto simp: beer_net_write_def bind_eq_Some_conv Let_def)
  from sn(1) have "io_size (sn_sbuf sn) = io_size (sn_sbuf (s_data s)) \<and> (io_buf (sn_sbuf sn) = Null \<longleftrightarrow> io_buf (sn_sbuf (s_data s)) = Null)"
    by (auto simp: beer_io_send_def bind_eq_Some_conv split: if_splits dest!: raw store)
  then show "io_size (sn_sbuf (s_data s')) = io_size (sn_sbuf (s_data s))"
    "io_buf (sn_sbuf (s_data s')) = Null \<longleftrightarrow> io_buf (sn_sbuf (s_data s)) = Null" using sn(2) by simp_all
qed

definition write_fits :: "'w net_stream \<Rightarrow> bytes \<Rightarrow> bool" where
  "write_fits s b \<longleftrightarrow> b \<noteq> [] \<and> (io_buf (sn_sbuf (s_data s)) = Null \<or> length b \<le> io_size (sn_sbuf (s_data s)))"

lemma net_write_all_appends:
  assumes "transport T sent incoming patience" "net_inv (s_data s)"
  shows "\<exists>ok s'. net_write_all T s bss = Some (ok, s') \<and> net_inv (s_data s') \<and>
    (ok \<longrightarrow> net_out sent (s_data s') = net_out sent (s_data s) @ concat bss \<and> s_wrcnt s' = s_wrcnt s + word_of_nat (length bss)) \<and>
    (\<not> declines T \<and> (\<forall>b \<in> set bss. write_fits s b) \<longrightarrow> ok)"
  using assms(2)
proof (induction bss arbitrary: s)
  case (Cons b bss)
  obtain rv s1 where w: "beer_net_write T s b = Some (rv, s1)" "net_writes sent (s_data s) b rv (s_data s1)"
    "s_wrcnt s1 = (if rv = -1 then s_wrcnt s else s_wrcnt s + 1)" "write_excused T (sn_sbuf (s_data s)) b (b \<noteq> []) rv"
    using transport.net_write_writes [OF assms(1) Cons.prems, of b] by blast
  have fits: "write_fits s1 x \<longleftrightarrow> write_fits s x" for x
    using beer_net_write_frame [OF w(1)] by (simp add: write_fits_def)
  have inv: "net_inv (s_data s1)" by (rule net_writes_inv [OF w(2)])
  show ?case
  proof (cases "rv = -1")
    case True
    with w(1) have "net_write_all T s (b # bss) = Some (False, s1)" by simp
    moreover have "\<not> (\<not> declines T \<and> write_fits s b)" using True w(4) by (auto simp: write_excused_def write_fits_def)
    ultimately show ?thesis using inv by auto
  next
    case False
    with net_writes_succeeds [OF w(2)] w(3) have o: "net_out sent (s_data s1) = net_out sent (s_data s) @ b" "s_wrcnt s1 = s_wrcnt s + 1" by auto
    obtain ok s' where r: "net_write_all T s1 bss = Some (ok, s')" "net_inv (s_data s')"
      "ok \<longrightarrow> net_out sent (s_data s') = net_out sent (s_data s1) @ concat bss \<and> s_wrcnt s' = s_wrcnt s1 + word_of_nat (length bss)"
      "\<not> declines T \<and> (\<forall>b \<in> set bss. write_fits s1 b) \<longrightarrow> ok"
      using Cons.IH [OF inv] by blast
    have "net_write_all T s (b # bss) = Some (ok, s')" using w(1) False r(1) by simp
    with r(2-4) o show ?thesis unfolding fits by (intro exI [of _ ok] exI [of _ s']) (auto simp: algebra_simps)
  qed
qed (simp, blast)

text \<open>Authentication on a network stream: the salt comes from the greeting.\<close>

lemma net_auth_request:
  assumes "msgpuck_laws M" "transport T sent incoming patience" "net_inv (s_data s)" "sn_greeting (s_data s) = Live g"
    "sends M (beer_net_writev T) s (beer_auth_raw M sha1 base64 (beer_net_writev T) s user ulen pass plen (drop 64 g))
       BEER_OP_AUTH (auth_fields M name scr)" "length name < 4294967296" "\<And>sc. scr = Some sc \<Longrightarrow> length sc = 20"
  shows "\<exists>rv s'. beer_auth M sha1 base64 (beer_net_writev T) s user ulen pass plen = Some (rv, s') \<and> net_inv (s_data s') \<and>
    (rv = -1 \<and> (declines T \<or> io_buf (sn_sbuf (s_data s)) \<noteq> Null \<and>
       io_size (sn_sbuf (s_data s)) < length (frame M 7 (s_reqid s) (auth_fields M name scr))) \<or>
     (\<exists>fr. rv = int (length fr) \<and> net_out sent (s_data s') = net_out sent (s_data s) @ fr \<and>
       (\<forall>rest. parse_frame M (fr @ rest) = Some ((7, s_reqid s, auth_fields M name scr), rest))))"
proof -
  have f: "\<forall>f \<in> set (auth_fields M name scr). mp_obj M (snd f) \<and> length (snd f) \<le> 1152921504606846976"
    using msgpuck_laws.auth_field_objs [OF assms(1,6), of scr] assms(6,7)
      msgpuck_laws.strl_length [OF assms(1), of "word_of_nat (length name)"] msgpuck_laws.strl_length [OF assms(1), of "word_of_nat (length chap_sha1)"]
      msgpuck_laws.strl_length [OF assms(1), of "word_of_nat 20"]
    by (cases scr) (simp_all add: auth_fields_def msgpuck_laws.enc_str [OF assms(1)] msgpuck_laws.len_array [OF assms(1)] chap_sha1_def)
  have "length (auth_fields M name scr) \<le> 8" by (simp add: auth_fields_def)
  from net_request [OF assms(1-3,5) this f] assms(4) show ?thesis
    by (auto simp: beer_auth_def BEER_VERSION_SIZE_def)
qed

lemma net_auth:
  assumes "msgpuck_laws M" "transport T sent incoming patience" "net_inv (s_data s)" "\<And>x. length (sha1 x) = 20"
    "sn_greeting (s_data s) = Live g" "length g = 128" "20 \<le> length (base64 (take 44 (drop 64 g)))"
    "ulen = (case user of None \<Rightarrow> 0 | Some u \<Rightarrow> length u)" "ulen < 4294967296"
  obtains rv s' name scr where
    "beer_auth M sha1 base64 (beer_net_writev T) s user ulen (Some pass) (length pass) = Some (rv, s')" "net_inv (s_data s')"
    "if is_guest user ulen then name = guest_name \<and> scr = None
     else user = Some name \<and> (\<exists>sc. scr = Some sc \<and> server_accepts sha1 (base64 (take 44 (drop 64 g))) (sha1 (sha1 pass)) sc)"
    "rv = -1 \<and> (declines T \<or> io_buf (sn_sbuf (s_data s)) \<noteq> Null \<and>
       io_size (sn_sbuf (s_data s)) < length (frame M 7 (s_reqid s) (auth_fields M name scr))) \<or>
     (\<exists>fr. rv = int (length fr) \<and> net_out sent (s_data s') = net_out sent (s_data s) @ fr \<and>
       (\<forall>rest. parse_frame M (fr @ rest) = Some ((7, s_reqid s, auth_fields M name scr), rest)))"
proof (cases "is_guest user ulen")
  case True
  have l: "length guest_name < 4294967296" by (simp add: guest_name_def)
  obtain rv s' where "beer_auth M sha1 base64 (beer_net_writev T) s user ulen (Some pass) (length pass) = Some (rv, s')" "net_inv (s_data s')"
    "rv = -1 \<and> (declines T \<or> io_buf (sn_sbuf (s_data s)) \<noteq> Null \<and>
       io_size (sn_sbuf (s_data s)) < length (frame M 7 (s_reqid s) (auth_fields M guest_name None))) \<or>
     (\<exists>fr. rv = int (length fr) \<and> net_out sent (s_data s') = net_out sent (s_data s) @ fr \<and>
       (\<forall>rest. parse_frame M (fr @ rest) = Some ((7, s_reqid s, auth_fields M guest_name None), rest)))"
    using net_auth_request [where ?sha1.0 = sha1 and ?base64.0 = base64, OF assms(1-3,5)
        msgpuck_laws.beer_auth_raw_guest_sends [OF assms(1) True] l, of "Some pass" "length pass"] by auto
  with True that show ?thesis by auto
next
  case False
  then obtain u where u: "user = Some u" "ulen = length u" using assms(8) by (auto simp: is_guest_def split: option.splits)
  have g: "44 \<le> length (drop 64 g)" using assms(6) by simp
  obtain sc where sc: "server_accepts sha1 (base64 (take 44 (drop 64 g))) (sha1 (sha1 pass)) sc" "length sc = 20"
    "sends M (beer_net_writev T) s (beer_auth_raw M sha1 base64 (beer_net_writev T) s (Some u) (length u) (Some pass) (length pass) (drop 64 g))
       BEER_OP_AUTH (auth_fields M u (Some sc))"
    by (rule msgpuck_laws.beer_auth_raw_sends [where M = M and wv = "beer_net_writev T" and s = s and ?sha1.0 = sha1 and
        salt = "drop 64 g" and ?base64.0 = base64 and user = u and pass = pass, OF assms(1) assms(4) g assms(7) False [unfolded u]])
  have l: "length u < 4294967296" using assms(9) u(2) by simp
  obtain rv s' where "beer_auth M sha1 base64 (beer_net_writev T) s user ulen (Some pass) (length pass) = Some (rv, s')" "net_inv (s_data s')"
    "rv = -1 \<and> (declines T \<or> io_buf (sn_sbuf (s_data s)) \<noteq> Null \<and>
       io_size (sn_sbuf (s_data s)) < length (frame M 7 (s_reqid s) (auth_fields M u (Some sc)))) \<or>
     (\<exists>fr. rv = int (length fr) \<and> net_out sent (s_data s') = net_out sent (s_data s) @ fr \<and>
       (\<forall>rest. parse_frame M (fr @ rest) = Some ((7, s_reqid s, auth_fields M u (Some sc)), rest)))"
    unfolding u using net_auth_request [OF assms(1-3,5) sc(3) l] sc(2) by auto
  moreover have "if is_guest user ulen then u = guest_name \<and> Some sc = None
     else user = Some u \<and> (\<exists>sc'. Some sc = Some sc' \<and> server_accepts sha1 (base64 (take 44 (drop 64 g))) (sha1 (sha1 pass)) sc')"
    using False u(1) sc(1) by simp
  ultimately show ?thesis using that by blast
qed

section \<open>Reading replies\<close>

context transport begin

lemma net_recv_reads:
  assumes "net_inv (s_data s)"
  shows "\<exists>rv bs s'. beer_net_recv_cb T s n = Some (rv, bs, s') \<and> net_reads incoming (s_data s) n rv bs (s_data s') \<and>
    read_excused T incoming (net_in incoming (s_data s)) n rv \<and>
    s_reqid s' = s_reqid s \<and> s_wrcnt s' = s_wrcnt s"
  using recv_reads [OF assms, of n] by (auto simp: beer_net_recv_cb_def)

end

text \<open>What \<open>beer_net_reply\<close> does with the next bytes when they are a response.\<close>

definition net_replied :: "msgpuck \<Rightarrow> ('w \<Rightarrow> bytes) \<Rightarrow> (u64 \<times> u64) list \<Rightarrow> fields \<Rightarrow> bytes \<Rightarrow> int \<Rightarrow> beer_reply_struct \<Rightarrow> 'w net_stream \<Rightarrow> bool" where
  "net_replied M incoming hs fs tail rc r s \<longleftrightarrow>
     rc = -1 \<and> rp_buf r = Null \<and> sn_error (s_data s) = BEER_ESYSTEM \<or>
     rc = 0 \<and> (\<exists>pl. reply_package M hs fs = package pl \<and> reply_holds M hs fs pl r) \<and> net_inv (s_data s) \<and> net_in incoming (s_data s) = tail"

lemma net_reply:
  assumes "msgpuck_laws M" "transport T sent incoming patience" "alloc_total A" "net_inv (s_data s)" "s_wrcnt s \<noteq> 0"
    "known_header hs" "length hs < 4294967296" "known_body fs" "\<forall>f \<in> set fs. response_field M f" "length fs < 4294967296"
    "length (reply_package M hs fs) < 4294967296" "net_in incoming (s_data s) = reply_package M hs fs @ tail"
  shows "\<exists>rc r' s'. beer_net_reply M A T s r = Some (rc, r', s') \<and> s_wrcnt s' = s_wrcnt s - 1 \<and> s_reqid s' = s_reqid s \<and>
    sn_sbuf (s_data s') = sn_sbuf (s_data s) \<and> net_replied M incoming hs fs tail rc r' s' \<and>
    (rc = -1 \<longrightarrow> (\<exists>m < length (reply_package M hs fs). refuses T incoming (drop m (net_in incoming (s_data s)))))"
proof -
  define pl where "pl = body_bytes M (uint_fields M hs) @ body_bytes M fs"
  have pk: "reply_package M hs fs = package pl" by (simp add: reply_package_def pl_def)
  have len: "length pl + 5 < 4294967296" using assms(11) by (simp add: pk package_def luint_def split: if_splits)
  have ne: "pl \<noteq> []" using msgpuck_laws.body_hd(1) [OF assms(1)] by (simp add: pl_def)
  have p5: "length (package pl) = 5 + length pl" "package pl = take 5 (package pl) @ pl"
    using len by (simp_all add: package_def luint_def)
  let ?s = "s\<lparr>s_wrcnt := s_wrcnt s - 1\<rparr>"
  have inv: "net_inv (s_data ?s)" using assms(4) by simp
  obtain rv1 bs1 s1 where r1: "beer_net_recv_cb T ?s 5 = Some (rv1, bs1, s1)" "net_reads incoming (s_data s) 5 rv1 bs1 (s_data s1)"
    "s_reqid s1 = s_reqid s" "s_wrcnt s1 = s_wrcnt s - 1" "read_excused T incoming (net_in incoming (s_data s)) 5 rv1"
    using transport.net_recv_reads [OF assms(2) inv, of 5] by auto
  show ?thesis
  proof (cases "rv1 = -1")
    case True
    then obtain m where "m < 5" "refuses T incoming (drop m (net_in incoming (s_data s)))"
      using r1(5) by (auto simp: read_excused_def)
    then have "\<exists>m < length (reply_package M hs fs). refuses T incoming (drop m (net_in incoming (s_data s)))"
      unfolding pk p5(1) by (intro exI [of _ m]) simp
    with True r1 assms(5) show ?thesis
      by (simp add: beer_net_reply_def beer_reply_from_def rollback_def Let_def net_replied_def net_reads_def) (simp add: zero_reply_def)
  next
    case False
    with r1(2) have s1: "length bs1 = 5" "net_inv (s_data s1)" "net_in incoming (s_data s) = bs1 @ net_in incoming (s_data s1)"
      "sn_sbuf (s_data s1) = sn_sbuf (s_data s)" "rv1 = 5"
      by (auto simp: net_reads_def)
    have "bs1 @ net_in incoming (s_data s1) = take 5 (package pl) @ pl @ tail"
      using assms(12) s1(3) p5(2) by (metis append.assoc pk)
    then have b: "bs1 = take 5 (package pl)" "net_in incoming (s_data s1) = pl @ tail"
      using s1(1) p5(1) by (simp_all add: append_eq_append_conv)
    obtain rv2 bs2 s2 where r2: "beer_net_recv_cb T s1 (length pl) = Some (rv2, bs2, s2)"
      "net_reads incoming (s_data s1) (length pl) rv2 bs2 (s_data s2)" "s_reqid s2 = s_reqid s1" "s_wrcnt s2 = s_wrcnt s1"
      "read_excused T incoming (net_in incoming (s_data s1)) (length pl) rv2"
      using transport.net_recv_reads [OF assms(2) s1(2), of "length pl"] by auto
    show ?thesis
    proof (cases "rv2 = -1")
      case True
      then have l2: "length bs2 \<le> length pl" "sn_error (s_data s2) = BEER_ESYSTEM" "sn_sbuf (s_data s2) = sn_sbuf (s_data s1)"
        using r2(2) by (auto simp: net_reads_def)
      have from_cut: "beer_reply_from M A (beer_net_recv_cb T) ?s r = Some (-1, zero_reply (rp_alloc r), s2)"
        using msgpuck_laws.beer_reply_from_cut [OF assms(1) len assms(3) ne, of "beer_net_recv_cb T" ?s rv1 s1 bs2 s2 r]
          r1(1) r2(1) True s1(5) b(1) l2(1) by simp
      obtain m where m: "m < length pl" "refuses T incoming (drop m (net_in incoming (s_data s1)))"
        using r2(5) True ne by (auto simp: read_excused_def)
      have "drop (5 + m) (net_in incoming (s_data s)) = drop m (net_in incoming (s_data s1))" using s1(1,3) by simp
      moreover have "5 + m < length (reply_package M hs fs)" using m(1) by (simp add: pk p5(1))
      ultimately have "\<exists>m < length (reply_package M hs fs). refuses T incoming (drop m (net_in incoming (s_data s)))"
        using m(2) by metis
      with from_cut assms(5) r1(3,4) r2(3,4) s1(4) l2 show ?thesis
        by (simp add: beer_net_reply_def net_replied_def) (simp add: zero_reply_def)
    next
      case False
      with r2(2) have s2: "length bs2 = length pl" "net_inv (s_data s2)" "net_in incoming (s_data s1) = bs2 @ net_in incoming (s_data s2)"
        "sn_sbuf (s_data s2) = sn_sbuf (s_data s1)"
        by (auto simp: net_reads_def)
      then have b2: "bs2 = pl" "net_in incoming (s_data s2) = tail" using b(2) by (simp_all add: append_eq_append_conv)
      obtain r' where r': "beer_reply_package M pl (fresh_reply (rp_alloc r) pl) = Some (Inr (0, r'))" "reply_holds M hs fs pl r'"
        using msgpuck_laws.beer_package_read [OF assms(1,6-10) pl_def] by blast
      have "beer_reply_from M A (beer_net_recv_cb T) ?s r = Some (0, r', s2)"
        using msgpuck_laws.beer_reply_from_package [OF assms(1) len assms(3) ne, of "beer_net_recv_cb T" ?s rv1 s1 rv2 s2 r]
          r1(1) r2(1) False s1(5) b(1) b2(1) r'(1) by simp
      with assms(5) r1(3,4) r2(3,4) s1(4) s2 b2(2) r'(2) pk show ?thesis
        by (auto simp: beer_net_reply_def net_replied_def)
    qed
  qed
qed

end
