(* ===== verification/Beer_Log.thy ===== *)
theory Beer_Log
  imports Beer_Mem
begin

text \<open>
  The reader of write-ahead logs and snapshots (\<open>beerrpl/beer_log.c\<close>).  A \<open>FILE *\<close> is the bytes of the file and a
  position; reading follows the C library (\<open>fread\<close> of one item, \<open>fgetc\<close>, \<open>fgets\<close>, \<open>ftello\<close>, \<open>fseeko\<close>), and a read
  error is the end of the file.  The machine is little-endian, structures are packed.  The checksum, the opening of files
  and the functions of an older protocol that the library no longer declares (\<open>beer_request\<close>, \<open>beer_tuple_set_as\<close>)
  are the fields of \<open>log_env\<close>.  A record that does not hold what the code copies out of it is undefined.  A header that is
  cut short leaves the structure as it was; what the code has then put there is never read.
\<close>

unbundle bit_operations_syntax

section \<open>Data\<close>

datatype beer_log_error =
  BEER_LOG_EOK | BEER_LOG_EFAIL | BEER_LOG_EMEMORY | BEER_LOG_ETYPE | BEER_LOG_EVERSION | BEER_LOG_ECORRUPT
| BEER_LOG_ESYSTEM | BEER_LOG_LAST

datatype beer_log_type = BEER_LOG_NONE | BEER_LOG_XLOG | BEER_LOG_SNAPSHOT

type_synonym u16 = "16 word"

record log_header =
  lh_crc32_hdr :: u32
  lh_lsn :: u64
  lh_tm :: u64
  lh_len :: u32
  lh_crc32_data :: u32

record log_row =
  lr_tag :: u16
  lr_cookie :: u64
  lr_op :: u16

record log_row_snap =
  ls_tag :: u16
  ls_cookie :: u64
  ls_space :: u32
  ls_tuple_size :: u32
  ls_data_size :: u32

text \<open>Little-endian integers, and the memory of the packed structures.\<close>

definition le :: "nat \<Rightarrow> nat \<Rightarrow> bytes" where
  "le k n = rev (be k n)"

definition le_val :: "bytes \<Rightarrow> nat" where
  "le_val bs = be_val (rev bs)"

definition le_field :: "nat \<Rightarrow> nat \<Rightarrow> bytes \<Rightarrow> 'a :: len word" where
  "le_field off n bs = word_of_nat (le_val (take n (drop off bs)))"

definition header_of :: "bytes \<Rightarrow> log_header" where
  "header_of bs = \<lparr>lh_crc32_hdr = le_field 0 4 bs, lh_lsn = le_field 4 8 bs, lh_tm = le_field 12 8 bs,
     lh_len = le_field 20 4 bs, lh_crc32_data = le_field 24 4 bs\<rparr>"

definition log_row_of :: "bytes \<Rightarrow> log_row" where
  "log_row_of bs = \<lparr>lr_tag = le_field 0 2 bs, lr_cookie = le_field 2 8 bs, lr_op = le_field 10 2 bs\<rparr>"

definition row_snap_of :: "bytes \<Rightarrow> log_row_snap" where
  "row_snap_of bs = \<lparr>ls_tag = le_field 0 2 bs, ls_cookie = le_field 2 8 bs, ls_space = le_field 10 4 bs,
     ls_tuple_size = le_field 14 4 bs, ls_data_size = le_field 18 4 bs\<rparr>"

record 'v log_env =
  le_crc32c :: "bytes \<Rightarrow> u32"
  le_request :: "u16 \<Rightarrow> bytes \<Rightarrow> int \<times> 'v"
  le_tuple :: "u32 \<Rightarrow> bytes \<Rightarrow> 'v option"
  le_fopen :: "bytes \<Rightarrow> bytes option"
  le_stdin :: bytes
  le_sys_errno :: int

section \<open>Files\<close>

record lfile =
  lf_data :: bytes
  lf_pos :: nat
  lf_stdin :: bool

definition fread :: "nat \<Rightarrow> lfile \<Rightarrow> bytes option \<times> lfile" where
  "fread n f =
     (if n = 0 then (None, f)
      else if lf_pos f + n \<le> length (lf_data f) then (Some (take n (drop (lf_pos f) (lf_data f))), f\<lparr>lf_pos := lf_pos f + n\<rparr>)
      else (None, f\<lparr>lf_pos := max (lf_pos f) (length (lf_data f))\<rparr>))"

text \<open>Up to and including the next newline.\<close>

fun through_nl :: "bytes \<Rightarrow> bytes" where
  "through_nl [] = []"
| "through_nl (c # cs) = (if c = 10 then [c] else c # through_nl cs)"

definition fgets :: "nat \<Rightarrow> lfile \<Rightarrow> bytes option \<times> lfile" where
  "fgets n f =
     (let l = take (n - 1) (through_nl (drop (lf_pos f) (lf_data f))) in
      if l = [] then (None, f) else (Some l, f\<lparr>lf_pos := lf_pos f + length l\<rparr>))"

text \<open>\<open>strcmp\<close> of what \<open>fgets\<close> left in the buffer with a literal is 0: the string ends at the first zero byte.\<close>

definition same_string :: "bytes \<Rightarrow> bytes \<Rightarrow> bool" where
  "same_string l lit \<longleftrightarrow> takeWhile (\<lambda>c. c \<noteq> 0) l = lit"

section \<open>The log\<close>

record 'v beer_log =
  lg_type :: beer_log_type
  lg_fd :: "lfile option"
  lg_current_offset :: nat
  lg_offset :: nat
  lg_hdr :: log_header
  lg_row :: log_row
  lg_row_snap :: log_row_snap
  lg_current_value :: "'v option"
  lg_error :: beer_log_error
  lg_errno :: int

text \<open>\<open>memset\<close> to zero, as the streams initialise it.\<close>

definition zero_log :: "'v beer_log" where
  "zero_log = \<lparr>lg_type = BEER_LOG_NONE, lg_fd = None, lg_current_offset = 0, lg_offset = 0,
     lg_hdr = \<lparr>lh_crc32_hdr = 0, lh_lsn = 0, lh_tm = 0, lh_len = 0, lh_crc32_data = 0\<rparr>,
     lg_row = \<lparr>lr_tag = 0, lr_cookie = 0, lr_op = 0\<rparr>,
     lg_row_snap = \<lparr>ls_tag = 0, ls_cookie = 0, ls_space = 0, ls_tuple_size = 0, ls_data_size = 0\<rparr>,
     lg_current_value = None, lg_error = BEER_LOG_EOK, lg_errno = 0\<rparr>"

text \<open>\<open>strrchr\<close> and \<open>strcasecmp\<close> for the extension of a name.\<close>

fun strrchr :: "byte \<Rightarrow> bytes \<Rightarrow> bytes option" where
  "strrchr c [] = None"
| "strrchr c (x # xs) = (case strrchr c xs of None \<Rightarrow> if x = c then Some (x # xs) else None | Some e \<Rightarrow> Some e)"

definition tolower :: "byte \<Rightarrow> byte" where
  "tolower c = (if 65 \<le> c \<and> c \<le> 90 then c + 32 else c)"

definition ext_snap :: bytes where "ext_snap = [46, 115, 110, 97, 112]"
definition ext_xlog :: bytes where "ext_xlog = [46, 120, 108, 111, 103]"

definition beer_log_guess :: "bytes option \<Rightarrow> beer_log_type" where
  "beer_log_guess file =
     (case file of
        None \<Rightarrow> BEER_LOG_XLOG
      | Some name \<Rightarrow>
          (case strrchr 46 name of
             None \<Rightarrow> BEER_LOG_NONE
           | Some ext \<Rightarrow>
               if map tolower ext = ext_snap then BEER_LOG_SNAPSHOT
               else if map tolower ext = ext_xlog then BEER_LOG_XLOG
               else BEER_LOG_NONE))"

definition beer_log_seterr :: "'v log_env \<Rightarrow> 'v beer_log \<Rightarrow> beer_log_error \<Rightarrow> 'v beer_log" where
  "beer_log_seterr env l e = (let l = l\<lparr>lg_error := e\<rparr> in if e = BEER_LOG_ESYSTEM then l\<lparr>lg_errno := le_sys_errno env\<rparr> else l)"

definition beer_log_marker_v11 :: u32 where "beer_log_marker_v11 = 0xba0babed"
definition beer_log_marker_eof_v11 :: u32 where "beer_log_marker_eof_v11 = 0x10adab1e"

definition beer_log_eof :: "'v log_env \<Rightarrow> 'v beer_log \<Rightarrow> (int \<times> bytes option \<times> 'v beer_log) option" where
  "beer_log_eof env l = do {
     f \<leftarrow> lg_fd l;
     if lf_pos f = lg_offset l + 4 then
       (let (m, f) = fread 4 (f\<lparr>lf_pos := lg_offset l\<rparr>); l = l\<lparr>lg_fd := Some f\<rparr> in
        case m of
          None \<Rightarrow> Some (-1, None, beer_log_seterr env l BEER_LOG_ESYSTEM)
        | Some bs \<Rightarrow>
            if le_field 0 4 bs \<noteq> beer_log_marker_eof_v11 then Some (-1, None, beer_log_seterr env l BEER_LOG_ECORRUPT)
            else Some (1, None, l\<lparr>lg_offset := lf_pos f\<rparr>))
     else Some (1, None, l) }"

text \<open>The search for the marker: \<open>m\<close> holds the last four bytes; the result is the number of bytes read after them.\<close>

fun seek_marker :: "u32 \<Rightarrow> bytes \<Rightarrow> nat option" where
  "seek_marker m s =
     (if m = beer_log_marker_v11 then Some 0
      else case s of
        [] \<Rightarrow> None
      | c # s \<Rightarrow> map_option Suc (seek_marker (drop_bit 8 m OR push_bit 24 (ucast c)) s))"

declare seek_marker.simps [simp del]

definition beer_log_read :: "'v log_env \<Rightarrow> allocator \<Rightarrow> 'v beer_log \<Rightarrow> (int \<times> bytes option \<times> 'v beer_log) option" where
  "beer_log_read env A l = do {
     f \<leftarrow> lg_fd l;
     let l = l\<lparr>lg_current_offset := lf_pos f\<rparr>;
     let (m, f) = fread 4 f;
     case m of
       None \<Rightarrow> beer_log_eof env (l\<lparr>lg_fd := Some f\<rparr>)
     | Some bs \<Rightarrow>
         (case seek_marker (le_field 0 4 bs) (drop (lf_pos f) (lf_data f)) of
            None \<Rightarrow> beer_log_eof env (l\<lparr>lg_fd := Some (f\<lparr>lf_pos := length (lf_data f)\<rparr>)\<rparr>)
          | Some k \<Rightarrow>
              (let (h, f) = fread 28 (f\<lparr>lf_pos := lf_pos f + k\<rparr>) in
               case h of
                 None \<Rightarrow> beer_log_eof env (l\<lparr>lg_fd := Some f\<rparr>)
               | Some raw \<Rightarrow>
                   (let hdr = header_of raw; l = l\<lparr>lg_fd := Some f, lg_hdr := hdr, lg_offset := lf_pos f\<rparr> in
                    if le_crc32c env (drop 4 raw) \<noteq> lh_crc32_hdr hdr then Some (-1, None, beer_log_seterr env l BEER_LOG_ECORRUPT)
                    else do {
                      blk \<leftarrow> beer_mem_alloc A (unat (lh_len hdr));
                      if blk = Null then Some (-1, None, beer_log_seterr env l BEER_LOG_EMEMORY)
                      else
                        (let (d, f) = fread (unat (lh_len hdr)) f; l = l\<lparr>lg_fd := Some f\<rparr> in
                         case d of
                           None \<Rightarrow> beer_log_eof env l
                         | Some data \<Rightarrow>
                             if le_crc32c env data \<noteq> lh_crc32_data hdr
                             then Some (-1, None, beer_log_seterr env l BEER_LOG_ECORRUPT)
                             else Some (0, Some data, l)) }))) }"

text \<open>
  The two interpretations of a record.  \<open>memcpy\<close> of the row out of a shorter record, and a snapshot row
  whose size is not the one of its record, read outside the buffer.
\<close>

definition beer_log_process_xlog :: "'v log_env \<Rightarrow> 'v beer_log \<Rightarrow> bytes \<Rightarrow> (int \<times> 'v option \<times> 'v beer_log) option" where
  "beer_log_process_xlog env l buf = do {
     raw \<leftarrow> slice 0 12 buf;
     let l = l\<lparr>lg_row := log_row_of raw\<rparr>;
     payload \<leftarrow> slice 12 (unat (lh_len (lg_hdr l)) - 12) buf;
     let (rc, v) = le_request env (lr_op (lg_row l)) payload;
     if rc \<noteq> 0 then Some (-1, None, beer_log_seterr env l BEER_LOG_ECORRUPT) else Some (0, Some v, l) }"

definition beer_log_process_snapshot :: "'v log_env \<Rightarrow> 'v beer_log \<Rightarrow> bytes \<Rightarrow> (int \<times> 'v option \<times> 'v beer_log) option" where
  "beer_log_process_snapshot env l buf = do {
     raw \<leftarrow> slice 0 22 buf;
     let l = l\<lparr>lg_row_snap := row_snap_of raw\<rparr>;
     data \<leftarrow> slice 22 (unat (ls_data_size (lg_row_snap l))) buf;
     case le_tuple env (ls_tuple_size (lg_row_snap l)) data of
       None \<Rightarrow> Some (-1, None, beer_log_seterr env l BEER_LOG_ECORRUPT)
     | Some v \<Rightarrow> Some (0, Some v, l) }"

text \<open>\<open>l->process\<close>; a log of no type has none.\<close>

definition log_process :: "'v log_env \<Rightarrow> 'v beer_log \<Rightarrow> bytes \<Rightarrow> (int \<times> 'v option \<times> 'v beer_log) option" where
  "log_process env l buf =
     (case lg_type l of
        BEER_LOG_XLOG \<Rightarrow> beer_log_process_xlog env l buf
      | BEER_LOG_SNAPSHOT \<Rightarrow> beer_log_process_snapshot env l buf
      | BEER_LOG_NONE \<Rightarrow> None)"

text \<open>The result is the value, when a row is returned.\<close>

definition beer_log_next_to :: "'v log_env \<Rightarrow> allocator \<Rightarrow> 'v beer_log \<Rightarrow> ('v option \<times> 'v beer_log) option" where
  "beer_log_next_to env A l = do {
     (rc, buf, l) \<leftarrow> beer_log_read env A l;
     if rc \<noteq> 0 then Some (None, l)
     else do {
       buf \<leftarrow> buf;
       (rc, v, l) \<leftarrow> log_process env l buf;
       if rc \<noteq> 0 then Some (None, l) else Some (v, l) } }"

definition beer_log_next :: "'v log_env \<Rightarrow> allocator \<Rightarrow> 'v beer_log \<Rightarrow> ('v option \<times> 'v beer_log) option" where
  "beer_log_next env A l = do {
     (v, l) \<leftarrow> beer_log_next_to env A l;
     Some (v, if v = None then l else l\<lparr>lg_current_value := v\<rparr>) }"

section \<open>Opening and closing\<close>

definition beer_log_close :: "'v beer_log \<Rightarrow> 'v beer_log" where
  "beer_log_close l = l\<lparr>lg_fd := None\<rparr>"

definition beer_log_open_err :: "'v log_env \<Rightarrow> 'v beer_log \<Rightarrow> beer_log_error \<Rightarrow> int \<times> 'v beer_log" where
  "beer_log_open_err env l e = (-1, beer_log_close (beer_log_seterr env l e))"

definition BEER_LOG_MAGIC_XLOG :: bytes where "BEER_LOG_MAGIC_XLOG = [88, 76, 79, 71, 10]"
definition BEER_LOG_MAGIC_SNAP :: bytes where "BEER_LOG_MAGIC_SNAP = [83, 78, 65, 80, 10]"
definition BEER_LOG_VERSION :: bytes where "BEER_LOG_VERSION = [48, 46, 49, 49, 10]"

fun log_magic :: "beer_log_type \<Rightarrow> bytes" where
  "log_magic BEER_LOG_XLOG = BEER_LOG_MAGIC_XLOG"
| "log_magic BEER_LOG_SNAPSHOT = BEER_LOG_MAGIC_SNAP"
| "log_magic BEER_LOG_NONE = []"

lemma fgets_advances: "fgets n f = (Some l, f') \<Longrightarrow> lf_data f' = lf_data f \<and> lf_pos f < lf_pos f' \<and> lf_pos f < length (lf_data f)"
  by (auto simp: fgets_def Let_def split: if_splits) (metis drop_all not_le_imp_less through_nl.simps(1))

text \<open>The lines of the file's header, in pieces of at most 255 bytes, up to one that is only a line end.\<close>

function skip_lines :: "lfile \<Rightarrow> lfile option" where
  "skip_lines f =
     (case fgets 256 f of
        (None, f) \<Rightarrow> None
      | (Some l, f) \<Rightarrow> if same_string l [10] \<or> same_string l [13, 10] then Some f else skip_lines f)"
  by pat_completeness auto
termination
  by (relation "measure (\<lambda>f. length (lf_data f) - lf_pos f)") (auto dest!: fgets_advances [OF sym])

declare skip_lines.simps [simp del]

definition beer_log_open :: "'v log_env \<Rightarrow> 'v beer_log \<Rightarrow> bytes option \<Rightarrow> beer_log_type \<Rightarrow> int \<times> 'v beer_log" where
  "beer_log_open env l file type =
     (let l = l\<lparr>lg_type := type\<rparr>;
          fd = (case file of None \<Rightarrow> Some (le_stdin env, True) | Some name \<Rightarrow> map_option (\<lambda>d. (d, False)) (le_fopen env name)) in
      case fd of
        None \<Rightarrow> beer_log_open_err env (l\<lparr>lg_fd := None\<rparr>) BEER_LOG_ESYSTEM
      | Some (data, std) \<Rightarrow>
          (let (filetype, f) = fgets 32 \<lparr>lf_data = data, lf_pos = 0, lf_stdin = std\<rparr> in
           case filetype of
             None \<Rightarrow> beer_log_open_err env l BEER_LOG_ESYSTEM
           | Some filetype \<Rightarrow>
               (let (version, f) = fgets 32 f in
                case version of
                  None \<Rightarrow> beer_log_open_err env l BEER_LOG_ESYSTEM
                | Some version \<Rightarrow>
                    if \<not> same_string filetype (log_magic type) then beer_log_open_err env l BEER_LOG_ETYPE
                    else if \<not> same_string version BEER_LOG_VERSION then beer_log_open_err env l BEER_LOG_EVERSION
                    else
                      (case skip_lines f of
                         None \<Rightarrow> beer_log_open_err env l BEER_LOG_EFAIL
                       | Some f \<Rightarrow> (0, l\<lparr>lg_fd := Some f, lg_offset := lf_pos f, lg_current_offset := 0, lg_current_value := None\<rparr>)))))"

text \<open>\<open>fseeko\<close> to a position before the file's start fails.\<close>

definition beer_log_seek :: "'v beer_log \<Rightarrow> nat \<Rightarrow> (int \<times> 'v beer_log) option" where
  "beer_log_seek l offset = do {
     f \<leftarrow> lg_fd l;
     Some (0, l\<lparr>lg_offset := offset, lg_fd := Some (f\<lparr>lf_pos := offset\<rparr>)\<rparr>) }"

fun beer_log_error_list :: "beer_log_error \<Rightarrow> string option" where
  "beer_log_error_list BEER_LOG_EOK = Some ''ok''"
| "beer_log_error_list BEER_LOG_EFAIL = Some ''fail''"
| "beer_log_error_list BEER_LOG_EMEMORY = Some ''memory allocation failed''"
| "beer_log_error_list BEER_LOG_ETYPE = Some ''file type mismatch''"
| "beer_log_error_list BEER_LOG_EVERSION = Some ''file version mismatch''"
| "beer_log_error_list BEER_LOG_ECORRUPT = Some ''file crc failed or bad eof marker''"
| "beer_log_error_list BEER_LOG_ESYSTEM = Some ''system error''"
| "beer_log_error_list BEER_LOG_LAST = None"

text \<open>\<open>sysmsg\<close>: the formatted message of the system for an error number.\<close>

definition beer_log_strerror :: "(int \<Rightarrow> string) \<Rightarrow> 'v beer_log \<Rightarrow> string option" where
  "beer_log_strerror sysmsg l =
     (if lg_error l = BEER_LOG_ESYSTEM then Some (take 255 (sysmsg (lg_errno l))) else beer_log_error_list (lg_error l))"

end
