(* ===== verification/Beer_Dir.thy ===== *)
theory Beer_Dir
  imports Beer_Log Beer_Connect "HOL-Library.Multiset"
begin

text \<open>
  The list of the logs or snapshots of a directory (\<open>beerrpl/beer_dir.c\<close>), sorted by the sequence number in the
  name.  The entries of the directory are a parameter; \<open>qsort\<close> is the stable sort, which differs from it at most in the order of files with
  one number.  \<open>files\<close> is \<open>None\<close> for NULL; the number of entries it has room for is local to the scan.
\<close>

datatype beer_dir_type = BEER_DIR_XLOG | BEER_DIR_SNAPSHOT

record beer_dir_file =
  df_lsn :: u64
  df_name :: blk

record beer_dir =
  bd_type :: beer_dir_type
  bd_path :: blk
  bd_files :: "beer_dir_file list option"
  bd_count :: nat

definition beer_dir_init :: "beer_dir_type \<Rightarrow> beer_dir" where
  "beer_dir_init ty = \<lparr>bd_type = ty, bd_path = Null, bd_files = None, bd_count = 0\<rparr>"

fun free_names :: "allocator \<Rightarrow> beer_dir_file list \<Rightarrow> unit option" where
  "free_names A [] = Some ()"
| "free_names A (f # fs) = do {
     _ \<leftarrow> (if df_name f = Null then Some () else beer_mem_free A (df_name f));
     free_names A fs }"

text \<open>The count stays what it was.\<close>

definition beer_dir_free :: "allocator \<Rightarrow> beer_dir \<Rightarrow> beer_dir option" where
  "beer_dir_free A d = do {
     d \<leftarrow> (if bd_path d = Null then Some d
        else do { _ \<leftarrow> beer_mem_free A (bd_path d); Some (d\<lparr>bd_path := Null\<rparr>) });
     case bd_files d of
       None \<Rightarrow> Some d
     | Some fs \<Rightarrow>
         if length fs < bd_count d then None
         else do { _ \<leftarrow> free_names A (take (bd_count d) fs); Some (d\<lparr>bd_files := None\<rparr>) } }"

text \<open>\<open>sizeof(struct beer_dir_file)\<close> is 16.\<close>

definition beer_dir_put :: "allocator \<Rightarrow> beer_dir \<Rightarrow> nat \<Rightarrow> bytes \<Rightarrow> u64 \<Rightarrow> (int \<times> nat \<times> beer_dir) option" where
  "beer_dir_put A d limit name lsn = do {
     let grow = (bd_count d = limit);
     let limit = (if grow then if limit = 0 then 128 else limit * 2 else limit);
     let d = (if grow then d\<lparr>bd_files := (if A (16 * limit) = None then None
          else Some (case bd_files d of None \<Rightarrow> [] | Some fs \<Rightarrow> fs))\<rparr> else d);
     if grow \<and> bd_files d = None then Some (-1, limit, d)
     else do {
       fs \<leftarrow> bd_files d;
       dup \<leftarrow> beer_mem_dup A (name @ [0]);
       if dup = Null then Some (-1, limit, d)
       else if length fs < bd_count d then None
       else Some (0, limit, d\<lparr>bd_files := Some (take (bd_count d) fs @ [\<lparr>df_lsn = lsn, df_name = dup\<rparr>]), bd_count := bd_count d + 1\<rparr>) } }"

definition beer_dir_cmp :: "beer_dir_file \<Rightarrow> beer_dir_file \<Rightarrow> int" where
  "beer_dir_cmp a b = (if df_lsn a = df_lsn b then 0 else if df_lsn b < df_lsn a then 1 else -1)"

text \<open>\<open>strchr\<close>, and the names that a scan takes, with their number.\<close>

definition strchr :: "byte \<Rightarrow> bytes \<Rightarrow> bytes option" where
  "strchr c s = (case dropWhile (\<lambda>x. x \<noteq> c) s of [] \<Rightarrow> None | t \<Rightarrow> Some t)"

fun dir_ext :: "beer_dir_type \<Rightarrow> bytes" where
  "dir_ext BEER_DIR_XLOG = ext_xlog"
| "dir_ext BEER_DIR_SNAPSHOT = ext_snap"

definition LLONG_MAX :: int where "LLONG_MAX = 2 ^ 63 - 1"
definition LLONG_MIN :: int where "LLONG_MIN = - (2 ^ 63)"

definition dir_entry :: "beer_dir_type \<Rightarrow> bytes \<Rightarrow> u64 option" where
  "dir_entry ty name =
     (if name = [46] \<or> name = [46, 46] then None
      else case strchr 46 name of
        None \<Rightarrow> None
      | Some ext \<Rightarrow>
          if ext \<noteq> dir_ext ty then None
          else let lsn = word_of_int (strtol10 name) in
            if lsn = word_of_int LLONG_MAX \<or> lsn = word_of_int LLONG_MIN then None else Some lsn)"

fun scan_entries :: "allocator \<Rightarrow> beer_dir \<Rightarrow> nat \<Rightarrow> bytes list \<Rightarrow> (int \<times> beer_dir) option" where
  "scan_entries A d limit [] = Some (0, d)"
| "scan_entries A d limit (name # names) =
     (case dir_entry (bd_type d) name of
        None \<Rightarrow> scan_entries A d limit names
      | Some lsn \<Rightarrow> do {
          (rc, limit, d) \<leftarrow> beer_dir_put A d limit name lsn;
          if rc = -1 then Some (-1, d) else scan_entries A d limit names })"

text \<open>
  \<open>dir\<close> is \<open>None\<close> when the directory cannot be opened, else its entries and whether they could be read to the end.
\<close>

definition beer_dir_scan :: "allocator \<Rightarrow> (bytes list \<times> bool) option \<Rightarrow> beer_dir \<Rightarrow> bytes \<Rightarrow> (int \<times> beer_dir) option" where
  "beer_dir_scan A dir d path = do {
     p \<leftarrow> beer_mem_dup A (path @ [0]);
     let d = d\<lparr>bd_path := p\<rparr>;
     let fail = (\<lambda>d. do { d \<leftarrow> beer_dir_free A d; Some (-1, d) });
     if p = Null then Some (-1, d)
     else case dir of
       None \<Rightarrow> fail d
     | Some (names, whole) \<Rightarrow> do {
         (rc, d) \<leftarrow> scan_entries A d 0 names;
         if rc = -1 \<or> \<not> whole then fail d
         else case bd_files d of
           None \<Rightarrow> if bd_count d = 0 then Some (0, d) else None
         | Some fs \<Rightarrow> Some (0, d\<lparr>bd_files := Some (sort_key (\<lambda>f. unat (df_lsn f)) (take (bd_count d) fs))\<rparr>) } }"

definition file_lsn :: "beer_dir \<Rightarrow> nat \<Rightarrow> u64 option" where
  "file_lsn d i = do { fs \<leftarrow> bd_files d; if i < length fs then Some (df_lsn (fs ! i)) else None }"

text \<open>The result and \<open>*out\<close>.\<close>

definition beer_dir_match_gt :: "beer_dir \<Rightarrow> (int \<times> u64 option) option" where
  "beer_dir_match_gt d =
     (if bd_count d = 0 then Some (-1, None)
      else do { lsn \<leftarrow> file_lsn d (bd_count d - 1); Some (0, Some lsn) })"

fun match_loop :: "beer_dir \<Rightarrow> u64 \<Rightarrow> nat \<Rightarrow> nat \<Rightarrow> u64 option" where
  "match_loop d lsn current (Suc (Suc n)) = do {
     a \<leftarrow> file_lsn d current;
     b \<leftarrow> file_lsn d (current + 1);
     if a \<le> lsn \<and> lsn \<le> b then Some a else match_loop d lsn (current + 1) (Suc n) }"
| "match_loop d lsn current _ = file_lsn d current"

definition beer_dir_match_inc :: "beer_dir \<Rightarrow> u64 \<Rightarrow> (int \<times> u64 option) option" where
  "beer_dir_match_inc d lsn =
     (if bd_count d = 0 then Some (-1, None)
      else do { out \<leftarrow> match_loop d lsn 0 (bd_count d); Some (0, Some out) })"

section \<open>What a scan finds\<close>

definition dir_inv :: "beer_dir \<Rightarrow> bool" where
  "dir_inv d \<longleftrightarrow> (case bd_files d of None \<Rightarrow> bd_count d = 0 | Some fs \<Rightarrow> length fs = bd_count d)"

definition dir_lsns :: "beer_dir \<Rightarrow> u64 list" where
  "dir_lsns d = (case bd_files d of None \<Rightarrow> [] | Some fs \<Rightarrow> map df_lsn fs)"

text \<open>The names that are taken, with their numbers.\<close>

definition taken :: "beer_dir_type \<Rightarrow> bytes list \<Rightarrow> beer_dir_file list" where
  "taken ty names = map (\<lambda>n. \<lparr>df_lsn = the (dir_entry ty n), df_name = Live (n @ [0])\<rparr>) (filter (\<lambda>n. dir_entry ty n \<noteq> None) names)"

lemma dup_name:
  assumes "alloc_total A" "0 \<notin> set name"
  shows "beer_mem_dup A (name @ [0]) = Some (Live (name @ [0]))"
proof -
  obtain b where "A (length name + 1) = Some b" using assms(1) by (auto simp: alloc_total_def)
  then have "beer_mem_alloc A (length name + 1) = Some (Live (replicate (length name + 1) 0))"
    by (simp add: beer_mem_alloc_def custom_realloc_def)
  then show ?thesis using assms(2) by (simp add: beer_mem_dup_def slice_def poke_def)
qed

lemma scan_entries_taken:
  assumes "alloc_total A" "\<forall>n \<in> set names. 0 \<notin> set n" "bd_files d = (if fs = [] \<and> limit = 0 then None else Some fs)" "bd_count d = length fs"
    "length fs \<le> limit"
  shows "\<exists>d'. scan_entries A d limit names = Some (0, d') \<and> bd_count d' = length fs + length (taken (bd_type d) names) \<and>
    bd_type d' = bd_type d \<and> bd_path d' = bd_path d \<and>
    (bd_files d' = None \<and> fs @ taken (bd_type d) names = [] \<or> bd_files d' = Some (fs @ taken (bd_type d) names))"
  using assms(2-)
proof (induction names arbitrary: d limit fs)
  case Nil
  then show ?case by (auto simp: taken_def)
next
  case (Cons name names)
  show ?case
  proof (cases "dir_entry (bd_type d) name")
    case None
    then have "taken (bd_type d) (name # names) = taken (bd_type d) names" by (simp add: taken_def)
    with None Cons.IH [where fs = fs and limit = limit and d = d] Cons.prems show ?thesis by simp
  next
    case (Some lsn)
    let ?e = "\<lparr>df_lsn = lsn, df_name = Live (name @ [0])\<rparr>"
    have t: "taken (bd_type d) (name # names) = ?e # taken (bd_type d) names" using Some by (simp add: taken_def)
    define lim where "lim = (if length fs = limit then if limit = 0 then 128 else limit * 2 else limit)"
    have lim: "length fs < lim" using Cons.prems(4) by (auto simp: lim_def)
    have nn: "A n \<noteq> None" for n using assms(1) by (auto simp: alloc_total_def)
    have dup: "beer_mem_dup A (name @ [0]) = Some (Live (name @ [0]))" using Cons.prems(1) by (intro dup_name [OF assms(1)]) simp
    let ?d = "d\<lparr>bd_files := Some (fs @ [?e]), bd_count := length fs + 1\<rparr>"
    have put: "beer_dir_put A d limit name lsn = Some (0, lim, ?d)"
      using Cons.prems(2-4) dup nn by (cases "length fs = limit") (auto simp: beer_dir_put_def lim_def Let_def)
    have "\<exists>d'. scan_entries A ?d lim names = Some (0, d') \<and> bd_count d' = length (fs @ [?e]) + length (taken (bd_type ?d) names) \<and>
      bd_type d' = bd_type ?d \<and> bd_path d' = bd_path ?d \<and>
      (bd_files d' = None \<and> (fs @ [?e]) @ taken (bd_type ?d) names = [] \<or> bd_files d' = Some ((fs @ [?e]) @ taken (bd_type ?d) names))"
      using Cons.prems(1) lim by (intro Cons.IH) simp_all
    then show ?thesis using Some put t by simp
  qed
qed

lemma sorted_lsns: "sorted (map unat (map df_lsn (sort_key (\<lambda>f. unat (df_lsn f)) fs)))"
  using sorted_sort_key [of "\<lambda>f. unat (df_lsn f)" fs] by (simp add: comp_def)

lemma beer_dir_scan_finds:
  assumes "alloc_total A" "0 \<notin> set path" "\<forall>n \<in> set names. 0 \<notin> set n"
  shows "\<exists>d. beer_dir_scan A (Some (names, True)) (beer_dir_init ty) path = Some (0, d) \<and> dir_inv d \<and>
    bd_count d = length (taken ty names) \<and> mset (dir_lsns d) = mset (map df_lsn (taken ty names)) \<and> sorted (map unat (dir_lsns d))"
proof -
  let ?d = "(beer_dir_init ty)\<lparr>bd_path := Live (path @ [0])\<rparr>"
  obtain d where s: "scan_entries A ?d 0 names = Some (0, d)" "bd_count d = length (taken ty names)"
    "bd_files d = None \<and> taken ty names = [] \<or> bd_files d = Some (taken ty names)"
    using scan_entries_taken [OF assms(1,3), of ?d "[]" 0] by (auto simp: beer_dir_init_def)
  have "beer_dir_scan A (Some (names, True)) (beer_dir_init ty) path = (case bd_files d of
      None \<Rightarrow> if bd_count d = 0 then Some (0, d) else None
    | Some fs \<Rightarrow> Some (0, d\<lparr>bd_files := Some (sort_key (\<lambda>f. unat (df_lsn f)) (take (bd_count d) fs))\<rparr>))"
    using s(1) dup_name [OF assms(1,2)] by (simp add: beer_dir_scan_def)
  with s(2,3) sorted_lsns [of "taken ty names"] show ?thesis
    by (auto simp: dir_inv_def dir_lsns_def)
qed

section \<open>The file to start from\<close>

lemma file_lsn_nth: "i < length (dir_lsns d) \<Longrightarrow> file_lsn d i = Some (dir_lsns d ! i)"
  by (auto simp: file_lsn_def dir_lsns_def split: option.splits)

text \<open>The first pair of neighbours that encloses the number, or the last file.\<close>

lemma match_loop_finds:
  assumes "i + n = length (dir_lsns d)" "0 < n"
  shows "\<exists>j. match_loop d lsn i n = Some (dir_lsns d ! j) \<and> i \<le> j \<and> j < i + n \<and>
    (Suc j < i + n \<longrightarrow> dir_lsns d ! j \<le> lsn \<and> lsn \<le> dir_lsns d ! Suc j) \<and>
    (\<forall>k. i \<le> k \<and> k < j \<longrightarrow> \<not> (dir_lsns d ! k \<le> lsn \<and> lsn \<le> dir_lsns d ! Suc k))"
  using assms
proof (induction d lsn i n rule: match_loop.induct)
  case (1 d lsn i n)
  show ?case
  proof (cases "dir_lsns d ! i \<le> lsn \<and> lsn \<le> dir_lsns d ! Suc i")
    case True
    with 1(2) have "match_loop d lsn i (Suc (Suc n)) = Some (dir_lsns d ! i)" by (simp add: file_lsn_nth)
    with True show ?thesis by (intro exI [of _ i]) auto
  next
    case False
    from 1(1) [OF _ _ _ _, of "dir_lsns d ! i" "dir_lsns d ! (i + 1)"] False 1(2)
    obtain j where j: "match_loop d lsn (i + 1) (Suc n) = Some (dir_lsns d ! j)" "i + 1 \<le> j" "j < i + 1 + Suc n"
      "Suc j < i + 1 + Suc n \<longrightarrow> dir_lsns d ! j \<le> lsn \<and> lsn \<le> dir_lsns d ! Suc j"
      "\<forall>k. i + 1 \<le> k \<and> k < j \<longrightarrow> \<not> (dir_lsns d ! k \<le> lsn \<and> lsn \<le> dir_lsns d ! Suc k)"
      by (auto simp: file_lsn_nth)
    have "match_loop d lsn i (Suc (Suc n)) = Some (dir_lsns d ! j)" using j(1) False 1(2) by (auto simp: file_lsn_nth)
    moreover have "\<not> (dir_lsns d ! k \<le> lsn \<and> lsn \<le> dir_lsns d ! Suc k)" if "i \<le> k" "k < j" for k
      using that j(5) False by (cases "k = i") auto
    ultimately show ?thesis using j(2-4) by (intro exI [of _ j]) auto
  qed
qed (auto simp: file_lsn_nth intro: exI)

lemma beer_dir_match_inc_finds:
  assumes "dir_inv d" "bd_count d \<noteq> 0" "sorted (map unat (dir_lsns d))"
  shows "\<exists>out. beer_dir_match_inc d lsn = Some (0, Some out) \<and> out \<in> set (dir_lsns d) \<and>
    ((\<exists>l \<in> set (dir_lsns d). l \<le> lsn) \<longrightarrow> out \<le> lsn \<and> (\<forall>l \<in> set (dir_lsns d). l < lsn \<longrightarrow> l \<le> out)) \<and>
    ((\<exists>l \<in> set (dir_lsns d). l < lsn) \<longrightarrow> out < lsn) \<and>
    ((\<forall>l \<in> set (dir_lsns d). lsn < l) \<longrightarrow> (\<forall>l \<in> set (dir_lsns d). l \<le> out))"
proof -
  let ?L = "dir_lsns d"
  have n: "length ?L = bd_count d" "0 < bd_count d" using assms(1,2) by (auto simp: dir_inv_def dir_lsns_def split: option.splits)
  have le: "?L ! a \<le> ?L ! b" if "a \<le> b" "b < length ?L" for a b
    using sorted_nth_mono [OF assms(3), of a b] that by (simp add: word_le_nat_alt)
  obtain j where j: "match_loop d lsn 0 (bd_count d) = Some (?L ! j)" "j < length ?L"
    "Suc j < length ?L \<longrightarrow> ?L ! j \<le> lsn \<and> lsn \<le> ?L ! Suc j"
    "\<forall>k. k < j \<longrightarrow> \<not> (?L ! k \<le> lsn \<and> lsn \<le> ?L ! Suc k)"
    using match_loop_finds [of 0 "bd_count d" d lsn] n by auto
  have below: "?L ! k \<le> lsn \<Longrightarrow> k \<le> j \<Longrightarrow> ?L ! j \<le> lsn" for k
  proof (induction "j - k" arbitrary: k)
    case (Suc m)
    then have "k < j" by simp
    with j(4) Suc.prems have "\<not> lsn \<le> ?L ! Suc k" by blast
    with \<open>k < j\<close> Suc show ?case by (intro Suc.hyps(1) [of "Suc k"]) simp_all
  qed simp
  have pred: "l \<le> ?L ! j" if l: "l \<in> set ?L" "l < lsn" for l
  proof -
    obtain i where i: "i < length ?L" "?L ! i = l" using l(1) by (auto simp: in_set_conv_nth)
    show ?thesis
    proof (cases "i \<le> j")
      case True
      with i le j(2) show ?thesis by auto
    next
      case False
      with i j(3) le [of "Suc j" i] l(2) show ?thesis by auto
    qed
  qed
  have "?L ! j \<le> lsn" if l: "l \<in> set ?L" "l \<le> lsn" for l
  proof -
    obtain i where i: "i < length ?L" "?L ! i = l" using l(1) by (auto simp: in_set_conv_nth)
    show ?thesis
    proof (cases "i \<le> j")
      case True
      with below [of i] i l(2) show ?thesis by simp
    next
      case False
      with i(1) j(3) show ?thesis by simp
    qed
  qed
  moreover have "l \<le> ?L ! j" if all: "\<forall>l \<in> set ?L. lsn < l" and l: "l \<in> set ?L" for l
  proof -
    obtain i where i: "i < length ?L" "?L ! i = l" using l unfolding in_set_conv_nth by blast
    have "lsn < ?L ! j" using all j(2) by simp
    then have "\<not> Suc j < length ?L" using j(3) by auto
    with i le j(2) show ?thesis by auto
  qed
  moreover have "?L ! j < lsn" if l: "l \<in> set ?L" "l < lsn" for l
  proof (rule ccontr)
    assume "\<not> ?L ! j < lsn"
    then have ge: "lsn \<le> ?L ! j" by simp
    obtain i where i: "i < length ?L" "?L ! i = l" using l(1) by (auto simp: in_set_conv_nth)
    have "i < j" using i le [of j i] ge l(2) by (metis leI leD order.strict_trans2)
    define k where "k = j - 1"
    have k: "k < j" "Suc k = j" using \<open>i < j\<close> by (auto simp: k_def)
    have "?L ! j \<le> lsn" using below [of i] i l(2) \<open>i < j\<close> by simp
    then have "?L ! k \<le> lsn" using le [of k j] k(1) j(2) by simp
    with j(4) k ge show False by blast
  qed
  ultimately show ?thesis
    using j(1,2) n pred by (intro exI [of _ "?L ! j"]) (auto simp: beer_dir_match_inc_def)
qed

lemma taken_lsns: "set (map df_lsn (taken ty names)) = {l. \<exists>n \<in> set names. dir_entry ty n = Some l}"
  by (force simp: taken_def image_iff)

lemma beer_dir_match_gt_finds:
  assumes "dir_inv d" "bd_count d \<noteq> 0" "sorted (map unat (dir_lsns d))"
  shows "\<exists>out. beer_dir_match_gt d = Some (0, Some out) \<and> out \<in> set (dir_lsns d) \<and> (\<forall>l \<in> set (dir_lsns d). l \<le> out)"
proof -
  let ?l = "dir_lsns d"
  have n: "length ?l = bd_count d" using assms(1) by (auto simp: dir_inv_def dir_lsns_def split: option.splits)
  have "?l ! i \<le> ?l ! (bd_count d - 1)" if "i < length ?l" for i
  proof -
    have "map unat ?l ! i \<le> map unat ?l ! (bd_count d - 1)" by (rule sorted_nth_mono [OF assms(3)]) (use that n assms(2) in simp_all)
    moreover have "bd_count d - 1 < length ?l" using n assms(2) by simp
    ultimately show ?thesis using that by (simp add: word_le_nat_alt)
  qed
  then have "\<forall>l \<in> set ?l. l \<le> ?l ! (bd_count d - 1)" unfolding all_set_conv_all_nth by blast
  moreover have m: "bd_count d - 1 < length ?l" using n assms(2) by simp
  ultimately show ?thesis
    using file_lsn_nth [OF m] nth_mem [OF m] assms(2) by (simp add: beer_dir_match_gt_def)
qed

end
