(* ===== verification/Log_Entries.thy ===== *)
theory Log_Entries
  imports Beer_Log
begin

text \<open>
  What a log contains: entries of a marker, a header with checksums and data, in front of them anything that does not
  contain the marker.  The lemmas follow the position of the reader through a file of entries.
\<close>

section \<open>Little-endian integers\<close>

lemma length_le [simp]: "length (le k n) = k"
  by (simp add: le_def)

lemma le_val_le: "le_val (le k n) = n mod 256 ^ k"
  by (simp add: le_val_def le_def be_val_be)

lemma le_val_bound: "le_val bs < 256 ^ length bs"
  using be_val_bound [of "rev bs"] by (simp add: le_val_def)

lemma le_val_Cons: "le_val (b # bs) = unat b + 256 * le_val bs"
  by (simp add: le_val_def)

lemma le_field_le:
  fixes w :: "'a :: len word"
  assumes "2 ^ LENGTH('a) = (256 :: nat) ^ n" "length pre = off"
  shows "le_field off n (pre @ le n (unat w) @ post) = w"
proof -
  have "unat w < 256 ^ n" using unsigned_less [of w, where ?'a = nat] assms(1) by metis
  then show ?thesis using assms(2) by (simp add: le_field_def le_val_le)
qed

section \<open>The marker\<close>

definition marker_bytes :: bytes where
  "marker_bytes = le 4 (unat beer_log_marker_v11)"

definition u32_of :: "bytes \<Rightarrow> u32" where
  "u32_of bs = word_of_nat (le_val bs)"

lemma u32_of_shift:
  assumes "length bs = 3"
  shows "drop_bit 8 (u32_of (b # bs)) OR push_bit 24 (ucast (c :: byte)) = u32_of (bs @ [c])"
proof -
  have v: "le_val bs < 16777216" using le_val_bound [of bs] assms by simp
  have app: "le_val (bs @ [c]) = le_val bs + 16777216 * unat c"
    using assms by (auto simp: le_val_Cons numeral_3_eq_3 length_Suc_conv) (simp add: le_val_def)
  have u: "unat (u32_of (b # bs)) = unat b + 256 * le_val bs"
  proof -
    have "unat b + 256 * le_val bs < 4294967296" using v unat_byte_less [of b] by linarith
    then show ?thesis unfolding u32_of_def le_val_Cons unat_of_nat by simp
  qed
  have "unat (drop_bit 8 (u32_of (b # bs))) = (unat b + 256 * le_val bs) div 2 ^ 8"
    using unat_drop_bit_eq [of 8 "u32_of (b # bs)"] by (simp only: u drop_bit_eq_div)
  then have d: "unat (drop_bit 8 (u32_of (b # bs))) = le_val bs" using unat_byte_less [of b] by simp
  then have d': "drop_bit 8 (u32_of (b # bs)) = word_of_nat (le_val bs)" by (simp only: d [symmetric]) simp
  have p: "push_bit 24 (ucast c :: u32) = word_of_nat (16777216 * unat c)"
    by (simp add: push_bit_eq_mult word_unat_eq_iff unat_of_nat unat_word_ariths)
  have "drop_bit 8 (u32_of (b # bs)) AND push_bit 24 (ucast c :: u32) = 0"
    by (rule bit_eqI) (auto simp: bit_and_iff bit_drop_bit_eq bit_push_bit_iff dest!: bit_imp_le_length)
  then have "drop_bit 8 (u32_of (b # bs)) OR push_bit 24 (ucast c :: u32) = drop_bit 8 (u32_of (b # bs)) + push_bit 24 (ucast c :: u32)"
    by (rule disjunctive_add_eq_or [symmetric])
  then show ?thesis unfolding d' p by (simp add: u32_of_def app)
qed

lemma u32_of_le: "length bs = 4 \<Longrightarrow> u32_of bs = w \<longleftrightarrow> bs = le 4 (unat w)"
proof
  assume l: "length bs = 4" and "u32_of bs = w"
  then have "unat (word_of_nat (le_val bs) :: u32) = unat w" by (simp add: u32_of_def)
  then have "unat w = le_val bs" using le_val_bound [of bs] l unfolding unat_of_nat by simp
  then show "bs = le 4 (unat w)" using l be_be_val [of "rev bs" 4] by (simp add: le_def le_val_def)
next
  assume "bs = le 4 (unat w)"
  then show "u32_of bs = w" by (simp add: u32_of_def le_val_le)
qed

lemma u32_of_marker: "length bs = 4 \<Longrightarrow> u32_of bs = beer_log_marker_v11 \<longleftrightarrow> bs = marker_bytes"
  by (simp add: u32_of_le marker_bytes_def)

text \<open>No marker begins in front of position \<open>k\<close>.\<close>

definition no_marker :: "nat \<Rightarrow> bytes \<Rightarrow> bool" where
  "no_marker k s \<longleftrightarrow> (\<forall>i < k. take 4 (drop i s) \<noteq> marker_bytes)"

text \<open>The search finds the first marker.\<close>

lemma seek_marker_first:
  assumes "length w = 4"
  shows "seek_marker (u32_of w) s = Some k \<longleftrightarrow>
    no_marker k (w @ s) \<and> take 4 (drop k (w @ s)) = marker_bytes"
  using assms
proof (induction s arbitrary: w k)
  case Nil
  have "take 4 (drop k w) = marker_bytes \<Longrightarrow> k = 0"
    using Nil by (auto simp: marker_bytes_def dest!: arg_cong [where f = length])
  with Nil show ?case
    by (auto simp: seek_marker.simps [of "u32_of w"] u32_of_marker no_marker_def)
next
  case (Cons c s)
  obtain b v where w: "w = b # v" "length v = 3" using Cons.prems by (cases w) simp_all
  show ?case
  proof (cases "w = marker_bytes")
    case True
    then have "seek_marker (u32_of w) (c # s) = Some 0" using Cons.prems u32_of_marker [of w] by (subst seek_marker.simps) simp
    moreover have "take 4 (drop 0 (w @ c # s)) = marker_bytes" using True Cons.prems by simp
    moreover from this have "no_marker k (w @ c # s) \<longleftrightarrow> k = 0" unfolding no_marker_def by blast
    ultimately show ?thesis by auto
  next
    case False
    have "seek_marker (u32_of w) (c # s) = map_option Suc (seek_marker (u32_of (v @ [c])) s)"
      using False Cons.prems w by (simp add: seek_marker.simps [of "u32_of (b # v)"] u32_of_marker u32_of_shift)
    moreover have "seek_marker (u32_of (v @ [c])) s = Some j \<longleftrightarrow>
        no_marker j ((v @ [c]) @ s) \<and> take 4 (drop j ((v @ [c]) @ s)) = marker_bytes" for j
      using w by (intro Cons.IH) simp
    moreover have "no_marker (Suc j) (w @ c # s) \<longleftrightarrow> no_marker j ((v @ [c]) @ s)" for j
      using False Cons.prems by (auto simp: no_marker_def w less_Suc_eq_0_disj)
    ultimately show ?thesis
      using False Cons.prems by (cases k) (auto simp: w)
  qed
qed

section \<open>Entries\<close>

type_synonym log_entry = "u64 \<times> u64 \<times> bytes"

fun entry_header :: "'v log_env \<Rightarrow> log_entry \<Rightarrow> bytes" where
  "entry_header env (lsn, tm, data) =
     (let tail = le 8 (unat lsn) @ le 8 (unat tm) @ le 4 (length data) @ le 4 (unat (le_crc32c env data))
      in le 4 (unat (le_crc32c env tail)) @ tail)"

definition entry_bytes :: "'v log_env \<Rightarrow> log_entry \<Rightarrow> bytes" where
  "entry_bytes env e = marker_bytes @ entry_header env e @ snd (snd e)"

lemma entry_header_length: "length (entry_header env e) = 28"
  by (cases e rule: prod_cases3) (simp add: Let_def)

lemma header_of_entry:
  assumes "length data < 4294967296"
  shows "header_of (entry_header env (lsn, tm, data)) = \<lparr>lh_crc32_hdr = le_crc32c env (drop 4 (entry_header env (lsn, tm, data))),
     lh_lsn = lsn, lh_tm = tm, lh_len = word_of_nat (length data), lh_crc32_data = le_crc32c env data\<rparr>"
proof -
  define tl where "tl = le 8 (unat lsn) @ le 8 (unat tm) @ le 4 (length data) @ le 4 (unat (le_crc32c env data))"
  have h: "entry_header env (lsn, tm, data) = le 4 (unat (le_crc32c env tl)) @ tl" by (simp add: tl_def Let_def)
  let ?c = "le 4 (unat (le_crc32c env tl))" and ?l = "le 8 (unat lsn)" and ?t = "le 8 (unat tm)"
    and ?n = "le 4 (unat (word_of_nat (length data) :: u32))" and ?d = "le 4 (unat (le_crc32c env data))"
  have n: "le 4 (length data) = ?n" using assms by (simp add: unat_of_nat)
  have f: "le_field 0 4 ([] @ ?c @ ?l @ ?t @ ?n @ ?d) = le_crc32c env tl"
    "le_field 4 8 (?c @ ?l @ ?t @ ?n @ ?d) = lsn" "le_field 12 8 ((?c @ ?l) @ ?t @ ?n @ ?d) = tm"
    "le_field 20 4 ((?c @ ?l @ ?t) @ ?n @ ?d) = (word_of_nat (length data) :: u32)"
    "le_field 24 4 ((?c @ ?l @ ?t @ ?n) @ ?d @ []) = le_crc32c env data"
    by (rule le_field_le; simp)+
  have e: "?c @ ?l @ ?t @ ?n @ ?d = ?c @ tl" by (simp only: tl_def n)
  have d: "drop 4 (?c @ tl) = tl" by simp
  show ?thesis
    unfolding h d header_of_def f [unfolded append_assoc append_Nil append_Nil2 e] by (rule refl)
qed

declare entry_header.simps [simp del]

section \<open>Reading an entry\<close>

lemma fread_at:
  assumes "drop (lf_pos f) (lf_data f) = bs @ rest" "length bs = n" "0 < n"
  shows "fread n f = (Some bs, f\<lparr>lf_pos := lf_pos f + n\<rparr>)"
proof -
  have "lf_pos f + n \<le> length (lf_data f)" using arg_cong [OF assms(1), of length] assms(2,3) by simp
  then show ?thesis using assms by (simp add: fread_def)
qed

lemma fread_short:
  assumes "drop (lf_pos f) (lf_data f) = bs" "length bs < n" "lf_pos f \<le> length (lf_data f)"
  shows "fread n f = (None, f\<lparr>lf_pos := length (lf_data f)\<rparr>)"
proof -
  have "lf_pos f + length bs = length (lf_data f)" using arg_cong [OF assms(1), of length] assms(3) by simp
  then show ?thesis using assms(2,3) by (simp add: fread_def)
qed

lemma le_field_u32: "le_field 0 4 bs = u32_of (take 4 bs)"
  by (simp add: le_field_def u32_of_def)

text \<open>The reader gets behind the first marker.\<close>

lemma marker_found:
  assumes "drop (lf_pos f) (lf_data f) = junk @ marker_bytes @ rest" "no_marker (length junk) (junk @ marker_bytes)"
  shows "\<exists>bs k. fread 4 f = (Some bs, f\<lparr>lf_pos := lf_pos f + 4\<rparr>) \<and>
    seek_marker (le_field 0 4 bs) (drop (lf_pos f + 4) (lf_data f)) = Some k \<and> 4 + k = length junk + 4"
proof -
  let ?s = "junk @ marker_bytes @ rest"
  have ml: "length marker_bytes = 4" by (simp add: marker_bytes_def)
  define w where "w = take 4 ?s"
  have w: "length w = 4" using ml by (simp add: w_def)
  have ws: "?s = w @ drop 4 ?s" by (simp only: w_def append_take_drop_id)
  have fr: "fread 4 f = (Some w, f\<lparr>lf_pos := lf_pos f + 4\<rparr>)"
    using assms(1) w ws by (intro fread_at [of f w "drop 4 ?s"]) simp_all
  have d: "drop (lf_pos f + 4) (lf_data f) = drop 4 ?s" using assms(1) by (metis drop_drop add.commute)
  have "no_marker (length junk) ?s"
    unfolding no_marker_def
  proof (intro allI impI)
    fix i
    assume i: "i < length junk"
    have eq: "take 4 (drop i ?s) = take 4 (drop i (junk @ marker_bytes))" using i ml by simp
    show "take 4 (drop i ?s) \<noteq> marker_bytes" unfolding eq using assms(2) i unfolding no_marker_def by blast
  qed
  moreover have "take 4 (drop (length junk) ?s) = marker_bytes" using ml by simp
  ultimately have "seek_marker (u32_of w) (drop 4 ?s) = Some (length junk)"
    unfolding seek_marker_first [OF w] using ws by metis
  then show ?thesis using fr d w by (simp add: le_field_u32)
qed

lemma alloc_Live:
  assumes "alloc_total A" "0 < n"
  obtains b where "beer_mem_alloc A n = Some (Live b)"
proof -
  obtain b where "A n = Some b" using assms(1) by (auto simp: alloc_total_def)
  with assms(2) have "beer_mem_alloc A n = Some (Live (replicate n 0))" by (simp add: beer_mem_alloc_def custom_realloc_def)
  then show ?thesis by (rule that)
qed

definition read_state :: "'v log_env \<Rightarrow> 'v beer_log \<Rightarrow> lfile \<Rightarrow> log_entry \<Rightarrow> nat \<Rightarrow> nat \<Rightarrow> 'v beer_log" where
  "read_state env l f e hdr_end end =
     l\<lparr>lg_current_offset := lf_pos f, lg_hdr := header_of (entry_header env e), lg_offset := hdr_end, lg_fd := Some (f\<lparr>lf_pos := end\<rparr>)\<rparr>"

text \<open>The reader after the header of an entry.\<close>

lemma beer_log_read_header:
  assumes "lg_fd l = Some f" "drop (lf_pos f) (lf_data f) = junk @ marker_bytes @ entry_header env (lsn, tm, data) @ rest"
    "no_marker (length junk) (junk @ marker_bytes)" "alloc_total A" "data \<noteq> []" "length data < 4294967296"
  defines "h \<equiv> lf_pos f + length junk + 32"
  shows "beer_log_read env A l =
    (let (d, f') = fread (length data) (f\<lparr>lf_pos := h\<rparr>); l' = read_state env l f (lsn, tm, data) h (lf_pos f') in
     case d of
       None \<Rightarrow> beer_log_eof env l'
     | Some x \<Rightarrow> if le_crc32c env x \<noteq> le_crc32c env data then Some (-1, None, beer_log_seterr env l' BEER_LOG_ECORRUPT)
         else Some (0, Some x, l'))"
    "drop h (lf_data f) = rest"
proof -
  let ?hd = "entry_header env (lsn, tm, data)"
  have ml: "length marker_bytes = 4" by (simp add: marker_bytes_def)
  obtain bs k where m: "fread 4 f = (Some bs, f\<lparr>lf_pos := lf_pos f + 4\<rparr>)"
    "seek_marker (le_field 0 4 bs) (drop (lf_pos f + 4) (lf_data f)) = Some k" "4 + k = length junk + 4"
    using marker_found [OF assms(2,3)] by blast
  define q where "q = lf_pos f + 4 + k"
  have q: "q = length junk + 4 + lf_pos f" "h = 28 + q" using m(3) by (simp_all add: q_def h_def)
  have "drop q (lf_data f) = drop (length junk + 4) (drop (lf_pos f) (lf_data f))" unfolding drop_drop q(1) ..
  then have dq: "drop q (lf_data f) = ?hd @ rest" using ml unfolding assms(2) by simp
  have "drop h (lf_data f) = drop 28 (drop q (lf_data f))" unfolding drop_drop q(2) ..
  then have dh: "drop h (lf_data f) = rest" unfolding dq by (simp add: entry_header_length)
  have hd: "fread 28 (f\<lparr>lf_pos := q\<rparr>) = (Some ?hd, f\<lparr>lf_pos := h\<rparr>)"
    using fread_at [of "f\<lparr>lf_pos := q\<rparr>" ?hd rest 28] dq q(2) entry_header_length [of env "(lsn, tm, data)"] by (simp add: add.commute)
  show "drop h (lf_data f) = rest" by (rule dh)
  have hf: "header_of ?hd = \<lparr>lh_crc32_hdr = le_crc32c env (drop 4 ?hd), lh_lsn = lsn, lh_tm = tm,
      lh_len = word_of_nat (length data), lh_crc32_data = le_crc32c env data\<rparr>"
    by (rule header_of_entry [OF assms(6)])
  have len: "unat (lh_len (header_of ?hd)) = length data" using assms(6) unfolding hf by (simp add: unat_of_nat)
  obtain b where al: "beer_mem_alloc A (length data) = Some (Live b)" using alloc_Live [OF assms(4)] assms(5) by blast
  have crc: "lh_crc32_hdr (header_of ?hd) = le_crc32c env (drop 4 ?hd)" "lh_crc32_data (header_of ?hd) = le_crc32c env data"
    by (simp_all add: hf)
  obtain x f' where fr: "fread (length data) (f\<lparr>lf_pos := h\<rparr>) = (x, f')" by (metis prod.exhaust)
  then have f': "f' = f\<lparr>lf_pos := lf_pos f'\<rparr>" by (auto simp: fread_def split: if_splits)
  show "beer_log_read env A l =
    (let (d, f') = fread (length data) (f\<lparr>lf_pos := h\<rparr>); l' = read_state env l f (lsn, tm, data) h (lf_pos f') in
     case d of
       None \<Rightarrow> beer_log_eof env l'
     | Some x \<Rightarrow> if le_crc32c env x \<noteq> le_crc32c env data then Some (-1, None, beer_log_seterr env l' BEER_LOG_ECORRUPT)
         else Some (0, Some x, l'))"
    using f'
    by (simp add: beer_log_read_def assms(1) m(1,2) hd len al crc fr read_state_def Let_def flip: q_def split: option.split)
qed

text \<open>A whole entry.\<close>

lemma beer_log_read_entry:
  assumes "lg_fd l = Some f" "drop (lf_pos f) (lf_data f) = junk @ entry_bytes env (lsn, tm, data) @ rest"
    "no_marker (length junk) (junk @ marker_bytes)" "alloc_total A" "data \<noteq> []" "length data < 4294967296"
  defines "h \<equiv> lf_pos f + length junk + 32"
  shows "beer_log_read env A l = Some (0, Some data, read_state env l f (lsn, tm, data) h (h + length data))"
    "drop (h + length data) (lf_data f) = rest"
proof -
  have d: "drop (lf_pos f) (lf_data f) = junk @ marker_bytes @ entry_header env (lsn, tm, data) @ data @ rest"
    using assms(2) by (simp add: entry_bytes_def)
  note r = beer_log_read_header [OF assms(1) d assms(3-6), folded h_def]
  have "fread (length data) (f\<lparr>lf_pos := h\<rparr>) = (Some data, f\<lparr>lf_pos := h + length data\<rparr>)"
    using fread_at [of "f\<lparr>lf_pos := h\<rparr>" data rest "length data"] r(2) assms(5) by simp
  then show "beer_log_read env A l = Some (0, Some data, read_state env l f (lsn, tm, data) h (h + length data))"
    using r(1) by simp
  have "drop (h + length data) (lf_data f) = drop (length data) (drop h (lf_data f))" by (simp add: add.commute)
  then show "drop (h + length data) (lf_data f) = rest" unfolding r(2) by simp
qed

lemma beer_log_eof_elsewhere:
  assumes "lg_fd l = Some f" "lf_pos f \<noteq> lg_offset l + 4"
  shows "beer_log_eof env l = Some (1, None, l)"
  using assms by (simp add: beer_log_eof_def)

text \<open>An entry whose data the file does not hold to the end.\<close>

lemma beer_log_read_cut:
  assumes "lg_fd l = Some f" "drop (lf_pos f) (lf_data f) = junk @ marker_bytes @ entry_header env (lsn, tm, data) @ part"
    "no_marker (length junk) (junk @ marker_bytes)" "alloc_total A" "length part < length data" "length data < 4294967296"
    "length part \<noteq> 4"
  defines "h \<equiv> lf_pos f + length junk + 32"
  shows "beer_log_read env A l = Some (1, None, read_state env l f (lsn, tm, data) h (length (lf_data f)))"
proof -
  have ne: "data \<noteq> []" using assms(5) by auto
  note r = beer_log_read_header [OF assms(1-4) ne assms(6), folded h_def]
  have len: "length (lf_data f) - lf_pos f = length junk + 4 + 28 + length part"
    using arg_cong [OF assms(2), of length] by (simp add: marker_bytes_def entry_header_length)
  then have e: "length (lf_data f) = h + length part" unfolding h_def by linarith
  have "fread (length data) (f\<lparr>lf_pos := h\<rparr>) = (None, f\<lparr>lf_pos := length (lf_data f)\<rparr>)"
    using fread_short [of "f\<lparr>lf_pos := h\<rparr>" part "length data"] r(2) assms(5) e by simp
  then show ?thesis
    using r(1) e assms(7) by (simp add: beer_log_eof_def read_state_def)
qed

text \<open>With exactly four bytes of the data the position is where the code looks for the end-of-file marker.\<close>

lemma beer_log_read_cut4:
  assumes "lg_fd l = Some f" "drop (lf_pos f) (lf_data f) = junk @ marker_bytes @ entry_header env (lsn, tm, data) @ part"
    "no_marker (length junk) (junk @ marker_bytes)" "alloc_total A" "length part < length data" "length data < 4294967296"
    "length part = 4"
  shows "\<exists>l'. beer_log_read env A l = Some (if le_field 0 4 part = beer_log_marker_eof_v11 then 1 else -1, None, l') \<and>
    lg_error l' = (if le_field 0 4 part = beer_log_marker_eof_v11 then lg_error l else BEER_LOG_ECORRUPT)"
proof -
  define h where "h = lf_pos f + length junk + 32"
  have ne: "data \<noteq> []" using assms(5) by auto
  note r = beer_log_read_header [OF assms(1-4) ne assms(6), folded h_def]
  have len: "length (lf_data f) - lf_pos f = length junk + 4 + 28 + length part"
    using arg_cong [OF assms(2), of length] by (simp add: marker_bytes_def entry_header_length)
  then have e: "length (lf_data f) = h + 4" unfolding h_def assms(7) by linarith
  have fr: "fread (length data) (f\<lparr>lf_pos := h\<rparr>) = (None, f\<lparr>lf_pos := length (lf_data f)\<rparr>)"
    using fread_short [of "f\<lparr>lf_pos := h\<rparr>" part "length data"] r(2) assms(5) e by simp
  have "fread 4 (f\<lparr>lf_pos := h\<rparr>) = (Some part, f\<lparr>lf_pos := h + 4\<rparr>)"
    using fread_at [of "f\<lparr>lf_pos := h\<rparr>" part "[]" 4] r(2) assms(7) by simp
  then show ?thesis
    using r(1) fr e by (cases "le_field 0 4 part = beer_log_marker_eof_v11") (simp_all add: beer_log_eof_def read_state_def beer_log_seterr_def)
qed

text \<open>The end: no marker any more.\<close>

lemma marker_missing:
  assumes "length w = 4" "\<forall>i. take 4 (drop i (w @ s)) \<noteq> marker_bytes"
  shows "seek_marker (u32_of w) s = None"
proof (cases "seek_marker (u32_of w) s")
  case (Some k)
  with seek_marker_first [OF assms(1)] assms(2) show ?thesis by blast
qed

lemma beer_log_read_end:
  assumes "lg_fd l = Some f" "drop (lf_pos f) (lf_data f) = s" "lf_pos f \<le> length (lf_data f)"
    "\<forall>i. take 4 (drop i s) \<noteq> marker_bytes" "length (lf_data f) \<noteq> lg_offset l + 4"
  shows "\<exists>l'. beer_log_read env A l = Some (1, None, l') \<and> lg_error l' = lg_error l \<and> lg_offset l' = lg_offset l \<and> lg_type l' = lg_type l"
proof (cases "length s < 4")
  case True
  then show ?thesis
    using fread_short [OF assms(2) True assms(3)] assms(1,5) by (simp add: beer_log_read_def beer_log_eof_def)
next
  case False
  define w where "w = take 4 s"
  have w: "length w = 4" "s = w @ drop 4 s" using False by (simp_all add: w_def)
  have fr: "fread 4 f = (Some w, f\<lparr>lf_pos := lf_pos f + 4\<rparr>)"
    using fread_at [of f w "drop 4 s" 4] assms(2) w by simp
  have "drop (lf_pos f + 4) (lf_data f) = drop 4 s" using assms(2) by (metis add.commute drop_drop)
  moreover have "seek_marker (u32_of w) (drop 4 s) = None"
    using assms(4) w(2) by (intro marker_missing [OF w(1)]) metis
  ultimately show ?thesis
    using fr assms(1,5) w(1) by (simp add: beer_log_read_def beer_log_eof_def le_field_u32)
qed

section \<open>Checked data\<close>

text \<open>
  Whatever the file holds, data that are returned stand behind a marker and a header whose checksum is right, and have the
  length and the checksum of that header.
\<close>

lemma fread_SomeD: "fread n f = (Some bs, f') \<Longrightarrow> 0 < n \<and> length bs = n \<and> lf_pos f + n \<le> length (lf_data f) \<and>
    bs = take n (drop (lf_pos f) (lf_data f)) \<and> f' = f\<lparr>lf_pos := lf_pos f + n\<rparr>"
  by (auto simp: fread_def split: if_splits)

lemma beer_log_eof_rc: "beer_log_eof env l = Some (rc, b, l') \<Longrightarrow> rc \<noteq> 0"
  by (auto simp: beer_log_eof_def bind_eq_Some_conv Let_def split: if_splits option.splits prod.splits)

lemma beer_log_read_checked:
  assumes "beer_log_read env A l = Some (0, b, l')"
  obtains f raw data p where "lg_fd l = Some f" "b = Some data" "lf_pos f \<le> p" "p + 32 + length data \<le> length (lf_data f)"
    "take 4 (drop p (lf_data f)) = marker_bytes" "raw = take 28 (drop (p + 4) (lf_data f))"
    "data = take (length data) (drop (p + 32) (lf_data f))"
    "lg_hdr l' = header_of raw" "lh_crc32_hdr (lg_hdr l') = le_crc32c env (drop 4 raw)"
    "unat (lh_len (lg_hdr l')) = length data" "lh_crc32_data (lg_hdr l') = le_crc32c env data"
    "lg_fd l' = Some (f\<lparr>lf_pos := p + 32 + length data\<rparr>)"
proof -
  obtain f where f: "lg_fd l = Some f" using assms by (cases "lg_fd l") (simp_all add: beer_log_read_def)
  obtain m f1 where m: "fread 4 f = (m, f1)" by (metis prod.exhaust)
  have "m \<noteq> None"
  proof
    assume "m = None"
    with assms f m have "beer_log_eof env (l\<lparr>lg_current_offset := lf_pos f, lg_fd := Some f1\<rparr>) = Some (0, b, l')"
      by (simp add: beer_log_read_def)
    then show False using beer_log_eof_rc by blast
  qed
  then obtain bs where bs: "m = Some bs" by blast
  note m1 = fread_SomeD [OF m [unfolded bs]]
  define s where "s = drop (lf_pos f) (lf_data f)"
  have sk: "\<exists>k. seek_marker (le_field 0 4 bs) (drop (lf_pos f1) (lf_data f1)) = Some k"
  proof (rule ccontr)
    assume "\<nexists>k. seek_marker (le_field 0 4 bs) (drop (lf_pos f1) (lf_data f1)) = Some k"
    then have "seek_marker (le_field 0 4 bs) (drop (lf_pos f1) (lf_data f1)) = None" by simp
    with assms f m bs have "beer_log_eof env (l\<lparr>lg_current_offset := lf_pos f, lg_fd := Some (f1\<lparr>lf_pos := length (lf_data f1)\<rparr>)\<rparr>) = Some (0, b, l')"
      by (simp add: beer_log_read_def)
    then show False using beer_log_eof_rc by blast
  qed
  then obtain k where k: "seek_marker (le_field 0 4 bs) (drop (lf_pos f1) (lf_data f1)) = Some k" by blast
  have b4: "length bs = 4" "bs = take 4 s" "f1 = f\<lparr>lf_pos := lf_pos f + 4\<rparr>" using m1 unfolding s_def by blast+
  have "s = bs @ drop 4 s" unfolding b4(2) by (simp only: append_take_drop_id)
  with b4 have w: "length bs = 4" "s = bs @ drop 4 s" "drop (lf_pos f1) (lf_data f1) = drop 4 s"
    by (simp_all add: s_def add.commute)
  have mk: "take 4 (drop k s) = marker_bytes"
    using k w(1,3) seek_marker_first [OF w(1), of "drop 4 s" k] w(2) by (simp add: le_field_u32)
  define p where "p = lf_pos f + k"
  have mp: "take 4 (drop p (lf_data f)) = marker_bytes" using mk by (simp add: s_def p_def add.commute)
  define f2 where "f2 = f\<lparr>lf_pos := p + 4\<rparr>"
  have f2: "f1\<lparr>lf_pos := lf_pos f1 + k\<rparr> = f2" using m1 by (simp add: f2_def p_def)
  obtain hd f3 where h: "fread 28 f2 = (hd, f3)" by (metis prod.exhaust)
  have "hd \<noteq> None"
  proof
    assume "hd = None"
    with assms f m bs k f2 h have "beer_log_eof env (l\<lparr>lg_current_offset := lf_pos f, lg_fd := Some f3\<rparr>) = Some (0, b, l')"
      by (simp add: beer_log_read_def)
    then show False using beer_log_eof_rc by blast
  qed
  then obtain raw where raw: "hd = Some raw" by blast
  note h1 = fread_SomeD [OF h [unfolded raw]]
  define l1 where "l1 = l\<lparr>lg_current_offset := lf_pos f, lg_fd := Some f3, lg_hdr := header_of raw, lg_offset := lf_pos f3\<rparr>"
  let ?n = "unat (lh_len (header_of raw))"
  have body: "(if le_crc32c env (drop 4 raw) \<noteq> lh_crc32_hdr (header_of raw) then Some (-1, None, beer_log_seterr env l1 BEER_LOG_ECORRUPT)
      else do {
        blk \<leftarrow> beer_mem_alloc A ?n;
        if blk = Null then Some (-1, None, beer_log_seterr env l1 BEER_LOG_EMEMORY)
        else (let (d, f) = fread ?n f3; l = l1\<lparr>lg_fd := Some f\<rparr> in
          case d of None \<Rightarrow> beer_log_eof env l
          | Some data \<Rightarrow> if le_crc32c env data \<noteq> lh_crc32_data (header_of raw)
              then Some (-1, None, beer_log_seterr env l BEER_LOG_ECORRUPT) else Some (0, Some data, l)) }) = Some (0, b, l')"
    using m [unfolded bs] f2 h [unfolded raw]
    by (subst assms [symmetric]) (simp add: beer_log_read_def f k l1_def Let_def cong: if_cong option.case_cong)
  obtain d f4 where d: "fread ?n f3 = (d, f4)" by (metis prod.exhaust)
  have c: "le_crc32c env (drop 4 raw) = lh_crc32_hdr (header_of raw)" using body by (auto split: if_splits)
  from body d obtain data where dt: "d = Some data" "b = Some data" "le_crc32c env data = lh_crc32_data (header_of raw)"
    "l' = l1\<lparr>lg_fd := Some f4\<rparr>"
    by (auto simp: bind_eq_Some_conv Let_def split: if_splits option.splits dest: beer_log_eof_rc)
  note d1 = fread_SomeD [OF d [unfolded dt(1)]]
  have f3: "f3 = f\<lparr>lf_pos := p + 32\<rparr>" "raw = take 28 (drop (p + 4) (lf_data f))" using h1 by (simp_all add: f2_def)
  have ld: "length data = ?n" using d1 by blast
  have f4: "f4 = f\<lparr>lf_pos := p + 32 + length data\<rparr>" "p + 32 + length data \<le> length (lf_data f)"
    "data = take (length data) (drop (p + 32) (lf_data f))"
    using d1 unfolding ld f3(1) by simp_all
  have "lg_hdr l' = header_of raw" "lg_fd l' = Some f4" by (simp_all add: dt(4) l1_def)
  then show ?thesis
    using that [OF f dt(2) _ f4(2) mp f3(2) f4(3)] c ld dt(3) f4(1) by (simp add: p_def)
qed

section \<open>Reading a whole log\<close>

text \<open>An entry that a log of updates accepts, and its value.\<close>

definition xlog_value :: "'v log_env \<Rightarrow> log_entry \<Rightarrow> 'v \<Rightarrow> bool" where
  "xlog_value env e v \<longleftrightarrow> (let data = snd (snd e) in
     12 \<le> length data \<and> length data < 4294967296 \<and> le_request env (lr_op (log_row_of (take 12 data))) (drop 12 data) = (0, v))"

definition snap_value :: "'v log_env \<Rightarrow> log_entry \<Rightarrow> 'v \<Rightarrow> bool" where
  "snap_value env e v \<longleftrightarrow> (let data = snd (snd e); r = row_snap_of (take 22 data) in
     22 + unat (ls_data_size r) \<le> length data \<and> length data < 4294967296 \<and>
     le_tuple env (ls_tuple_size r) (take (unat (ls_data_size r)) (drop 22 data)) = Some v)"

definition log_value :: "'v log_env \<Rightarrow> beer_log_type \<Rightarrow> log_entry \<Rightarrow> 'v \<Rightarrow> bool" where
  "log_value env ty e v \<longleftrightarrow>
     (case ty of BEER_LOG_XLOG \<Rightarrow> xlog_value env e v | BEER_LOG_SNAPSHOT \<Rightarrow> snap_value env e v | BEER_LOG_NONE \<Rightarrow> False)"

lemma log_value_size: "log_value env ty (lsn, tm, data) v \<Longrightarrow> 12 \<le> length data \<and> length data < 4294967296"
  by (auto simp: log_value_def xlog_value_def snap_value_def Let_def split: beer_log_type.splits)

lemma log_process_value:
  assumes "log_value env (lg_type l) (lsn, tm, data) v" "lg_hdr l = header_of (entry_header env (lsn, tm, data))"
  shows "\<exists>l'. log_process env l data = Some (0, Some v, l') \<and> lg_fd l' = lg_fd l \<and> lg_offset l' = lg_offset l \<and>
    lg_error l' = lg_error l \<and> lg_type l' = lg_type l \<and> lg_hdr l' = lg_hdr l"
proof -
  have n: "length data < 4294967296" using log_value_size [OF assms(1)] by blast
  then have len: "unat (lh_len (lg_hdr l)) = length data" unfolding assms(2) header_of_entry [OF n] by (simp add: unat_of_nat)
  show ?thesis
    using assms(1) len
    by (cases "lg_type l")
       (auto simp: log_process_def log_value_def xlog_value_def snap_value_def beer_log_process_xlog_def beer_log_process_snapshot_def
          slice_def Let_def)
qed

text \<open>The next \<open>n\<close> values.\<close>

fun next_values :: "'v log_env \<Rightarrow> allocator \<Rightarrow> nat \<Rightarrow> 'v beer_log \<Rightarrow> ('v list \<times> 'v beer_log) option" where
  "next_values env A 0 l = Some ([], l)"
| "next_values env A (Suc n) l = do {
     (v, l) \<leftarrow> beer_log_next_to env A l;
     v \<leftarrow> v;
     (vs, l) \<leftarrow> next_values env A n l;
     Some (v # vs, l) }"

text \<open>The body of a file: every entry has some junk in front of it that holds no marker.\<close>

definition log_body :: "'v log_env \<Rightarrow> (bytes \<times> log_entry) list \<Rightarrow> bytes" where
  "log_body env es = concat (map (\<lambda>(junk, e). junk @ entry_bytes env e) es)"

definition clean_junk :: "bytes \<Rightarrow> bool" where
  "clean_junk junk \<longleftrightarrow> no_marker (length junk) (junk @ marker_bytes)"

lemma clean_junk_Nil [simp]: "clean_junk []"
  by (simp add: clean_junk_def no_marker_def)

text \<open>Where the reader stands: the position, and the end of the last header, which is not four bytes before the end of the file.\<close>

definition log_at :: "'v beer_log \<Rightarrow> bytes \<Rightarrow> bool" where
  "log_at l s \<longleftrightarrow> (\<exists>f. lg_fd l = Some f \<and> drop (lf_pos f) (lf_data f) = s \<and> lf_pos f \<le> length (lf_data f) \<and>
     lg_offset l + 12 \<le> length (lf_data f))"

lemma beer_log_next_to_entry:
  assumes "lg_fd l = Some f" "drop (lf_pos f) (lf_data f) = junk @ entry_bytes env e @ rest" "clean_junk junk" "alloc_total A"
    "log_value env (lg_type l) e v"
  shows "\<exists>l'. beer_log_next_to env A l = Some (Some v, l') \<and> log_at l' rest \<and> lg_error l' = lg_error l \<and> lg_type l' = lg_type l \<and>
    lh_lsn (lg_hdr l') = fst e"
proof -
  obtain lsn tm data where e: "e = (lsn, tm, data)" by (metis prod.exhaust)
  have n: "12 \<le> length data" "length data < 4294967296" "data \<noteq> []" using log_value_size [OF assms(5) [unfolded e]] by auto
  define h where "h = lf_pos f + length junk + 32"
  note r = beer_log_read_entry [OF assms(1) assms(2)[unfolded e] assms(3)[unfolded clean_junk_def] assms(4) n(3,2), folded h_def]
  let ?l = "read_state env l f (lsn, tm, data) h (h + length data)"
  have st: "lg_hdr ?l = header_of (entry_header env (lsn, tm, data))" "lg_type ?l = lg_type l" "lg_error ?l = lg_error l"
    "lg_offset ?l = h" "lg_fd ?l = Some (f\<lparr>lf_pos := h + length data\<rparr>)"
    by (simp_all add: read_state_def)
  obtain l' where p: "log_process env ?l data = Some (0, Some v, l')" "lg_fd l' = lg_fd ?l" "lg_offset l' = h"
    "lg_error l' = lg_error l" "lg_type l' = lg_type l" "lg_hdr l' = lg_hdr ?l"
    using log_process_value [of env ?l lsn tm data v] assms(5) st unfolding e by auto
  have sz: "length (lf_data f) - lf_pos f = length junk + 32 + length data + length rest"
    using arg_cong [OF assms(2), of length] by (simp add: entry_bytes_def marker_bytes_def entry_header_length e)
  have "h + length data \<le> length (lf_data f)" using sz n(1) unfolding h_def by linarith
  then have "log_at l' rest" using p(2,3) st(5) r(2) n(1) by (simp add: log_at_def)
  moreover have "lh_lsn (lg_hdr l') = lsn" unfolding p(6) st(1) header_of_entry [OF n(2)] by simp
  ultimately show ?thesis using r(1) p by (auto simp: beer_log_next_to_def e)
qed

lemma next_values_all:
  assumes "lg_fd l = Some f" "drop (lf_pos f) (lf_data f) = log_body env es @ tail" "\<forall>(junk, e) \<in> set es. clean_junk junk" "alloc_total A"
    "list_all2 (\<lambda>(junk, e) v. log_value env (lg_type l) e v) es vs" "es \<noteq> []"
  shows "\<exists>l'. next_values env A (length es) l = Some (vs, l') \<and> log_at l' tail \<and> lg_error l' = lg_error l \<and> lg_type l' = lg_type l"
  using assms
proof (induction es arbitrary: l f vs)
  case (Cons x es)
  obtain junk e where x: "x = (junk, e)" by (metis prod.exhaust)
  obtain v ws where vs: "vs = v # ws" "log_value env (lg_type l) e v"
    "list_all2 (\<lambda>(junk, e) v. log_value env (lg_type l) e v) es ws"
    using Cons.prems(5) by (cases vs) (auto simp: x)
  have d: "drop (lf_pos f) (lf_data f) = junk @ entry_bytes env e @ (log_body env es @ tail)"
    using Cons.prems(2) by (simp add: log_body_def x)
  have cl: "clean_junk junk" using Cons.prems(3) by (simp add: x)
  obtain l' where n: "beer_log_next_to env A l = Some (Some v, l')" "log_at l' (log_body env es @ tail)" "lg_error l' = lg_error l"
    "lg_type l' = lg_type l"
    using beer_log_next_to_entry [OF Cons.prems(1) d cl assms(4) vs(2)] by blast
  show ?case
  proof (cases "es = []")
    case True
    with n vs show ?thesis by (simp add: log_body_def)
  next
    case False
    obtain f' where f': "lg_fd l' = Some f'" "drop (lf_pos f') (lf_data f') = log_body env es @ tail" using n(2) by (auto simp: log_at_def)
    have "\<exists>l''. next_values env A (length es) l' = Some (ws, l'') \<and> log_at l'' tail \<and> lg_error l'' = lg_error l' \<and> lg_type l'' = lg_type l'"
      using Cons.prems(3) vs(3) n(4) False by (intro Cons.IH [OF f' _ assms(4)]) simp_all
    with n vs(1) show ?thesis by auto
  qed
qed simp

lemma beer_log_next_to_end:
  assumes "log_at l s" "\<forall>i. take 4 (drop i s) \<noteq> marker_bytes"
  shows "\<exists>l'. beer_log_next_to env A l = Some (None, l') \<and> lg_error l' = lg_error l"
proof -
  obtain f where f: "lg_fd l = Some f" "drop (lf_pos f) (lf_data f) = s" "lf_pos f \<le> length (lf_data f)"
    "length (lf_data f) \<noteq> lg_offset l + 4"
    using assms(1) by (auto simp: log_at_def)
  obtain l' where "beer_log_read env A l = Some (1, None, l')" "lg_error l' = lg_error l"
    using beer_log_read_end [OF f(1-3) assms(2) f(4)] by blast
  then show ?thesis by (simp add: beer_log_next_to_def)
qed

section \<open>Opening a log\<close>

text \<open>A file of a type: its two first lines, further lines of at most 254 bytes, an empty line and the body.\<close>

definition header_line :: "bytes \<Rightarrow> bool" where
  "header_line l \<longleftrightarrow> l \<noteq> [] \<and> l \<noteq> [13] \<and> 10 \<notin> set l \<and> length l \<le> 254"

definition log_file :: "beer_log_type \<Rightarrow> bytes list \<Rightarrow> bytes \<Rightarrow> bytes" where
  "log_file ty ls body = log_magic ty @ BEER_LOG_VERSION @ concat (map (\<lambda>l. l @ [10]) ls) @ [10] @ body"

lemma through_nl_line: "10 \<notin> set l \<Longrightarrow> through_nl (l @ 10 # rest) = l @ [10]"
  by (induction l) auto

lemma fgets_line:
  assumes "drop (lf_pos f) (lf_data f) = l @ 10 # rest" "10 \<notin> set l" "length l + 2 \<le> n"
  shows "fgets n f = (Some (l @ [10]), f\<lparr>lf_pos := lf_pos f + Suc (length l)\<rparr>)"
    "drop (lf_pos f + Suc (length l)) (lf_data f) = rest"
proof -
  show "fgets n f = (Some (l @ [10]), f\<lparr>lf_pos := lf_pos f + Suc (length l)\<rparr>)"
    using assms by (simp add: fgets_def through_nl_line)
  have "drop (lf_pos f + Suc (length l)) (lf_data f) = drop (Suc (length l)) (drop (lf_pos f) (lf_data f))" by (simp add: add.commute)
  then show "drop (lf_pos f + Suc (length l)) (lf_data f) = rest" by (simp add: assms(1))
qed

lemma header_line_not_last: "header_line l \<Longrightarrow> \<not> same_string (l @ [10]) [10] \<and> \<not> same_string (l @ [10]) [13, 10]"
proof -
  assume h: "header_line l"
  have t: "takeWhile (\<lambda>c. c \<noteq> 0) (l @ [10]) = (if 0 \<in> set l then takeWhile (\<lambda>c. c \<noteq> 0) l else l @ [10])"
    by (auto simp: takeWhile_append)
  have "10 \<notin> set (takeWhile (\<lambda>c. c \<noteq> 0) l)" using h set_takeWhileD by (fastforce simp: header_line_def)
  then have "takeWhile (\<lambda>c. c \<noteq> 0) l \<noteq> [10] \<and> takeWhile (\<lambda>c. c \<noteq> 0) l \<noteq> [13, 10]" by auto
  moreover have "l @ [10] \<noteq> [10] \<and> l @ [10] \<noteq> [13, 10]" using h by (auto simp: header_line_def append_eq_Cons_conv)
  ultimately show ?thesis by (simp add: same_string_def t)
qed

lemma skip_lines_body:
  assumes "drop (lf_pos f) (lf_data f) = concat (map (\<lambda>l. l @ [10]) ls) @ [10] @ body" "\<forall>l \<in> set ls. header_line l"
  shows "\<exists>q. skip_lines f = Some (f\<lparr>lf_pos := q\<rparr>) \<and> drop q (lf_data f) = body \<and> q \<le> length (lf_data f)"
  using assms
proof (induction ls arbitrary: f)
  case Nil
  then have "drop (lf_pos f) (lf_data f) = [] @ 10 # body" by simp
  note g = fgets_line [OF this, of 256]
  have "lf_pos f + 1 \<le> length (lf_data f)" using arg_cong [OF Nil(1), of length] by simp
  moreover have "same_string [10] [10]" by (simp add: same_string_def)
  ultimately show ?case using g by (subst skip_lines.simps) auto
next
  case (Cons l ls)
  have h: "header_line l" using Cons.prems(2) by simp
  have "drop (lf_pos f) (lf_data f) = l @ 10 # (concat (map (\<lambda>l. l @ [10]) ls) @ [10] @ body)" using Cons.prems(1) by simp
  note g = fgets_line [OF this, of 256]
  let ?f = "f\<lparr>lf_pos := lf_pos f + Suc (length l)\<rparr>"
  have "skip_lines f = skip_lines ?f"
    using g h header_line_not_last [OF h] by (subst skip_lines.simps) (simp add: header_line_def)
  moreover have "\<exists>q. skip_lines ?f = Some (?f\<lparr>lf_pos := q\<rparr>) \<and> drop q (lf_data ?f) = body \<and> q \<le> length (lf_data ?f)"
    using g(2) h Cons.prems(2) by (intro Cons.IH) (simp_all add: header_line_def)
  ultimately show ?case by auto
qed

lemma beer_log_open_file:
  assumes "ty \<noteq> BEER_LOG_NONE" "le_fopen env name = Some (log_file ty ls body)" "\<forall>l \<in> set ls. header_line l"
  shows "\<exists>f l'. beer_log_open env l (Some name) ty = (0, l') \<and> lg_fd l' = Some f \<and> drop (lf_pos f) (lf_data f) = body \<and>
    lf_pos f \<le> length (lf_data f) \<and> lg_offset l' = lf_pos f \<and> lg_type l' = ty \<and> lg_error l' = lg_error l"
proof -
  let ?f0 = "\<lparr>lf_data = log_file ty ls body, lf_pos = 0, lf_stdin = False\<rparr>"
  let ?r = "concat (map (\<lambda>l. l @ [10]) ls) @ [10] @ body"
  define m where "m = butlast (log_magic ty)"
  have "log_magic ty = m @ [10] \<and> length m = 4 \<and> 10 \<notin> set m \<and> 0 \<notin> set m"
    using assms(1) unfolding m_def by (cases ty) (simp_all add: BEER_LOG_MAGIC_XLOG_def BEER_LOG_MAGIC_SNAP_def)
  then have m: "log_magic ty = m @ [10]" "length m = 4" "10 \<notin> set m" "0 \<notin> set m" by blast+
  have "drop (lf_pos ?f0) (lf_data ?f0) = m @ 10 # (BEER_LOG_VERSION @ ?r)" by (simp add: log_file_def m)
  note g1 = fgets_line [OF this, of 32]
  let ?f1 = "?f0\<lparr>lf_pos := 5\<rparr>"
  have "drop (lf_pos ?f1) (lf_data ?f1) = [48, 46, 49, 49] @ 10 # ?r" using g1(2) m(2,3) by (simp add: BEER_LOG_VERSION_def)
  note g2 = fgets_line [OF this, of 32]
  let ?f2 = "?f1\<lparr>lf_pos := 10\<rparr>"
  have "drop (lf_pos ?f2) (lf_data ?f2) = ?r" using g2(2) by simp
  from skip_lines_body [OF this assms(3)]
  obtain q where q: "skip_lines ?f2 = Some (?f2\<lparr>lf_pos := q\<rparr>)" "drop q (lf_data ?f2) = body" "q \<le> length (lf_data ?f2)" by blast
  have "takeWhile (\<lambda>c. c \<noteq> 0) m = m" using m(4) unfolding takeWhile_eq_all_conv by blast
  then have s: "same_string (log_magic ty) (log_magic ty)" "same_string BEER_LOG_VERSION BEER_LOG_VERSION"
    using m(4) by (auto simp: same_string_def m(1) BEER_LOG_VERSION_def takeWhile_append)
  have e1: "fgets 32 ?f0 = (Some (log_magic ty), ?f1)" using g1(1) m(2,3) by (simp add: m(1))
  have e2: "fgets 32 ?f1 = (Some BEER_LOG_VERSION, ?f2)" using g2(1) by (simp add: BEER_LOG_VERSION_def)
  have "beer_log_open env l (Some name) ty = (0, l\<lparr>lg_type := ty, lg_fd := Some (?f2\<lparr>lf_pos := q\<rparr>), lg_offset := q,
      lg_current_offset := 0, lg_current_value := None\<rparr>)"
    unfolding beer_log_open_def Let_def assms(2) option.case option.map prod.case e1 e2 q(1) using s by simp
  with q(2,3) show ?thesis by simp
qed

end
