(* ===== verification/Log_Safety.thy ===== *)
theory Log_Safety
  imports Log_Entries
begin

text \<open>
  What the log reader guarantees for every file, damaged ones included: an open log stays open on the same bytes, its
  position never moves back, and a value is only returned for a record behind a marker whose header and data both have
  the checksums that stand in the header.  Records do not overlap, so the number of values is bounded by the size of the file.
\<close>

text \<open>The log is open on the bytes \<open>d\<close> at position \<open>p\<close>.\<close>

definition log_on :: "'v beer_log \<Rightarrow> bytes \<Rightarrow> nat \<Rightarrow> bool" where
  "log_on l d p \<longleftrightarrow> (\<exists>f. lg_fd l = Some f \<and> lf_data f = d \<and> lf_pos f = p \<and> p \<le> length d)"

text \<open>A record with this data stands at position \<open>q\<close>, and its checksums are right.\<close>

definition checked_at :: "'v log_env \<Rightarrow> bytes \<Rightarrow> nat \<Rightarrow> bytes \<Rightarrow> bool" where
  "checked_at env d q data \<longleftrightarrow>
     (let raw = take 28 (drop (q + 4) d); h = header_of raw in
      take 4 (drop q d) = marker_bytes \<and> data = take (length data) (drop (q + 32) d) \<and> q + 32 + length data \<le> length d \<and>
      lh_crc32_hdr h = le_crc32c env (drop 4 raw) \<and> unat (lh_len h) = length data \<and> lh_crc32_data h = le_crc32c env data)"

lemma fread_keeps:
  assumes "fread n f = (x, f')" "lf_pos f \<le> length (lf_data f)"
  shows "lf_data f' = lf_data f" "lf_pos f \<le> lf_pos f'" "lf_pos f' \<le> length (lf_data f)"
  using assms by (auto simp: fread_def split: if_splits)

lemma seek_marker_bound: "seek_marker m s = Some k \<Longrightarrow> k \<le> length s"
proof (induction m s arbitrary: k rule: seek_marker.induct)
  case (1 m s)
  show ?case
  proof (cases "m = beer_log_marker_v11 \<or> s = []")
    case True
    with "1.prems" show ?thesis by (auto simp: seek_marker.simps [of m] split: if_splits)
  next
    case False
    then obtain c s' where s: "s = c # s'" by (cases s) auto
    obtain j where "k = Suc j" "seek_marker (drop_bit 8 m OR push_bit 24 (ucast c)) s' = Some j"
      using "1.prems" False by (auto simp: seek_marker.simps [of m] s)
    with "1.IH" [OF _ s] False s show ?thesis by simp
  qed
qed

lemma beer_log_eof_keeps:
  assumes "beer_log_eof env l = Some (rc, b, l')" "log_on l d p"
  shows "log_on l' d p \<and> lg_type l' = lg_type l"
proof -
  obtain f where f: "lg_fd l = Some f" "lf_data f = d" "lf_pos f = p" "p \<le> length d" using assms(2) by (auto simp: log_on_def)
  show ?thesis
  proof (cases "p = lg_offset l + 4")
    case True
    then have "fread 4 (f\<lparr>lf_pos := lg_offset l\<rparr>) = (Some (take 4 (drop (lg_offset l) d)), f\<lparr>lf_pos := p\<rparr>)"
      using f by (simp add: fread_def)
    with assms(1) f True show ?thesis
      by (auto simp: beer_log_eof_def log_on_def beer_log_seterr_def Let_def split: if_splits)
  next
    case False
    with assms f show ?thesis by (simp add: beer_log_eof_def)
  qed
qed

lemma beer_log_read_keeps:
  assumes "beer_log_read env A l = Some (rc, b, l')" "log_on l d p"
  shows "\<exists>p' \<ge> p. log_on l' d p' \<and> lg_type l' = lg_type l"
proof -
  obtain f where f: "lg_fd l = Some f" "lf_data f = d" "lf_pos f = p" "p \<le> length d" using assms(2) by (auto simp: log_on_def)
  define l0 where "l0 = l\<lparr>lg_current_offset := lf_pos f\<rparr>"
  have at_eof: "\<exists>p' \<ge> p. log_on l' d p' \<and> lg_type l' = lg_type l"
    if "beer_log_eof env k = Some (rc, b, l')" "lg_fd k = Some g" "lf_data g = d" "p \<le> lf_pos g" "lf_pos g \<le> length d" "lg_type k = lg_type l" for k g
    using beer_log_eof_keeps [OF that(1), of d "lf_pos g"] that by (auto simp: log_on_def)
  obtain m f1 where m: "fread 4 f = (m, f1)" by (metis prod.exhaust)
  note k1 = fread_keeps [OF m, unfolded f(2,3), OF f(4)]
  show ?thesis
  proof (cases m)
    case None
    with assms(1) f(1) m have "beer_log_eof env (l0\<lparr>lg_fd := Some f1\<rparr>) = Some (rc, b, l')" by (simp add: beer_log_read_def l0_def)
    then show ?thesis by (rule at_eof [where g = f1]) (use k1 in \<open>simp_all add: l0_def\<close>)
  next
    case (Some bs)
    show ?thesis
    proof (cases "seek_marker (le_field 0 4 bs) (drop (lf_pos f1) (lf_data f1))")
      case None
      with assms(1) f(1) m Some have "beer_log_eof env (l0\<lparr>lg_fd := Some (f1\<lparr>lf_pos := length (lf_data f1)\<rparr>)\<rparr>) = Some (rc, b, l')"
        by (simp add: beer_log_read_def l0_def)
      then show ?thesis by (rule at_eof [where g = "f1\<lparr>lf_pos := length (lf_data f1)\<rparr>"]) (use k1 f(4) in \<open>simp_all add: l0_def\<close>)
    next
      case k: (Some k)
      have kb: "lf_pos f1 + k \<le> length d" using seek_marker_bound [OF k] k1 by simp
      obtain h f2 where h: "fread 28 (f1\<lparr>lf_pos := lf_pos f1 + k\<rparr>) = (h, f2)" by (metis prod.exhaust)
      have k2: "lf_data f2 = d" "lf_pos f1 + k \<le> lf_pos f2" "lf_pos f2 \<le> length d"
        using fread_keeps [OF h] kb k1 by simp_all
      show ?thesis
      proof (cases h)
        case None
        with assms(1) f(1) m Some k h have "beer_log_eof env (l0\<lparr>lg_fd := Some f2\<rparr>) = Some (rc, b, l')" by (simp add: beer_log_read_def l0_def)
        then show ?thesis by (rule at_eof [where g = f2]) (use k1 k2 in \<open>simp_all add: l0_def\<close>)
      next
        case raw: (Some raw)
        define l1 where "l1 = l0\<lparr>lg_fd := Some f2, lg_hdr := header_of raw, lg_offset := lf_pos f2\<rparr>"
        obtain x f3 where x: "fread (unat (lh_len (lg_hdr l1))) f2 = (x, f3)" by (metis prod.exhaust)
        have k3: "lf_data f3 = d" "lf_pos f2 \<le> lf_pos f3" "lf_pos f3 \<le> length d" using fread_keeps [OF x] k2 by simp_all
        have body: "(if le_crc32c env (drop 4 raw) \<noteq> lh_crc32_hdr (lg_hdr l1) then Some (-1, None, beer_log_seterr env l1 BEER_LOG_ECORRUPT)
            else do {
              blk \<leftarrow> beer_mem_alloc A (unat (lh_len (lg_hdr l1)));
              if blk = Null then Some (-1, None, beer_log_seterr env l1 BEER_LOG_EMEMORY)
              else (case x of None \<Rightarrow> beer_log_eof env (l1\<lparr>lg_fd := Some f3\<rparr>)
                | Some data \<Rightarrow> if le_crc32c env data \<noteq> lh_crc32_data (lg_hdr l1)
                    then Some (-1, None, beer_log_seterr env (l1\<lparr>lg_fd := Some f3\<rparr>) BEER_LOG_ECORRUPT)
                    else Some (0, Some data, l1\<lparr>lg_fd := Some f3\<rparr>)) }) = Some (rc, b, l')"
          using assms(1) f(1) m Some k h raw x by (simp add: beer_log_read_def l0_def l1_def Let_def cong: if_cong option.case_cong split del: if_split)
        have done1: "\<exists>p' \<ge> p. log_on (beer_log_seterr env l1 e) d p' \<and> lg_type (beer_log_seterr env l1 e) = lg_type l" for e
          using k1 k2 by (intro exI [of _ "lf_pos f2"]) (simp add: log_on_def l1_def l0_def beer_log_seterr_def Let_def)
        have done2: "\<exists>p' \<ge> p. log_on k d p' \<and> lg_type k = lg_type l"
          if "k = l1\<lparr>lg_fd := Some f3\<rparr> \<or> k = beer_log_seterr env (l1\<lparr>lg_fd := Some f3\<rparr>) e" for k e
          using that k1 k2 k3 by (intro exI [of _ "lf_pos f3"]) (auto simp: log_on_def l1_def l0_def beer_log_seterr_def Let_def)
        have done3: "beer_log_eof env (l1\<lparr>lg_fd := Some f3\<rparr>) = Some (rc, b, l') \<Longrightarrow> ?thesis"
          by (erule at_eof [where g = f3]) (use k1 k2 k3 in \<open>simp_all add: l1_def l0_def\<close>)
        show ?thesis
          using body done1 done2 done3 by (auto simp: bind_eq_Some_conv split: if_splits option.splits)
      qed
    qed
  qed
qed

section \<open>Values\<close>

lemma log_process_keeps:
  assumes "log_process env l buf = Some (rc, v, l')" "unat (lh_len (lg_hdr l)) = length buf"
  shows "lg_fd l' = lg_fd l \<and> lg_type l' = lg_type l \<and> (rc = 0 \<longrightarrow> (\<exists>x. v = Some x \<and> log_value env (lg_type l) (0, 0, buf) x))"
proof -
  have n: "length buf < 4294967296" using assms(2) by (metis unat_u32_less)
  show ?thesis
  proof (cases "lg_type l")
    case BEER_LOG_NONE
    with assms(1) show ?thesis by (simp add: log_process_def)
  next
    case BEER_LOG_XLOG
    with assms n show ?thesis
      by (auto simp: log_process_def beer_log_process_xlog_def bind_eq_Some_conv slice_def Let_def beer_log_seterr_def log_value_def
          xlog_value_def split: if_splits prod.splits)
  next
    case BEER_LOG_SNAPSHOT
    with assms n show ?thesis
      by (auto simp: log_process_def beer_log_process_snapshot_def bind_eq_Some_conv slice_def Let_def beer_log_seterr_def log_value_def
          snap_value_def dest!: sym [of "Some x" for x] split: if_splits option.splits)
  qed
qed

lemma beer_log_next_to_checked:
  assumes "beer_log_next_to env A l = Some (v, l')" "log_on l d p"
  shows "\<exists>p' \<ge> p. log_on l' d p' \<and> lg_type l' = lg_type l \<and>
    (\<forall>x. v = Some x \<longrightarrow> (\<exists>q data. p \<le> q \<and> p' = q + 32 + length data \<and> checked_at env d q data \<and> log_value env (lg_type l) (0, 0, data) x))"
proof -
  obtain rc b l1 where r: "beer_log_read env A l = Some (rc, b, l1)"
    and n: "(if rc \<noteq> 0 then Some (None, l1) else do {
       buf \<leftarrow> b;
       (rc, v, l) \<leftarrow> log_process env l1 buf;
       if rc \<noteq> 0 then Some (None, l) else Some (v, l) }) = Some (v, l')"
    using assms(1) by (auto simp: beer_log_next_to_def bind_eq_Some_conv)
  obtain p1 where p1: "p \<le> p1" "log_on l1 d p1" "lg_type l1 = lg_type l" using beer_log_read_keeps [OF r assms(2)] by blast
  show ?thesis
  proof (cases "rc = 0")
    case False
    with n p1 show ?thesis by auto
  next
    case True
    obtain f raw data q where c: "lg_fd l = Some f" "b = Some data" "lf_pos f \<le> q" "q + 32 + length data \<le> length (lf_data f)"
      "take 4 (drop q (lf_data f)) = marker_bytes" "raw = take 28 (drop (q + 4) (lf_data f))"
      "data = take (length data) (drop (q + 32) (lf_data f))"
      "lg_hdr l1 = header_of raw" "lh_crc32_hdr (lg_hdr l1) = le_crc32c env (drop 4 raw)"
      "unat (lh_len (lg_hdr l1)) = length data" "lh_crc32_data (lg_hdr l1) = le_crc32c env data"
      "lg_fd l1 = Some (f\<lparr>lf_pos := q + 32 + length data\<rparr>)"
      using r True by (auto elim: beer_log_read_checked)
    have d: "lf_data f = d" "lf_pos f = p" using assms(2) c(1) by (auto simp: log_on_def)
    have ck: "checked_at env d q data" using c(4-11) by (simp add: checked_at_def d Let_def)
    obtain rc' x l2 where pr: "log_process env l1 data = Some (rc', x, l2)" "l' = l2" "v = (if rc' \<noteq> 0 then None else x)"
      using n True c(2) by (auto simp: bind_eq_Some_conv split: if_splits)
    note k = log_process_keeps [OF pr(1) c(10)]
    have "log_on l' d (q + 32 + length data)" using k pr(2) c(4,12) d by (simp add: log_on_def)
    with k ck c(3) p1(3) pr d show ?thesis by (intro exI [of _ "q + 32 + length data"]) auto
  qed
qed

lemma next_values_checked:
  assumes "next_values env A n l = Some (vs, l')" "log_on l d p"
  shows "\<exists>rs p'. log_on l' d p' \<and> length rs = n \<and> p + 44 * n \<le> p' \<and> (\<forall>r \<in> set rs. p \<le> fst r) \<and>
    list_all2 (\<lambda>(q, data) v. checked_at env d q data \<and> log_value env (lg_type l) (0, 0, data) v) rs vs \<and>
    sorted_wrt (\<lambda>(q, data) (q', _). q + 32 + length data \<le> q') rs"
  using assms
proof (induction n arbitrary: l p vs)
  case 0
  then show ?case by auto
next
  case (Suc n)
  obtain v l1 ws where v: "beer_log_next_to env A l = Some (Some v, l1)" "next_values env A n l1 = Some (ws, l')" "vs = v # ws"
    using Suc.prems(1) by (auto simp: bind_eq_Some_conv)
  obtain p1 q data where s: "log_on l1 d p1" "lg_type l1 = lg_type l" "p \<le> q" "p1 = q + 32 + length data" "checked_at env d q data"
    "log_value env (lg_type l) (0, 0, data) v"
    using beer_log_next_to_checked [OF v(1) Suc.prems(2)] by blast
  have d12: "12 \<le> length data" using log_value_size [OF s(6)] by blast
  obtain rs p' where r: "log_on l' d p'" "length rs = n" "p1 + 44 * n \<le> p'" "\<forall>r \<in> set rs. p1 \<le> fst r"
    "list_all2 (\<lambda>(q, data) v. checked_at env d q data \<and> log_value env (lg_type l) (0, 0, data) v) rs ws"
    "sorted_wrt (\<lambda>(q, data) (q', _). q + 32 + length data \<le> q') rs"
    using Suc.IH [OF v(2) s(1)] s(2) by auto
  have "\<forall>r \<in> set rs. q + 32 + length data \<le> fst r" "\<forall>r \<in> set ((q, data) # rs). p \<le> fst r" using r(4) s(3,4) by fastforce+
  then show ?case
    using r s(3-6) d12 v(3) by (intro exI [of _ "(q, data) # rs"] exI [of _ p']) (auto simp: case_prod_unfold)
qed

lemma next_values_type:
  assumes "next_values env A n l = Some (vs, l')" "log_on l d p"
  shows "lg_type l' = lg_type l"
  using assms
proof (induction n arbitrary: l p vs)
  case 0
  then show ?case by simp
next
  case (Suc n)
  obtain v l1 ws where v: "beer_log_next_to env A l = Some (Some v, l1)" "next_values env A n l1 = Some (ws, l')"
    using Suc.prems(1) by (auto simp: bind_eq_Some_conv)
  then show ?case using Suc.IH [OF v(2)] beer_log_next_to_checked [OF v(1) Suc.prems(2)] by force
qed

section \<open>Opening\<close>

lemma fgets_keeps:
  assumes "fgets n f = (x, f')" "lf_pos f \<le> length (lf_data f)"
  shows "lf_data f' = lf_data f" "lf_pos f' \<le> length (lf_data f)"
proof -
  have "length (through_nl s) \<le> length s" for s by (induction s) simp_all
  then have "length (take (n - 1) (through_nl s)) \<le> length s" for s by (simp add: min.coboundedI1)
  from this [of "drop (lf_pos f) (lf_data f)"] show "lf_data f' = lf_data f" "lf_pos f' \<le> length (lf_data f)"
    using assms by (auto simp: fgets_def Let_def split: if_splits)
qed

lemma skip_lines_keeps:
  assumes "skip_lines f = Some f'" "lf_pos f \<le> length (lf_data f)"
  shows "lf_data f' = lf_data f \<and> lf_pos f' \<le> length (lf_data f)"
  using assms
proof (induction f rule: skip_lines.induct)
  case (1 f)
  obtain x g where g: "fgets 256 f = (x, g)" by (metis prod.exhaust)
  note k = fgets_keeps [OF g "1.prems"(2)]
  show ?case
    using "1.prems"(1) "1.IH" [OF g [symmetric]] g k by (auto simp: skip_lines.simps [of f] split: option.splits if_splits)
qed

lemma beer_log_open_on:
  assumes "beer_log_open env l (Some name) ty = (0, l')" "le_fopen env name = Some d"
  shows "\<exists>p. log_on l' d p \<and> lg_type l' = ty \<and> lg_error l' = lg_error l"
proof -
  obtain x1 f1 where 1: "fgets 32 \<lparr>lf_data = d, lf_pos = 0, lf_stdin = False\<rparr> = (x1, f1)" by (metis prod.exhaust)
  obtain x2 f2 where 2: "fgets 32 f1 = (x2, f2)" by (metis prod.exhaust)
  have k1: "lf_data f1 = d" "lf_pos f1 \<le> length d" using fgets_keeps [OF 1] by simp_all
  have k2: "lf_data f2 = d" "lf_pos f2 \<le> length d" using fgets_keeps [OF 2] k1 by simp_all
  obtain f3 where 3: "skip_lines f2 = Some f3" "lg_fd l' = Some f3" "lg_type l' = ty" "lg_error l' = lg_error l"
    using assms 1 2 by (auto simp: beer_log_open_def beer_log_open_err_def Let_def split: option.splits if_splits)
  show ?thesis using skip_lines_keeps [OF 3(1)] k2 3 by (auto simp: log_on_def)
qed

end
