(* ===== verification/Beer_Rpl.thy ===== *)
theory Beer_Rpl
  imports Beer_Net Log_Safety
begin

text \<open>
  The streams of the replication reader: \<open>beerrpl/beer_xlog.c\<close> and \<open>beerrpl/beer_snapshot.c\<close>, which read the files
  of \<open>Beer_Log\<close>, and \<open>beerrpl/beer_rpl.c\<close>, which reads the same records from a server over a network stream.  A stream
  is its structure with its private data; the function pointers of the structure are the definitions themselves.
  \<open>m1\<close> and \<open>m2\<close> tell whether the stream and its data could be allocated, \<open>given\<close> whether the caller brought
  the memory of the stream.  \<open>beer_request_from\<close> of the older protocol is a parameter.  After the streams come the laws: a file that holds a
  sequence of records yields their operations in that order, and the header and row of a record from a server reach \<open>beer_request_from\<close>,
  whatever that function is, with the operation still unread.
\<close>

section \<open>Streams over files\<close>

record 'v log_stream =
  xs_alloc :: bool
  xs_data :: "'v beer_log option"

definition beer_xlog :: "bool \<Rightarrow> bool \<Rightarrow> bool \<Rightarrow> 'v log_stream option" where
  "beer_xlog given m1 m2 =
     (if \<not> given \<and> \<not> m1 then None
      else if \<not> m2 then None
      else Some \<lparr>xs_alloc = \<not> given, xs_data = Some zero_log\<rparr>)"

definition beer_xlog_free :: "'v log_stream \<Rightarrow> 'v log_stream option" where
  "beer_xlog_free s = do { l \<leftarrow> xs_data s; let l = beer_log_close l; Some (s\<lparr>xs_data := None\<rparr>) }"

definition beer_xlog_open :: "'v log_env \<Rightarrow> 'v log_stream \<Rightarrow> bytes option \<Rightarrow> (int \<times> 'v log_stream) option" where
  "beer_xlog_open env s file = do {
     l \<leftarrow> xs_data s;
     let (rc, l) = beer_log_open env l file BEER_LOG_XLOG;
     Some (rc, s\<lparr>xs_data := Some l\<rparr>) }"

definition beer_xlog_request :: "'v log_env \<Rightarrow> allocator \<Rightarrow> 'v log_stream \<Rightarrow> (int \<times> 'v option \<times> 'v log_stream) option" where
  "beer_xlog_request env A s = do {
     l \<leftarrow> xs_data s;
     (row, l) \<leftarrow> beer_log_next_to env A l;
     let s = s\<lparr>xs_data := Some l\<rparr>;
     if row = None \<and> lg_error l = BEER_LOG_EOK then Some (1, None, s)
     else Some (if row \<noteq> None then 0 else -1, row, s) }"

definition beer_xlog_close :: "'v log_stream \<Rightarrow> 'v log_stream option" where
  "beer_xlog_close s = map_option (\<lambda>l. s\<lparr>xs_data := Some (beer_log_close l)\<rparr>) (xs_data s)"

definition beer_xlog_error :: "'v log_stream \<Rightarrow> beer_log_error option" where
  "beer_xlog_error s = map_option lg_error (xs_data s)"

definition beer_xlog_strerror :: "(int \<Rightarrow> string) \<Rightarrow> 'v log_stream \<Rightarrow> string option" where
  "beer_xlog_strerror sysmsg s = Option.bind (xs_data s) (beer_log_strerror sysmsg)"

definition beer_xlog_errno :: "'v log_stream \<Rightarrow> int option" where
  "beer_xlog_errno s = map_option lg_errno (xs_data s)"

definition beer_snapshot :: "bool \<Rightarrow> bool \<Rightarrow> bool \<Rightarrow> 'v log_stream option" where
  "beer_snapshot given m1 m2 =
     (if \<not> given \<and> \<not> m1 then None
      else if \<not> m2 then None
      else Some \<lparr>xs_alloc = \<not> given, xs_data = Some zero_log\<rparr>)"

definition beer_snapshot_free :: "'v log_stream \<Rightarrow> 'v log_stream option" where
  "beer_snapshot_free s = do { l \<leftarrow> xs_data s; let l = beer_log_close l; Some (s\<lparr>xs_data := None\<rparr>) }"

definition beer_snapshot_open :: "'v log_env \<Rightarrow> 'v log_stream \<Rightarrow> bytes option \<Rightarrow> (int \<times> 'v log_stream) option" where
  "beer_snapshot_open env s file = do {
     l \<leftarrow> xs_data s;
     let (rc, l) = beer_log_open env l file BEER_LOG_SNAPSHOT;
     Some (rc, s\<lparr>xs_data := Some l\<rparr>) }"

definition beer_snapshot_read_tuple :: "'v log_env \<Rightarrow> allocator \<Rightarrow> 'v log_stream \<Rightarrow> (int \<times> 'v option \<times> 'v log_stream) option" where
  "beer_snapshot_read_tuple env A s = do {
     l \<leftarrow> xs_data s;
     (row, l) \<leftarrow> beer_log_next_to env A l;
     let s = s\<lparr>xs_data := Some l\<rparr>;
     if row = None \<and> lg_error l = BEER_LOG_EOK then Some (1, None, s)
     else Some (if row \<noteq> None then 0 else -1, row, s) }"

definition beer_snapshot_close :: "'v log_stream \<Rightarrow> 'v log_stream option" where
  "beer_snapshot_close s = map_option (\<lambda>l. s\<lparr>xs_data := Some (beer_log_close l)\<rparr>) (xs_data s)"

definition beer_snapshot_error :: "'v log_stream \<Rightarrow> beer_log_error option" where
  "beer_snapshot_error s = map_option lg_error (xs_data s)"

definition beer_snapshot_strerror :: "(int \<Rightarrow> string) \<Rightarrow> 'v log_stream \<Rightarrow> string option" where
  "beer_snapshot_strerror sysmsg s = Option.bind (xs_data s) (beer_log_strerror sysmsg)"

definition beer_snapshot_errno :: "'v log_stream \<Rightarrow> int option" where
  "beer_snapshot_errno s = map_option lg_errno (xs_data s)"

section \<open>The stream from a server\<close>

text \<open>
  The headers of the last record are kept as the bytes of their packed structures.  The network stream belongs to the caller;
  while it is attached its state is part of the replication stream.
\<close>

record 'w stream_rpl =
  rpl_hdr :: bytes
  rpl_row :: bytes
  rpl_net :: "'w net_stream option"

record iproto_hdr =
  ih_type :: u32
  ih_len :: u32
  ih_reqid :: u32

type_synonym ('w, 'v) request_from =
  "'w net_stream beer_reply_t \<Rightarrow> 'w net_stream \<Rightarrow> iproto_hdr \<Rightarrow> (int \<times> 'v option \<times> 'w net_stream) option"

definition beer_rpl_version :: u32 where
  "beer_rpl_version = 11"

definition beer_rpl :: "bool \<Rightarrow> bool \<Rightarrow> bool \<Rightarrow> 'w stream_rpl option" where
  "beer_rpl given m1 m2 =
     (if \<not> given \<and> \<not> m1 then None
      else if \<not> m2 then None
      else Some \<lparr>rpl_hdr = replicate 28 0, rpl_row = replicate 12 0, rpl_net = None\<rparr>)"

text \<open>The network stream is not released with the replication stream: it goes back to the caller.\<close>

definition beer_rpl_free :: "'w stream_rpl \<Rightarrow> 'w net_stream option" where
  "beer_rpl_free s = rpl_net s"

definition beer_rpl_attach :: "'w stream_rpl \<Rightarrow> 'w net_stream \<Rightarrow> 'w stream_rpl" where
  "beer_rpl_attach s net = s\<lparr>rpl_net := Some net\<rparr>"

definition beer_rpl_recv_cb :: "'w net_sys \<Rightarrow> 'w net_stream beer_reply_t" where
  "beer_rpl_recv_cb T s n = do {
     (rc, bs, sn) \<leftarrow> beer_io_recv T (s_data s) n;
     Some (rc, bs, s\<lparr>s_data := sn\<rparr>) }"

definition beer_rpl_request :: "('w, 'v) request_from \<Rightarrow> 'w net_sys \<Rightarrow> 'w stream_rpl \<Rightarrow> (int \<times> 'v option \<times> 'w stream_rpl) option" where
  "beer_rpl_request from T s = do {
     net \<leftarrow> rpl_net s;
     (rc, bs, net) \<leftarrow> beer_rpl_recv_cb T net 28;
     hdr \<leftarrow> poke 0 bs (rpl_hdr s);
     let s = s\<lparr>rpl_hdr := hdr, rpl_net := Some net\<rparr>;
     if rc = -1 then Some (-1, None, s)
     else do {
       (rc, bs, net) \<leftarrow> beer_rpl_recv_cb T net 12;
       row \<leftarrow> poke 0 bs (rpl_row s);
       let s = s\<lparr>rpl_row := row, rpl_net := Some net\<rparr>;
       if rc = -1 then Some (-1, None, s)
       else do {
         let hdr_iproto = \<lparr>ih_type = ucast (lr_op (log_row_of (rpl_row s))), ih_len = lh_len (header_of (rpl_hdr s)) - 12, ih_reqid = 0\<rparr>;
         (rc, v, net) \<leftarrow> from (beer_rpl_recv_cb T) net hdr_iproto;
         let s = s\<lparr>rpl_net := Some net\<rparr>;
         if rc = -1 then Some (-1, None, s) else Some (0, v, s) } } }"

text \<open>The part of \<open>beer_rpl_open\<close> behind the connection: the position is sent and the version is checked.\<close>

definition rpl_handshake :: "'w net_sys \<Rightarrow> 'w net_stream \<Rightarrow> u64 \<Rightarrow> (int \<times> 'w net_stream) option" where
  "rpl_handshake T net lsn = do {
     (rc, sn) \<leftarrow> beer_io_send_raw T (s_data net) (le 8 (unat lsn)) True;
     let net = net\<lparr>s_data := sn\<rparr>;
     if rc = -1 then Some (-1, net)
     else do {
       (rc, bs, sn) \<leftarrow> beer_io_recv_raw T (s_data net) 4 True;
       let net = net\<lparr>s_data := sn\<rparr>;
       if rc = -1 then Some (-1, net)
       else Some (if le_field 0 4 bs \<noteq> beer_rpl_version then -1 else 0, net) } }"

definition beer_rpl_open :: "msgpuck \<Rightarrow> (bytes \<Rightarrow> bytes) \<Rightarrow> (bytes \<Rightarrow> bytes) \<Rightarrow> allocator \<Rightarrow> mem_ok \<Rightarrow> 'w net_sys \<Rightarrow> 'w conn_sys \<Rightarrow> bool \<Rightarrow> bool
    \<Rightarrow> 'w stream_rpl \<Rightarrow> u64 \<Rightarrow> (int \<times> 'w stream_rpl) option" where
  "beer_rpl_open M sha1 base64 A mem T C m1 m2 s lsn = do {
     net \<leftarrow> rpl_net s;
     (rc, net) \<leftarrow> beer_init A mem net;
     if rc = -1 then Some (-1, s\<lparr>rpl_net := Some net\<rparr>)
     else do {
       (rc, net) \<leftarrow> beer_connect M sha1 base64 A mem T C m1 m2 net;
       if rc = -1 then Some (-1, s\<lparr>rpl_net := Some net\<rparr>)
       else do {
         (rc, net) \<leftarrow> rpl_handshake T net lsn;
         Some (rc, s\<lparr>rpl_net := Some net\<rparr>) } } }"

text \<open>
  \<open>beer_rpl_close\<close> hands the replication stream, not the network stream, to \<open>beer_close\<close>, which takes its data
  for that of a network stream and writes beyond it.
\<close>

definition beer_rpl_close :: "'w stream_rpl \<Rightarrow> 'w stream_rpl option" where
  "beer_rpl_close s = (if rpl_net s = None then Some s else None)"

section \<open>Reading a file\<close>

text \<open>A client that asks at most \<open>n\<close> times and stops at the first result that is not \<open>0\<close>.\<close>

fun read_all :: "('s \<Rightarrow> (int \<times> 'v option \<times> 's) option) \<Rightarrow> nat \<Rightarrow> 's \<Rightarrow> (int \<times> 'v list \<times> 's) option" where
  "read_all request 0 s = Some (0, [], s)"
| "read_all request (Suc n) s = do {
     (rc, v, s) \<leftarrow> request s;
     if rc \<noteq> 0 then Some (rc, [], s)
     else do {
       v \<leftarrow> v;
       (rc, vs, s) \<leftarrow> read_all request n s;
       Some (rc, v # vs, s) } }"

lemma beer_xlog_request_next:
  "xs_data s = Some l \<Longrightarrow> beer_log_next_to env A l = Some (Some v, l') \<Longrightarrow>
     beer_xlog_request env A s = Some (0, Some v, s\<lparr>xs_data := Some l'\<rparr>)"
  "xs_data s = Some l \<Longrightarrow> beer_log_next_to env A l = Some (None, l') \<Longrightarrow>
     beer_xlog_request env A s = Some (if lg_error l' = BEER_LOG_EOK then 1 else -1, None, s\<lparr>xs_data := Some l'\<rparr>)"
  by (simp_all add: beer_xlog_request_def Let_def)

lemma beer_snapshot_read_tuple_next: "beer_snapshot_read_tuple = beer_xlog_request"
  by (intro ext) (simp add: beer_snapshot_read_tuple_def beer_xlog_request_def)

lemma read_all_next_values:
  assumes "next_values env A n l = Some (vs, l')" "xs_data s = Some l"
  shows "read_all (beer_xlog_request env A) n s = Some (0, vs, s\<lparr>xs_data := Some l'\<rparr>)"
  using assms
proof (induction n arbitrary: l s vs)
  case 0
  then show ?case by simp
next
  case (Suc n)
  then obtain v l1 ws where v: "beer_log_next_to env A l = Some (Some v, l1)" "next_values env A n l1 = Some (ws, l')" "vs = v # ws"
    by (auto split: bind_splits)
  with Suc.IH [OF v(2), of "s\<lparr>xs_data := Some l1\<rparr>"] show ?case
    by (simp add: beer_xlog_request_next(1) [OF Suc.prems(2) v(1)])
qed

lemma zero_log_error: "lg_error zero_log = BEER_LOG_EOK"
  by (simp add: zero_log_def)

lemma log_stream_reads:
  assumes "ty \<noteq> BEER_LOG_NONE" "le_fopen env name = Some (log_file ty ls (log_body env es @ tail))" "\<forall>l \<in> set ls. header_line l"
    "\<forall>(junk, e) \<in> set es. clean_junk junk" "alloc_total A" "list_all2 (\<lambda>(junk, e) v. log_value env ty e v) es vs" "es \<noteq> []"
    "\<forall>i. take 4 (drop i tail) \<noteq> marker_bytes" "xs_data s = Some l" "lg_error l = BEER_LOG_EOK"
  shows "\<exists>l1 l2 l3. beer_log_open env l (Some name) ty = (0, l1) \<and>
    read_all (beer_xlog_request env A) (length es) (s\<lparr>xs_data := Some l1\<rparr>) = Some (0, vs, s\<lparr>xs_data := Some l2\<rparr>) \<and>
    beer_xlog_request env A (s\<lparr>xs_data := Some l2\<rparr>) = Some (1, None, s\<lparr>xs_data := Some l3\<rparr>)"
proof -
  obtain f l1 where o: "beer_log_open env l (Some name) ty = (0, l1)" "lg_fd l1 = Some f" "drop (lf_pos f) (lf_data f) = log_body env es @ tail"
    "lg_type l1 = ty" "lg_error l1 = lg_error l"
    using beer_log_open_file [OF assms(1,2,3)] by blast
  obtain l2 where n: "next_values env A (length es) l1 = Some (vs, l2)" "log_at l2 tail" "lg_error l2 = lg_error l1"
    using next_values_all [OF o(2,3) assms(4,5) _ assms(7)] assms(6) o(4) by blast
  obtain l3 where e: "beer_log_next_to env A l2 = Some (None, l3)" "lg_error l3 = lg_error l2"
    using beer_log_next_to_end [OF n(2) assms(8)] by blast
  have "read_all (beer_xlog_request env A) (length es) (s\<lparr>xs_data := Some l1\<rparr>) = Some (0, vs, s\<lparr>xs_data := Some l2\<rparr>)"
    using read_all_next_values [OF n(1), of "s\<lparr>xs_data := Some l1\<rparr>"] by simp
  moreover have "beer_xlog_request env A (s\<lparr>xs_data := Some l2\<rparr>) = Some (1, None, s\<lparr>xs_data := Some l3\<rparr>)"
    using beer_xlog_request_next(2) [OF _ e(1), of "s\<lparr>xs_data := Some l2\<rparr>"] e(2) n(3) o(5) assms(10) by simp
  ultimately show ?thesis using o(1) by blast
qed

lemma xlog_reads:
  assumes "le_fopen env name = Some (log_file BEER_LOG_XLOG ls (log_body env es @ tail))" "\<forall>l \<in> set ls. header_line l"
    "\<forall>(junk, e) \<in> set es. clean_junk junk" "alloc_total A" "list_all2 (\<lambda>(junk, e) v. xlog_value env e v) es vs" "es \<noteq> []"
    "\<forall>i. take 4 (drop i tail) \<noteq> marker_bytes" "beer_xlog given m1 m2 = Some s"
  shows "\<exists>s1 s2 s3. beer_xlog_open env s (Some name) = Some (0, s1) \<and>
    read_all (beer_xlog_request env A) (length es) s1 = Some (0, vs, s2) \<and> beer_xlog_request env A s2 = Some (1, None, s3)"
proof -
  have s: "xs_data s = Some zero_log" using assms(8) by (auto simp: beer_xlog_def split: if_splits)
  have "list_all2 (\<lambda>(junk, e) v. log_value env BEER_LOG_XLOG e v) es vs" using assms(5) by (simp add: log_value_def)
  from log_stream_reads [OF _ assms(1-4) this assms(6,7) s] show ?thesis
    by (fastforce simp: beer_xlog_open_def s zero_log_def)
qed

lemma snapshot_reads:
  assumes "le_fopen env name = Some (log_file BEER_LOG_SNAPSHOT ls (log_body env es @ tail))" "\<forall>l \<in> set ls. header_line l"
    "\<forall>(junk, e) \<in> set es. clean_junk junk" "alloc_total A" "list_all2 (\<lambda>(junk, e) v. snap_value env e v) es vs" "es \<noteq> []"
    "\<forall>i. take 4 (drop i tail) \<noteq> marker_bytes" "beer_snapshot given m1 m2 = Some s"
  shows "\<exists>s1 s2 s3. beer_snapshot_open env s (Some name) = Some (0, s1) \<and>
    read_all (beer_snapshot_read_tuple env A) (length es) s1 = Some (0, vs, s2) \<and> beer_snapshot_read_tuple env A s2 = Some (1, None, s3)"
proof -
  have s: "xs_data s = Some zero_log" using assms(8) by (auto simp: beer_snapshot_def split: if_splits)
  have "list_all2 (\<lambda>(junk, e) v. log_value env BEER_LOG_SNAPSHOT e v) es vs" using assms(5) by (simp add: log_value_def)
  from log_stream_reads [OF _ assms(1-4) this assms(6,7) s] show ?thesis
    by (fastforce simp: beer_snapshot_open_def beer_snapshot_read_tuple_next s zero_log_def)
qed

text \<open>A file that ends inside the data of a record: its whole records are read, then the reader reports the end.\<close>

lemma xlog_cut:
  assumes "le_fopen env name = Some (log_file BEER_LOG_XLOG ls (log_body env es @ marker_bytes @ entry_header env (lsn, tm, data) @ part))"
    "\<forall>l \<in> set ls. header_line l" "\<forall>(junk, e) \<in> set es. clean_junk junk" "alloc_total A"
    "list_all2 (\<lambda>(junk, e) v. xlog_value env e v) es vs" "es \<noteq> []" "beer_xlog given m1 m2 = Some s"
    "length part < length data" "length data < 4294967296"
  shows "\<exists>s1 s2 s3. beer_xlog_open env s (Some name) = Some (0, s1) \<and>
    read_all (beer_xlog_request env A) (length es) s1 = Some (0, vs, s2) \<and>
    (if length part = 4 \<and> le_field 0 4 part \<noteq> beer_log_marker_eof_v11
     then beer_xlog_request env A s2 = Some (-1, None, s3) \<and> beer_xlog_error s3 = Some BEER_LOG_ECORRUPT
     else beer_xlog_request env A s2 = Some (1, None, s3) \<and> beer_xlog_error s3 = Some BEER_LOG_EOK)"
proof -
  let ?tail = "marker_bytes @ entry_header env (lsn, tm, data) @ part"
  let ?bad = "length part = 4 \<and> le_field 0 4 part \<noteq> beer_log_marker_eof_v11"
  have s: "xs_data s = Some zero_log" using assms(7) by (auto simp: beer_xlog_def split: if_splits)
  have vs: "list_all2 (\<lambda>(junk, e) v. log_value env BEER_LOG_XLOG e v) es vs" using assms(5) by (simp add: log_value_def)
  obtain f l1 where o: "beer_log_open env zero_log (Some name) BEER_LOG_XLOG = (0, l1)" "lg_fd l1 = Some f"
    "drop (lf_pos f) (lf_data f) = log_body env es @ ?tail" "lg_type l1 = BEER_LOG_XLOG" "lg_error l1 = BEER_LOG_EOK"
    using beer_log_open_file [OF beer_log_type.distinct(1) [symmetric] assms(1,2), of zero_log] unfolding zero_log_error by blast
  obtain l2 where n: "next_values env A (length es) l1 = Some (vs, l2)" "log_at l2 ?tail" "lg_error l2 = lg_error l1"
    using next_values_all [OF o(2,3) assms(3,4) vs [folded o(4)] assms(6)] by blast
  obtain g where g: "lg_fd l2 = Some g" "drop (lf_pos g) (lf_data g) = [] @ ?tail" using n(2) by (auto simp: log_at_def)
  have nm: "no_marker (length []) ([] @ marker_bytes)" by (simp add: no_marker_def)
  have "\<exists>rc l'. beer_log_read env A l2 = Some (rc, None, l') \<and> rc \<noteq> 0 \<and> lg_error l' = (if ?bad then BEER_LOG_ECORRUPT else lg_error l2)"
  proof (cases "length part = 4")
    case True
    from beer_log_read_cut4 [OF g nm assms(4,8,9) True] show ?thesis using True by (auto split: if_splits)
  next
    case False
    from beer_log_read_cut [OF g nm assms(4,8,9) False] show ?thesis using False by (auto simp: read_state_def)
  qed
  then obtain l3 where e: "beer_log_next_to env A l2 = Some (None, l3)" "lg_error l3 = (if ?bad then BEER_LOG_ECORRUPT else lg_error l2)"
    by (auto simp: beer_log_next_to_def)
  have r: "read_all (beer_xlog_request env A) (length es) (s\<lparr>xs_data := Some l1\<rparr>) = Some (0, vs, s\<lparr>xs_data := Some l2\<rparr>)"
    using read_all_next_values [OF n(1), of "s\<lparr>xs_data := Some l1\<rparr>"] by simp
  have "beer_xlog_request env A (s\<lparr>xs_data := Some l2\<rparr>) = Some (if ?bad then -1 else 1, None, s\<lparr>xs_data := Some l3\<rparr>)"
    using beer_xlog_request_next(2) [OF _ e(1), of "s\<lparr>xs_data := Some l2\<rparr>"] e(2) n(3) o(5) by simp
  then have "if ?bad
     then beer_xlog_request env A (s\<lparr>xs_data := Some l2\<rparr>) = Some (-1, None, s\<lparr>xs_data := Some l3\<rparr>) \<and>
       beer_xlog_error (s\<lparr>xs_data := Some l3\<rparr>) = Some BEER_LOG_ECORRUPT
     else beer_xlog_request env A (s\<lparr>xs_data := Some l2\<rparr>) = Some (1, None, s\<lparr>xs_data := Some l3\<rparr>) \<and>
       beer_xlog_error (s\<lparr>xs_data := Some l3\<rparr>) = Some BEER_LOG_EOK"
    using e(2) n(3) o(5) by (simp add: beer_xlog_error_def)
  moreover have "beer_xlog_open env s (Some name) = Some (0, s\<lparr>xs_data := Some l1\<rparr>)" using o(1) s by (simp add: beer_xlog_open_def)
  ultimately show ?thesis using r by blast
qed

section \<open>Reading from a server\<close>

definition rpl_inv :: "'w stream_rpl \<Rightarrow> 'w net_stream \<Rightarrow> bool" where
  "rpl_inv s net \<longleftrightarrow> length (rpl_hdr s) = 28 \<and> length (rpl_row s) = 12 \<and> rpl_net s = Some net \<and> net_inv (s_data net)"

lemma unat_of_nat_u32: "n < 4294967296 \<Longrightarrow> unat (word_of_nat n :: u32) = n"
  by (simp add: unat_of_nat take_bit_nat_eq_self)

lemma row_op: assumes "length row = 12"
  shows "ucast (lr_op (log_row_of row)) = (word_of_nat (le_val (drop 10 row)) :: u32)"
proof -
  have "le_val (drop 10 row) < 65536" using le_val_bound [of "drop 10 row"] assms by simp
  then have "unat (ucast (word_of_nat (le_val (drop 10 row)) :: u16) :: u32) = unat (word_of_nat (le_val (drop 10 row)) :: u32)"
    by (simp add: unsigned_ucast_eq unat_of_nat take_bit_nat_eq_self)
  then have "ucast (word_of_nat (le_val (drop 10 row)) :: u16) = (word_of_nat (le_val (drop 10 row)) :: u32)" by (rule unsigned_word_eqI)
  then show ?thesis by (simp add: log_row_of_def le_field_def assms)
qed

lemma poke_whole: "length bs = length old \<Longrightarrow> poke 0 bs old = Some bs"
  by (simp add: poke_def)

lemma poke_front: "length bs \<le> length old \<Longrightarrow> \<exists>m. poke 0 bs old = Some m"
  by (simp add: poke_def)

text \<open>For a record as a server writes it the announced length is that of its operation.\<close>

lemma record_length:
  assumes "length row = 12" "12 + length payload < 4294967296"
  shows "word_of_nat (le_val (take 4 (drop 20 (entry_header env (lsn, tm, row @ payload))))) - 12 = (word_of_nat (length payload) :: u32)"
  using header_of_entry [of "row @ payload" env lsn tm] assms by (simp add: header_of_def le_field_def)

context transport begin

lemma rpl_recv_reads:
  assumes "net_inv (s_data net)" "net_in incoming (s_data net) = bs @ rest" "bs \<noteq> []" "length bs = n"
  shows "(\<exists>x net'. beer_rpl_recv_cb T net n = Some (-1, x, net') \<and> length x \<le> n \<and> sn_error (s_data net') = BEER_ESYSTEM \<and>
      (\<exists>m < n. refuses T incoming (drop m (bs @ rest)))) \<or>
    (\<exists>net'. beer_rpl_recv_cb T net n = Some (int n, bs, net') \<and> net_inv (s_data net') \<and> net_in incoming (s_data net') = rest)"
proof -
  obtain rv x s' where r: "beer_io_recv T (s_data net) n = Some (rv, x, s')" "net_reads incoming (s_data net) n rv x s'"
    "read_excused T incoming (net_in incoming (s_data net)) n rv"
    using recv_reads [OF assms(1)] by blast
  have n: "0 < n" using assms(3,4) by auto
  have cb: "beer_rpl_recv_cb T net n = Some (rv, x, net\<lparr>s_data := s'\<rparr>)" using r(1) by (simp add: beer_rpl_recv_cb_def)
  show ?thesis
  proof (cases "rv = -1")
    case True
    then have "length x \<le> n" "sn_error s' = BEER_ESYSTEM" "\<exists>m < n. refuses T incoming (drop m (bs @ rest))"
      using r(2,3) n assms(2) by (auto simp: net_reads_def read_excused_def)
    with cb True show ?thesis by simp
  next
    case False
    then have x: "rv = int n" "length x = n" "net_inv s'" "bs @ rest = x @ net_in incoming s'"
      using r(2) assms(2) by (simp_all add: net_reads_def)
    then have "x = bs \<and> net_in incoming s' = rest" using assms(4) by simp
    with cb x(1,3) show ?thesis by simp
  qed
qed

text \<open>
  One request, whatever \<open>from\<close> does: header and row are fetched, then \<open>from\<close> gets the stream behind them, the operation, and the
  announced length without the row, and its result is the result.
\<close>

lemma rpl_request_calls:
  assumes "rpl_inv s net" "net_in incoming (s_data net) = hdr @ row @ rest" "length hdr = 28" "length row = 12"
  shows "(\<exists>s' net'. (\<forall>from. beer_rpl_request from T s = Some (-1, None, s')) \<and> rpl_net s' = Some net' \<and>
      sn_error (s_data net') = BEER_ESYSTEM \<and> (\<exists>m < 40. refuses T incoming (drop m (hdr @ row @ rest)))) \<or>
    (\<exists>net'. net_inv (s_data net') \<and> net_in incoming (s_data net') = rest \<and>
      (\<forall>from. beer_rpl_request from T s =
        (case from (beer_rpl_recv_cb T) net'
            \<lparr>ih_type = word_of_nat (le_val (drop 10 row)), ih_len = word_of_nat (le_val (take 4 (drop 20 hdr))) - 12, ih_reqid = 0\<rparr> of
           None \<Rightarrow> None
         | Some (rc, v, net'') \<Rightarrow>
             Some (if rc = -1 then -1 else 0, if rc = -1 then None else v, \<lparr>rpl_hdr = hdr, rpl_row = row, rpl_net = Some net''\<rparr>))) \<and>
      (\<forall>bs tail. rest = bs @ tail \<and> bs \<noteq> [] \<longrightarrow>
        (\<exists>x net''. beer_rpl_recv_cb T net' (length bs) = Some (-1, x, net'') \<and> sn_error (s_data net'') = BEER_ESYSTEM \<and>
           (\<exists>m < length bs. refuses T incoming (drop m rest))) \<or>
        (\<exists>net''. beer_rpl_recv_cb T net' (length bs) = Some (int (length bs), bs, net'') \<and> net_inv (s_data net'') \<and>
           net_in incoming (s_data net'') = tail)))"
proof -
  have i: "length (rpl_hdr s) = 28" "length (rpl_row s) = 12" "rpl_net s = Some net" "net_inv (s_data net)"
    using assms(1) by (simp_all add: rpl_inv_def)
  have ne: "hdr \<noteq> []" "row \<noteq> []" using assms(3,4) by auto
  show ?thesis
    using rpl_recv_reads [OF i(4) assms(2) ne(1) assms(3)]
  proof (elim disjE exE conjE)
    fix x net1 m
    assume f: "beer_rpl_recv_cb T net 28 = Some (-1, x, net1)" "length x \<le> 28" "sn_error (s_data net1) = BEER_ESYSTEM"
      "m < 28" "refuses T incoming (drop m (hdr @ row @ rest))"
    obtain p where "poke 0 x (rpl_hdr s) = Some p" using poke_front [of x "rpl_hdr s"] f(2) i(1) by auto
    with f(1) i(3) have "beer_rpl_request dec T s = Some (-1, None, s\<lparr>rpl_hdr := p, rpl_net := Some net1\<rparr>)" for dec
      by (simp add: beer_rpl_request_def)
    moreover have "\<exists>m < 40. refuses T incoming (drop m (hdr @ row @ rest))" using f(4,5) by (intro exI [of _ m]) simp
    ultimately show ?thesis
      using f(3) by (intro disjI1 exI [of _ "s\<lparr>rpl_hdr := p, rpl_net := Some net1\<rparr>"] exI [of _ net1] conjI allI) simp_all
  next
    fix net1
    assume a: "beer_rpl_recv_cb T net 28 = Some (int 28, hdr, net1)" "net_inv (s_data net1)" "net_in incoming (s_data net1) = row @ rest"
    have p1: "poke 0 hdr (rpl_hdr s) = Some hdr" using i(1) assms(3) by (simp add: poke_whole)
    show ?thesis
      using rpl_recv_reads [OF a(2,3) ne(2) assms(4)]
    proof (elim disjE exE conjE)
      fix x net2 m
      assume f: "beer_rpl_recv_cb T net1 12 = Some (-1, x, net2)" "length x \<le> 12" "sn_error (s_data net2) = BEER_ESYSTEM"
        "m < 12" "refuses T incoming (drop m (row @ rest))"
      obtain p where "poke 0 x (rpl_row s) = Some p" using poke_front [of x "rpl_row s"] f(2) i(2) by auto
      with f(1) a(1) p1 i(3) have "beer_rpl_request dec T s = Some (-1, None, s\<lparr>rpl_hdr := hdr, rpl_row := p, rpl_net := Some net2\<rparr>)" for dec
        by (simp add: beer_rpl_request_def)
      moreover have "\<exists>m < 40. refuses T incoming (drop m (hdr @ row @ rest))"
        using f(4,5) assms(3) by (intro exI [of _ "28 + m"]) simp
      ultimately show ?thesis
        using f(3) by (intro disjI1 exI [of _ "s\<lparr>rpl_hdr := hdr, rpl_row := p, rpl_net := Some net2\<rparr>"] exI [of _ net2] conjI allI)
          simp_all
    next
      fix net2
      assume b: "beer_rpl_recv_cb T net1 12 = Some (int 12, row, net2)" "net_inv (s_data net2)" "net_in incoming (s_data net2) = rest"
      have p2: "poke 0 row (rpl_row s) = Some row" using i(2) assms(4) by (simp add: poke_whole)
      have len: "lh_len (header_of hdr) = word_of_nat (le_val (take 4 (drop 20 hdr)))" by (simp add: header_of_def le_field_def)
      have s': "s\<lparr>rpl_hdr := hdr, rpl_row := row, rpl_net := n\<rparr> = \<lparr>rpl_hdr = hdr, rpl_row = row, rpl_net = n\<rparr>" for n by (cases s) simp
      have "beer_rpl_request dec T s =
        (case dec (beer_rpl_recv_cb T) net2
            \<lparr>ih_type = word_of_nat (le_val (drop 10 row)), ih_len = word_of_nat (le_val (take 4 (drop 20 hdr))) - 12, ih_reqid = 0\<rparr> of
           None \<Rightarrow> None
         | Some (rc, v, net'') \<Rightarrow>
             Some (if rc = -1 then -1 else 0, if rc = -1 then None else v, \<lparr>rpl_hdr = hdr, rpl_row = row, rpl_net = Some net''\<rparr>))" for dec
        using a(1) b(1) p1 p2 i(3) by (simp add: beer_rpl_request_def row_op [OF assms(4)] len s' split: option.split prod.split)
      moreover have "(\<forall>bs tail. rest = bs @ tail \<and> bs \<noteq> [] \<longrightarrow>
        (\<exists>x net''. beer_rpl_recv_cb T net2 (length bs) = Some (-1, x, net'') \<and> sn_error (s_data net'') = BEER_ESYSTEM \<and>
           (\<exists>m < length bs. refuses T incoming (drop m rest))) \<or>
        (\<exists>net''. beer_rpl_recv_cb T net2 (length bs) = Some (int (length bs), bs, net'') \<and> net_inv (s_data net'') \<and>
           net_in incoming (s_data net'') = tail))"
        using rpl_recv_reads [OF b(2) _ _ refl] b(3) by blast
      ultimately show ?thesis using b(2,3) by blast
    qed
  qed
qed

lemma rpl_handshake_result:
  "\<exists>rc net'. rpl_handshake T net lsn = Some (rc, net') \<and>
    (rc = -1 \<and> declines T \<or>
     (\<exists>w. sent w = sent (sn_world (s_data net)) @ le 8 (unat lsn) \<and> sent (sn_world (s_data net')) = sent w \<and>
       (rc = -1 \<and> (\<exists>m < 4. refuses T incoming (drop m (incoming w))) \<or>
        (\<exists>v. length v = 4 \<and> incoming w = v @ incoming (sn_world (s_data net')) \<and> rc = (if v = le 4 11 then 0 else -1)))))"
proof -
  let ?b = "le 8 (unat lsn)"
  have ne: "?b \<noteq> []" by (metis length_le list.size(3) zero_neq_numeral)
  obtain rv s1 where s: "beer_io_send_raw T (s_data net) ?b True = Some (rv, s1)" "raw_sent (s_data net) ?b rv s1" "rv = -1 \<longrightarrow> declines T"
    using beer_io_send_raw_sends [of "s_data net" ?b] ne by blast
  show ?thesis
  proof (cases "rv = -1")
    case True
    with s(1,3) show ?thesis by (simp add: rpl_handshake_def)
  next
    case False
    then have w: "sent (sn_world s1) = sent (sn_world (s_data net)) @ ?b" using s(2) by (simp add: raw_sent_def)
    obtain k e bs w' where r: "recv_loop T (io_tx (sn_rbuf s1)) 4 True [] (sn_world s1) = Some ((k, e, bs), w')" "sent w' = sent (sn_world s1)"
      "incoming (sn_world s1) = bs @ incoming w'"
      "k = -1 \<and> (\<exists>m < 4. refuses T incoming (drop m (incoming (sn_world s1)))) \<or> k = int (length bs) \<and> length bs = 4"
      using recv_loop_recvs [of "io_tx (sn_rbuf s1)" 4 True "[]" "sn_world s1", unfolded append_Nil] by force
    have ver: "le_field 0 4 bs = beer_rpl_version \<longleftrightarrow> bs = le 4 11" if "length bs = 4"
      using that u32_of_le [of bs beer_rpl_version] by (simp add: le_field_u32 beer_rpl_version_def)
    show ?thesis
    proof (cases "k = -1")
      case True
      with r(1) s(1) False have h: "\<exists>net'. rpl_handshake T net lsn = Some (-1, net') \<and> sn_world (s_data net') = w'"
        by (simp add: rpl_handshake_def beer_io_recv_raw_def)
      have "\<exists>m < 4. refuses T incoming (drop m (incoming (sn_world s1)))" using r(4) unfolding True by simp
      with h w r(2) show ?thesis by (metis (no_types))
    next
      case F: False
      with r(4) have "length bs = 4" by blast
      with r F s(1) False w show ?thesis
        by (auto simp: rpl_handshake_def beer_io_recv_raw_def ver [OF \<open>length bs = 4\<close>])
    qed
  qed
qed

end

end
