(* ===== verification/Doc_Example.thy ===== *)
theory Doc_Example
  imports Beer_Net Beer_Request
begin

text \<open>
  The example of the documentation (\<open>doc/source/example.c\<close>), a client of the whole library: it connects, asks for a
  message by its number and decodes the answer.  Messages to the log are left out.  The functions of the file that use what no header
  declares (\<open>req->stream\<close>, \<open>beer_request_encode\<close>, \<open>beer_request_set_ssindexz\<close>, \<open>beer_object_add_string\<close>) have no meaning and no model.

  What is shown: the decoder reads the length of the outer array twice, so it refuses every answer whose first row has
  fields, and it only decodes a row that stands behind an empty one and announces exactly four fields.
\<close>

section \<open>Messages\<close>

text \<open>The structure comes from \<open>malloc\<close>: its pointers are not to be freed before they have been set.\<close>

record msg_profile =
  pf_id :: u32
  pf_user :: blk
  pf_like :: u32
  pf_msg :: blk

definition raw_profile :: msg_profile where
  "raw_profile = \<lparr>pf_id = 0, pf_user = Dangling, pf_like = 0, pf_msg = Dangling\<rparr>"

definition msg_profile_free :: "msg_profile option \<Rightarrow> unit option" where
  "msg_profile_free msg =
     (case msg of
        None \<Rightarrow> Some ()
      | Some p \<Rightarrow> if pf_msg p = Dangling \<or> pf_user p = Dangling then None else Some ())"

definition strndup :: "bool \<Rightarrow> bytes \<Rightarrow> blk" where
  "strndup mem s = (if mem then Live (takeWhile (\<lambda>c. c \<noteq> 0) s @ [0]) else Null)"

text \<open>\<open>while (len > 0) mp_next(&data)\<close>: nothing in the loop changes \<open>len\<close>.\<close>

partial_function (option) skip_fields :: "msgpuck \<Rightarrow> bytes \<Rightarrow> u32 \<Rightarrow> nat \<Rightarrow> nat option" where
  "skip_fields M buf len data =
     (if 0 < len then do { data \<leftarrow> rd_next M buf data; skip_fields M buf len data } else Some data)"

text \<open>
  \<open>m0\<close> to \<open>m2\<close>: the three allocations succeed.  The result is the return code, what is stored in \<open>*rv\<close> (\<open>None\<close>: nothing, \<open>Some None\<close>: NULL), and the
  reply, whose \<open>data\<close> the function moves.
\<close>

type_synonym decoded = "int \<times> msg_profile option option \<times> beer_reply_struct"

definition profile_rollback :: "msg_profile \<Rightarrow> beer_reply_struct \<Rightarrow> decoded option" where
  "profile_rollback p r = do { _ \<leftarrow> msg_profile_free (Some p); Some (-1, Some None, r) }"

definition profile_fields :: "msgpuck \<Rightarrow> bool \<Rightarrow> bool \<Rightarrow> bytes \<Rightarrow> nat \<Rightarrow> beer_reply_struct \<Rightarrow> decoded option" where
  "profile_fields M m1 m2 buf data r = do {
     let p = raw_profile;
     t \<leftarrow> rd_type M buf data;
     if t \<noteq> MP_ARRAY then profile_rollback p r
     else do {
       (len, data) \<leftarrow> rd_array M buf data;
       if len < 2 then profile_rollback p r
       else do {
         t \<leftarrow> rd_type M buf data;
         if t \<noteq> MP_UINT then profile_rollback p r
         else do {
           (v, data) \<leftarrow> rd_uint M buf data;
           let p = p\<lparr>pf_id := ucast v\<rparr>;
           t \<leftarrow> rd_type M buf data;
           if t \<noteq> MP_STR then profile_rollback p r
           else do {
             (off, n, data) \<leftarrow> rd_str M buf data;
             s \<leftarrow> slice off (unat n) buf;
             let p = p\<lparr>pf_user := strndup m1 s\<rparr>;
             if pf_user p = Null then profile_rollback p r
             else do {
               t \<leftarrow> rd_type M buf data;
               if t \<noteq> MP_UINT then profile_rollback p r
               else do {
                 (v, data) \<leftarrow> rd_uint M buf data;
                 let p = p\<lparr>pf_like := ucast v\<rparr>;
                 t \<leftarrow> rd_type M buf data;
                 if t \<noteq> MP_STR then profile_rollback p r
                 else do {
                   (off, n, data) \<leftarrow> rd_str M buf data;
                   s \<leftarrow> slice off (unat n) buf;
                   let p = p\<lparr>pf_msg := strndup m2 s\<rparr>;
                   if pf_msg p = Null then profile_rollback p r
                   else do {
                     data \<leftarrow> skip_fields M buf (len - 4) data;
                     Some (0, Some (Some p), r\<lparr>rp_data := Some data\<rparr>) } } } } } } } } }"

definition msg_profile_decode :: "msgpuck \<Rightarrow> bool \<Rightarrow> bool \<Rightarrow> bool \<Rightarrow> beer_reply_struct \<Rightarrow> decoded option" where
  "msg_profile_decode M m0 m1 m2 rpl =
     (if rp_code rpl \<noteq> 0 then Some (-1, None, rpl)
      else case (rp_buf rpl, rp_data rpl) of
        (Live buf, Some data) \<Rightarrow> do {
          t \<leftarrow> rd_type M buf data;
          if t \<noteq> MP_ARRAY then Some (-1, None, rpl)
          else do {
            (n, data) \<leftarrow> rd_array M buf data;
            let rpl = rpl\<lparr>rp_data := Some data\<rparr>;
            if n = 0 then Some (0, None, rpl)
            else do {
              (n, data) \<leftarrow> rd_array M buf data;
              let rpl = rpl\<lparr>rp_data := Some data\<rparr>;
              if 0 < n then Some (-1, None, rpl)
              else if \<not> m0 then Some (-1, None, rpl)
              else profile_fields M m1 m2 buf data rpl } } }
      | _ \<Rightarrow> None)"

section \<open>Requests\<close>

text \<open>
  The builder and the reply are static: they are made at the first call (\<open>None\<close> before) and kept.  \<open>mb\<close>, \<open>ms\<close> and \<open>mr\<close> tell whether
  they could be allocated.
\<close>

type_synonym 'w get_state = "buf_stream option \<times> beer_reply_struct option \<times> 'w net_stream"

definition msg_profile_get :: "msgpuck \<Rightarrow> allocator \<Rightarrow> 'w net_sys \<Rightarrow> bool \<times> bool \<times> bool \<Rightarrow> bool \<times> bool \<times> bool \<Rightarrow> u32 \<Rightarrow> u32 \<Rightarrow> 'w get_state
    \<Rightarrow> (int \<times> msg_profile option option \<times> 'w get_state) option" where
  "msg_profile_get M A T mems dmems space_no ident st = do {
     let (mb, ms, mr) = mems;
     let (m0, m1, m2) = dmems;
     let (obj, rpl, s) = st;
     obj \<leftarrow> (case obj of None \<Rightarrow> beer_object mb ms | Some ob \<Rightarrow> Some (Some ob));
     case obj of
       None \<Rightarrow> Some (-1, None, None, rpl, s)
     | Some obj \<Rightarrow>
         (case (case rpl of None \<Rightarrow> beer_reply_init False mr | Some r \<Rightarrow> Some r) of
            None \<Rightarrow> Some (-1, None, Some obj, None, s)
          | Some rpl \<Rightarrow> do {
              (_, obj) \<leftarrow> beer_object_reset obj;
              (_, obj) \<leftarrow> beer_object_add_array M A (stack_mem A obj) obj 1;
              (_, obj) \<leftarrow> beer_object_add_int M A obj (scast ident);
              (rc, s) \<leftarrow> beer_select M (beer_net_writev T) s space_no 0 0xffffffff 0 0 obj;
              if rc = -1 then Some (-1, None, Some obj, Some rpl, s)
              else do {
                (rc, s) \<leftarrow> beer_flush T s;
                if rc = -1 then Some (-1, None, Some obj, Some rpl, s)
                else do {
                  (rc, rpl, s) \<leftarrow> beer_net_reply M A T s rpl;
                  if rc = -1 then Some (-1, None, Some obj, Some rpl, s)
                  else do {
                    (rc, rv, rpl) \<leftarrow> msg_profile_decode M m0 m1 m2 rpl;
                    Some (rc, rv, Some obj, Some rpl, s) } } } }) }"

definition profile_format :: string where
  "profile_format = ''[%d%.*s%d%.*s]''"

definition msg_profile_create :: "msgpuck \<Rightarrow> allocator \<Rightarrow> bool \<Rightarrow> beer_request \<Rightarrow> va list \<Rightarrow> (int \<times> beer_request) option" where
  "msg_profile_create M A mem req args = do {
     (rc, req) \<leftarrow> beer_request_set_tuple_format M A mem req profile_format args;
     Some (if rc = -1 then -1 else 0, req) }"

section \<open>The connection\<close>

definition BEE_URI :: bytes where
  "BEE_URI = [108, 111, 99, 97, 108, 104, 111, 115, 116, 58, 51, 51, 48, 49, 0]"

definition BUFFER_SIZE :: int where
  "BUFFER_SIZE = 256 * 1024"

text \<open>\<open>Inl\<close>: the connection; \<open>Inr\<close>: NULL, and what is left of the world.  The result of \<open>beer_net\<close> is used unchecked.\<close>

definition bee_connection :: "msgpuck \<Rightarrow> (bytes \<Rightarrow> bytes) \<Rightarrow> (bytes \<Rightarrow> bytes) \<Rightarrow> allocator \<Rightarrow> mem_ok \<Rightarrow> uri_parser \<Rightarrow> 'w net_sys \<Rightarrow> 'w conn_sys
    \<Rightarrow> bool \<Rightarrow> bool \<Rightarrow> bool \<Rightarrow> bytes \<Rightarrow> 'w \<Rightarrow> ('w net_stream + 'w) option" where
  "bee_connection M sha1 base64 A mem parse T C m1 m2 m3 uri w = do {
     connection \<leftarrow> beer_net A m1 m2 m3 w;
     s \<leftarrow> connection;
     let rollback = (\<lambda>s. map_option Inr (beer_net_free A T s));
     (rc, s) \<leftarrow> beer_set A parse s (BEER_OPT_URI uri);
     if rc = -1 then rollback s
     else do {
       (_, s) \<leftarrow> beer_set A parse s (BEER_OPT_SEND_BUF BUFFER_SIZE);
       (_, s) \<leftarrow> beer_set A parse s (BEER_OPT_RECV_BUF BUFFER_SIZE);
       (rc, s) \<leftarrow> beer_connect M sha1 base64 A mem T C m1 m2 s;
       if rc = -1 then rollback s else Some (Inl s) } }"

text \<open>\<open>main\<close>: the number of the space \<open>messages\<close>, and the world after everything is released.\<close>

definition example_main :: "msgpuck \<Rightarrow> (bytes \<Rightarrow> bytes) \<Rightarrow> (bytes \<Rightarrow> bytes) \<Rightarrow> allocator \<Rightarrow> mem_ok \<Rightarrow> uri_parser \<Rightarrow> 'w net_sys \<Rightarrow> 'w conn_sys
    \<Rightarrow> bool \<Rightarrow> bool \<Rightarrow> bool \<Rightarrow> 'w \<Rightarrow> (int \<times> 'w) option" where
  "example_main M sha1 base64 A mem parse T C m1 m2 m3 w = do {
     c \<leftarrow> bee_connection M sha1 base64 A mem parse T C m1 m2 m3 BEE_URI w;
     case c of
       Inr w \<Rightarrow> None
     | Inl s \<Rightarrow> do {
         profile_space_no \<leftarrow> beer_get_spaceno s [109, 101, 115, 115, 97, 103, 101, 115];
         w \<leftarrow> beer_net_free A T s;
         Some (profile_space_no, w) } }"

section \<open>What the decoder reads\<close>

lemma skip_fields_returns:
  assumes "skip_fields M buf len data = Some q"
  shows "len = 0"
  by (rule skip_fields.raw_induct [of "\<lambda>M buf len data q. len = 0", OF _ assms]) (auto simp: word_gt_0 split: if_splits bind_splits)

lemma skip_fields_0: "skip_fields M buf 0 data = Some data"
  by (simp add: skip_fields.simps)

lemma skip_fields_loops: "len \<noteq> 0 \<Longrightarrow> skip_fields M buf len data = None"
  using skip_fields_returns [of M buf len data] by (cases "skip_fields M buf len data") auto

text \<open>A message that is given up is released with a pointer that was never set; with another number of fields nothing else can happen.\<close>

lemma profile_rollback_raw: "pf_msg p = Dangling \<Longrightarrow> profile_rollback p r = None"
  by (simp add: profile_rollback_def msg_profile_free_def)

lemma profile_fields_count:
  assumes "rd_array M buf p = Some (n, q)" "n \<noteq> 4"
  shows "profile_fields M True True buf p r = None"
  using assms(2)
  by (simp add: profile_fields_def assms(1) profile_rollback_raw raw_profile_def strndup_def skip_fields_loops split_def Let_def cong: if_cong)

definition message_row :: "msgpuck \<Rightarrow> u32 \<Rightarrow> u64 \<Rightarrow> bytes \<Rightarrow> u64 \<Rightarrow> bytes \<Rightarrow> bytes" where
  "message_row M n ident user like msg =
     mp_encode_array M n @ mp_encode_uint M ident @ mp_encode_str M user @ mp_encode_uint M like @ mp_encode_str M msg"

context msgpuck_laws begin

lemma rd_array_enc: "drop p buf = mp_encode_array M n @ rest \<Longrightarrow>
    rd_type M buf p = Some MP_ARRAY \<and> rd_array M buf p = Some (n, p + length (mp_encode_array M n)) \<and>
    drop (p + length (mp_encode_array M n)) buf = rest"
proof -
  assume d: "drop p buf = mp_encode_array M n @ rest"
  have ne: "mp_encode_array M n \<noteq> []" using len_array [of n] by (auto simp: coll_hdr_size_def split: if_splits)
  have "drop (p + length (mp_encode_array M n)) buf = rest" by (rule drop_shift [OF d])
  then show ?thesis using d rd_type_hd [OF d ne] by (simp add: rd_array_def dec_array len_array type_array)
qed

text \<open>A string field: where it is, its bytes, and what follows.\<close>

lemma rd_field_str:
  assumes "drop p buf = mp_encode_str M s @ r" "length s < 4294967296"
  obtains off q where "rd_type M buf p = Some MP_STR" "rd_str M buf p = Some (off, word_of_nat (length s), q)"
    "slice off (unat (word_of_nat (length s) :: u32)) buf = Some s" "drop q buf = r"
proof -
  have ne: "mp_encode_strl M (word_of_nat (length s)) \<noteq> []"
    using len_strl [of "word_of_nat (length s)"] by (auto simp: str_hdr_size_def split: if_splits)
  then have "mp_encode_str M s \<noteq> []" "hd (mp_encode_str M s) = hd (mp_encode_strl M (word_of_nat (length s)))" by (simp_all add: enc_str)
  then have t: "rd_type M buf p = Some MP_STR" using rd_type_hd [OF assms(1)] by (simp add: type_str)
  have u: "unat (word_of_nat (length s) :: u32) = length s" using assms(2) by (simp add: unat_of_nat)
  show thesis
    by (rule that [OF t rd_str_enc(1) [OF assms]]) (use rd_str_enc(2) [OF assms] u drop_shift [OF assms(1)] in \<open>simp_all add: span_def\<close>)
qed

lemma rd_field_uint:
  assumes "drop p buf = mp_encode_uint M v @ r"
  obtains q where "rd_type M buf p = Some MP_UINT" "rd_uint M buf p = Some (v, q)" "drop q buf = r"
proof -
  have "mp_encode_uint M v \<noteq> []" using len_uint [of v] by (auto simp: uint_size_def split: if_splits)
  then have "rd_type M buf p = Some MP_UINT" using rd_type_hd [OF assms] by (simp add: type_uint)
  then show thesis by (rule that [OF _ rd_uint_enc [OF assms] drop_shift [OF assms]])
qed

lemma profile_fields_row:
  assumes "drop p buf = message_row M 4 ident user like msg @ rest" "length user < 4294967296" "length msg < 4294967296"
  shows "\<exists>q. drop q buf = rest \<and> profile_fields M True True buf p r =
    Some (0, Some (Some \<lparr>pf_id = ucast ident, pf_user = strndup True user, pf_like = ucast like, pf_msg = strndup True msg\<rparr>),
       r\<lparr>rp_data := Some q\<rparr>)"
proof -
  have d: "drop p buf = mp_encode_array M 4 @ mp_encode_uint M ident @ mp_encode_str M user @ mp_encode_uint M like @ mp_encode_str M msg @ rest"
    using assms(1) by (simp add: message_row_def)
  note a = rd_array_enc [OF d]
  obtain q1 where u1: "rd_type M buf (p + length (mp_encode_array M 4)) = Some MP_UINT"
    "rd_uint M buf (p + length (mp_encode_array M 4)) = Some (ident, q1)" "drop q1 buf = mp_encode_str M user @ mp_encode_uint M like @ mp_encode_str M msg @ rest"
    using rd_field_uint a by blast
  obtain o1 q2 where s1: "rd_type M buf q1 = Some MP_STR" "rd_str M buf q1 = Some (o1, word_of_nat (length user), q2)"
    "slice o1 (unat (word_of_nat (length user) :: u32)) buf = Some user" "drop q2 buf = mp_encode_uint M like @ mp_encode_str M msg @ rest"
    using rd_field_str [OF u1(3) assms(2)] by blast
  obtain q3 where u2: "rd_type M buf q2 = Some MP_UINT" "rd_uint M buf q2 = Some (like, q3)" "drop q3 buf = mp_encode_str M msg @ rest"
    using rd_field_uint [OF s1(4)] by blast
  obtain o2 q4 where s2: "rd_type M buf q3 = Some MP_STR" "rd_str M buf q3 = Some (o2, word_of_nat (length msg), q4)"
    "slice o2 (unat (word_of_nat (length msg) :: u32)) buf = Some msg" "drop q4 buf = rest"
    using rd_field_str [OF u2(3) assms(3)] by blast
  have n2: "\<not> (4 :: u32) < 2" by simp
  have "profile_fields M True True buf p r =
      Some (0, Some (Some \<lparr>pf_id = ucast ident, pf_user = strndup True user, pf_like = ucast like, pf_msg = strndup True msg\<rparr>),
         r\<lparr>rp_data := Some q4\<rparr>)"
    using a u1(1,2) s1(1-3) u2(1,2) s2(1-3) n2 skip_fields_0 by (simp add: profile_fields_def raw_profile_def strndup_def)
  with s2(4) show ?thesis by blast
qed

lemma decode_rows:
  assumes "rp_code r = 0" "rp_buf r = Live buf" "rp_data r = Some p" "drop p buf = mp_encode_array M n @ rest"
  shows "n = 0 \<Longrightarrow> \<exists>q. msg_profile_decode M m0 m1 m2 r = Some (0, None, r\<lparr>rp_data := Some q\<rparr>)"
    "n \<noteq> 0 \<Longrightarrow> rest = mp_encode_array M k @ rest' \<Longrightarrow> k \<noteq> 0 \<Longrightarrow> \<exists>q. msg_profile_decode M m0 m1 m2 r = Some (-1, None, r\<lparr>rp_data := Some q\<rparr>)"
    "n \<noteq> 0 \<Longrightarrow> rest = mp_encode_array M 0 @ rest' \<Longrightarrow>
       \<exists>q. drop q buf = rest' \<and> msg_profile_decode M True m1 m2 r = profile_fields M m1 m2 buf q (r\<lparr>rp_data := Some q\<rparr>)"
proof -
  note a = rd_array_enc [OF assms(4)]
  show "n = 0 \<Longrightarrow> \<exists>q. msg_profile_decode M m0 m1 m2 r = Some (0, None, r\<lparr>rp_data := Some q\<rparr>)"
    using a assms(1-3) by (auto simp: msg_profile_decode_def)
  show "\<exists>q. msg_profile_decode M m0 m1 m2 r = Some (-1, None, r\<lparr>rp_data := Some q\<rparr>)" if "n \<noteq> 0" "rest = mp_encode_array M k @ rest'" "k \<noteq> 0"
    using a assms(1-3) that rd_array_enc [of "p + length (mp_encode_array M n)" buf k rest'] by (auto simp: msg_profile_decode_def word_gt_0)
  show "\<exists>q. drop q buf = rest' \<and> msg_profile_decode M True m1 m2 r = profile_fields M m1 m2 buf q (r\<lparr>rp_data := Some q\<rparr>)"
    if "n \<noteq> 0" "rest = mp_encode_array M 0 @ rest'"
    using a assms(1-3) that rd_array_enc [of "p + length (mp_encode_array M n)" buf 0 rest'] by (auto simp: msg_profile_decode_def)
qed

end

end
