(* ===== verification/Scenarios.thy ===== *)
theory Scenarios
  imports Beer_Update Object_Doc Msgpack_Ref Tp_Client Tp_Response Beer_Response Request_Frames Beer_Iter Tp_Auth Beer_Net Beer_Dir Beer_Rpl Doc_Example
begin

text \<open>
  What the properties share: a fresh builder in each packing mode, requests on an open buffer
  stream, packages of tp.h from the first call to the stamp, whole responses in front of other bytes, and the
  concrete allocator, buffers and request objects on which the properties are evaluated.
\<close>

definition calloc_ok :: allocator where
  "calloc_ok n = Some (replicate n 0)"

lemma alloc_total_calloc: "alloc_total calloc_ok"
  by (simp add: alloc_total_def alloc_ok_def calloc_ok_def)

lemma verify_None_ok:
  assumes "mp_obj M (sb_bytes (s_data s))" "sb_inv (s_data s)"
  shows "beer_object_verify M s None = Some 0"
proof -
  have "sb_data (s_data s) \<noteq> Dangling" using assms(2) by (auto simp: sb_inv_def)
  then show ?thesis
    using assms by (simp add: beer_object_verify_def Let_def mp_obj_def sb_bytes_length)
qed


lemma fold_max_map_depth: "(\<And>d. d \<in> set ds \<Longrightarrow> depth (f d) = depth d) \<Longrightarrow>
    fold max (map depth (map f ds)) n = fold max (map depth ds) n"
  by (induction ds arbitrary: n) auto

lemma depth_fmt_image [simp]: "depth (fmt_image d) = depth d"
  by (induction d rule: fmt_image.induct) (simp_all add: fold_max_map_depth del: map_map)

lemma doc_ok_fmt_image [simp]: "doc_ok (fmt_image d) = doc_ok d"
  by (induction d rule: fmt_image.induct) auto

text \<open>A fresh builder in the packing mode \<open>k\<close>.\<close>

lemma fresh_builder:
  obtains s s' where "beer_object True True = Some (Some s)" "beer_object_type s k = Some (0, s')"
    "obj_rel s' \<lparr>ov_bytes = [], ov_frames = [], ov_room = 8, ov_kind = k\<rparr>"
proof -
  obtain s where s: "beer_object True True = Some (Some s)" "s_wrcnt s = 0"
    "obj_rel s \<lparr>ov_bytes = [], ov_frames = [], ov_room = 8, ov_kind = BEER_SBO_SIMPLE\<rparr>"
    by (rule beer_object_fresh)
  with obj_type_sim [OF s(3) _ _ s(2), of k] that show ?thesis by auto
qed

lemma obj_rel_verify:
  assumes "obj_rel s v" "mp_obj M (ov_bytes v)"
  shows "beer_object_verify M s None = Some 0"
  using obj_rel_bytes [OF assms(1)] assms(2) by (intro verify_None_ok) (simp_all add: sb_open_def)

lemma byte_255: "(18446744073709551615 :: byte) = 255"
  by (rule word_unat_eq_iff [THEN iffD2]) (simp only: unat_numeral, simp)

lemma close_odd_map:
  assumes "obj_rel s v" "ov_frames v = fs @ [e]" "ent_type e = MP_MAP" "odd (unat (ent_size e))"
  shows "beer_object_container_close M A s = Some (-1, s)"
proof -
  obtain sbo where o: "sobj s = Some sbo" "v = view_of (s_data s) sbo" "length (stack sbo) = unat (stack_alloc sbo)"
    "unat (stack_size sbo) \<le> unat (stack_alloc sbo)"
    using assms(1) by (rule obj_relE)
  have fr: "take (unat (stack_size sbo)) (stack sbo) = fs @ [e]"
    using assms(2) o(2) by (simp add: view_of_def)
  then have l: "unat (stack_size sbo) = Suc (length fs)"
    using o(3,4) by (metis length_append_singleton length_take min.absorb2)
  moreover from fr have "stack sbo ! length fs = e"
    using l by (metis lessI nth_append_length nth_take)
  moreover have "stack_size sbo \<noteq> 0" using l by auto
  ultimately have "stack_at sbo (unat (stack_size sbo) - 1) = Some e"
    using o(3,4) by (simp add: stack_at_def)
  then show ?thesis
    using assms(3,4) o(1) \<open>stack_size sbo \<noteq> 0\<close>
    by (simp add: beer_object_container_close_def odd_iff_mod_2_eq_one)
qed

text \<open>A close in any state: what it returns, and when it refuses.\<close>

lemma container_close_outcome:
  assumes "msgpuck_laws M" "alloc_total A" "obj_rel s v"
  shows "\<exists>rv u. beer_object_container_close M A s = Some (rv, u) \<and> (rv = 0 \<or> rv = -1 \<and> u = s) \<and>
    (rv = -1 \<longleftrightarrow> ov_frames v = [] \<or> ent_type (last (ov_frames v)) = MP_MAP \<and> odd (unat (ent_size (last (ov_frames v)))))"
proof (cases "closable v")
  case True
  obtain u where "beer_object_container_close M A s = Some (0, u)"
    using msgpuck_laws.beer_object_container_close_sim [OF assms True] by metis
  with True show ?thesis by (auto simp: closable_def odd_iff_mod_2_eq_one)
next
  case False
  show ?thesis
  proof (cases "ov_frames v" rule: rev_cases)
    case Nil
    then show ?thesis using msgpuck_laws.close_none [OF assms(1,3)] by simp
  next
    case (snoc fs e)
    with False have "ent_type e = MP_MAP" "odd (unat (ent_size e))" by (auto simp: closable_def odd_iff_mod_2_eq_one)
    with close_odd_map [OF assms(3) snoc] snoc show ?thesis by simp
  qed
qed

text \<open>A builder with eight open arrays, each one the first element of the one before.\<close>

definition full_builder :: buf_stream where
  "full_builder = \<lparr>s_data = \<lparr>sb_data = Live (replicate 8 0x90), sb_size = 8, sb_alloc = 8, sb_rdoff = 0,
       sb_resize = Object_resize, sb_subdata = Some \<lparr>stack = map (\<lambda>i. \<lparr>ent_offset = i, ent_size = 1, ent_type = MP_ARRAY\<rparr>) [0..<7] @
         [\<lparr>ent_offset = 7, ent_size = 0, ent_type = MP_ARRAY\<rparr>],
       stack_size = 8, stack_alloc = 8, sbo_kind = BEER_SBO_PACKED\<rparr>, sb_as = False\<rparr>, s_wrcnt = 8, s_reqid = 0\<rparr>"

lemma full_builder_sel:
  "sb_open (s_data full_builder)" "sb_bytes (s_data full_builder) = replicate 8 0x90"
  "\<exists>sbo. sobj full_builder = Some sbo \<and> stack_size sbo = 8 \<and> stack_alloc sbo = 8 \<and> length (stack sbo) = 8"
  by (simp_all add: full_builder_def sb_open_def sb_inv_def sb_bytes_def sobj_def)

text \<open>Streams that the witnesses use: the fresh buffer and the array \<open>[7]\<close>.\<close>

lemma beer_buf_open: "sb_open (s_data beer_buf)" "sb_bytes (s_data beer_buf) = []" "s_reqid beer_buf = 0"
  "s_wrcnt beer_buf = 0"
  by (simp_all add: sb_open_def beer_buf_def beer_stream_init_def sb_inv_def sb_bytes_def)

lemma key_7: "is_array ref_mp (beer_buf_as None [0x91, 7])" "sbuf_iov (beer_buf_as None [0x91, 7]) = [0x91, 7]"
  by (simp_all add: is_array_def sbuf_iov_def beer_object_verify_def beer_buf_as_def beer_buf_def
      beer_stream_init_def sb_bytes_def ref_eval)

section \<open>Requests on a buffer stream\<close>

lemma enc_uint_ok:
  assumes "msgpuck_laws M"
  shows "mp_obj M (mp_encode_uint M v)" "length (mp_encode_uint M v) \<le> 1152921504606846976"
  using msgpuck_laws.len_uint [OF assms, of v] uint_size_le9 [of "unat v"] msgpuck_laws.mp_obj_uint [OF assms]
  by simp_all

lemma request_on_buffer:
  assumes "msgpuck_laws M" "sends M (beer_buf_writev A) s r op fs" "length fs \<le> 8"
    "\<forall>f \<in> set fs. mp_obj M (snd f) \<and> length (snd f) \<le> 1152921504606846976" "alloc_total A" "sb_open (s_data s)"
  shows "\<exists>s' fr. r = Some (int (length fr), s') \<and> sb_bytes (s_data s') = sb_bytes (s_data s) @ fr \<and>
    s_reqid s' = s_reqid s + 1 \<and> (\<forall>rest. parse_frame M (fr @ rest) = Some ((ucast (op_code op), s_reqid s, fs), rest))"
  using msgpuck_laws.sends_arrives [OF assms] by blast

text \<open>A select request object: space 512, offset 5, key \<open>[7]\<close>, the other fields as initialised.\<close>

definition select_7 :: beer_request where
  "select_7 = \<lparr>rq_sync = 0, rq_type = 1, rq_space_id = 512, rq_index_id = 0, rq_offset = 5, rq_limit = 0xffffffff,
     rq_iterator = BEER_ITER_EQ, rq_key = Some [0x91, 7], rq_key_object = None, rq_tuple = None,
     rq_tuple_object = None, rq_index_base = 0, rq_alloc = False\<rparr>"

unbundle bit_operations_syntax

lemma and_low63:
  assumes "unat (x :: u64) \<le> 9223372036854775807"
  shows "x AND 0x7fffffffffffffff = x"
proof -
  have m: "(0x7fffffffffffffff :: u64) = mask 63" by (simp add: mask_eq_exp_minus_1)
  have "unat (take_bit 63 x) = take_bit 63 (unat x)" by (rule unsigned_take_bit_eq)
  also have "\<dots> = unat x" using assms by (simp add: take_bit_nat_eq_self_iff)
  finally show ?thesis unfolding m take_bit_eq_mask [symmetric] by (simp only: word_unat_eq_iff)
qed

lemma sint_small:
  assumes "unat (x :: u64) < 9223372036854775807"
  shows "sint x = int (unat x)"
proof -
  have "uint x = int (unat x)" by simp
  then have u: "0 \<le> uint x" "uint x < 9223372036854775807" using assms by (simp, linarith)
  have "- (2 ^ 63) \<le> uint x" using u by (intro order_trans [OF _ u(1)]) simp
  moreover have "uint x < 2 ^ 63" using u by simp
  ultimately have "signed_take_bit 63 (uint x) = uint x" by (rule signed_take_bit_int_eq_self)
  then show ?thesis by (simp add: sint_uint)
qed

lemma unat_inc: "unat (x :: u64) < 9223372036854775807 \<Longrightarrow> unat (x + 1) = unat x + 1"
  by (simp add: unat_plus_if_size word_size)

section \<open>Packages of tp.h\<close>

text \<open>A client run and what the reader of the package gets.\<close>

lemma tp_client_reads:
  assumes "msgpuck_laws M" "tp_safe p" "start = (\<lambda>p. start_op M p code b)" "\<forall>v \<in> set vs. tv_ok v"
    "b @ concat (map (tv_bytes M) vs) = body_bytes M fs" "\<forall>f \<in> set fs. mp_obj M (snd f)" "length fs < 16"
    "25 + length (body_bytes M fs) \<le> tp_unused p" "length (body_bytes M fs) < 2147483600"
  shows "\<exists>q fr. tp_client M start vs reqid p = Some (True, q) \<and> tp_buf q = tp_buf p @ fr \<and>
    (\<forall>rest. parse_frame M (fr @ rest) = Some ((ucast code, ucast reqid, fs), rest))"
proof -
  have "length (tp_header M code reqid) \<le> 20"
    using uint_size_le5 [of "unat code"]
    by (simp add: tp_header_def msgpuck_laws.len_map [OF assms(1)] msgpuck_laws.len_uint [OF assms(1)])
  then have "parse_frame M (tp_frame M code reqid (body_bytes M fs) @ rest) = Some ((ucast code, ucast reqid, fs), rest)" for rest
    using assms(6,7,9) by (intro msgpuck_laws.tp_frame_parses [OF assms(1)]) simp_all
  with msgpuck_laws.tp_client_package [OF assms(1-5,8,9), of reqid] show ?thesis by blast
qed

lemma tp_init_safe: "tp_safe (tp_init buf None)" "tp_unused (tp_init buf r) = length buf" "tp_buf (tp_init buf r) = []"
  by (simp_all add: tp_safe_def tp_init_def tp_size_def tp_unused_def tp_buf_def)

lemma put_stay: "h + length a < length mem \<Longrightarrow>
    put (a @ [mem ! (h + length a)]) (mem, h) = map_option (\<lambda>c. (fst c, Suc (snd c))) (put a (mem, h))"
  by (simp add: put_def poke_def Cons_nth_drop_Suc)

lemma tp_rel_p: "tp_rel M p pre code sync body \<Longrightarrow> tp_p p = length (pre @ tp_frame M code sync body)"
  unfolding tp_rel_def by (metis tp_buf_length)

section \<open>Responses\<close>

lemma unat_add5: "n + 5 < 4294967296 \<Longrightarrow> unat (word_of_nat n + 5 :: u32) = n + 5"
  using unat_of_nat_u32 [of "n + 5"] by simp

text \<open>The tuple iterator on an array of rows is at its start.\<close>

lemma rows_start:
  assumes "msgpuck_laws M" "unat k = length xs" "length xs < 2147483648"
    "tp_array_itr_init M (mp_encode_array M k @ concat xs) = Some (0, r_tuple_itr r)"
    "list_all2 (is_row M) xs rows" "\<forall>row \<in> set rows. length row < n"
  shows "rows_at M n r rows 0"
proof -
  have "\<forall>x \<in> set xs. mp_obj M x"
    using assms(5) by (auto simp: list_all2_conv_all_nth is_row_def in_set_conv_nth)
  moreover from this have "mp_obj M (mp_encode_array M k @ concat xs)"
    by (rule msgpuck_laws.mp_obj_array [OF assms(1,2)])
  moreover have "r_tuple_itr r = \<lparr>ai_data = mp_encode_array M k @ concat xs, ai_first = length (mp_encode_array M k),
      ai_elem = None, ai_end = None, ai_count = k, ai_cur = -1\<rparr>"
    using assms(2,4) msgpuck_laws.dec_array [OF assms(1), of k "concat xs"] msgpuck_laws.len_array [OF assms(1), of k]
    by (auto simp: tp_array_itr_init_def split: if_splits)
  ultimately have "array_at M (r_tuple_itr r) xs 0" using assms(2,3) by (simp add: array_at_def)
  with assms(5,6) show ?thesis by (auto simp: rows_at_def)
qed

text \<open>A whole response in front of other bytes.\<close>

lemma tp_reply_package:
  assumes "msgpuck_laws M" "small_keys hs" "length hs < 4294967296" "small_keys fs" "\<forall>f \<in> set fs. response_field M f"
    "length fs < 4294967296" "buf = reply_package M hs fs @ tail" "length (reply_package M hs fs) < 4294967296"
  shows "\<exists>r r'. head_read hs r \<and> tp_reply M buf = Some (int (length (reply_package M hs fs)), r') \<and>
    body_read M buf fs (r\<lparr>r_tuple_itr := r_tuple_itr r'\<rparr>) r' \<and>
    (case last_of fs 0x30 of None \<Rightarrow> r_tuple_itr r' = r_tuple_itr r | Some v \<Rightarrow> tp_array_itr_init M v = Some (0, r_tuple_itr r'))"
proof -
  define h where "h = body_bytes M (uint_fields M hs)"
  define b where "b = body_bytes M fs"
  define n where "n = length h + length b"
  define w :: u32 where "w = word_of_nat n"
  have buf: "buf = package (h @ b) @ tail" by (simp add: assms(7) reply_package_def h_def b_def)
  have n: "n + 5 < 4294967296" "length (reply_package M hs fs) = n + 5"
    using assms(8) by (simp_all add: reply_package_def package_def luint_def h_def b_def n_def split: if_splits)
  have w: "unat w = n" "unat (w + 5) = n + 5" using unat_of_nat_u32 [of n] unat_add5 [OF n(1)] n(1) by (simp_all add: w_def)
  have "length (h @ b) + 5 < 4294967296" using n(1) by (simp add: n_def)
  from msgpuck_laws.tp_reply_head [OF assms(1-3) _ this, of b tail]
  obtain r where r: "tp_reply M buf = tp_reply_rest M buf w (5 + length h) r" "head_read hs r"
    unfolding buf by (auto simp: h_def w_def n_def)
  have "(0xce # be 4 n @ h) @ body_bytes M fs @ tail = buf" "length (0xce # be 4 n @ h) = 5 + length h"
    using n(1) by (simp_all add: buf package_def luint_def n_def b_def)
  then have d: "drop (5 + length h) buf = body_bytes M fs @ tail" by (metis append_eq_conv_conj)
  have l: "5 + length h + length (body_bytes M fs) = unat w + 5" by (simp add: w n_def b_def)
  have z: "r_data r = None" using r(2) by (auto simp: head_read_def zero_response_def)
  from msgpuck_laws.tp_reply_rest_body [OF assms(1) d assms(4-6) l z, unfolded w(1)] r n(2)
  show ?thesis by (auto simp del: of_nat_add)
qed

section \<open>Network streams\<close>

text \<open>A request and the flush behind it.\<close>

lemma net_request_flushed:
  assumes "msgpuck_laws M" "transport T sent incoming patience" "net_inv (s_data s)" "sends M (beer_net_writev T) s r op fs"
    "length fs \<le> 8" "\<forall>f \<in> set fs. mp_obj M (snd f) \<and> length (snd f) \<le> 1152921504606846976"
  shows "\<exists>rv rf s1 s2. r = Some (rv, s1) \<and> beer_flush T s1 = Some (rf, s2) \<and> s_reqid s2 = s_reqid s + 1 \<and> net_inv (s_data s2) \<and>
    (rf = -1 \<and> declines T \<or>
     rv = -1 \<and> s_wrcnt s2 = s_wrcnt s \<and> (declines T \<or> io_buf (sn_sbuf (s_data s)) \<noteq> Null \<and>
       io_size (sn_sbuf (s_data s)) < length (frame M (op_code op) (s_reqid s) fs)) \<or>
     (\<exists>fr. rv = int (length fr) \<and> s_wrcnt s2 = s_wrcnt s + 1 \<and> sent (sn_world (s_data s2)) = net_out sent (s_data s) @ fr \<and>
       (\<forall>rest. parse_frame M (fr @ rest) = Some ((ucast (op_code op), s_reqid s, fs), rest))))"
proof -
  obtain rv s1 where r: "r = Some (rv, s1)" "s_reqid s1 = s_reqid s + 1" "net_inv (s_data s1)"
    "rv = -1 \<and> s_wrcnt s1 = s_wrcnt s \<and> (declines T \<or> io_buf (sn_sbuf (s_data s)) \<noteq> Null \<and>
       io_size (sn_sbuf (s_data s)) < length (frame M (op_code op) (s_reqid s) fs)) \<or>
     (\<exists>fr. rv = int (length fr) \<and> s_wrcnt s1 = s_wrcnt s + 1 \<and> net_out sent (s_data s1) = net_out sent (s_data s) @ fr \<and>
       (\<forall>rest. parse_frame M (fr @ rest) = Some ((ucast (op_code op), s_reqid s, fs), rest)))"
    using net_request [OF assms] by blast
  obtain rf s2 where f: "beer_flush T s1 = Some (rf, s2)" "net_inv (s_data s2)" "s_reqid s2 = s_reqid s1" "s_wrcnt s2 = s_wrcnt s1"
    "rf = -1 \<and> declines T \<or> sent (sn_world (s_data s2)) = net_out sent (s_data s1)"
    using transport.net_flush_sends [OF assms(2) r(3)] by blast
  show ?thesis
    using r f by (intro exI [of _ rv] exI [of _ rf] exI [of _ s1] exI [of _ s2]) auto
qed

text \<open>A stream over the wire with buffers of a given size (none for 0), and a slow wire that is interrupted.\<close>

definition wire_buf :: "nat \<Rightarrow> iob" where
  "wire_buf n = \<lparr>io_buf = (if n = 0 then Null else Live (replicate n 0)), io_off = 0, io_top = 0, io_size = n, io_tx = False, io_txv = False\<rparr>"

definition wire_stream :: "nat \<Rightarrow> bytes \<Rightarrow> wire \<Rightarrow> wire net_stream" where
  "wire_stream n greeting w = beer_stream_init \<lparr>sn_opt = snd (beer_opt_init True), sn_connected = True, sn_fd = 3,
     sn_sbuf = wire_buf n, sn_rbuf = wire_buf n, sn_error = BEER_EOK, sn_errno = 0, sn_greeting = Live greeting,
     sn_schema = None, sn_inited = True, sn_world = w\<rparr>"

lemma wire_stream_inv: "net_inv (s_data (wire_stream n g w))" "s_reqid (wire_stream n g w) = 0" "s_wrcnt (wire_stream n g w) = 0"
  "net_out wi_sent (s_data (wire_stream n g w)) = wi_sent w" "net_in wi_incoming (s_data (wire_stream n g w)) = wi_incoming w"
  "sn_greeting (s_data (wire_stream n g w)) = Live g" "sn_sbuf (s_data (wire_stream n g w)) = wire_buf n"
  by (simp_all add: wire_stream_def beer_stream_init_def net_inv_def wire_buf_def iob_inv_def net_out_def net_in_def
      io_waiting_def io_unread_def)

definition open_wire :: "bytes \<Rightarrow> wire" where
  "open_wire inc = \<lparr>wi_sent = [], wi_incoming = inc, wi_chunk = 3, wi_signals = 2, wi_room = 1000\<rparr>"

text \<open>A reply that holds one array, a clock that ticks at every look and is interrupted in every wait, and a system that takes buffers up to a limit.\<close>

definition schema_reply :: "bytes \<Rightarrow> beer_reply_struct" where
  "schema_reply bs = (zero_reply False)\<lparr>rp_buf := Live bs, rp_buf_size := length bs, rp_data := Some 0, rp_data_end := Some (length bs)\<rparr>"

definition clock_sys :: "nat conn_sys" where
  "clock_sys = \<lparr>sys_socket = (\<lambda>af w. ((3, 0), w)), sys_setsockopt = (\<lambda>fd opt w. ((0, 0), w)), sys_getaddrinfo = (\<lambda>h w. ((0, h), w)),
     sys_getfl = (\<lambda>fd w. ((0, 0), w)), sys_setfl = (\<lambda>fd fl w. ((0, 0), w)), sys_connect = (\<lambda>fd a w. ((-1, EINPROGRESS), w)),
     sys_gettimeofday = (\<lambda>w. ((0, 0, (int w, 0)), Suc w)), sys_select = (\<lambda>fd tv w. ((-1, EINTR), w)),
     sys_so_error = (\<lambda>fd w. ((0, 0, 0), w))\<rparr>"

definition limit_sys :: "nat \<Rightarrow> nat conn_sys" where
  "limit_sys m = clock_sys\<lparr>sys_setsockopt := (\<lambda>fd opt w. case opt of SO_SNDBUF n \<Rightarrow> if unat n \<le> m then ((0, 0), unat n) else ((-1, 22), w)
     | _ \<Rightarrow> ((0, 0), w))\<rparr>"

definition clock_stream :: "nat \<Rightarrow> (nat, unit) stream_net" where
  "clock_stream w = \<lparr>sn_opt = snd (beer_opt_init True), sn_connected = False, sn_fd = 3, sn_sbuf = wire_buf 0, sn_rbuf = wire_buf 0,
     sn_error = BEER_EOK, sn_errno = 0, sn_greeting = Null, sn_schema = (), sn_inited = True, sn_world = w\<rparr>"

section \<open>Verification\<close>

text \<open>On a buffer in its invariant that holds bytes, \<open>beer_object_verify\<close> returns 0 when the
bytes are exactly one object, of the type asked for when there is one, and \<open>-1\<close> otherwise.\<close>

lemma verify_accepts_one_object:
  assumes "msgpuck_laws M" "sb_inv (s_data s)" "sb_bytes (s_data s) \<noteq> []"
  shows "beer_object_verify M s t =
    Some (if mp_check M (sb_bytes (s_data s)) = Some (length (sb_bytes (s_data s))) \<and>
             (\<forall>ty. t = Some ty \<longrightarrow> mp_typeof M (hd (sb_bytes (s_data s))) = ty) then 0 else -1)"
proof -
  obtain b mem where d: "sb_data (s_data s) = Live (b # mem)" "hd (sb_bytes (s_data s)) = b"
  proof -
    obtain m where m: "sb_data (s_data s) = Live m" "sb_bytes (s_data s) = take (sb_size (s_data s)) m"
      using assms(2,3) by (auto simp: sb_inv_def sb_bytes_def split: blk.splits)
    then show ?thesis using assms(3) that by (cases m) (auto simp: hd_take)
  qed
  have "mp_check M (sb_bytes (s_data s)) = Some n \<Longrightarrow> n \<le> sb_size (s_data s)" for n
    using msgpuck_laws.check_bound [OF assms(1)] sb_bytes_length [OF assms(2)] by fastforce
  then show ?thesis
    using d sb_bytes_length [OF assms(2)]
    by (auto simp: beer_object_verify_def Let_def split: option.splits)
qed

lemma verify_accepts_one_object_witness:
  "beer_object_verify ref_mp (beer_buf_as None [0x91, 7]) (Some MP_ARRAY) = Some 0 \<and>
   beer_object_verify ref_mp (beer_buf_as None [0x91, 7, 7]) (Some MP_ARRAY) = Some (-1) \<and>
   beer_object_verify ref_mp (beer_buf_as None [0x91, 7]) (Some MP_MAP) = Some (-1)"
  using verify_accepts_one_object [OF ref.msgpuck_laws_axioms, of "beer_buf_as None [0x91, 7]"]
    verify_accepts_one_object [OF ref.msgpuck_laws_axioms, of "beer_buf_as None [0x91, 7, 7]"]
  by (simp add: beer_buf_as_def beer_buf_def beer_stream_init_def sb_inv_def sb_bytes_def ref_eval)

section \<open>Logs\<close>

text \<open>A log with two records, in front of the second a stray byte: operations 13 and 14 with a short payload each.\<close>

definition sum_crc :: "bytes \<Rightarrow> u32" where
  "sum_crc bs = word_of_nat (sum_list (map unat bs))"

definition demo_env :: "bytes \<Rightarrow> (u16 \<times> bytes) log_env" where
  "demo_env file = \<lparr>le_crc32c = sum_crc, le_request = (\<lambda>op p. (0, (op, p))), le_tuple = (\<lambda>n d. Some (ucast n, d)),
     le_fopen = (\<lambda>name. Some file), le_stdin = [], le_sys_errno = 2\<rparr>"

definition demo_row :: "byte \<Rightarrow> bytes" where
  "demo_row k = replicate 10 0 @ [k, 0]"

definition demo_entries :: "(bytes \<times> log_entry) list" where
  "demo_entries = [([], (5, 0, demo_row 13 @ [1, 2])), ([0], (6, 0, demo_row 14 @ [3]))]"

definition demo_values :: "(u16 \<times> bytes) list" where
  "demo_values = [(13, [1, 2]), (14, [3])]"

lemma demo_bytes: "entry_header (demo_env file) e = entry_header (demo_env []) e" "log_body (demo_env file) es = log_body (demo_env []) es"
proof -
  show h: "entry_header (demo_env file) e = entry_header (demo_env []) e" for e
    by (cases e) (simp add: entry_header.simps demo_env_def)
  show "log_body (demo_env file) es = log_body (demo_env []) es"
    unfolding log_body_def entry_bytes_def h ..
qed

lemma byte_mod: "(word_of_nat (n mod 256) :: byte) = word_of_nat n"
  by (simp add: word_of_nat_eq_iff take_bit_eq_mod)

lemma be4: "be 4 n = map (\<lambda>k. word_of_nat (k mod 256)) [n div 256 div 256 div 256, n div 256 div 256, n div 256, n]"
proof -
  have "be (Suc (Suc (Suc (Suc 0)))) n = map (\<lambda>k. word_of_nat (k mod 256)) [n div 256 div 256 div 256, n div 256 div 256, n div 256, n]"
    by (simp add: byte_mod)
  moreover have "Suc (Suc (Suc (Suc 0))) = 4" by simp
  ultimately show ?thesis by (simp only:)
qed

lemma marker_bytes_eq: "marker_bytes = [0xed, 0xab, 0x0b, 0xba]"
  by (simp add: marker_bytes_def le_def beer_log_marker_v11_def be4)

lemma demo_ok:
  "list_all2 (\<lambda>(junk, e) v. xlog_value (demo_env file) e v) demo_entries demo_values" "\<forall>(junk, e) \<in> set demo_entries. clean_junk junk"
  "demo_entries \<noteq> []" "length demo_entries = 2" "header_line [83]"
  by (simp_all add: demo_entries_def demo_values_def xlog_value_def demo_env_def demo_row_def log_row_of_def le_field_def le_val_def be_val_def
      clean_junk_def no_marker_def marker_bytes_eq header_line_def)

text \<open>Nothing of the end-of-file marker looks like the marker of a record.\<close>

lemma eof_no_marker: "\<forall>i. take 4 (drop i [0x1e, 0xab, 0xad, 0x10]) \<noteq> marker_bytes"
proof
  fix i :: nat
  have "i = 0 \<or> i = 1 \<or> i = 2 \<or> i = 3 \<or> 4 \<le> i" by linarith
  then show "take 4 (drop i [0x1e, 0xab, 0xad, 0x10]) \<noteq> marker_bytes" by (auto simp: marker_bytes_eq)
qed

text \<open>A decoder that reads the announced bytes.\<close>

definition demo_from :: "(u16 \<times> bytes) log_env \<Rightarrow> ('w, u16 \<times> bytes) request_from" where
  "demo_from env recv s h = do {
     (rc, bs, s) \<leftarrow> recv s (unat (ih_len h));
     if rc = -1 then Some (-1, None, s)
     else (let (k, v) = le_request env (ucast (ih_type h)) bs in Some (if k = 0 then (0, Some v, s) else (-1, None, s))) }"

end
