(* ===== verification/Further_Frames.thy ===== *)
theory Further_Frames
  imports Scenarios
begin

text \<open>
  More results of the kind of the root theory's properties, about operations that work like those there: the remaining packages of
  \<open>tp.h\<close>, deletes and pings, the two ways of writing to a buffer, the request objects of an upsert, and the
  arguments that the request functions refuse.
\<close>

text \<open>Insert and replace packages of \<open>tp.h\<close>, with any calls \<open>vs\<close> that write one tuple.\<close>

lemma tp_store_package:
  assumes "msgpuck_laws M" "tp_safe p" "\<forall>v \<in> set vs. tv_ok v" "concat (map (tv_bytes M) vs) = tuple" "mp_obj M tuple"
    "(start, code) \<in> {((\<lambda>p. tp_insert M p space), 2), ((\<lambda>p. tp_replace M p space), 3)}"
    "fs = [(0x10, mp_encode_uint M (ucast space)), (0x21, tuple)]"
    "25 + length (body_bytes M fs) \<le> tp_unused p" "length (body_bytes M fs) < 2147483600"
  shows "\<exists>q fr. tp_client M start vs reqid p = Some (True, q) \<and> tp_buf q = tp_buf p @ fr \<and>
    (\<forall>rest. parse_frame M (fr @ rest) = Some ((code, ucast reqid, fs), rest))"
proof -
  have "\<forall>f \<in> set fs. mp_obj M (snd f)" "length fs < 16"
    using assms(5) msgpuck_laws.mp_obj_uint [OF assms(1)] by (simp_all add: assms(7))
  note reads = tp_client_reads [OF assms(1,2) _ assms(3) _ this assms(8,9), where reqid = reqid]
  from reads [OF ext [OF msgpuck_laws.tpi_encode_store_start [OF assms(1), of _ TP_INSERT space]]]
    reads [OF ext [OF msgpuck_laws.tpi_encode_store_start [OF assms(1), of _ TP_REPLACE space]]] show ?thesis
    using assms(4,6) by (auto simp: body_bytes_def field_bytes_def assms(7) tp_insert_def tp_replace_def)
qed

lemma tp_store_package_witness:
  "\<exists>q fr. tp_client ref_mp (\<lambda>p. tp_replace ref_mp p 200) [Tv_array 1, Tv_uint 7] 3 (tp_init (replicate 80 0) None) = Some (True, q) \<and>
    tp_buf q = fr \<and> (\<forall>rest. parse_frame ref_mp (fr @ rest) = Some ((3, 3, [(0x10, [0xcc, 200]), (0x21, [0x91, 7])]), rest))"
  using tp_store_package [OF ref.msgpuck_laws_axioms tp_init_safe(1), of "[Tv_array 1, Tv_uint 7]" "[0x91, 7]"
      "\<lambda>p. tp_replace ref_mp p 200" 3 200 _ "replicate 80 0" 3]
  by (simp add: tp_init_safe ref_eval body_bytes_def field_bytes_def mp_obj_def)

text \<open>Call and eval packages of \<open>tp.h\<close>.\<close>

lemma tp_call_package:
  assumes "msgpuck_laws M" "tp_safe p" "\<forall>v \<in> set vs. tv_ok v" "concat (map (tv_bytes M) vs) = args" "mp_obj M args"
    "n \<le> length name" "n < 4294967296"
    "(start, code, key) \<in> {((\<lambda>p. tp_call M p name n), 6, 0x22), ((\<lambda>p. tp_eval M p name n), 8, 0x27)}"
    "fs = [(key, mp_encode_str M (take n name)), (0x21, args)]"
    "25 + length (body_bytes M fs) \<le> tp_unused p" "length (body_bytes M fs) < 2147483600"
  shows "\<exists>q fr. tp_client M start vs reqid p = Some (True, q) \<and> tp_buf q = tp_buf p @ fr \<and>
    (\<forall>rest. parse_frame M (fr @ rest) = Some ((code, ucast reqid, fs), rest))"
proof -
  have "mp_obj M (mp_encode_str M (take n name))"
    using msgpuck_laws.mp_obj_str [OF assms(1), of "word_of_nat n" "take n name"] assms(6,7)
    by (simp add: msgpuck_laws.enc_str [OF assms(1)] unat_of_nat)
  then have "\<forall>f \<in> set fs. mp_obj M (snd f)" "length fs < 16" using assms(5) by (simp_all add: assms(9))
  note reads = tp_client_reads [OF assms(1,2) _ assms(3) _ this assms(10,11), where reqid = reqid]
  from reads [OF ext [OF msgpuck_laws.tp_call_start [OF assms(1,6,7)]]]
    reads [OF ext [OF msgpuck_laws.tp_eval_start [OF assms(1,6,7)]]] show ?thesis
    using assms(4,8) by (auto simp: body_bytes_def field_bytes_def assms(9))
qed

lemma tp_call_package_witness:
  "\<exists>q fr. tp_client ref_mp (\<lambda>p. tp_eval ref_mp p [65, 66, 67] 2) [Tv_array 1, Tv_uint 7] 3 (tp_init (replicate 80 0) None) = Some (True, q) \<and>
    tp_buf q = fr \<and> (\<forall>rest. parse_frame ref_mp (fr @ rest) = Some ((8, 3, [(0x27, [0xa2, 65, 66]), (0x21, [0x91, 7])]), rest))"
  using tp_call_package [OF ref.msgpuck_laws_axioms tp_init_safe(1), of "[Tv_array 1, Tv_uint 7]" "[0x91, 7]" 2 "[65, 66, 67]"
      "\<lambda>p. tp_eval ref_mp p [65, 66, 67] 2" 8 "0x27" _ "replicate 80 0" 3]
  by (simp add: tp_init_safe ref_eval body_bytes_def field_bytes_def mp_obj_def)

text \<open>Delete requests arrive with space, index and key, and pings with an empty body.\<close>

lemma delete_arrives:
  assumes "msgpuck_laws M" "alloc_total A" "sb_open (s_data s)" "is_array M key"
    "length (sbuf_iov key) \<le> 1152921504606846976"
  shows "(\<exists>s' fr. beer_delete M (beer_buf_writev A) s space index key = Some (int (length fr), s') \<and>
      sb_bytes (s_data s') = sb_bytes (s_data s) @ fr \<and> s_reqid s' = s_reqid s + 1 \<and>
      (\<forall>rest. parse_frame M (fr @ rest) = Some ((5, s_reqid s,
         [(0x10, mp_encode_uint M (ucast space)), (0x11, mp_encode_uint M (ucast index)), (0x20, sbuf_iov key)]), rest))) \<and>
    (\<exists>s' fr. beer_ping M (beer_buf_writev A) s = Some (int (length fr), s') \<and>
      sb_bytes (s_data s') = sb_bytes (s_data s) @ fr \<and> s_reqid s' = s_reqid s + 1 \<and>
      (\<forall>rest. parse_frame M (fr @ rest) = Some ((64, s_reqid s, []), rest)))"
  using request_on_buffer [OF assms(1) msgpuck_laws.beer_delete_sends [OF assms(1,4)] _ _ assms(2,3), of space index]
    request_on_buffer [OF assms(1) msgpuck_laws.beer_ping_sends [OF assms(1)] _ _ assms(2,3)]
    assms(5) msgpuck_laws.is_array_obj [OF assms(1,4)] enc_uint_ok [OF assms(1)]
  by simp

lemma delete_arrives_witness:
  "\<exists>s' fr. beer_delete ref_mp (beer_buf_writev calloc_ok) beer_buf 512 1 (beer_buf_as None [0x91, 7])
      = Some (int (length fr), s') \<and> sb_bytes (s_data s') = fr \<and>
    parse_frame ref_mp fr = Some ((5, 0, [(0x10, [0xcd, 2, 0]), (0x11, [1]), (0x20, [0x91, 7])]), [])"
proof -
  obtain s' fr where "beer_delete ref_mp (beer_buf_writev calloc_ok) beer_buf 512 1 (beer_buf_as None [0x91, 7])
      = Some (int (length fr), s')" "sb_bytes (s_data s') = fr"
    "\<And>rest. parse_frame ref_mp (fr @ rest) = Some ((5, 0, [(0x10, [0xcd, 2, 0]), (0x11, [1]), (0x20, [0x91, 7])]), rest)"
    using delete_arrives [OF ref.msgpuck_laws_axioms alloc_total_calloc beer_buf_open(1) key_7(1), of 512 1]
    by (auto simp: beer_buf_open key_7 ref_eval)
  from this(1,2) this(3) [of "[]"] show ?thesis by auto
qed

text \<open>Scattered and contiguous writes agree.  The copying loop of \<open>beer_buf_writev\<close> has the effect and
the result of \<open>beer_buf_write\<close> on the concatenated vector, for every allocator, failures included.\<close>

lemma buf_writev_is_write:
  assumes "alloc_ok A" "sb_inv (s_data s)" "concat iov \<noteq> []"
  shows "beer_buf_writev A s iov = beer_buf_write A s (concat iov)"
proof (cases "sb_as (s_data s)")
  case True
  then show ?thesis by (simp add: beer_buf_writev_def beer_buf_write_def)
next
  case False
  have n: "sum_list (map length iov) = length (concat iov)" by (simp add: length_concat)
  obtain p sb where r: "sb_do_resize A (s_data s) (length (concat iov)) = Some (p, sb)"
    "reserved (s_data s) (length (concat iov)) (p, sb)"
    using sb_do_resize_reserved [OF assms(1,2), of "length (concat iov)"] assms(3) by fastforce
  show ?thesis
  proof (cases p)
    case None
    with r(1) False n show ?thesis by (simp add: beer_buf_writev_def beer_buf_write_def)
  next
    case (Some q)
    with r(2) have "copy_iov q iov sb = sb_poke q (concat iov) sb"
      using reserved_store [OF assms(2), of "length (concat iov)" q sb "concat iov"] by metis
    with r(1) False n Some show ?thesis by (simp add: beer_buf_writev_def beer_buf_write_def Let_def)
  qed
qed

lemma buf_writev_is_write_witness:
  "beer_buf_writev calloc_ok beer_buf [[1, 2], [], [3]] = beer_buf_write calloc_ok beer_buf [1, 2, 3]"
  using buf_writev_is_write [of calloc_ok beer_buf "[[1, 2], [], [3]]"] sb_inv_beer_buf
    alloc_total_ok [OF alloc_total_calloc] by simp

text \<open>Upsert objects lose their space.  The space number is written for the operations below
\<open>BEER_OP_CALL_16\<close> only, and \<open>BEER_OP_UPSERT\<close> is above: an update object set to a space
arrives with it, an upsert object arrives without.\<close>

lemma upsert_object_without_space:
  assumes "msgpuck_laws M" "alloc_total A" "sb_open (s_data s)" "rq_type req = op_code op"
    "op \<in> {BEER_OP_UPDATE, BEER_OP_UPSERT}"
    "\<forall>f \<in> set (request_fields M (snd (beer_request_set_space req space))). mp_obj M (snd f) \<and> length (snd f) \<le> 1152921504606846976"
  shows "\<exists>s' fr req' fs. beer_request_writeout M (beer_buf_writev A) s (snd (beer_request_set_space req space)) None = Some (0, s', req', None) \<and>
    sb_bytes (s_data s') = sb_bytes (s_data s) @ fr \<and>
    (\<forall>rest. parse_frame M (fr @ rest) = Some ((ucast (op_code op), s_reqid s, fs), rest)) \<and>
    map_of fs 0x10 = (if op = BEER_OP_UPDATE then Some (mp_encode_uint M (ucast space)) else None)"
proof -
  let ?req = "snd (beer_request_set_space req space)"
  have t: "rq_type ?req = op_code op" "rq_key ?req = None \<or> takes_key (rq_type ?req)"
    using assms(4,5) by (auto simp: beer_request_set_space_def takes_key_def)
  have "map_of (request_fields M ?req) 0x10 = (if op = BEER_OP_UPDATE then Some (mp_encode_uint M (ucast space)) else None)"
    using assms(4,5) by (auto simp: request_fields_def opt_fields_def key_field_def type_is_call_def
        beer_request_set_space_def Let_def split: option.splits)
  with msgpuck_laws.writeout_arrives [OF assms(1) t assms(2,3,6), of None] show ?thesis
    by (auto simp: sync_base_def)
qed

lemma upsert_object_without_space_witness:
  "\<exists>s' fr req' fs. beer_request_writeout ref_mp (beer_buf_writev calloc_ok) beer_buf
      (snd (beer_request_set_space (select_7\<lparr>rq_type := 9\<rparr>) 600)) None = Some (0, s', req', None) \<and>
    (\<forall>rest. parse_frame ref_mp (fr @ rest) = Some ((9, 0, fs), rest)) \<and> map_of fs 0x10 = None"
proof -
  have f: "request_fields ref_mp (snd (beer_request_set_space (select_7\<lparr>rq_type := 9\<rparr>) 600)) = [(0x28, [0x91, 7])]"
    by (simp add: request_fields_def select_7_def opt_fields_def key_field_def type_is_call_def beer_request_set_space_def)
  have "\<forall>f \<in> set (request_fields ref_mp (snd (beer_request_set_space (select_7\<lparr>rq_type := 9\<rparr>) 600))).
      mp_obj ref_mp (snd f) \<and> length (snd f) \<le> 1152921504606846976"
    unfolding f by (simp add: mp_obj_def ref_eval)
  from upsert_object_without_space [OF ref.msgpuck_laws_axioms alloc_total_calloc beer_buf_open(1) _ _ this, of BEER_OP_UPSERT]
  show ?thesis by (auto simp: beer_buf_open)
qed

text \<open>Refused requests.  An argument that is not one array makes every request function return \<open>-1\<close> with the
stream as it was, whatever the transport, and so does a missing or empty function name.\<close>

lemma requests_refuse:
  assumes "beer_object_verify M bad (Some MP_ARRAY) = Some (-1)"
  shows "beer_select M wv s space index limit offset iterator bad = Some (-1, s) \<and>
    beer_insert M wv s space bad = Some (-1, s) \<and> beer_replace M wv s space bad = Some (-1, s) \<and>
    beer_delete M wv s space index bad = Some (-1, s) \<and> beer_update M wv s space index bad ops = Some (-1, s) \<and>
    beer_upsert M wv s space bad ops = Some (-1, s) \<and>
    (0 < n \<longrightarrow> beer_call M wv s (Some name) n bad = Some (-1, s) \<and> beer_call_16 M wv s (Some name) n bad = Some (-1, s) \<and>
       beer_eval M wv s (Some name) n bad = Some (-1, s)) \<and>
    beer_call M wv s None n args = Some (-1, s) \<and> beer_eval M wv s (Some name) 0 args = Some (-1, s) \<and>
    (is_array M key \<longrightarrow> beer_update M wv s space index key bad = Some (-1, s) \<and> beer_upsert M wv s space key bad = Some (-1, s))"
  using assms
  by (simp add: beer_select_def beer_insert_def beer_replace_def beer_store_base_def beer_delete_def beer_update_def
      beer_upsert_def beer_call_def beer_call_16_def beer_eval_def beer_rpc_base_def is_array_def)

lemma requests_refuse_witness:
  "beer_insert ref_mp (beer_buf_writev calloc_ok) beer_buf 512 (beer_buf_as None [0x81, 7, 7]) = Some (-1, beer_buf)"
proof -
  have "beer_object_verify ref_mp (beer_buf_as None [0x81, 7, 7]) (Some MP_ARRAY) = Some (-1)"
    by (simp add: beer_object_verify_def beer_buf_as_def beer_buf_def beer_stream_init_def sb_bytes_def ref_eval)
  from requests_refuse [OF this, where wv = "beer_buf_writev calloc_ok" and s = beer_buf and space = 512] show ?thesis by blast
qed

end
