(* ===== verification/Spec2Isabelle.thy ===== *)
theory Spec2Isabelle
  imports Further_Frames
begin

text \<open>
  The client library of this repository: a connector that builds MessagePack objects, encodes requests of
  the IPROTO protocol, sends them over a buffered network stream, reads the replies and the schema, and a reader of the server's
  logs.  This file holds the properties; everything they rest on is in the theories below, one per part of the code.

  \<^bold>\<open>Conventions.\<close>  A C function is a definition of the same name.  Its result is an option: \<open>None\<close> is undefined behaviour
  (a NULL or dangling pointer, a read or write outside a block) or, for the few loops that the system can keep going for ever, no
  return.  Integers are words of the code's width (\<open>u8\<close> to \<open>u64\<close>); sizes are natural numbers, which stand for \<open>size_t\<close> and do
  not wrap.  A pointer into a block is an offset, a block is NULL, live or dangling.  Functions that the code calls and that are
  not its own (allocator, system calls, callbacks, MessagePack encoder, SHA-1, base64, URI parser, checksum, directory entries) are parameters.  State
  is passed and returned.

  \<^bold>\<open>Foundations.\<close>  \<open>Prelude\<close>: bytes, big-endian integers, memory that can be poked and sliced, the collections
  of rules.  \<open>Msgpuck\<close>: the third-party encoder as a record of functions, with the documented laws as the locale \<open>msgpuck_laws\<close>.
  \<open>Msgpack_Ref\<close>: an encoder written from the MessagePack specification, which is shown to meet the laws; the witnesses
  evaluate it.

  \<^bold>\<open>Objects and requests\<close> (\<open>src/beer\<close>).  \<open>Beer_Mem\<close>: \<open>beer_mem.c\<close>.  \<open>Beer_Buf\<close>: \<open>beer_stream.c\<close> and the buffer stream \<open>beer_buf.c\<close>,
  with the invariant \<open>sb_inv\<close> of its block and its counters.  \<open>Beer_Object\<close>: \<open>beer_object.c\<close>, the builder with its stack of open
  containers; \<open>Object_View\<close> shows that its operations simulate those on an abstract list of open containers, \<open>Object_Doc\<close> that
  building a document leaves its encoding, and that the format strings do what the calls do.  \<open>Beer_Proto\<close>: keys, codes and the header,
  and \<open>frame\<close> and \<open>parse_frame\<close>, the writer and the reader of a request on the wire, which are inverse.  \<open>Beer_Requests\<close>:
  ping, select, insert, replace, delete, call, eval, update, upsert; each writes one frame on any stream that
  satisfies the locale \<open>byte_sink\<close>, and the buffer stream and the network stream do.  \<open>Beer_Update\<close>: the operations of an update.  \<open>Beer_Request\<close>,
  \<open>Request_Frames\<close>: request objects (\<open>beer_request.c\<close>), which write the frame of the fields that were set.

  \<^bold>\<open>Replies.\<close>  \<open>Beer_Iter\<close>, \<open>Reply_Iter\<close>: \<open>beer_iter.c\<close>; the locale \<open>cursor\<close> is the contract of an iterator, and arrays, maps
  and the iterators of \<open>tp.h\<close> are instances.  \<open>Beer_Reply\<close>, \<open>Beer_Response\<close>, \<open>Reply_Reader\<close>: \<open>beer_reply.c\<close> against the printed
  response: from memory, from a buffer stream, from any source of bytes.

  \<^bold>\<open>The single header\<close> \<open>src/include/tp.h\<close>.  \<open>Tp_Request\<close>, \<open>Tp_Frames\<close>, \<open>Tp_Client\<close>, \<open>Tp_Auth\<close>: the writer, with the growth of its
  buffer; \<open>tp_rel\<close> is the invariant of an unfinished package.  \<open>Tp_Reply\<close>, \<open>Tp_Response\<close>: greeting, responses and rows.

  \<^bold>\<open>Network\<close> (\<open>src/beer\<close>).  \<open>Beer_Opt\<close>: options and buffers (\<open>beer_opt.c\<close>, \<open>beer_iob.c\<close>).  \<open>Beer_Io\<close>: sending and receiving in
  \<open>beer_io.c\<close>.  \<open>Io_Transport\<close>: the locale \<open>transport\<close>, what is relied on of the system (a call takes or gives a prefix; it is
  interrupted finitely often), two transports that cut and interrupt everything, and the theorems that bytes arrive in order, none lost
  and none twice.  A failure is only reported when the system itself declined.  \<open>Beer_Connect\<close>: the rest of \<open>beer_io.c\<close>.  \<open>Beer_Auth\<close>: \<open>beer_auth.c\<close>.
  \<open>Beer_Schema\<close>: \<open>beer_schema.c\<close> over an association list.  \<open>Beer_Net\<close>: \<open>beer_net.c\<close>, the whole stream.

  \<^bold>\<open>Logs and replication\<close> (\<open>src/beerrpl\<close>, which no build file includes).  \<open>Beer_Log\<close>: \<open>beer_log.c\<close>.  \<open>Log_Entries\<close>: the format of a
  log as a printer, and reading what it prints.  \<open>Log_Safety\<close>: what reading guarantees for any file.  \<open>Beer_Dir\<close>: \<open>beer_dir.c\<close>.
  \<open>Beer_Rpl\<close>: the streams of \<open>beer_xlog.c\<close>, \<open>beer_snapshot.c\<close> and \<open>beer_rpl.c\<close>, with the theorems that a file yields its
  operations in order and what a server's record hands to the decoder \<open>beer_request_from\<close>, a function that no file of the repository
  defines and about which nothing is assumed.

  \<open>Doc_Example\<close>: the client in \<open>src/doc/source/example.c\<close>, as far as it uses what the headers declare.

  \<open>Scenarios\<close> holds what the properties share and the concrete inputs of the witnesses, \<open>Further_Frames\<close> results that resemble
  properties of this file.

  \<^bold>\<open>Loops.\<close>  No definition uses fuel.  Loops over data are recursive with a proof of termination (the bytes left to send or receive, the
  lines left in a file).  The repetition of an interrupted call, the wait for a connection, the search for the largest socket buffer
  and the loop over the replies of the schema depend on the system and are partial functions: that they return is part of the
  theorems about them, except for the last; the search returns from every start that is not negative.  \<open>read_all\<close> and \<open>next_values\<close> are clients that ask a
  given number of times.

  \<^bold>\<open>Bounds.\<close>  A package is shorter than \<open>2 ^ 32\<close> bytes, an argument than \<open>2 ^ 60\<close>; beyond, the lengths of the code wrap.  Everything
  the code stores in fewer bits is a word, so those limits are visible in the hypotheses.  The properties assume an allocator that
  does not fail where they speak of success (\<open>alloc_total\<close>); those about the growth of a buffer hold for any.

  \<^bold>\<open>Not modelled.\<close>  The vendored code under \<open>src/third_party\<close> and \<open>pmatomic.h\<close> (macros over compiler builtins; the model has one thread,
  so the counters are plain).  The umbrella header \<open>bee.h\<close>; the functions of the example that
  call what does not exist.  The variadic fronts
  (\<open>beer_object_format\<close>, \<open>tp_format\<close>) and \<open>tp_free\<close>, which only release or pass on.  The numbers of server errors, which the client hands
  through.  The lifetime of the single blocks for names and entries in the schema's tables: what a flush releases is
  in the model, what is leaked when a row replaces an older one is not.  Times are unbounded integers.
\<close>

section \<open>Properties\<close>

text \<open>C1. The object builder is correct.  For every document whose containers nest at most eight deep, and
every way of packing, a fresh builder accepts the calls that build it, the buffer holds exactly the
document's MessagePack bytes, and \<open>beer_object_verify\<close> accepts them.  Sizes announced by the client
matter for the simple packing only, where the returned counts add up to the bytes written.\<close>

theorem object_build:
  assumes "msgpuck_laws M" "alloc_total A" "doc_ok d" "depth d \<le> 8" "k = BEER_SBO_SIMPLE \<longrightarrow> ann = (\<lambda>n. n)"
  shows "\<exists>s s' s'' n. beer_object True True = Some (Some s) \<and> beer_object_type s k = Some (0, s') \<and>
    obj_run M A s' (build_calls ann d) = Some (int n, s'') \<and> sb_bytes (s_data s'') = ser M k d \<and>
    (k \<noteq> BEER_SBO_PACKED \<longrightarrow> n = length (ser M k d)) \<and> beer_object_verify M s'' None = Some 0"
proof -
  obtain s where s: "beer_object True True = Some (Some s)" "s_wrcnt s = 0"
    "obj_rel s \<lparr>ov_bytes = [], ov_frames = [], ov_room = 8, ov_kind = BEER_SBO_SIMPLE\<rparr>"
    by (rule beer_object_fresh)
  obtain s' where s': "beer_object_type s k = Some (0, s')"
    "obj_rel s' \<lparr>ov_bytes = [], ov_frames = [], ov_room = 8, ov_kind = k\<rparr>"
    using obj_type_sim [OF s(3) _ _ s(2), of k] by auto
  obtain n s'' where r: "reaches M A s' (build_calls ann d) n s''"
    "obj_rel s'' (v_add (ser M k d) \<lparr>ov_bytes = [], ov_frames = [], ov_room = 8, ov_kind = k\<rparr>)"
    "k \<noteq> BEER_SBO_PACKED \<longrightarrow> n = length (ser M k d)"
    using msgpuck_laws.builds_doc [OF assms(1-3), of ann] s'(2) assms(4,5)
    unfolding msgpuck_laws.builds_def [OF assms(1)] by fastforce
  have b: "sb_bytes (s_data s'') = ser M k d" "sb_open (s_data s'')"
    using obj_rel_bytes [OF r(2)] by (simp_all add: v_add_def)
  moreover have "beer_object_verify M s'' None = Some 0"
    using msgpuck_laws.mp_obj_ser [OF assms(1,3), of k] b by (intro verify_None_ok) (simp_all add: sb_open_def)
  ultimately show ?thesis
    using s(1) s'(1) reaches_run [OF r(1)] r(3) by blast
qed

lemma object_build_witness:
  "\<exists>s s' s'' n. beer_object True True = Some (Some s) \<and> beer_object_type s BEER_SBO_PACKED = Some (0, s') \<and>
    obj_run ref_mp calloc_ok s' [Add_array 0, Add_uint 7, Add_map 0, Add_str [65], Add_nil, Container_close,
      Container_close] = Some (int n, s'') \<and>
    sb_bytes (s_data s'') = [0x92, 7, 0x81, 0xa1, 65, 0xc0] \<and> beer_object_verify ref_mp s'' None = Some 0"
  using object_build [OF ref.msgpuck_laws_axioms alloc_total_calloc,
      of "DArr [DUint 7, DMap [DStr [65], DNil]]" BEER_SBO_PACKED "\<lambda>_. 0"]
  by (simp add: ref_eval coll_hdr_def)



text \<open>C3. What the builder refuses.  \<open>beer_object_container_close\<close> returns \<open>-1\<close> exactly when no container is open or the
innermost one is a map with an odd number of members; then it changes nothing, and otherwise it returns \<open>0\<close>.  This is stated
for the builder after the calls that open a container and add documents, and for every stream that represents a view (\<open>obj_rel\<close>).\<close>

theorem container_close_refuses:
  assumes "msgpuck_laws M" "alloc_total A" "\<forall>d \<in> set ds. doc_ok d \<and> depth d \<le> 7" "length ds < 4294967296"
    "c = Add_array m \<or> c = Add_map m"
  shows "(\<exists>s s' s'' n rv u. beer_object True True = Some (Some s) \<and> beer_object_type s k = Some (0, s') \<and>
    beer_object_container_close M A s' = Some (-1, s') \<and>
    obj_run M A s' (c # concat (map (build_calls (\<lambda>n. n)) ds)) = Some (int n, s'') \<and>
    beer_object_container_close M A s'' = Some (rv, u) \<and> (rv = 0 \<or> rv = -1 \<and> u = s'') \<and>
    (rv = -1 \<longleftrightarrow> c = Add_map m \<and> odd (length ds))) \<and>
    (\<forall>t v. obj_rel t v \<longrightarrow> (\<exists>rv u. beer_object_container_close M A t = Some (rv, u) \<and> (rv = 0 \<or> rv = -1 \<and> u = t) \<and>
      (rv = -1 \<longleftrightarrow> ov_frames v = [] \<or> ent_type (last (ov_frames v)) = MP_MAP \<and> odd (unat (ent_size (last (ov_frames v)))))))"
proof (rule conjI)
  show "\<forall>t v. obj_rel t v \<longrightarrow> (\<exists>rv u. beer_object_container_close M A t = Some (rv, u) \<and> (rv = 0 \<or> rv = -1 \<and> u = t) \<and>
      (rv = -1 \<longleftrightarrow> ov_frames v = [] \<or> ent_type (last (ov_frames v)) = MP_MAP \<and> odd (unat (ent_size (last (ov_frames v))))))"
    using container_close_outcome [OF assms(1,2)] by blast
  let ?v = "\<lparr>ov_bytes = [], ov_frames = [], ov_room = 8, ov_kind = k\<rparr>"
  define ty where "ty = (if c = Add_map m then MP_MAP else MP_ARRAY)"
  let ?h = "open_hdr M k ty m"
  let ?w = "v_open ty ?h ?v"
  obtain s s' where s: "beer_object True True = Some (Some s)" "beer_object_type s k = Some (0, s')" "obj_rel s' ?v"
    by (rule fresh_builder)
  have "\<exists>t. obj_exec M A s' c = Some (int (length ?h), t) \<and> obj_rel t ?w"
  proof (cases "c = Add_map m")
    case True
    obtain t where "beer_object_add_map M A (stack_mem A s') s' m = Some (int (length (open_hdr M k MP_MAP m)), t)"
      "obj_rel t (v_open MP_MAP (open_hdr M k MP_MAP m) ?v)"
      by (rule msgpuck_laws.beer_object_add_map_sim [OF assms(1,2) s(3), of "stack_mem A s'" m]) simp_all
    with True show ?thesis by (simp add: ty_def)
  next
    case False
    obtain t where "beer_object_add_array M A (stack_mem A s') s' m = Some (int (length (open_hdr M k MP_ARRAY m)), t)"
      "obj_rel t (v_open MP_ARRAY (open_hdr M k MP_ARRAY m) ?v)"
      by (rule msgpuck_laws.beer_object_add_array_sim [OF assms(1,2) s(3), of "stack_mem A s'" m]) simp_all
    with False assms(5) show ?thesis by (auto simp: ty_def)
  qed
  then obtain t where t: "reaches M A s' [c] (length ?h) t" "obj_rel t ?w"
    using reaches_one by blast
  have w: "ov_kind ?w = k" "ov_room ?w = 8" "length (ov_frames ?w) = 1" by (simp_all add: v_open_def)
  have b: "\<forall>d \<in> set ds. msgpuck_laws.builds M (\<lambda>n. n) A d" "\<forall>d \<in> set ds. length (ov_frames ?w) + depth d \<le> ov_room ?w"
    using assms(3) msgpuck_laws.builds_doc [OF assms(1,2)] w(2,3) by auto
  obtain n s'' where r: "reaches M A t (concat (map (build_calls (\<lambda>n. n)) ds)) n s''"
    "obj_rel s'' (v_adds (map (ser M k) ds) ?w)"
    using msgpuck_laws.builds_list [OF assms(1) b(1) t(2) b(2)] w(1) by auto
  have run: "\<exists>n. obj_run M A s' (c # concat (map (build_calls (\<lambda>n. n)) ds)) = Some (int n, s'')"
    using reaches_run [OF reaches_append [OF t(1) r(1)]] by (auto simp del: of_nat_add)
  have fr: "ov_frames (v_adds (map (ser M k) ds) ?w) = [] @ [\<lparr>ent_offset = 0, ent_size = word_of_nat (length ds), ent_type = ty\<rparr>]"
    using v_adds_open [of ?w "[]"] by (simp add: v_open_def)
  have ty: "ty = MP_MAP \<longleftrightarrow> c = Add_map m" using assms(5) by (auto simp: ty_def)
  have len: "unat (word_of_nat (length ds) :: u32) = length ds" using assms(4) by (simp add: unat_of_nat take_bit_nat_eq_self_iff)
  obtain rv u where "beer_object_container_close M A s'' = Some (rv, u)" "rv = 0 \<or> rv = -1 \<and> u = s''"
    "rv = -1 \<longleftrightarrow> c = Add_map m \<and> odd (length ds)"
    using container_close_outcome [OF assms(1,2) r(2), unfolded fr] by (auto simp: ty len)
  note cl = this
  have none: "beer_object_container_close M A s' = Some (-1, s')" by (rule msgpuck_laws.close_none [OF assms(1) s(3)]) simp
  obtain n where run: "obj_run M A s' (c # concat (map (build_calls (\<lambda>n. n)) ds)) = Some (int n, s'')" using run by (rule exE)
  show "\<exists>s s' s'' n rv u. beer_object True True = Some (Some s) \<and> beer_object_type s k = Some (0, s') \<and>
    beer_object_container_close M A s' = Some (-1, s') \<and>
    obj_run M A s' (c # concat (map (build_calls (\<lambda>n. n)) ds)) = Some (int n, s'') \<and>
    beer_object_container_close M A s'' = Some (rv, u) \<and> (rv = 0 \<or> rv = -1 \<and> u = s'') \<and>
    (rv = -1 \<longleftrightarrow> c = Add_map m \<and> odd (length ds))"
    by (intro exI conjI) (rule s none run cl)+
qed

lemma container_close_refuses_witness:
  "\<exists>s s' s'' n. beer_object True True = Some (Some s) \<and> beer_object_type s BEER_SBO_SPARSE = Some (0, s') \<and>
    beer_object_container_close ref_mp calloc_ok s' = Some (-1, s') \<and>
    obj_run ref_mp calloc_ok s' [Add_map 1, Add_uint 7] = Some (int n, s'') \<and>
    beer_object_container_close ref_mp calloc_ok s'' = Some (-1, s'')"
  using container_close_refuses [OF ref.msgpuck_laws_axioms alloc_total_calloc, of "[DUint 7]" "Add_map 1" 1 BEER_SBO_SPARSE]
  by simp

text \<open>C4. One container too many.  \<open>beer_sbuf_object_grow_stack\<close> allocates a larger stack and drops
the old one without copying it.  A builder whose stack is full (eight open containers at first) accepts a
further array and appends its header, but every container that was open has become the zero entry:
offset 0, no children, not a map.\<close>

theorem grow_stack_forgets:
  assumes "msgpuck_laws M" "alloc_total A" "sb_open (s_data s)" "sobj s = Some sbo" "stack_size sbo = stack_alloc sbo"
    "length (stack sbo) = unat (stack_alloc sbo)" "unat (stack_alloc sbo) \<le> 64" "0 < unat (stack_alloc sbo)"
  shows "\<exists>hdr s' sbo'. beer_object_add_array M A True s n = Some (int (length hdr), s') \<and>
    sb_bytes (s_data s') = sb_bytes (s_data s) @ hdr \<and> sobj s' = Some sbo' \<and>
    stack_size sbo' = stack_size sbo + 1 \<and>
    (\<forall>i < unat (stack_size sbo). stack_at sbo' i = Some zero_entry)"
proof -
  let ?a = "stack_alloc sbo" and ?e = "\<lparr>ent_offset = sb_size (s_data s), ent_size = 0, ent_type = MP_ARRAY\<rparr>"
  obtain sbo1 where c: "add_child sbo = Some sbo1" "stack_size sbo1 = ?a" "stack_alloc sbo1 = ?a"
    "sbo_kind sbo1 = sbo_kind sbo"
    using assms(5,6) by (auto elim!: add_child_view [of sbo])
  define sbo2 where "sbo2 = sbo1\<lparr>stack_alloc := 2 * ?a, stack := (replicate (unat (2 * ?a)) zero_entry)[unat ?a := ?e],
    stack_size := ?a + 1\<rparr>"
  have twice: "unat (2 * ?a) = 2 * unat ?a" "?a \<noteq> 128"
    using assms(7) by (auto simp: unat_mult_lem [THEN iffD1])
  then have "stack_put (unat ?a) ?e (sbo1\<lparr>stack_alloc := 2 * ?a, stack := replicate (unat (2 * ?a)) zero_entry\<rparr>)
      = Some (sbo1\<lparr>stack_alloc := 2 * ?a, stack := (replicate (unat (2 * ?a)) zero_entry)[unat ?a := ?e]\<rparr>)"
    using assms(8) by (simp add: stack_put_def)
  then have *: "beer_object_add_array M A True s n = beer_buf_write A (set_sobj sbo2 s) (open_hdr M (sbo_kind sbo) MP_ARRAY n)"
    using twice c assms(4,5) msgpuck_laws.open_hdr_length(2) [OF assms(1), of "sbo_kind sbo" MP_ARRAY n]
    by (cases "sbo_kind sbo")
       (simp_all add: beer_object_add_array_def beer_sbuf_object_grow_stack_def sbo2_def open_hdr_def emit_Some Let_def)
  have ne: "open_hdr M (sbo_kind sbo) MP_ARRAY n \<noteq> []"
    using msgpuck_laws.open_hdr_length(1) [OF assms(1), of "sbo_kind sbo" MP_ARRAY n] hdr_room_pos [of "sbo_kind sbo"] by auto
  obtain s' where s': "beer_buf_write A (set_sobj sbo2 s) (open_hdr M (sbo_kind sbo) MP_ARRAY n)
      = Some (int (length (open_hdr M (sbo_kind sbo) MP_ARRAY n)), s')" "sobj s' = Some sbo2"
    "sb_bytes (s_data s') = sb_bytes (s_data s) @ open_hdr M (sbo_kind sbo) MP_ARRAY n"
    by (rule write_set_sobj [OF assms(2,3) ne])
  have "\<forall>i < unat (stack_size sbo). stack_at sbo2 i = Some zero_entry"
    using assms(5) twice by (simp add: stack_at_def sbo2_def)
  then show ?thesis using * s' assms(5) by (auto simp: sbo2_def)
qed

lemma grow_stack_forgets_witness:
  "\<exists>hdr s' sbo'. beer_object_add_array ref_mp calloc_ok True full_builder 0 = Some (int (length hdr), s') \<and>
    sb_bytes (s_data s') = replicate 8 0x90 @ hdr \<and> sobj s' = Some sbo' \<and> stack_at sbo' 7 = Some zero_entry"
proof -
  obtain sbo where "sobj full_builder = Some sbo" "stack_size sbo = 8" "stack_alloc sbo = 8" "length (stack sbo) = 8"
    using full_builder_sel(3) by blast
  with grow_stack_forgets [OF ref.msgpuck_laws_axioms alloc_total_calloc full_builder_sel(1), of sbo 0]
  show ?thesis by (auto simp: full_builder_sel(2))
qed

text \<open>C5. The invariant of a buffer stream.  Whatever the allocator answers, \<open>beer_buf_writev\<close> is
defined on a buffer in its invariant and returns \<open>-1\<close> with the size and the write counter unchanged, or
the number of bytes, and then the contents have grown by exactly those bytes and the
invariant holds again.  It fails on a buffer that the stream does not own.\<close>

theorem buf_append:
  assumes "alloc_ok A" "sb_inv (s_data s)" "concat iov \<noteq> []"
  shows "\<exists>rv s'. beer_buf_writev A s iov = Some (rv, s') \<and> s_reqid s' = s_reqid s \<and>
    (sb_as (s_data s) \<longrightarrow> rv = -1) \<and>
    (rv = -1 \<and> s_wrcnt s' = s_wrcnt s \<and> sb_size (s_data s') = sb_size (s_data s) \<or>
     rv = int (length (concat iov)) \<and> s_wrcnt s' = s_wrcnt s + 1 \<and> sb_inv (s_data s') \<and>
     sb_bytes (s_data s') = sb_bytes (s_data s) @ concat iov)"
proof -
  obtain rv s' where w: "beer_buf_writev A s iov = Some (rv, s')" "appended s (concat iov) (rv, s')"
    using beer_buf_writev_appended [OF assms] by auto
  have "sb_as (s_data s) \<Longrightarrow> rv = -1" using w(1) by (simp add: beer_buf_writev_def)
  with w show ?thesis by (auto simp: appended_def split: if_splits)
qed

lemma buf_append_witness:
  "\<exists>rv s'. beer_buf_writev calloc_ok beer_buf [[1, 2], [], [3]] = Some (rv, s') \<and>
    (rv = -1 \<or> rv = 3 \<and> sb_inv (s_data s') \<and> sb_bytes (s_data s') = [1, 2, 3])"
  using buf_append [of calloc_ok beer_buf "[[1, 2], [], [3]]"] sb_inv_beer_buf
    alloc_total_ok [OF alloc_total_calloc] by auto

text \<open>C6. A failed growth.  When \<open>realloc\<close> fails, \<open>beer_buf_resize\<close> frees the old memory and leaves
the pointer in the stream.  The write is reported as \<open>-1\<close>, the contents are lost, and
\<open>beer_buf_free\<close>, the only thing left to do with the stream, is a double free.\<close>

theorem buf_failed_growth:
  assumes "A (sb_size (s_data s) + length bs) = None" "sb_data (s_data s) = Live mem" "bs \<noteq> []"
    "sb_resize (s_data s) = Buf_resize" "\<not> sb_as (s_data s)"
  shows "\<exists>s'. beer_buf_write A s bs = Some (-1, s') \<and> sb_bytes (s_data s') = [] \<and>
    sb_size (s_data s') = sb_size (s_data s) \<and> beer_buf_free A s' = None"
  using beer_buf_write_fail [of A, OF assms] assms(5)
  by (simp add: sb_bytes_def beer_buf_free_def)

lemma buf_failed_growth_witness:
  "\<exists>s'. beer_buf_write (\<lambda>n. if n \<le> 2 then Some (replicate n 0) else None)
      (beer_buf\<lparr>s_data := (s_data beer_buf)\<lparr>sb_data := Live [7, 8], sb_size := 2, sb_alloc := 2\<rparr>\<rparr>) [9] = Some (-1, s') \<and>
    beer_buf_free (\<lambda>n. if n \<le> 2 then Some (replicate n 0) else None) s' = None"
  using buf_failed_growth [of "\<lambda>n. if n \<le> 2 then Some (replicate n 0) else None"
      "beer_buf\<lparr>s_data := (s_data beer_buf)\<lparr>sb_data := Live [7, 8], sb_size := 2, sb_alloc := 2\<rparr>\<rparr>" "[9]" "[7, 8]"]
  by (auto simp: beer_buf_def beer_stream_init_def)

text \<open>C7. Reading from a buffer stream.  \<open>beer_buf_read\<close> announces \<open>k\<close> bytes, the smaller of what was asked for and
what is unread, and moves the read offset by \<open>k\<close>; but its \<open>memcpy\<close> has the arguments the wrong
way round, so that the caller's buffer keeps its bytes and the unread part of the stream is replaced by them.\<close>

theorem buf_read_direction:
  assumes "sb_inv (s_data s)" "sb_rdoff (s_data s) < sb_size (s_data s)" "n \<le> length buf"
    "k = min n (sb_size (s_data s) - sb_rdoff (s_data s))"
  shows "\<exists>s'. beer_buf_read s buf n = Some (int k, buf, s') \<and> sb_rdoff (s_data s') = sb_rdoff (s_data s) + k \<and>
    sb_bytes (s_data s') = take (sb_rdoff (s_data s)) (sb_bytes (s_data s)) @ take k buf @
      drop (sb_rdoff (s_data s) + k) (sb_bytes (s_data s))"
proof -
  obtain mem where m: "sb_data (s_data s) = Live mem" "sb_size (s_data s) \<le> length mem"
    using assms(1,2) by (auto simp: sb_inv_def split: blk.splits)
  have k: "(if sb_size (s_data s) - sb_rdoff (s_data s) < n then sb_size (s_data s) - sb_rdoff (s_data s) else n) = k"
    using assms(4) by simp
  have "k \<le> length buf" "sb_rdoff (s_data s) + k \<le> sb_size (s_data s)"
    "sb_size (s_data s) - sb_rdoff (s_data s) \<le> k \<Longrightarrow> sb_size (s_data s) - sb_rdoff (s_data s) = k"
    using assms(2-4) by auto
  then show ?thesis
    using m assms(2) by (auto simp: beer_buf_read_def Let_def k slice_def sb_poke_def poke_def sb_bytes_def min_def drop_take)
qed

lemma buf_read_direction_witness:
  "\<exists>s'. beer_buf_read (beer_buf_as None [1, 2, 3]) [0, 0] 2 = Some (2, [0, 0], s') \<and>
    sb_rdoff (s_data s') = 2 \<and> sb_bytes (s_data s') = [0, 0, 3]"
  using buf_read_direction [of "beer_buf_as None [1, 2, 3]" 2 "[0, 0]" 2]
  by (simp add: beer_buf_as_def beer_buf_def beer_stream_init_def sb_inv_def sb_bytes_def numeral_2_eq_2)

text \<open>C8. Select requests arrive.  What \<open>beer_select\<close> appends to an open buffer stream is one length-prefixed package
whose reader gets the operation, the sync (the value of the stream's request counter before the
call) and the six fields, whatever follows in the stream.\<close>

theorem select_arrives:
  assumes "msgpuck_laws M" "alloc_total A" "sb_open (s_data s)" "is_array M key"
    "length (sbuf_iov key) \<le> 1152921504606846976"
  shows "\<exists>s' fr. beer_select M (beer_buf_writev A) s space index limit offset iterator key = Some (int (length fr), s') \<and>
    sb_bytes (s_data s') = sb_bytes (s_data s) @ fr \<and> s_reqid s' = s_reqid s + 1 \<and>
    (\<forall>rest. parse_frame M (fr @ rest) = Some ((1, s_reqid s,
       [(0x10, mp_encode_uint M (ucast space)), (0x11, mp_encode_uint M (ucast index)),
        (0x12, mp_encode_uint M (ucast limit)), (0x13, mp_encode_uint M (ucast offset)),
        (0x14, mp_encode_uint M (ucast iterator)), (0x20, sbuf_iov key)]), rest))"
  using request_on_buffer [OF assms(1) msgpuck_laws.beer_select_sends [OF assms(1,4)] _ _ assms(2,3)]
    assms(5) msgpuck_laws.is_array_obj [OF assms(1,4)] enc_uint_ok [OF assms(1)]
  by simp

lemma select_arrives_witness:
  "\<exists>s' fr. beer_select ref_mp (beer_buf_writev calloc_ok) beer_buf 512 0 10 0 2 (beer_buf_as None [0x91, 7])
      = Some (int (length fr), s') \<and> sb_bytes (s_data s') = fr \<and>
    parse_frame ref_mp fr = Some ((1, 0, [(0x10, [0xcd, 2, 0]), (0x11, [0]), (0x12, [10]), (0x13, [0]), (0x14, [2]),
      (0x20, [0x91, 7])]), [])"
proof -
  obtain s' fr where "beer_select ref_mp (beer_buf_writev calloc_ok) beer_buf 512 0 10 0 2 (beer_buf_as None [0x91, 7])
      = Some (int (length fr), s')" "sb_bytes (s_data s') = fr"
    "\<And>rest. parse_frame ref_mp (fr @ rest) = Some ((1, 0, [(0x10, [0xcd, 2, 0]), (0x11, [0]), (0x12, [10]),
      (0x13, [0]), (0x14, [2]), (0x20, [0x91, 7])]), rest)"
    using select_arrives [OF ref.msgpuck_laws_axioms alloc_total_calloc beer_buf_open(1) key_7(1), of 512 0 10 0 2]
    by (auto simp: beer_buf_open key_7 ref_eval)
  from this(1,2) this(3) [of "[]"] show ?thesis by auto
qed

text \<open>C9. Insert and replace requests arrive, with the space number and the tuple as their only fields and the two
operations told apart by their code.\<close>

theorem store_arrives:
  assumes "msgpuck_laws M" "alloc_total A" "sb_open (s_data s)" "is_array M tuple"
    "length (sbuf_iov tuple) \<le> 1152921504606846976"
    "(f, code) \<in> {(beer_insert M (beer_buf_writev A), 2), (beer_replace M (beer_buf_writev A), 3)}"
  shows "\<exists>s' fr. f s space tuple = Some (int (length fr), s') \<and>
    sb_bytes (s_data s') = sb_bytes (s_data s) @ fr \<and> s_reqid s' = s_reqid s + 1 \<and>
    (\<forall>rest. parse_frame M (fr @ rest) = Some ((code, s_reqid s,
       [(0x10, mp_encode_uint M (ucast space)), (0x21, sbuf_iov tuple)]), rest))"
  using request_on_buffer [OF assms(1) msgpuck_laws.beer_store_base_sends [OF assms(1,4)] _ _ assms(2,3), of space BEER_OP_INSERT]
    request_on_buffer [OF assms(1) msgpuck_laws.beer_store_base_sends [OF assms(1,4)] _ _ assms(2,3), of space BEER_OP_REPLACE]
    assms(5,6) msgpuck_laws.is_array_obj [OF assms(1,4)] enc_uint_ok [OF assms(1)]
  by (auto simp: beer_insert_def beer_replace_def)

lemma store_arrives_witness:
  "\<exists>s' fr. beer_replace ref_mp (beer_buf_writev calloc_ok) beer_buf 512 (beer_buf_as None [0x91, 7])
      = Some (int (length fr), s') \<and> sb_bytes (s_data s') = fr \<and>
    parse_frame ref_mp fr = Some ((3, 0, [(0x10, [0xcd, 2, 0]), (0x21, [0x91, 7])]), [])"
proof -
  obtain s' fr where "beer_replace ref_mp (beer_buf_writev calloc_ok) beer_buf 512 (beer_buf_as None [0x91, 7])
      = Some (int (length fr), s')" "sb_bytes (s_data s') = fr"
    "\<And>rest. parse_frame ref_mp (fr @ rest) = Some ((3, 0, [(0x10, [0xcd, 2, 0]), (0x21, [0x91, 7])]), rest)"
    using store_arrives [OF ref.msgpuck_laws_axioms alloc_total_calloc beer_buf_open(1) key_7(1),
        of "beer_replace ref_mp (beer_buf_writev calloc_ok)" 3 512]
    by (auto simp: beer_buf_open key_7 ref_eval)
  from this(1,2) this(3) [of "[]"] show ?thesis by auto
qed

text \<open>C10. Call and eval requests arrive.  The first \<open>n\<close> bytes of the name travel as a string, under the key for functions in
the two call operations and under the key for expressions in \<open>beer_eval\<close>, and the arguments follow.\<close>

theorem rpc_arrives:
  assumes "msgpuck_laws M" "alloc_total A" "sb_open (s_data s)" "is_array M args"
    "length (sbuf_iov args) \<le> 1152921504606846976" "0 < n" "n \<le> length name" "n < 4294967296"
    "(f, code, key) \<in> {(beer_call M (beer_buf_writev A), 10, 0x22), (beer_call_16 M (beer_buf_writev A), 6, 0x22),
       (beer_eval M (beer_buf_writev A), 8, 0x27)}"
  shows "\<exists>s' fr. f s (Some name) n args = Some (int (length fr), s') \<and>
    sb_bytes (s_data s') = sb_bytes (s_data s) @ fr \<and> s_reqid s' = s_reqid s + 1 \<and>
    (\<forall>rest. parse_frame M (fr @ rest) = Some ((code, s_reqid s,
       [(key, mp_encode_str M (take n name)), (0x21, sbuf_iov args)]), rest))"
proof -
  let ?str = "mp_encode_strl M (word_of_nat n) @ take n name"
  have u: "unat (word_of_nat n :: u32) = n" using assms(8) by (simp add: unat_of_nat)
  have str: "mp_encode_str M (take n name) = ?str" "mp_obj M ?str" "length ?str \<le> 1152921504606846976"
    using msgpuck_laws.enc_str [OF assms(1), of "take n name"] msgpuck_laws.mp_obj_str [OF assms(1), of "word_of_nat n" "take n name"]
      msgpuck_laws.strl_length [OF assms(1), of "word_of_nat n"] assms(7,8) u by simp_all
  have "\<exists>s' fr. beer_rpc_base M (beer_buf_writev A) s (Some name) n args op = Some (int (length fr), s') \<and>
    sb_bytes (s_data s') = sb_bytes (s_data s) @ fr \<and> s_reqid s' = s_reqid s + 1 \<and>
    (\<forall>rest. parse_frame M (fr @ rest) = Some ((ucast (op_code op), s_reqid s,
       [(body_key (if is_call op then BEER_FUNCTION else BEER_EXPRESSION), ?str), (body_key BEER_TUPLE, sbuf_iov args)]), rest))" for op
    using request_on_buffer [OF assms(1) msgpuck_laws.beer_rpc_base_sends [OF assms(1,4,6,7)] _ _ assms(2,3), of op]
      str assms(5) msgpuck_laws.is_array_obj [OF assms(1,4)] by simp
  from this [of BEER_OP_CALL] this [of BEER_OP_CALL_16] this [of BEER_OP_EVAL] show ?thesis
    using assms(9) unfolding str(1) by (auto simp: beer_call_def beer_call_16_def beer_eval_def is_call_def)
qed

lemma rpc_arrives_witness:
  "\<exists>s' fr. beer_eval ref_mp (beer_buf_writev calloc_ok) beer_buf (Some [65, 66, 67]) 2 (beer_buf_as None [0x91, 7])
      = Some (int (length fr), s') \<and> sb_bytes (s_data s') = fr \<and>
    parse_frame ref_mp fr = Some ((8, 0, [(0x27, [0xa2, 65, 66]), (0x21, [0x91, 7])]), [])"
proof -
  obtain s' fr where "beer_eval ref_mp (beer_buf_writev calloc_ok) beer_buf (Some [65, 66, 67]) 2 (beer_buf_as None [0x91, 7])
      = Some (int (length fr), s')" "sb_bytes (s_data s') = fr"
    "\<And>rest. parse_frame ref_mp (fr @ rest) = Some ((8, 0, [(0x27, [0xa2, 65, 66]), (0x21, [0x91, 7])]), rest)"
    using rpc_arrives [OF ref.msgpuck_laws_axioms alloc_total_calloc beer_buf_open(1) key_7(1), where n = 2 and name = "[65, 66, 67]"
        and f = "beer_eval ref_mp (beer_buf_writev calloc_ok)" and code = 8 and key = "0x27"]
    by (auto simp: beer_buf_open key_7 ref_eval)
  from this(1,2) this(3) [of "[]"] show ?thesis by auto
qed

text \<open>C11. From a list of update operations to the server.  The container accepts any operations whose arguments
are what the API asks for, closing it makes one array whose size is their number, \<open>beer_update\<close>
accepts that array, and the server reads the operations in their order (\<open>upd_bytes\<close> is one operation
on the wire).\<close>

theorem update_arrives:
  assumes "msgpuck_laws M" "alloc_total A" "sb_open (s_data s)" "is_array M key"
    "length (sbuf_iov key) \<le> 1152921504606846976" "\<forall>c \<in> set cs. upd_ok M c" "length cs < 4294967296"
    "5 + length (concat (map (upd_bytes M) cs)) \<le> 1152921504606846976"
  shows "\<exists>ops ops' ops'' s' fr. beer_update_container M A True True = Some (Some ops) \<and>
    upd_run M A ops cs = Some (0, ops') \<and> beer_update_container_close M A ops' = Some (0, ops'') \<and>
    beer_update M (beer_buf_writev A) s space index key ops'' = Some (int (length fr), s') \<and>
    sb_bytes (s_data s') = sb_bytes (s_data s) @ fr \<and>
    (\<forall>rest. parse_frame M (fr @ rest) = Some ((4, s_reqid s,
       [(0x10, mp_encode_uint M (ucast space)), (0x11, mp_encode_uint M (ucast index)), (0x20, sbuf_iov key),
        (0x21, 0xdd # be 4 (length cs) @ concat (map (upd_bytes M) cs))]), rest))"
proof -
  obtain ops ops' ops'' where o: "beer_update_container M A True True = Some (Some ops)"
    "upd_run M A ops cs = Some (0, ops')" "beer_update_container_close M A ops' = Some (0, ops'')"
    and o'': "sbuf_iov ops'' = 0xdd # be 4 (length cs) @ concat (map (upd_bytes M) cs)" "is_array M ops''"
    by (rule msgpuck_laws.upd_list [OF assms(1,2,6,7)])
  have ob: "mp_obj M (sbuf_iov key)" "mp_obj M (sbuf_iov ops'')" "length (sbuf_iov ops'') \<le> 1152921504606846976"
    using msgpuck_laws.is_array_obj [OF assms(1,4)] msgpuck_laws.is_array_obj [OF assms(1) o''(2)] o''(1) assms(8)
    by simp_all
  have "\<exists>s' fr. beer_update M (beer_buf_writev A) s space index key ops'' = Some (int (length fr), s') \<and>
    sb_bytes (s_data s') = sb_bytes (s_data s) @ fr \<and>
    (\<forall>rest. parse_frame M (fr @ rest) = Some ((4, s_reqid s,
       [(0x10, mp_encode_uint M (ucast space)), (0x11, mp_encode_uint M (ucast index)), (0x20, sbuf_iov key),
        (0x21, sbuf_iov ops'')]), rest))"
    using request_on_buffer [OF assms(1) msgpuck_laws.beer_update_sends [OF assms(1,4) o''(2)] _ _ assms(2,3), of space index]
      assms(5) ob enc_uint_ok [OF assms(1)]
    by auto
  with o o''(1) show ?thesis by auto
qed

lemma update_arrives_witness:
  "\<exists>ops ops' ops'' s' fr. beer_update_container ref_mp calloc_ok True True = Some (Some ops) \<and>
    upd_run ref_mp calloc_ok ops [Upd_arith_int 2 BEER_UOP_ADDITION 5, Upd_delete 3 1] = Some (0, ops') \<and>
    beer_update_container_close ref_mp calloc_ok ops' = Some (0, ops'') \<and>
    beer_update ref_mp (beer_buf_writev calloc_ok) beer_buf 512 0 (beer_buf_as None [0x91, 7]) ops'' = Some (int (length fr), s') \<and>
    parse_frame ref_mp fr = Some ((4, 0, [(0x10, [0xcd, 2, 0]), (0x11, [0]), (0x20, [0x91, 7]),
      (0x21, [0xdd, 0, 0, 0, 2, 0x93, 0xa1, 43, 2, 5, 0x93, 0xa1, 35, 3, 1])]), [])"
proof -
  define cs where "cs = [Upd_arith_int 2 BEER_UOP_ADDITION 5, Upd_delete 3 1]"
  have ok: "\<forall>c \<in> set cs. upd_ok ref_mp c" "length cs = 2" by (simp_all add: cs_def)
  have bs: "concat (map (upd_bytes ref_mp) cs) = [0x93, 0xa1, 43, 2, 5, 0x93, 0xa1, 35, 3, 1]"
    by (simp add: cs_def upd_entry_def ref_eval)
  obtain ops ops' ops'' s' fr where "beer_update_container ref_mp calloc_ok True True = Some (Some ops)"
    "upd_run ref_mp calloc_ok ops cs = Some (0, ops')" "beer_update_container_close ref_mp calloc_ok ops' = Some (0, ops'')"
    "beer_update ref_mp (beer_buf_writev calloc_ok) beer_buf 512 0 (beer_buf_as None [0x91, 7]) ops'' = Some (int (length fr), s')"
    and fr: "\<And>rest. parse_frame ref_mp (fr @ rest) = Some ((4, s_reqid beer_buf, [(0x10, mp_encode_uint ref_mp (ucast (512 :: u32))),
      (0x11, mp_encode_uint ref_mp (ucast (0 :: u32))), (0x20, sbuf_iov (beer_buf_as None [0x91, 7])),
      (0x21, 0xdd # be 4 (length cs) @ concat (map (upd_bytes ref_mp) cs))]), rest)"
    using update_arrives [OF ref.msgpuck_laws_axioms alloc_total_calloc beer_buf_open(1) key_7(1) _ ok(1), of 512 0]
    unfolding bs ok(2) key_7(2) by force
  then show ?thesis
    using fr [of "[]"] unfolding bs ok(2) key_7(2) cs_def [symmetric] beer_buf_open by (auto simp: ref_eval)
qed

text \<open>C12. Upsert requests do not arrive.  \<open>beer_upsert\<close> appends a package with the right length and header,
but its body opens a map of four pairs and the package ends after three: the body is not a MessagePack object,
for any tuple and any list of operations.\<close>

theorem upsert_not_a_map:
  assumes "msgpuck_laws M" "alloc_total A" "sb_open (s_data s)" "is_array M tuple" "is_array M ops"
    "length (sbuf_iov tuple) + length (sbuf_iov ops) \<le> 1152921504606846976"
  shows "\<exists>rv s' body. beer_upsert M (beer_buf_writev A) s space tuple ops = Some (rv, s') \<and>
    sb_bytes (s_data s') = sb_bytes (s_data s) @ package (header_bytes M 9 (s_reqid s) @ body) \<and>
    mp_check M body = None"
proof -
  let ?fs = "[(body_key BEER_SPACE, mp_encode_uint M (ucast space)), (body_key BEER_TUPLE, sbuf_iov tuple),
    (body_key BEER_OPS, sbuf_iov ops)]"
  let ?body = "mp_encode_map M 4 @ concat (map (field_bytes M) ?fs)"
  obtain vs where vs: "beer_upsert M (beer_buf_writev A) s space tuple ops = send_package M (beer_buf_writev A) (snd (next_reqid s)) vs"
    "concat vs = header_bytes M 9 (s_reqid s) @ ?body"
    using msgpuck_laws.beer_upsert_sends_raw [OF assms(1,4,5), of "beer_buf_writev A" s space] by auto
  have "length (concat vs) < 18446744073709551616"
    using msgpuck_laws.header_length [OF assms(1), of 9 "s_reqid s"] assms(6)
      msgpuck_laws.u32_length [OF assms(1), of space]
    by (simp add: vs(2) field_bytes_def msgpuck_laws.len_uint [OF assms(1)] msgpuck_laws.len_map [OF assms(1)])
  from msgpuck_laws.send_package_iov [OF assms(1) this]
  obtain iov where iov: "send_package M (beer_buf_writev A) (snd (next_reqid s)) vs = beer_buf_writev A (snd (next_reqid s)) iov"
    "concat iov = package (header_bytes M 9 (s_reqid s) @ ?body)" using vs(2) by metis
  then have ne: "concat iov \<noteq> []" by (simp add: package_def luint_def)
  from owned.request_arrives [OF assms(2,3) refl ne] iov
  have "\<exists>rv s'. send_package M (beer_buf_writev A) (snd (next_reqid s)) vs = Some (rv, s') \<and>
    sb_bytes (s_data s') = sb_bytes (s_data s) @ package (header_bytes M 9 (s_reqid s) @ ?body)" by auto
  moreover have "mp_check M ?body = None"
    using msgpuck_laws.is_array_obj [OF assms(1)] assms(4,5) msgpuck_laws.mp_obj_uint [OF assms(1)]
    by (intro msgpuck_laws.short_map_check [OF assms(1)]) auto
  ultimately show ?thesis using vs(1) by metis
qed

lemma upsert_not_a_map_witness:
  "\<exists>rv s' body. beer_upsert ref_mp (beer_buf_writev calloc_ok) beer_buf 512 (beer_buf_as None [0x91, 7]) (beer_buf_as None [0x91, 7])
      = Some (rv, s') \<and> sb_bytes (s_data s') = package ([0x82, 0, 9, 1, 0] @ body) \<and> mp_check ref_mp body = None"
  using upsert_not_a_map [OF ref.msgpuck_laws_axioms alloc_total_calloc beer_buf_open(1) key_7(1,1), of 512]
  by (auto simp: key_7 beer_buf_open header_bytes_def ref_eval)

text \<open>C13. Array iterators.  On data that starts with a valid array, \<open>beer_iter_array\<close> gives an iterator from which
\<open>beer_next\<close> draws exactly the elements, in order, and then \<open>false\<close> with the status \<open>FAIL\<close>; rewinding sets the status
back and starts over.  The elements follow the array's header, and there are as many as it announces.\<close>

theorem array_iter_yields:
  assumes "msgpuck_laws M" "data \<noteq> []" "mp_typeof M (hd data) = MP_ARRAY" "mp_check M data = Some n"
    "mp_decode_array M data = Some (k, h)" "unat k < 2147483648" "i \<or> mem"
  shows "\<exists>it xs it'. beer_iter_array M i mem data = Some (Some it) \<and>
    take n data = take h data @ concat xs \<and> length xs = unat k \<and> (\<forall>x \<in> set xs. mp_obj M x) \<and>
    drain (beer_iter_array_next M) (\<lambda>j. iarray_elem (i_data j)) (Suc (unat k)) it = Some (xs, it') \<and>
    i_status it' = BEER_ITER_FAIL \<and> i_status (beer_iter_array_rewind it') = BEER_ITER_OK \<and>
    (\<exists>it''. drain (beer_iter_array_next M) (\<lambda>j. iarray_elem (i_data j)) (Suc (unat k)) (beer_iter_array_rewind it') = Some (xs, it''))"
proof -
  obtain it xs r hdr where it: "beer_iter_array M i mem data = Some (Some it)" "data = hdr @ concat xs @ r"
    "length (hdr @ concat xs) = n" "mp_decode_array M data = Some (ai_count (i_data it), length hdr)"
    "unat (ai_count (i_data it)) = length xs" "length xs < 2147483648 \<longrightarrow> array_at M (i_data it) xs 0"
    using msgpuck_laws.beer_iter_array_start [OF assms(1,7,2,3,4)] by blast
  with assms(5,6) have k: "h = length hdr" "unat k = length xs" "array_at M (i_data it) xs 0" by auto
  have lt: "length xs < Suc (unat k)" using k(2) by simp
  obtain it' where d: "drain (beer_iter_array_next M) (\<lambda>j. iarray_elem (i_data j)) (Suc (unat k)) it = Some (xs, it')"
    using msgpuck_laws.array_drain(1) [OF assms(1) k(3) lt] by blast
  from msgpuck_laws.array_drain(2) [OF assms(1) k(3) lt d]
  have "\<exists>it''. drain (beer_iter_array_next M) (\<lambda>j. iarray_elem (i_data j)) (Suc (unat k)) (beer_iter_array_rewind it') = Some (xs, it'')" by blast
  moreover have "\<forall>x \<in> set xs. mp_obj M x" using k(3) by (simp add: array_at_def)
  moreover have "take n data = take h data @ concat xs" using it(2,3) k(1) by simp
  moreover have "i_status it' = BEER_ITER_FAIL" using drain_last [OF d] array_next_end by blast
  moreover have "i_status (beer_iter_array_rewind it') = BEER_ITER_OK" by (simp add: beer_iter_array_rewind_def)
  ultimately show ?thesis using it(1) d k(2) by metis
qed

lemma array_iter_yields_witness:
  "\<exists>it xs it'. beer_iter_array ref_mp True True [0x92, 7, 0xa1, 65, 9] = Some (Some it) \<and> [7, 0xa1, 65] = concat xs \<and> length xs = 2 \<and>
    drain (beer_iter_array_next ref_mp) (\<lambda>j. iarray_elem (i_data j)) 3 it = Some (xs, it')"
proof -
  have "mp_check ref_mp [0x92, 7, 0xa1, 65, 9] = Some 4" "mp_decode_array ref_mp [0x92, 7, 0xa1, 65, 9] = Some (2, 1)"
    "mp_typeof ref_mp (hd [0x92, 7, 0xa1, 65, 9]) = MP_ARRAY" "unat (2 :: u32) < 2147483648"
    by (simp_all add: ref_eval)
  from array_iter_yields [OF ref.msgpuck_laws_axioms _ this(3,1,2,4), of True True]
  obtain it xs it' where "beer_iter_array ref_mp True True [0x92, 7, 0xa1, 65, 9] = Some (Some it)"
    "take 4 [0x92, 7, 0xa1, 65, 9] = take 1 [0x92, 7, 0xa1, 65, 9] @ concat xs" "length xs = unat (2 :: u32)"
    "drain (beer_iter_array_next ref_mp) (\<lambda>j. iarray_elem (i_data j)) (Suc (unat (2 :: u32))) it = Some (xs, it')"
    by blast
  then show ?thesis by (auto simp: numeral_3_eq_3)
qed

text \<open>C14. Map iterators.  The same for \<open>beer_iter_map\<close>: the keys and values drawn are the objects that follow the
map's header, two per announced pair.\<close>

theorem map_iter_yields:
  assumes "msgpuck_laws M" "data \<noteq> []" "mp_typeof M (hd data) = MP_MAP" "mp_check M data = Some n"
    "mp_decode_map M data = Some (k, h)" "unat k < 2147483648" "i \<or> mem"
  shows "\<exists>it ps it'. beer_iter_map M i mem data = Some (Some it) \<and>
    take n data = take h data @ concat (map (\<lambda>(key, v). key @ v) ps) \<and> length ps = unat k \<and>
    (\<forall>(key, v) \<in> set ps. mp_obj M key \<and> mp_obj M v) \<and>
    drain (beer_iter_map_next M) (\<lambda>j. imap_pair (i_data j)) (Suc (unat k)) it = Some (ps, it') \<and>
    (\<exists>it''. drain (beer_iter_map_next M) (\<lambda>j. imap_pair (i_data j)) (Suc (unat k)) (beer_iter_map_rewind it') = Some (ps, it''))"
proof -
  obtain it ps r hdr where it: "beer_iter_map M i mem data = Some (Some it)" "data = hdr @ concat (map pair_bytes ps) @ r"
    "length (hdr @ concat (map pair_bytes ps)) = n" "mp_decode_map M data = Some (mi_count (i_data it), length hdr)"
    "unat (mi_count (i_data it)) = length ps" "length ps < 2147483648 \<longrightarrow> map_at M (i_data it) ps 0"
    using msgpuck_laws.beer_iter_map_start [OF assms(1,7,2,3,4)] by blast
  with assms(5,6) have k: "h = length hdr" "unat k = length ps" "map_at M (i_data it) ps 0" by auto
  have pb: "(\<lambda>(key, v). key @ v) = pair_bytes" by (simp add: fun_eq_iff pair_bytes_def)
  have lt: "length ps < Suc (unat k)" using k(2) by simp
  obtain it' where d: "drain (beer_iter_map_next M) (\<lambda>j. imap_pair (i_data j)) (Suc (unat k)) it = Some (ps, it')"
    using msgpuck_laws.map_drain(1) [OF assms(1) k(3) lt] by blast
  from msgpuck_laws.map_drain(2) [OF assms(1) k(3) lt d]
  have "\<exists>it''. drain (beer_iter_map_next M) (\<lambda>j. imap_pair (i_data j)) (Suc (unat k)) (beer_iter_map_rewind it') = Some (ps, it'')" by blast
  moreover have "\<forall>(key, v) \<in> set ps. mp_obj M key \<and> mp_obj M v" using k(3) by (auto simp: map_at_def)
  moreover have "take n data = take h data @ concat (map (\<lambda>(key, v). key @ v) ps)" unfolding pb using it(2,3) k(1) by simp
  ultimately show ?thesis using it(1) d k(2) by metis
qed

lemma map_iter_yields_witness:
  "\<exists>it ps it'. beer_iter_map ref_mp False True [0x81, 7, 0xa1, 65, 9] = Some (Some it) \<and> length ps = 1 \<and>
    [7, 0xa1, 65] = concat (map (\<lambda>(key, v). key @ v) ps) \<and>
    drain (beer_iter_map_next ref_mp) (\<lambda>j. imap_pair (i_data j)) 2 it = Some (ps, it')"
proof -
  have "mp_check ref_mp [0x81, 7, 0xa1, 65, 9] = Some 4" "mp_decode_map ref_mp [0x81, 7, 0xa1, 65, 9] = Some (1, 1)"
    "mp_typeof ref_mp (hd [0x81, 7, 0xa1, 65, 9]) = MP_MAP" "unat (1 :: u32) < 2147483648"
    by (simp_all add: ref_eval)
  from map_iter_yields [OF ref.msgpuck_laws_axioms _ this(3,1,2,4), of False True]
  obtain it ps it' where "beer_iter_map ref_mp False True [0x81, 7, 0xa1, 65, 9] = Some (Some it)"
    "take 4 [0x81, 7, 0xa1, 65, 9] = take 1 [0x81, 7, 0xa1, 65, 9] @ concat (map (\<lambda>(key, v). key @ v) ps)"
    "length ps = unat (1 :: u32)"
    "drain (beer_iter_map_next ref_mp) (\<lambda>j. imap_pair (i_data j)) (Suc (unat (1 :: u32))) it = Some (ps, it')"
    by blast
  then show ?thesis by (auto simp: numeral_2_eq_2)
qed

text \<open>C15. Request objects arrive.  \<open>request_fields\<close> is the abstract view of a \<open>struct beer_request\<close>: the fields that the code
sends for its operation, the space whatever its value for codes below 6 (so not for an upsert) and the limit for every select, the other
numbers only where they are not 0.  \<open>beer_request_writeout\<close> gathers them out of one header buffer and the caller's memory,
and the reader gets exactly that view.\<close>

theorem request_object_arrives:
  fixes sync :: "u64 option"
  assumes "msgpuck_laws M" "alloc_total A" "sb_open (s_data s)" "rq_type req = op_code op"
    "rq_key req = None \<or> takes_key (rq_type req)"
    "\<forall>f \<in> set (request_fields M req). mp_obj M (snd f) \<and> length (snd f) \<le> 1152921504606846976"
    "reqid = s_reqid (sync_base sync s)"
  shows "\<exists>s' fr. beer_request_writeout M (beer_buf_writev A) s req sync
      = Some (0, s', req\<lparr>rq_sync := reqid\<rparr>, map_option (\<lambda>_. reqid) sync) \<and>
    sb_bytes (s_data s') = sb_bytes (s_data s) @ fr \<and> s_reqid s' = reqid + 1 \<and>
    (\<forall>rest. parse_frame M (fr @ rest) = Some ((ucast (op_code op), reqid, request_fields M req), rest))"
  unfolding assms(7) using msgpuck_laws.writeout_arrives [OF assms(1,4,5,2,3,6), of sync] by blast

lemma request_object_arrives_witness:
  "\<exists>s' fr. beer_request_writeout ref_mp (beer_buf_writev calloc_ok) beer_buf select_7 None = Some (0, s', select_7, None) \<and>
    parse_frame ref_mp fr = Some ((1, 0, [(0x10, [0xcd, 2, 0]), (0x12, [0xce, 255, 255, 255, 255]), (0x13, [5]), (0x20, [0x91, 7])]), [])"
proof -
  have f: "request_fields ref_mp select_7 = [(0x10, [0xcd, 2, 0]), (0x12, [0xce, 255, 255, 255, 255]), (0x13, [5]), (0x20, [0x91, 7])]"
    by (simp add: request_fields_def select_7_def opt_fields_def key_field_def type_is_call_def ref_eval)
  have "\<forall>f \<in> set (request_fields ref_mp select_7). mp_obj ref_mp (snd f) \<and> length (snd f) \<le> 1152921504606846976"
    unfolding f by (simp add: mp_obj_def ref_eval)
  from request_object_arrives [OF ref.msgpuck_laws_axioms alloc_total_calloc beer_buf_open(1) _ _ this refl,
      of BEER_OP_SELECT None]
  obtain s' fr where "beer_request_writeout ref_mp (beer_buf_writev calloc_ok) beer_buf select_7 None = Some (0, s', select_7\<lparr>rq_sync := 0\<rparr>, None)"
    "\<And>rest. parse_frame ref_mp (fr @ rest) = Some ((1, 0, request_fields ref_mp select_7), rest)"
    by (auto simp: select_7_def takes_key_def sync_base_def beer_buf_open)
  then show ?thesis
    using f by (intro exI [of _ s'] exI [of _ fr] conjI) (simp_all add: select_7_def, metis append_Nil2)
qed

text \<open>C16. Request identifiers stay in range.  As long as the stream's counter is at most \<open>2 ^ 63 - 1\<close>, which it is
after the call too, \<open>beer_request_compile\<close> sends the request and returns the sync that the reader of the sent bytes finds, as
a non-negative number below \<open>2 ^ 63 - 1\<close>; at \<open>2 ^ 63 - 1\<close> the counter starts again from 0, and 0 is returned on success.\<close>

theorem compile_sync_bounds:
  assumes "msgpuck_laws M" "alloc_total A" "sb_open (s_data s)" "rq_type req = op_code op"
    "rq_key req = None \<or> takes_key (rq_type req)"
    "\<forall>f \<in> set (request_fields M req). mp_obj M (snd f) \<and> length (snd f) \<le> 1152921504606846976"
    "unat (s_reqid s) \<le> 2 ^ 63 - 1"
  shows "\<exists>s' req' reqid fr. beer_request_compile M (beer_buf_writev A) s req = Some (int (unat reqid), s', req') \<and>
    rq_sync req' = reqid \<and> unat reqid < 2 ^ 63 - 1 \<and> unat (s_reqid s') \<le> 2 ^ 63 - 1 \<and>
    s_reqid s' = reqid + 1 \<and> reqid = (if unat (s_reqid s) = 2 ^ 63 - 1 then 0 else s_reqid s) \<and>
    sb_bytes (s_data s') = sb_bytes (s_data s) @ fr \<and>
    (\<forall>rest. parse_frame M (fr @ rest) = Some ((ucast (op_code op), reqid, request_fields M req), rest))"
proof -
  let ?r = "s_reqid (sync_base (Some 0x7fffffffffffffff) s)"
  have and_eq: "s_reqid s AND 0x7fffffffffffffff = s_reqid s"
    using assms(7) by (intro and_low63) simp
  have eq: "?r = (if unat (s_reqid s) = 2 ^ 63 - 1 then 0 else s_reqid s)"
    by (auto simp: sync_base_def and_eq word_unat_eq_iff)
  then have lt: "unat ?r < 2 ^ 63 - 1" using assms(7) by (auto split: if_splits)
  then have s: "sint ?r = int (unat ?r)" "unat (?r + 1) = unat ?r + 1"
    by (simp_all add: sint_small unat_inc)
  obtain s' fr where w: "beer_request_writeout M (beer_buf_writev A) s req (Some 0x7fffffffffffffff)
      = Some (0, s', req\<lparr>rq_sync := ?r\<rparr>, Some ?r)" "s_reqid s' = ?r + 1"
    "sb_bytes (s_data s') = sb_bytes (s_data s) @ fr"
    "\<forall>rest. parse_frame M (fr @ rest) = Some ((ucast (op_code op), ?r, request_fields M req), rest)"
    using msgpuck_laws.writeout_arrives [OF assms(1,4,5,2,3,6), of "Some 0x7fffffffffffffff"] by auto
  then have "beer_request_compile M (beer_buf_writev A) s req = Some (int (unat ?r), s', req\<lparr>rq_sync := ?r\<rparr>)"
    using s(1) by (simp add: beer_request_compile_def)
  moreover have "unat (s_reqid s') \<le> 2 ^ 63 - 1" using w(2) s(2) lt by simp
  ultimately show ?thesis using w(2-4) lt eq
    by (intro exI [of _ s'] exI [of _ "req\<lparr>rq_sync := ?r\<rparr>"] exI [of _ ?r] exI [of _ fr] conjI) simp_all
qed

lemma compile_sync_bounds_witness:
  "\<exists>s' req'. beer_request_compile ref_mp (beer_buf_writev calloc_ok) (beer_buf\<lparr>s_reqid := 0x7fffffffffffffff\<rparr>) select_7
      = Some (0, s', req') \<and> s_reqid s' = 1"
proof -
  have f: "request_fields ref_mp select_7 = [(0x10, [0xcd, 2, 0]), (0x12, [0xce, 255, 255, 255, 255]), (0x13, [5]), (0x20, [0x91, 7])]"
    by (simp add: request_fields_def select_7_def opt_fields_def key_field_def type_is_call_def ref_eval)
  have "\<forall>f \<in> set (request_fields ref_mp select_7). mp_obj ref_mp (snd f) \<and> length (snd f) \<le> 1152921504606846976"
    unfolding f by (simp add: mp_obj_def ref_eval)
  from compile_sync_bounds [OF ref.msgpuck_laws_axioms alloc_total_calloc _ _ _ this, of "beer_buf\<lparr>s_reqid := 0x7fffffffffffffff\<rparr>" BEER_OP_SELECT]
  show ?thesis by (force simp: beer_buf_open select_7_def takes_key_def)
qed

text \<open>C17. Select packages of \<open>tp.h\<close>.  \<open>tp_select\<close> opens the package, any calls \<open>vs\<close> that write one
object complete it with the key, and \<open>tp_reqid\<close> stamps it; each call patches the length prefix, and
the reader gets code, identifier and fields.\<close>

theorem tp_select_package:
  assumes "msgpuck_laws M" "tp_safe p" "\<forall>v \<in> set vs. tv_ok v" "concat (map (tv_bytes M) vs) = key" "mp_obj M key"
    "fs = [(0x10, mp_encode_uint M (ucast space)), (0x11, mp_encode_uint M (ucast index)), (0x13, mp_encode_uint M (ucast offset)),
       (0x12, mp_encode_uint M (ucast limit)), (0x14, mp_encode_uint M (tp_iterator_code iterator)), (0x20, key)]"
    "25 + length (body_bytes M fs) \<le> tp_unused p" "length (body_bytes M fs) < 2147483600"
  shows "\<exists>q fr. tp_client M (\<lambda>p. tp_select M p space index offset iterator limit) vs reqid p = Some (True, q) \<and>
    tp_buf q = tp_buf p @ fr \<and> (\<forall>rest. parse_frame M (fr @ rest) = Some ((1, ucast reqid, fs), rest))"
proof -
  have "\<forall>f \<in> set fs. mp_obj M (snd f)" "length fs < 16"
    using assms(5) msgpuck_laws.mp_obj_uint [OF assms(1)] by (simp_all add: assms(6))
  from tp_client_reads [OF assms(1,2) _ assms(3) _ this assms(7,8), where code = 1 and reqid = reqid,
      OF ext [OF msgpuck_laws.tp_select_start [OF assms(1), simplified]]]
  show ?thesis using assms(4) by (simp add: body_bytes_def field_bytes_def assms(6))
qed

lemma tp_select_package_witness:
  "\<exists>q fr. tp_client ref_mp (\<lambda>p. tp_select ref_mp p 200 0 0 TP_ITERATOR_ALL 10) [Tv_array 1, Tv_uint 7] 3 (tp_init (replicate 80 0) None) = Some (True, q) \<and>
    tp_buf q = fr \<and> (\<forall>rest. parse_frame ref_mp (fr @ rest) = Some ((1, 3, [(0x10, [0xcc, 200]), (0x11, [0]), (0x13, [0]), (0x12, [10]), (0x14, [2]), (0x20, [0x91, 7])]), rest))"
  using tp_select_package [OF ref.msgpuck_laws_axioms tp_init_safe(1), of "[Tv_array 1, Tv_uint 7]" "[0x91, 7]" _ 200 0 0 10 TP_ITERATOR_ALL
      "replicate 80 0" 3]
  by (simp add: tp_init_safe ref_eval body_bytes_def field_bytes_def mp_obj_def)

text \<open>C18. Update packages of \<open>tp.h\<close>.  The key is written by the calls \<open>ks\<close>, then \<open>tp_updatebegin\<close> announces
\<open>n\<close> operations and the calls \<open>os\<close> write them; \<open>ops\<close> are the operations as objects.\<close>

theorem tp_update_package:
  assumes "msgpuck_laws M" "tp_safe p" "\<forall>v \<in> set (ks @ os). tv_ok v" "concat (map (tv_bytes M) ks) = key" "mp_obj M key"
    "concat (map (tv_bytes M) os) = concat ops" "\<forall>x \<in> set ops. mp_obj M x" "unat n = length ops"
    "fs = [(0x10, mp_encode_uint M (ucast space)), (0x20, key), (0x21, mp_encode_array M n @ concat ops)]"
    "25 + length (body_bytes M fs) \<le> tp_unused p" "length (body_bytes M fs) < 2147483600"
  shows "\<exists>q fr. tp_client M (\<lambda>p. tp_update M p space) (ks @ Tv_updatebegin n # os) reqid p = Some (True, q) \<and>
    tp_buf q = tp_buf p @ fr \<and> (\<forall>rest. parse_frame M (fr @ rest) = Some ((4, ucast reqid, fs), rest))"
proof -
  have "\<forall>f \<in> set fs. mp_obj M (snd f)" "length fs < 16"
    using assms(5) msgpuck_laws.mp_obj_uint [OF assms(1)] msgpuck_laws.mp_obj_array [OF assms(1,8,7)]
    by (simp_all add: assms(9))
  moreover have "\<forall>v \<in> set (ks @ Tv_updatebegin n # os). tv_ok v" using assms(3) by auto
  ultimately show ?thesis
    using tp_client_reads [OF assms(1,2) _ _ _ _ _ assms(10,11), where reqid = reqid and vs = "ks @ Tv_updatebegin n # os",
      OF ext [OF msgpuck_laws.tp_update_start [OF assms(1)]]] assms(4,6)
    by (simp add: body_bytes_def field_bytes_def assms(9))
qed

lemma tp_update_package_witness:
  "\<exists>q fr. tp_client ref_mp (\<lambda>p. tp_update ref_mp p 200) [Tv_array 1, Tv_uint 7, Tv_updatebegin 1, Tv_op 43 2, Tv_uint 5] 3
      (tp_init (replicate 80 0) None) = Some (True, q) \<and>
    tp_buf q = fr \<and> (\<forall>rest. parse_frame ref_mp (fr @ rest)
      = Some ((4, 3, [(0x10, [0xcc, 200]), (0x20, [0x91, 7]), (0x21, [0x91, 0x93, 0xa1, 43, 2, 5])]), rest))"
  using tp_update_package [OF ref.msgpuck_laws_axioms tp_init_safe(1), of "[Tv_array 1, Tv_uint 7]" "[Tv_op 43 2, Tv_uint 5]" "[0x91, 7]"
      "[[0x93, 0xa1, 43, 2, 5]]" 1 _ 200 "replicate 80 0" 3]
  by (simp add: tp_init_safe ref_eval body_bytes_def field_bytes_def mp_obj_def)

text \<open>C19. Bounds of \<open>tp.h\<close> in a fixed buffer.  With a package open (\<open>tp_rel\<close>: the last package is well formed up
to here and its prefix is right), a value call (\<open>tp_put\<close>; the splice only with numbers of equal length, \<open>tv_ok\<close>) writes when the unused
part of the buffer can hold the value, and keeps the package well formed; when it cannot, the call returns \<open>NULL\<close> with the buffer as it was.\<close>

theorem tp_value_bounds:
  assumes "msgpuck_laws M" "tp_safe p" "tp_reserve p = None" "tp_rel M p pre code sync body" "tv_ok v"
    "length (tv_bytes M v) < 2147483648" "length (tp_header M code sync @ body @ tv_bytes M v) < 4294967296"
  shows "if length (tv_bytes M v) \<le> tp_unused p
    then \<exists>q. tp_put M p v = Some (Some (tp_p p), q) \<and> tp_rel M q pre code sync (body @ tv_bytes M v) \<and>
      tp_unused q = tp_unused p - length (tv_bytes M v) \<and> tp_size q = tp_size p
    else tp_put M p v = Some (None, p)"
proof -
  have ext: "extended M p (length (tv_bytes M v)) (tp_put M p v) pre code sync (body @ tv_bytes M v)"
    using add_op_extended [OF assms(2,4,6,7)] msgpuck_laws.tp_put_add [OF assms(1,5)] by simp
  show ?thesis
  proof (cases "length (tv_bytes M v) \<le> tp_unused p")
    case True
    then obtain q where q: "tp_put M p v = Some (Some (tp_p p), q)" "tp_rel M q pre code sync (body @ tv_bytes M v)"
      "tp_unused q = tp_unused p - length (tv_bytes M v)"
      using ext by (auto simp: extended_def)
    have "tp_p q = tp_p p + length (tv_bytes M v)"
      using tp_rel_p [OF q(2)] tp_rel_p [OF assms(4)] q(2) assms(4)
      by (simp add: tp_frame_def package_def luint_def tp_rel_def)
    moreover have "tp_p q \<le> tp_size q" "tp_p p \<le> tp_size p" using q(2) assms(4) by (simp_all add: tp_rel_def)
    ultimately have "tp_size q = tp_size p" using q(3) True unfolding tp_unused_def by linarith
    with True q show ?thesis by simp
  next
    case False
    have "tp_put M p v = add_op p (tv_bytes M v)" by (rule msgpuck_laws.tp_put_add [OF assms(1,5)])
    with False assms(3,6) show ?thesis by (simp add: add_op_def as_int_def tp_ensure_fixed)
  qed
qed

lemma tp_value_bounds_witness:
  "\<exists>p. tp_rel ref_mp p [] 64 0 [0x80] \<and> tp_put ref_mp p (Tv_str [65, 66]) = Some (None, p)"
proof -
  define p where "p = \<lparr>tp_mem = [0xce, 0, 0, 0, 10, 0x82, 0, 0x40, 1, 0xce, 0, 0, 0, 0, 0x80, 0], tp_p = 15, tp_szp = Some 0,
    tp_sync = Some 9, tp_reserve = None\<rparr>"
  have "tp_rel ref_mp p [] 64 0 [0x80]" "tp_safe p" "tp_reserve p = None" "tp_unused p = 1"
    by (simp_all add: p_def tp_rel_def tp_buf_def tp_frame_def tp_header_def package_def luint_def tp_size_def tp_safe_def
        tp_unused_def ref_eval)
  with tp_value_bounds [OF ref.msgpuck_laws_axioms this(2,3,1), of "Tv_str [65, 66]"] show ?thesis
    by (auto simp: ref_eval tp_header_def intro!: exI [of _ p])
qed

text \<open>C20. Growing buffers of \<open>tp.h\<close>.  \<open>tp_realloc\<close> compares the doubled size with the bytes required and
forgets the bytes used.  Whenever twice the size lies between the two, \<open>tp_ensure\<close> succeeds and the call
that asked for room has less than it asked for.\<close>

theorem tp_realloc_short:
  assumes "alloc_total A" "tp_reserve p = Some (tp_realloc A)" "n \<le> 2 * tp_size p" "2 * tp_size p < tp_p p + n"
    "tp_p p \<le> tp_size p"
  shows "\<exists>q. tp_ensure p n = (int (2 * tp_size p), q) \<and> tp_unused q < n \<and> tp_p q = tp_p p"
proof -
  obtain junk where j: "A (2 * tp_size p) = Some junk" "length junk = 2 * tp_size p"
    using assms(1) by (fastforce simp: alloc_total_def alloc_ok_def)
  have "tp_unused p < n" using assms(4,5) by (simp add: tp_unused_def)
  then show ?thesis
    using j assms(2-5) by (simp add: tp_ensure_def tp_realloc_def tp_unused_def tp_size_def mult.commute)
qed

lemma tp_realloc_short_witness:
  "\<exists>q. tp_ensure ((tp_init [1, 2, 3, 4] (Some (tp_realloc calloc_ok)))\<lparr>tp_p := 4\<rparr>) 5 = (8, q) \<and> tp_unused q < 5"
  using tp_realloc_short [OF alloc_total_calloc, of "(tp_init [1, 2, 3, 4] (Some (tp_realloc calloc_ok)))\<lparr>tp_p := 4\<rparr>" 5]
  by (auto simp: tp_init_def tp_size_def)

text \<open>C21. Delete packages of \<open>tp.h\<close> have no body map.  In a buffer with room, \<open>tp_delete\<close> appends a
package whose body is three integers where a map is due, followed by the byte that the buffer held there before the call.\<close>

theorem tp_delete_not_a_map:
  assumes "msgpuck_laws M" "tp_safe p" "32 \<le> tp_unused p"
  shows "\<exists>q three. tp_delete M p space = Some (Some (tp_p p), q) \<and>
    three = mp_encode_uint M 0x10 @ mp_encode_uint M (ucast space) @ mp_encode_uint M 0x20 \<and>
    tp_buf q = tp_buf p @ tp_frame M 5 0 (three @ [tp_mem p ! (tp_p p + length (tp_frame M 5 0 three))])"
proof -
  let ?b = "mp_encode_uint M 0x10 @ mp_encode_uint M (ucast space) @ mp_encode_uint M 0x20"
  let ?h = "tp_header M 5 0"
  have hl: "length ?h = 9" and sz: "tpi_sizeof_header M 5 = 14"
    by (simp_all add: msgpuck_laws.tpi_sizeof_header_eq [OF assms(1)] tp_header_def msgpuck_laws.lens [OF assms(1)])
  have bl: "length ?b \<le> 7"
    using uint_size_le5 [of "unat space"] by (simp add: msgpuck_laws.len_uint [OF assms(1)])
  have room: "tp_p p + 5 + length ?h + length ?b + 1 \<le> length (tp_mem p)"
    using assms(3) hl bl by (simp add: tp_unused_def tp_size_def)
  define j where "j = tp_mem p ! (tp_p p + 5 + length (?h @ ?b))"
  have stay: "put (?h @ ?b @ [j]) (tp_mem p, tp_p p + 5)
      = map_option (\<lambda>c. (fst c, Suc (snd c))) (put (?h @ ?b) (tp_mem p, tp_p p + 5))"
    using put_stay [of "tp_p p + 5" "?h @ ?b" "tp_mem p"] room by (simp add: j_def)
  have n: "tpi_sizeof_header M 5 + length (?b @ [j]) < 2147483648" "tpi_sizeof_header M 5 + length (?b @ [j]) \<le> tp_unused p"
    using sz bl assms(3) by simp_all
  have ens: "tp_ensure p (tpi_sizeof_header M 5 + length (?b @ [j])) = (0, p)" using n(2) by (rule tp_ensure_room)
  have nn: "tpi_sizeof_header M (tp_code TP_DELETE) + mp_sizeof_map M 2 + mp_sizeof_uint M (tp_key_code TP_SPACE) +
      mp_sizeof_uint M (ucast space) + mp_sizeof_uint M (tp_key_code TP_KEY) = tpi_sizeof_header M 5 + length (?b @ [j])"
    by (simp add: msgpuck_laws.lens [OF assms(1)])
  define N where "N = tpi_sizeof_header M 5 + length (?b @ [j])"
  obtain c where c: "put ?h (tp_mem p, tp_p p + 5) = Some c" using room by (simp add: put_eq_Some)
  have stay': "put (?b @ [j]) c = map_option (\<lambda>c. (fst c, Suc (snd c))) (put ?b c)"
    using stay put_put [of ?h "(tp_mem p, tp_p p + 5)" ?b] put_put [of ?h "(tp_mem p, tp_p p + 5)" "?b @ [j]"] c
    by simp
  have fin: "tp_finish q (fst d, Suc (snd d)) N = tp_finish q d N" for q d by (simp add: tp_finish_def)
  have "tp_delete M p space = start_op M p 5 (?b @ [j])"
    using n(1) unfolding tp_delete_def start_op_def Let_def nn N_def [symmetric]
    by (cases "put ?b c")
       (simp_all add: ens [folded N_def] as_int_def msgpuck_laws.tpi_encode_header_put [OF assms(1)] c stay' [simplified] put_simps fin)
  moreover have "j = tp_mem p ! (tp_p p + length (tp_frame M 5 0 ?b))"
    using hl bl by (simp add: j_def tp_frame_def package_def luint_def add.assoc)
  ultimately show ?thesis
    using msgpuck_laws.start_op_extended [OF assms(1,2) n(1)] n(2) by (auto simp: extended_def tp_rel_def)
qed

lemma tp_delete_not_a_map_witness:
  "\<exists>q. tp_delete ref_mp (tp_init (replicate 32 9) None) 200 = Some (Some 0, q) \<and>
    tp_buf q = tp_frame ref_mp 5 0 [0x10, 0xcc, 200, 0x20, 9]"
  using tp_delete_not_a_map [OF ref.msgpuck_laws_axioms tp_init_safe(1), of "replicate 32 9" 200]
  by (simp add: tp_init_safe ref_eval) (auto simp: tp_init_def tp_frame_def package_def luint_def tp_header_def ref_eval)

text \<open>C22. Responses read by \<open>tp_reply\<close>.  On a package with a header map \<open>hs\<close> of integers and a body map
\<open>fs\<close> of response fields, with any bytes behind it, the code, the sync, the data span, the error span and
the bitmap of keys are the package's, the last occurrence of a key counting; the result is the package's length.\<close>

theorem tp_reply_reads:
  assumes "msgpuck_laws M" "small_keys hs" "length hs < 4294967296" "small_keys fs" "\<forall>f \<in> set fs. response_field M f"
    "length fs < 4294967296" "buf = reply_package M hs fs @ tail" "length (reply_package M hs fs) < 4294967296"
    "head = package (body_bytes M (uint_fields M hs))"
  shows "(\<exists>r. tp_reply M buf = Some (int (length (reply_package M hs fs)), r) \<and>
      r_code r = (case last_of hs 0 of None \<Rightarrow> 0 | Some c \<Rightarrow> ucast c) \<and> r_sync r = (case last_of hs 1 of None \<Rightarrow> 0 | Some v \<Rightarrow> v) \<and>
      (case last_of fs 0x30 of None \<Rightarrow> r_data r = None | Some v \<Rightarrow> span buf (r_data r) (r_data_end r) = Some v) \<and>
      (case last_of fs 0x31 of None \<Rightarrow> r_error r = None | Some v \<Rightarrow> text_at M buf (r_error r) (r_error_end r) v) \<and>
      (\<forall>n<64. bit (r_bitmap r) n \<longleftrightarrow> n \<in> unat ` fst ` set hs \<union> unat ` fst ` set fs)) \<and>
    (\<exists>r. tp_reply M (head @ tail) = Some (int (length head), r) \<and> r_data r = None \<and> r_error r = None \<and>
      r_code r = (case last_of hs 0 of None \<Rightarrow> 0 | Some c \<Rightarrow> ucast c))"
proof -
  let ?h = "body_bytes M (uint_fields M hs)"
  obtain r r' where r: "head_read hs r" "tp_reply M buf = Some (int (length (reply_package M hs fs)), r')"
    "body_read M buf fs (r\<lparr>r_tuple_itr := r_tuple_itr r'\<rparr>) r'"
    using tp_reply_package [OF assms(1-8)] by blast
  then have whole: "r_code r' = (case last_of hs 0 of None \<Rightarrow> 0 | Some c \<Rightarrow> ucast c)"
    "r_sync r' = (case last_of hs 1 of None \<Rightarrow> 0 | Some v \<Rightarrow> v)"
    "case last_of fs 0x30 of None \<Rightarrow> r_data r' = None | Some v \<Rightarrow> span buf (r_data r') (r_data_end r') = Some v"
    "case last_of fs 0x31 of None \<Rightarrow> r_error r' = None | Some v \<Rightarrow> text_at M buf (r_error r') (r_error_end r') v"
    "\<forall>n<64. bit (r_bitmap r') n \<longleftrightarrow> n \<in> unat ` fst ` set hs \<union> unat ` fst ` set fs"
    by (auto simp: body_read_def head_read_def zero_response_def split: option.splits)
  have hl: "length ?h + 5 < 4294967296" "length head = length ?h + 5"
    using assms(8) by (simp_all add: reply_package_def assms(9) package_def luint_def split: if_splits)
  obtain r0 where "tp_reply M (head @ tail) = Some (int (length head), r0)" "head_read hs r0"
    using msgpuck_laws.tp_reply_head [OF assms(1-3), of ?h "[]" tail] hl unat_of_nat_u32 [of "length ?h"]
      msgpuck_laws.tp_reply_rest_none [OF assms(1), of "word_of_nat (length ?h)"]
    by (auto simp: assms(9) add.commute)
  moreover from this(2) have "r_data r0 = None" "r_error r0 = None" "r_code r0 = (case last_of hs 0 of None \<Rightarrow> 0 | Some c \<Rightarrow> ucast c)"
    by (auto simp: head_read_def zero_response_def)
  ultimately show ?thesis using r(2) whole by blast
qed

lemma tp_reply_reads_witness:
  "\<exists>r. tp_reply ref_mp (reply_package ref_mp [(0, 0), (1, 9)] [(0x30, [0x91, 0x91, 7])] @ [1, 2])
      = Some (int (length (reply_package ref_mp [(0, 0), (1, 9)] [(0x30, [0x91, 0x91, 7])])), r) \<and> r_sync r = 9 \<and>
    span (reply_package ref_mp [(0, 0), (1, 9)] [(0x30, [0x91, 0x91, 7])] @ [1, 2]) (r_data r) (r_data_end r) = Some [0x91, 0x91, 7]"
  using tp_reply_reads [OF ref.msgpuck_laws_axioms, of "[(0, 0), (1, 9)]" "[(0x30, [0x91, 0x91, 7])]", OF _ _ _ _ _ refl _ refl, of "[1, 2]"]
  by (auto simp: small_keys_def response_field_def mp_obj_def reply_package_def package_def luint_def body_bytes_def
      uint_fields_def field_bytes_def ref_eval)

text \<open>C23. Incomplete responses.  With the five bytes of the length prefix and less than the whole package,
\<open>tp_reply\<close> returns 0; with one to four bytes it returns \<open>-1\<close>, since the prefix itself does
not pass \<open>mp_check\<close>.\<close>

theorem tp_reply_prefixes:
  assumes "msgpuck_laws M" "length pl + 5 < 4294967296" "0 < k" "k < length (package pl)"
  shows "tp_reply M (take k (package pl)) = Some (if 5 \<le> k then 0 else -1, zero_response)"
  using msgpuck_laws.tp_reply_partial [OF assms(1,2) _ assms(4)] msgpuck_laws.tp_reply_short_prefix [OF assms(1) _ assms(3), of pl] assms(2)
  by simp

lemma tp_reply_prefixes_witness:
  "tp_reply ref_mp [0xce, 0, 0, 0, 3, 0x80] = Some (0, zero_response) \<and> tp_reply ref_mp [0xce, 0, 0] = Some (-1, zero_response)"
  using tp_reply_prefixes [OF ref.msgpuck_laws_axioms, of "[0x80, 0x80, 0]" 6] tp_reply_prefixes [OF ref.msgpuck_laws_axioms, of "[0x80, 0x80, 0]" 3]
  by (simp add: package_def luint_def be_4)

text \<open>C24. Walking a response.  The nested loops of a client, \<open>tp_next\<close> over the tuples and \<open>tp_nextfield\<close> over
the fields of each (\<open>row_of\<close> is the inner loop), collect the rows of the response's data and
then stop; \<open>tp_rewind\<close> starts over.\<close>

theorem tp_rows_yield:
  assumes "msgpuck_laws M" "small_keys hs" "length hs < 4294967296" "small_keys fs" "\<forall>f \<in> set fs. response_field M f"
    "length fs < 4294967296" "length (reply_package M hs fs) < 4294967296"
    "last_of fs 0x30 = Some (mp_encode_array M k @ concat xs)" "unat k = length xs" "length xs < 2147483648"
    "list_all2 (is_row M) xs rows" "\<forall>row \<in> set rows. length row < n"
  shows "\<exists>r r'. tp_reply M (reply_package M hs fs @ tail) = Some (int (length (reply_package M hs fs)), r) \<and>
    drain (tp_next M) (row_of M n) (Suc (length rows)) r = Some (rows, r') \<and>
    (\<exists>r''. drain (tp_next M) (row_of M n) (Suc (length rows)) (tp_rewind r') = Some (rows, r''))"
proof -
  obtain r' where r': "tp_reply M (reply_package M hs fs @ tail) = Some (int (length (reply_package M hs fs)), r')"
    "tp_array_itr_init M (mp_encode_array M k @ concat xs) = Some (0, r_tuple_itr r')"
    using tp_reply_package [OF assms(1-6) refl assms(7), of tail] by (auto simp: assms(8))
  have at: "rows_at M n r' rows 0" by (rule rows_start [OF assms(1,9,10) r'(2) assms(11,12)])
  have lt: "length rows < Suc (length rows)" by simp
  obtain r'' where d: "drain (tp_next M) (row_of M n) (Suc (length rows)) r' = Some (rows, r'')"
    using msgpuck_laws.rows_drain(1) [OF assms(1) at lt] by blast
  with msgpuck_laws.rows_drain(2) [OF assms(1) at lt d] r'(1) show ?thesis by blast
qed

lemma tp_rows_yield_witness:
  "\<exists>r r'. tp_reply ref_mp (reply_package ref_mp [(0, 0), (1, 9)] [(0x30, [0x92, 0x91, 7, 0x92, 8, 9])])
      = Some (int (length (reply_package ref_mp [(0, 0), (1, 9)] [(0x30, [0x92, 0x91, 7, 0x92, 8, 9])])), r) \<and>
    drain (tp_next ref_mp) (row_of ref_mp 3) 3 r = Some ([[[7]], [[8], [9]]], r')"
proof -
  have "list_all2 (is_row ref_mp) [[0x91, 7], [0x92, 8, 9]] [[[7]], [[8], [9]]]"
    by (simp add: is_row_def mp_obj_def ref_eval)
  note rows = this
  have k: "small_keys [(0, 0), (1, 9)]" "small_keys [(0x30, [0x92, 0x91, 7, 0x92, 8, 9])]"
    "\<forall>f \<in> set [(0x30, [0x92, 0x91, 7, 0x92, 8, 9])]. response_field ref_mp f"
    "last_of [(0x30, [0x92, 0x91, 7, 0x92, 8, 9])] 0x30 = Some (mp_encode_array ref_mp 2 @ concat [[0x91, 7], [0x92, 8, 9]])"
    "length (reply_package ref_mp [(0, 0), (1, 9)] [(0x30, [0x92, 0x91, 7, 0x92, 8, 9])]) < 4294967296"
    by (simp_all add: small_keys_def response_field_def mp_obj_def reply_package_def package_def luint_def body_bytes_def
      uint_fields_def field_bytes_def ref_eval)
  from tp_rows_yield [OF ref.msgpuck_laws_axioms k(1) _ k(2,3) _ k(5,4) _ _ rows, of 3 "[]"]
  show ?thesis by (auto simp: numeral_3_eq_3)
qed

text \<open>C25. Replies on a buffer stream.  When the unread bytes of the stream start with a response whose header has only the
keys for code, sync and schema id and whose body has only data and error, \<open>beer_buf_reply\<close> reads it
(\<open>reply_holds\<close> lists what the structure then holds) and leaves what follows for the next call.  When the data ends after \<open>k\<close>
bytes of the response, less than the whole, it returns \<open>1\<close> and neither the stream nor the structure changes.\<close>

theorem stream_reply_reads:
  assumes "msgpuck_laws M" "alloc_total A" "known_header hs" "length hs < 4294967296" "known_body fs"
    "\<forall>f \<in> set fs. response_field M f" "length fs < 4294967296" "length (reply_package M hs fs) < 4294967296"
    "sb_data (s_data s) = Live mem" "sb_size (s_data s) \<le> length mem"
    "take (sb_size (s_data s)) mem = pre @ reply_package M hs fs @ tail" "sb_rdoff (s_data s) = length pre"
  shows "\<exists>r' s' pl. reply_package M hs fs = package pl \<and> beer_buf_reply M A s r = Some (0, r', s') \<and>
    reply_holds M hs fs pl r' \<and> rp_alloc r' = rp_alloc r \<and> sb_bytes (s_data s') = sb_bytes (s_data s) \<and>
    sb_rdoff (s_data s') = length (pre @ reply_package M hs fs) \<and>
    (\<forall>k < length (reply_package M hs fs). \<forall>cut. cut = s\<lparr>s_data := (s_data s)\<lparr>sb_size := length pre + k\<rparr>\<rparr> \<longrightarrow>
       beer_buf_reply M A cut r = Some (1, r, cut))"
proof -
  let ?pl = "body_bytes M (uint_fields M hs) @ body_bytes M fs"
  have pk: "reply_package M hs fs = package ?pl" by (simp add: reply_package_def)
  have len: "length ?pl + 5 < 4294967296" using assms(8) by (simp add: pk package_def luint_def split: if_splits)
  have ne: "?pl \<noteq> []" using msgpuck_laws.body_hd(1) [OF assms(1)] by simp
  obtain r' where r': "beer_reply_package M ?pl (fresh_reply (rp_alloc r) ?pl) = Some (Inr (0, r'))"
    "reply_holds M hs fs ?pl r'" "rp_alloc r' = rp_alloc r"
    using msgpuck_laws.beer_package_read [OF assms(1,3-7) refl] by blast
  have sz: "sb_size (s_data s) = length (pre @ reply_package M hs fs @ tail)"
    using arg_cong [OF assms(11), of length] assms(10) by simp
  have "take (sb_size (s_data s) - length pre) (drop (length pre) mem) = reply_package M hs fs @ tail"
    using arg_cong [OF assms(11), of "drop (length pre)"] by (simp add: drop_take)
  then have data: "slice (sb_rdoff (s_data s)) (sb_size (s_data s) - sb_rdoff (s_data s)) mem = Some (package ?pl @ tail)"
    using sz assms(10,12) by (simp add: slice_def pk)
  have rd: "beer_reply M A r (package ?pl @ tail) 0 = Some (0, r', length (package ?pl))"
    using msgpuck_laws.beer_reply_complete [OF assms(1) len assms(2) ne refl, of r tail 0] r'(1) by simp
  have "package ?pl \<noteq> []" by (simp add: package_def luint_def)
  then have "sb_size (s_data s) \<noteq> sb_rdoff (s_data s)" using sz assms(12) by (simp add: pk)
  then have "beer_buf_reply M A s r = Some (0, r', s\<lparr>s_data := (s_data s)\<lparr>sb_rdoff := length pre + length (package ?pl)\<rparr>\<rparr>)"
    using data rd assms(9,12) by (simp add: beer_buf_reply_def Let_def)
  moreover have "beer_buf_reply M A cut r = Some (1, r, cut)"
    if "k < length (reply_package M hs fs)" "cut = s\<lparr>s_data := (s_data s)\<lparr>sb_size := length pre + k\<rparr>\<rparr>" for k cut
  proof (cases "k = 0")
    case True
    with that(2) assms(9,12) show ?thesis by (simp add: beer_buf_reply_def Let_def)
  next
    case False
    have "take k (drop (length pre) mem) = take k (reply_package M hs fs)"
      using arg_cong [OF assms(11), of "\<lambda>x. take k (drop (length pre) x)"] that(1) sz by (simp add: drop_take min_def split: if_splits)
    then have "slice (sb_rdoff (s_data cut)) (sb_size (s_data cut) - sb_rdoff (s_data cut)) mem = Some (take k (package ?pl))"
      using that sz assms(10,12) by (simp add: slice_def pk)
    with msgpuck_laws.beer_reply_partial [OF assms(1) len, of k A r 0] that pk assms(9,12) False
    show ?thesis by (simp add: beer_buf_reply_def Let_def)
  qed
  ultimately show ?thesis using r'(2,3) pk assms(9) by (auto simp: sb_bytes_def)
qed

lemma stream_reply_reads_witness:
  "\<exists>r' s' pl. beer_buf_reply ref_mp calloc_ok (beer_buf_as None (reply_package ref_mp [(0, 0), (1, 9)] [(0x30, [0x91, 7])] @ [1, 2]))
      (zero_reply False) = Some (0, r', s') \<and> reply_holds ref_mp [(0, 0), (1, 9)] [(0x30, [0x91, 7])] pl r' \<and> rp_sync r' = 9"
proof -
  let ?p = "reply_package ref_mp [(0, 0), (1, 9)] [(0x30, [0x91, 7])]"
  have k: "known_header [(0, 0), (1, 9)]" "known_body [(0x30, [0x91, 7])]" "\<forall>f \<in> set [(0x30, [0x91, 7])]. response_field ref_mp f"
    by (simp_all add: known_header_def known_body_def response_field_def mp_obj_def ref_eval)
  have p: "length ?p < 4294967296"
    by (simp add: reply_package_def package_def luint_def body_bytes_def uint_fields_def field_bytes_def ref_eval)
  from stream_reply_reads [OF ref.msgpuck_laws_axioms alloc_total_calloc k(1) _ k(2,3) _ p,
      of "beer_buf_as None (?p @ [1, 2])" "?p @ [1, 2]" "[]" "[1, 2]" "zero_reply False"]
  show ?thesis
    by (auto simp: beer_buf_as_def beer_buf_def beer_stream_init_def reply_holds_def or0_def)
qed

text \<open>C26. Responses without a body.  The test for the end of the package compares with five bytes more than the buffer has, so
it never holds: \<open>beer_reply\<close> goes on to read a body, finds none and refuses the response.\<close>

theorem beer_reply_needs_body:
  assumes "msgpuck_laws M" "alloc_total A" "known_header hs" "length hs < 4294967296"
    "length (body_bytes M (uint_fields M hs)) + 5 < 4294967296" "head = package (body_bytes M (uint_fields M hs))"
  shows "beer_reply M A r (head @ tail) off = Some (-1, zero_reply (rp_alloc r), length head)"
proof -
  let ?pl = "body_bytes M (uint_fields M hs)"
  have ne: "?pl \<noteq> []" by (rule msgpuck_laws.body_hd(1) [OF assms(1)])
  obtain r' where r': "beer_reply_package M ?pl (fresh_reply (rp_alloc r) ?pl) = Some (Inl r')" "rp_buf r' = Live ?pl"
    "rp_alloc r' = rp_alloc r"
    using msgpuck_laws.beer_package_no_body [OF assms(1,3,4) refl] by blast
  then show ?thesis
    using msgpuck_laws.beer_reply_complete [OF assms(1,5,2) ne refl, of r tail off] by (simp add: assms(6) rollback_def)
qed

lemma beer_reply_needs_body_witness:
  "beer_reply ref_mp calloc_ok (zero_reply True) [0xce, 0, 0, 0, 5, 0x82, 0, 0, 1, 9] 0 = Some (-1, zero_reply True, 10)"
  using beer_reply_needs_body [OF ref.msgpuck_laws_axioms alloc_total_calloc, of "[(0, 0), (1, 9)]" _ "zero_reply True" "[]" 0]
  by (simp add: zero_reply_def known_header_def package_def luint_def body_bytes_def uint_fields_def field_bytes_def ref_eval)

text \<open>C27. Writes leave in order.  On a stream in its invariant, over any transport that accepts prefixes and whose interruptions end, any
sequence of \<open>beer_net_write\<close> calls and a flush return and keep the invariant, whatever the size of the send buffer.
When all of them succeed, the transport has taken exactly what was waiting followed by the written bytes, in
order, nothing waits, and the request counter has grown by the number of writes.  They succeed unless the transport
itself declines, when no buffer is empty or larger than the send buffer.\<close>

theorem net_writes_in_order:
  assumes "transport T sent incoming patience" "net_inv (s_data s)"
  shows "\<exists>ok rv s1 s2. net_write_all T s bss = Some (ok, s1) \<and> beer_flush T s1 = Some (rv, s2) \<and> net_inv (s_data s2) \<and>
    (ok \<and> rv \<noteq> -1 \<longrightarrow> sent (sn_world (s_data s2)) = net_out sent (s_data s) @ concat bss \<and>
       io_waiting (sn_sbuf (s_data s2)) = [] \<and> s_wrcnt s2 = s_wrcnt s + word_of_nat (length bss)) \<and>
    (\<not> declines T \<longrightarrow> rv \<noteq> -1 \<and> ((\<forall>b \<in> set bss. write_fits s b) \<longrightarrow> ok))"
proof -
  obtain ok s1 where w: "net_write_all T s bss = Some (ok, s1)" "net_inv (s_data s1)"
    "ok \<longrightarrow> net_out sent (s_data s1) = net_out sent (s_data s) @ concat bss \<and> s_wrcnt s1 = s_wrcnt s + word_of_nat (length bss)"
    "\<not> declines T \<and> (\<forall>b \<in> set bss. write_fits s b) \<longrightarrow> ok"
    using net_write_all_appends [OF assms] by blast
  obtain rv s2 where f: "beer_flush T s1 = Some (rv, s2)" "net_inv (s_data s2)" "s_wrcnt s2 = s_wrcnt s1"
    "rv = -1 \<and> declines T \<or> 0 \<le> rv \<and> io_waiting (sn_sbuf (s_data s2)) = [] \<and> sent (sn_world (s_data s2)) = net_out sent (s_data s1)"
    using transport.net_flush_sends [OF assms(1) w(2)] by blast
  show ?thesis
    using w f by (intro exI [of _ ok] exI [of _ rv] exI [of _ s1] exI [of _ s2]) auto
qed

lemma net_writes_in_order_witness:
  "\<exists>rv s1 s2. net_write_all steady_sys (wire_stream 4 [] (open_wire [])) [[1, 2, 3], [4, 5], [6]] = Some (True, s1) \<and>
    beer_flush steady_sys s1 = Some (rv, s2) \<and> rv \<noteq> -1 \<and> wi_sent (sn_world (s_data s2)) = [1, 2, 3, 4, 5, 6] \<and> s_wrcnt s2 = 3"
proof -
  have "\<forall>b \<in> set [[1, 2, 3], [4, 5], [6]]. write_fits (wire_stream 4 [] (open_wire [])) b"
    by (simp add: write_fits_def wire_stream_inv wire_buf_def)
  then obtain ok rv s1 s2 where "ok" "rv \<noteq> -1"
    "net_write_all steady_sys (wire_stream 4 [] (open_wire [])) [[1, 2, 3], [4, 5], [6]] = Some (ok, s1)"
    "beer_flush steady_sys s1 = Some (rv, s2)"
    "wi_sent (sn_world (s_data s2)) = [1, 2, 3, 4, 5, 6]" "s_wrcnt s2 = 3"
    using net_writes_in_order [OF steady.transport_axioms wire_stream_inv(1), of 4 "[]" "open_wire []" "[[1, 2, 3], [4, 5], [6]]"]
      steady_accepts by (auto simp: wire_stream_inv open_wire_def)
  then show ?thesis by auto
qed

text \<open>C28. Requests arrive over the network.  \<open>beer_select\<close> on a network stream and \<open>beer_flush\<close> behind it return, use up one request id
and keep the invariant.  The transport has taken what was waiting and then one package that
the server parses into the operation, the sync and the six fields, and the stream expects one more reply;
only a transport that declines makes one of them fail, or a request that is larger than the send buffer.\<close>

theorem net_request_arrives:
  assumes "msgpuck_laws M" "transport T sent incoming patience" "net_inv (s_data s)" "is_array M key"
    "length (sbuf_iov key) \<le> 1152921504606846976"
    and fs: "fs = [(0x10, mp_encode_uint M (ucast space)), (0x11, mp_encode_uint M (ucast index)),
      (0x12, mp_encode_uint M (ucast limit)), (0x13, mp_encode_uint M (ucast offset)),
      (0x14, mp_encode_uint M (ucast iterator)), (0x20, sbuf_iov key)]"
  shows "\<exists>rv rf s1 s2. beer_select M (beer_net_writev T) s space index limit offset iterator key = Some (rv, s1) \<and>
    beer_flush T s1 = Some (rf, s2) \<and> s_reqid s2 = s_reqid s + 1 \<and> net_inv (s_data s2) \<and>
    (rf = -1 \<and> declines T \<or>
     rv = -1 \<and> s_wrcnt s2 = s_wrcnt s \<and> (declines T \<or> io_buf (sn_sbuf (s_data s)) \<noteq> Null \<and>
       io_size (sn_sbuf (s_data s)) < length (frame M 1 (s_reqid s) fs)) \<or>
     (\<exists>fr. rv = int (length fr) \<and> s_wrcnt s2 = s_wrcnt s + 1 \<and> sent (sn_world (s_data s2)) = net_out sent (s_data s) @ fr \<and>
       (\<forall>rest. parse_frame M (fr @ rest) = Some ((1, s_reqid s, fs), rest))))"
  using net_request_flushed [OF assms(1-3) msgpuck_laws.beer_select_sends [OF assms(1,4)]]
    assms(5) msgpuck_laws.is_array_obj [OF assms(1,4)] enc_uint_ok [OF assms(1)]
  by (simp add: fs)

lemma net_request_arrives_witness:
  "\<exists>rv rf s1 s2. beer_select ref_mp (beer_net_writev steady_sys) (wire_stream 0 [] (open_wire [])) 200 0 10 0 2 (beer_buf_as None [0x91, 7])
      = Some (rv, s1) \<and> beer_flush steady_sys s1 = Some (rf, s2) \<and> s_reqid s2 = 1 \<and> s_wrcnt s2 = 1 \<and>
     rv = int (length (wi_sent (sn_world (s_data s2)))) \<and>
     parse_frame ref_mp (wi_sent (sn_world (s_data s2))) = Some ((1, 0, [(0x10, [0xcc, 200]), (0x11, [0]), (0x12, [10]), (0x13, [0]), (0x14, [2]),
         (0x20, [0x91, 7])]), [])"
proof -
  let ?s = "wire_stream 0 [] (open_wire [])"
  let ?fs = "[(0x10, mp_encode_uint ref_mp (ucast (200 :: u32))), (0x11, mp_encode_uint ref_mp (ucast (0 :: u32))),
      (0x12, mp_encode_uint ref_mp (ucast (10 :: u32))), (0x13, mp_encode_uint ref_mp (ucast (0 :: u32))),
      (0x14, mp_encode_uint ref_mp (ucast (2 :: u8))), (0x20, sbuf_iov (beer_buf_as None [0x91, 7]))]"
  have fs: "?fs = [(0x10, [0xcc, 200]), (0x11, [0]), (0x12, [10]), (0x13, [0]), (0x14, [2]), (0x20, [0x91, 7])]"
    by (simp add: key_7 ref_eval)
  obtain rv rf s1 s2 fr where r: "beer_select ref_mp (beer_net_writev steady_sys) ?s 200 0 10 0 2 (beer_buf_as None [0x91, 7]) = Some (rv, s1)"
    "beer_flush steady_sys s1 = Some (rf, s2)" "s_reqid s2 = 1" "s_wrcnt s2 = 1" "rv = int (length fr)"
    "wi_sent (sn_world (s_data s2)) = fr" "\<forall>rest. parse_frame ref_mp (fr @ rest) = Some ((1, 0, ?fs), rest)"
    using net_request_arrives [OF ref.msgpuck_laws_axioms steady.transport_axioms wire_stream_inv(1) key_7(1) _ refl,
        of 0 "[]" "open_wire []" 200 0 10 0 2] steady_accepts
    by (auto simp: wire_stream_inv wire_buf_def key_7 open_wire_def)
  then have "parse_frame ref_mp (fr @ []) = Some ((1, 0, ?fs), [])" by blast
  with r show ?thesis unfolding fs by (intro exI [of _ rv] exI [of _ rf] exI [of _ s1] exI [of _ s2]) simp
qed

text \<open>C29. Replies are read off the network.  When the unread input of a stream that expects a reply begins with a response, \<open>beer_net_reply\<close>
returns, however the transport cuts the input and whatever the size of the receive buffer: the reply holds exactly the fields of that
response and the unread input is what follows it; or the transport refused to deliver a byte of the response, and the call fails with
a system error and an empty reply.  In both cases one reply less is expected and nothing is sent.\<close>

theorem net_reply_reads:
  assumes "msgpuck_laws M" "transport T sent incoming patience" "alloc_total A" "net_inv (s_data s)" "s_wrcnt s \<noteq> 0"
    "known_header hs" "length hs < 4294967296" "known_body fs" "\<forall>f \<in> set fs. response_field M f" "length fs < 4294967296"
    "length (reply_package M hs fs) < 4294967296" "net_in incoming (s_data s) = reply_package M hs fs @ tail"
  shows "\<exists>rc r' s'. beer_net_reply M A T s r = Some (rc, r', s') \<and> s_wrcnt s' = s_wrcnt s - 1 \<and> s_reqid s' = s_reqid s \<and>
    sn_sbuf (s_data s') = sn_sbuf (s_data s) \<and>
    (rc = -1 \<and> rp_buf r' = Null \<and> sn_error (s_data s') = BEER_ESYSTEM \<and>
       (\<exists>m < length (reply_package M hs fs). refuses T incoming (drop m (reply_package M hs fs) @ tail)) \<or>
     rc = 0 \<and> (\<exists>pl. reply_package M hs fs = package pl \<and> reply_holds M hs fs pl r') \<and>
       net_inv (s_data s') \<and> net_in incoming (s_data s') = tail)"
proof -
  obtain rc r' s' where r: "beer_net_reply M A T s r = Some (rc, r', s')" "s_wrcnt s' = s_wrcnt s - 1" "s_reqid s' = s_reqid s"
    "sn_sbuf (s_data s') = sn_sbuf (s_data s)" "net_replied M incoming hs fs tail rc r' s'"
    "rc = -1 \<longrightarrow> (\<exists>m < length (reply_package M hs fs). refuses T incoming (drop m (net_in incoming (s_data s))))"
    using net_reply [OF assms, of r] by blast
  have d: "m < length (reply_package M hs fs) \<Longrightarrow> drop m (net_in incoming (s_data s)) = drop m (reply_package M hs fs) @ tail" for m
    by (simp add: assms(12))
  show ?thesis
    using r d unfolding net_replied_def by (intro exI [of _ rc] exI [of _ r'] exI [of _ s']) (metis (no_types, lifting))
qed

lemma net_reply_reads_witness:
  "\<exists>r' s'. beer_net_reply ref_mp calloc_ok steady_sys ((wire_stream 4 [] (open_wire
      (reply_package ref_mp [(0, 0), (1, 9)] [(0x30, [0x91, 7])] @ [1, 2])))\<lparr>s_wrcnt := 2\<rparr>) (zero_reply False) = Some (0, r', s') \<and>
    s_wrcnt s' = 1 \<and> rp_sync r' = 9 \<and> net_in wi_incoming (s_data s') = [1, 2]"
proof -
  let ?hs = "[(0, 0), (1, 9)] :: (u64 \<times> u64) list" and ?fs = "[(0x30, [0x91, 7])] :: fields"
  let ?p = "reply_package ref_mp ?hs ?fs"
  let ?s = "(wire_stream 4 [] (open_wire (?p @ [1, 2])))\<lparr>s_wrcnt := 2\<rparr>"
  have k: "known_header ?hs" "length ?hs < 4294967296" "known_body ?fs" "\<forall>f \<in> set ?fs. response_field ref_mp f" "length ?fs < 4294967296"
    by (simp_all add: known_header_def known_body_def response_field_def mp_obj_def ref_eval)
  have p: "length ?p < 4294967296"
    by (simp add: reply_package_def package_def luint_def body_bytes_def uint_fields_def field_bytes_def ref_eval)
  have s: "net_inv (s_data ?s)" "s_wrcnt ?s \<noteq> 0" "net_in wi_incoming (s_data ?s) = ?p @ [1, 2]"
    by (simp_all add: wire_stream_inv open_wire_def)
  have no: "\<not> (\<exists>m < length ?p. refuses steady_sys wi_incoming (drop m ?p @ [1, 2]))" using steady_delivers by blast
  obtain rc r' s' where r: "beer_net_reply ref_mp calloc_ok steady_sys ?s (zero_reply False) = Some (rc, r', s')" "s_wrcnt s' = s_wrcnt ?s - 1"
    "rc = 0" "\<exists>pl. ?p = package pl \<and> reply_holds ref_mp ?hs ?fs pl r'" "net_in wi_incoming (s_data s') = [1, 2]"
    using net_reply_reads [OF ref.msgpuck_laws_axioms steady.transport_axioms alloc_total_calloc s(1,2) k p s(3), of "zero_reply False"] no
    by blast
  from r(4) have "rp_sync r' = 9" by (auto simp: reply_holds_def or0_def)
  with r show ?thesis by simp
qed

text \<open>C30. Authentication.  \<open>beer_auth\<close> on a stream with a stored greeting and the flush behind it
hand one package to the transport.  For the guest (no user, or the name of the guest) it parses to the name and an empty tuple; for any other user to the name
and a \<open>chap-sha1\<close> tuple whose scramble passes the server's test
(the XOR of the scramble and \<open>sha1\<close> of salt and stored hash is a preimage of the stored hash), for any \<open>sha1\<close> with digests of 20 bytes
and any base64 decoder that yields 20 bytes of salt.\<close>

theorem auth_arrives:
  assumes "msgpuck_laws M" "transport T sent incoming patience" "net_inv (s_data s)" "\<And>x. length (sha1 x) = 20"
    "sn_greeting (s_data s) = Live g" "length g = 128" "20 \<le> length (base64 (take 44 (drop 64 g)))"
    "ulen = (case user of None \<Rightarrow> 0 | Some u \<Rightarrow> length u)" "ulen < 4294967296"
  shows "\<exists>rv rf s1 s2 name scr fields. beer_auth M sha1 base64 (beer_net_writev T) s user ulen (Some pass) (length pass) = Some (rv, s1) \<and>
    beer_flush T s1 = Some (rf, s2) \<and> net_inv (s_data s2) \<and>
    (if is_guest user ulen then name = guest_name \<and> scr = mp_encode_array M 0
     else user = Some name \<and> (\<exists>sc. scr = mp_encode_array M 2 @ mp_encode_str M chap_sha1 @ mp_encode_str M sc \<and>
       server_accepts sha1 (base64 (take 44 (drop 64 g))) (sha1 (sha1 pass)) sc)) \<and>
    fields = [(0x23, mp_encode_str M name), (0x21, scr)] \<and>
    ((rv = -1 \<or> rf = -1) \<and> (declines T \<or> io_buf (sn_sbuf (s_data s)) \<noteq> Null \<and>
       io_size (sn_sbuf (s_data s)) < length (frame M 7 (s_reqid s) fields)) \<or>
     (\<exists>fr. rv = int (length fr) \<and> sent (sn_world (s_data s2)) = net_out sent (s_data s) @ fr \<and>
       (\<forall>rest. parse_frame M (fr @ rest) = Some ((7, s_reqid s, fields), rest))))"
proof -
  obtain rv s1 name scr where
    r: "beer_auth M sha1 base64 (beer_net_writev T) s user ulen (Some pass) (length pass) = Some (rv, s1)" "net_inv (s_data s1)"
    "if is_guest user ulen then name = guest_name \<and> scr = None
     else user = Some name \<and> (\<exists>sc. scr = Some sc \<and> server_accepts sha1 (base64 (take 44 (drop 64 g))) (sha1 (sha1 pass)) sc)"
    "rv = -1 \<and> (declines T \<or> io_buf (sn_sbuf (s_data s)) \<noteq> Null \<and>
       io_size (sn_sbuf (s_data s)) < length (frame M 7 (s_reqid s) (auth_fields M name scr))) \<or>
     (\<exists>fr. rv = int (length fr) \<and> net_out sent (s_data s1) = net_out sent (s_data s) @ fr \<and>
       (\<forall>rest. parse_frame M (fr @ rest) = Some ((7, s_reqid s, auth_fields M name scr), rest)))"
    by (rule net_auth [where ?sha1.0 = sha1 and ?base64.0 = base64 and pass = pass, OF assms])
  obtain rf s2 where f: "beer_flush T s1 = Some (rf, s2)" "net_inv (s_data s2)"
    "rf = -1 \<and> declines T \<or> sent (sn_world (s_data s2)) = net_out sent (s_data s1)"
    using transport.net_flush_sends [OF assms(2) r(2)] by blast
  define tup where "tup = (case scr of None \<Rightarrow> mp_encode_array M 0
    | Some sc \<Rightarrow> mp_encode_array M 2 @ mp_encode_str M chap_sha1 @ mp_encode_str M sc)"
  have e: "auth_fields M name scr = [(0x23, mp_encode_str M name), (0x21, tup)]" by (simp add: auth_fields_def tup_def)
  have "if is_guest user ulen then name = guest_name \<and> tup = mp_encode_array M 0
     else user = Some name \<and> (\<exists>sc. tup = mp_encode_array M 2 @ mp_encode_str M chap_sha1 @ mp_encode_str M sc \<and>
       server_accepts sha1 (base64 (take 44 (drop 64 g))) (sha1 (sha1 pass)) sc)"
    using r(3) by (auto simp: tup_def split: if_splits)
  moreover have "(rv = -1 \<or> rf = -1) \<and> (declines T \<or> io_buf (sn_sbuf (s_data s)) \<noteq> Null \<and>
       io_size (sn_sbuf (s_data s)) < length (frame M 7 (s_reqid s) (auth_fields M name scr))) \<or>
     (\<exists>fr. rv = int (length fr) \<and> sent (sn_world (s_data s2)) = net_out sent (s_data s) @ fr \<and>
       (\<forall>rest. parse_frame M (fr @ rest) = Some ((7, s_reqid s, auth_fields M name scr), rest)))"
    using r(4) f(3) by auto
  ultimately show ?thesis using r(1) f(1,2) unfolding e
    by (intro exI [of _ rv] exI [of _ rf] exI [of _ s1] exI [of _ s2] exI [of _ name] exI [of _ tup]
        exI [of _ "[(0x23, mp_encode_str M name), (0x21, tup)]"] conjI) simp_all
qed

lemma auth_arrives_witness:
  "(\<exists>rv rf s1 s2 sc. beer_auth ref_mp (\<lambda>bs. take 20 (bs @ replicate 20 0)) (\<lambda>bs. bs) (beer_net_writev steady_sys)
      (wire_stream 0 (replicate 128 65) (open_wire [])) (Some [106, 111]) 2 (Some [1, 2, 3]) 3 = Some (rv, s1) \<and>
    beer_flush steady_sys s1 = Some (rf, s2) \<and>
    server_accepts (\<lambda>bs. take 20 (bs @ replicate 20 0)) (replicate 44 65) (take 20 ([1, 2, 3] @ replicate 20 0)) sc \<and>
    parse_frame ref_mp (wi_sent (sn_world (s_data s2))) = Some ((7, 0,
       [(0x23, mp_encode_str ref_mp [106, 111]),
        (0x21, mp_encode_array ref_mp 2 @ mp_encode_str ref_mp chap_sha1 @ mp_encode_str ref_mp sc)]), [])) \<and>
   (\<exists>rv rf s1 s2. beer_auth ref_mp (\<lambda>bs. take 20 (bs @ replicate 20 0)) (\<lambda>bs. bs) (beer_net_writev steady_sys)
      (wire_stream 0 (replicate 128 65) (open_wire [])) None 0 (Some []) 0 = Some (rv, s1) \<and>
    beer_flush steady_sys s1 = Some (rf, s2) \<and>
    parse_frame ref_mp (wi_sent (sn_world (s_data s2))) = Some ((7, 0, [(0x23, mp_encode_str ref_mp guest_name), (0x21, [0x90])]), []))"
proof -
  let ?h = "\<lambda>bs :: bytes. take 20 (bs @ replicate 20 0)"
  let ?s = "wire_stream 0 (replicate 128 65) (open_wire [])"
  have l: "length (?h x) = 20" for x by simp
  have g: "sn_greeting (s_data ?s) = Live (replicate 128 65)" "length (replicate 128 (65 :: byte)) = 128"
    "20 \<le> length (take 44 (drop 64 (replicate 128 (65 :: byte))))"
    by (simp_all add: wire_stream_inv)
  have e: "net_out wi_sent (s_data ?s) = []" "s_reqid ?s = 0" "io_buf (sn_sbuf (s_data ?s)) = Null"
    by (simp_all add: wire_stream_inv open_wire_def wire_buf_def)
  have a: "\<exists>rv rf s1 s2 name scr. beer_auth ref_mp ?h (\<lambda>bs. bs) (beer_net_writev steady_sys) ?s user ulen (Some pass) (length pass) = Some (rv, s1) \<and>
    beer_flush steady_sys s1 = Some (rf, s2) \<and>
    (if is_guest user ulen then name = guest_name \<and> scr = mp_encode_array ref_mp 0
     else user = Some name \<and> (\<exists>sc. scr = mp_encode_array ref_mp 2 @ mp_encode_str ref_mp chap_sha1 @ mp_encode_str ref_mp sc \<and>
       server_accepts ?h (take 44 (drop 64 (replicate 128 65))) (?h (?h pass)) sc)) \<and>
    parse_frame ref_mp (wi_sent (sn_world (s_data s2))) = Some ((7, 0, [(0x23, mp_encode_str ref_mp name), (0x21, scr)]), [])"
    if "ulen = (case user of None \<Rightarrow> 0 | Some u \<Rightarrow> length u)" "ulen < 4294967296" for user ulen pass
  proof -
    from auth_arrives [where ?sha1.0 = ?h and ?base64.0 = "\<lambda>bs. bs" and s = ?s,
      OF ref.msgpuck_laws_axioms steady.transport_axioms wire_stream_inv(1) l g that, of pass]
    obtain rv rf s1 s2 name scr fields fr where
      r: "beer_auth ref_mp ?h (\<lambda>bs. bs) (beer_net_writev steady_sys) ?s user ulen (Some pass) (length pass) = Some (rv, s1)"
      "beer_flush steady_sys s1 = Some (rf, s2)"
      "if is_guest user ulen then name = guest_name \<and> scr = mp_encode_array ref_mp 0
       else user = Some name \<and> (\<exists>sc. scr = mp_encode_array ref_mp 2 @ mp_encode_str ref_mp chap_sha1 @ mp_encode_str ref_mp sc \<and>
         server_accepts ?h (take 44 (drop 64 (replicate 128 65))) (?h (?h pass)) sc)"
      "fields = [(0x23, mp_encode_str ref_mp name), (0x21, scr)]" "wi_sent (sn_world (s_data s2)) = fr"
      "\<forall>rest. parse_frame ref_mp (fr @ rest) = Some ((7, 0, fields), rest)"
      using steady_accepts unfolding e append_Nil by blast
    from r(6) have "parse_frame ref_mp (fr @ []) = Some ((7, 0, fields), [])" by blast
    with r show ?thesis by (intro exI [of _ rv] exI [of _ rf] exI [of _ s1] exI [of _ s2] exI [of _ name] exI [of _ scr] conjI) simp_all
  qed
  have m: "take 44 (drop 64 (replicate 128 (65 :: byte))) = replicate 44 65" "?h (?h [1, 2, 3]) = take 20 ([1, 2, 3] @ replicate 20 0)" by simp_all
  have u: "\<not> is_guest (Some [106, 111]) 2" "is_guest None 0" by (simp_all add: is_guest_def)
  have n: "length [1, 2, 3 :: byte] = 3" "length ([] :: bytes) = 0" "mp_encode_array ref_mp 0 = [0x90]" by (simp_all add: ref_eval)
  have s: "2 = (case Some [106, 111] of None \<Rightarrow> 0 | Some u \<Rightarrow> length (u :: bytes))" "(2 :: nat) < 4294967296"
    "0 = (case None of None \<Rightarrow> 0 | Some u \<Rightarrow> length (u :: bytes))" "(0 :: nat) < 4294967296" by simp_all
  show ?thesis
  proof (rule conjI)
    show "\<exists>rv rf s1 s2 sc. beer_auth ref_mp ?h (\<lambda>bs. bs) (beer_net_writev steady_sys) ?s (Some [106, 111]) 2 (Some [1, 2, 3]) 3 = Some (rv, s1) \<and>
      beer_flush steady_sys s1 = Some (rf, s2) \<and>
      server_accepts ?h (replicate 44 65) (take 20 ([1, 2, 3] @ replicate 20 0)) sc \<and>
      parse_frame ref_mp (wi_sent (sn_world (s_data s2))) = Some ((7, 0,
         [(0x23, mp_encode_str ref_mp [106, 111]),
          (0x21, mp_encode_array ref_mp 2 @ mp_encode_str ref_mp chap_sha1 @ mp_encode_str ref_mp sc)]), [])"
      using a [OF s(1,2), of "[1, 2, 3]"] unfolding m n if_not_P [OF u(1)] by blast
    show "\<exists>rv rf s1 s2. beer_auth ref_mp ?h (\<lambda>bs. bs) (beer_net_writev steady_sys) ?s None 0 (Some []) 0 = Some (rv, s1) \<and>
      beer_flush steady_sys s1 = Some (rf, s2) \<and>
      parse_frame ref_mp (wi_sent (sn_world (s_data s2))) = Some ((7, 0, [(0x23, mp_encode_str ref_mp guest_name), (0x21, [0x90])]), [])"
      using a [OF s(3,4), of "[]"] unfolding n if_P [OF u(2)] by blast
  qed
qed

text \<open>C31. The schema knows what was loaded.  From replies that hold the rows of the two system spaces, \<open>beer_schema_add_spaces\<close> and
\<open>beer_schema_add_indexes\<close> build a table in its invariant in which \<open>beer_schema_stosid\<close> and \<open>beer_schema_stoiid\<close> find the
number of every row by name (names of four bytes, which collide with number keys, excluded).  \<open>beer_schema_flush\<close>
then empties the table and frees no entry twice; when the rows were loaded into an empty table, and their numbers are distinct as well, what is freed is exactly
the entries of the rows.\<close>

theorem schema_lookups:
  assumes "msgpuck_laws M" "\<And>n. mem n" "schema_inv sc" "names_long sc spaces" "distinct (map row_name_of spaces)"
    "rows_reply M r (map (space_bytes M) spaces)" "\<forall>x \<in> set spaces. space_row_ok M x"
    "rows_reply M r' (map (index_bytes M) indexes)" "\<forall>x \<in> set indexes. index_row_ok M x \<and> length (snd (index_key_of x)) \<noteq> 4"
    "fst ` set indexes \<subseteq> fst ` set spaces" "distinct (map index_key_of indexes)"
  shows "\<exists>sc1 sc2. beer_schema_add_spaces M mem sc r = Some (0, sc1) \<and> beer_schema_add_indexes M mem sc1 r' = Some (0, sc2) \<and>
    (\<forall>(number, owner, name, rest) \<in> set spaces. beer_schema_stosid sc2 name = sint number) \<and>
    (\<forall>(space, number, name, rest) \<in> set indexes. beer_schema_stoiid sc2 space name = sint number) \<and>
    schema_inv sc2 \<and> sc_hash (beer_schema_flush sc2) = [] \<and> distinct (snd (beer_schema_space_free sc2)) \<and>
    (sc_hash sc = [] \<and> distinct (map fst spaces) \<longrightarrow> (let base = length (sc_spaces sc) in
       set (snd (beer_schema_space_free sc2)) = {base..<base + length spaces} \<and>
       (\<forall>j < length spaces. case spaces ! j of (number, owner, name, rest) \<Rightarrow>
          sv_name (sc_spaces sc2 ! (base + j)) = name \<and> sv_number (sc_spaces sc2 ! (base + j)) = number)))"
proof -
  obtain sc1 sc2 where s: "beer_schema_add_spaces M mem sc r = Some (0, sc1)" "beer_schema_add_indexes M mem sc1 r' = Some (0, sc2)"
    "schema_inv sc2" "\<forall>(number, owner, name, rest) \<in> set spaces. beer_schema_stosid sc2 name = sint number"
    "\<forall>(space, number, name, rest) \<in> set indexes. beer_schema_stoiid sc2 space name = sint number"
    "sc2 = foldl index_of_row (foldl space_of_row sc spaces) indexes"
    using schema_loaded [where mem = mem, OF assms] by (elim exE conjE) (rule that)
  have f: "sc_hash (beer_schema_flush sc2) = []" "distinct (snd (beer_schema_space_free sc2))"
    using space_free_once [OF s(3)] by (simp_all add: beer_schema_flush_def)
  have four: "\<forall>r \<in> set spaces. length (row_name_of r) \<noteq> 4" using assms(4) by (simp add: names_long_def)
  have once: "let base = length (sc_spaces sc) in set (snd (beer_schema_space_free sc2)) = {base..<base + length spaces} \<and>
       (\<forall>j < length spaces. case spaces ! j of (number, owner, name, rest) \<Rightarrow>
          sv_name (sc_spaces sc2 ! (base + j)) = name \<and> sv_number (sc_spaces sc2 ! (base + j)) = number)"
    if "sc_hash sc = [] \<and> distinct (map fst spaces)"
    unfolding s(6) Let_def
  proof (intro conjI allI impI)
    show "set (snd (beer_schema_space_free (foldl index_of_row (foldl space_of_row sc spaces) indexes)))
        = {length (sc_spaces sc)..<length (sc_spaces sc) + length spaces}"
      using spaces_released [OF conjunct1 [OF that] four assms(5) conjunct2 [OF that]] .
    fix j assume j: "j < length spaces"
    obtain number owner name rest where e: "spaces ! j = (number, owner, name, rest)" by (metis surj_pair)
    from entry_of_row [OF j e, of sc indexes] show "case spaces ! j of (number, owner, name, rest) \<Rightarrow>
        sv_name (sc_spaces (foldl index_of_row (foldl space_of_row sc spaces) indexes) ! (length (sc_spaces sc) + j)) = name \<and>
        sv_number (sc_spaces (foldl index_of_row (foldl space_of_row sc spaces) indexes) ! (length (sc_spaces sc) + j)) = number"
      unfolding e prod.case .
  qed
  show ?thesis
    by (rule exI [of _ sc1], rule exI [of _ sc2], intro conjI impI) (fact s f once)+
qed

lemma schema_lookups_witness:
  "\<exists>sc sc1 sc2. beer_schema_new None (\<lambda>n. True) = Some sc \<and>
    beer_schema_add_spaces ref_mp (\<lambda>n. True) sc (schema_reply [0x91, 0x93, 9, 1, 0xa2, 117, 115]) = Some (0, sc1) \<and>
    beer_schema_add_indexes ref_mp (\<lambda>n. True) sc1 (schema_reply [0x91, 0x93, 9, 3, 0xa2, 105, 120]) = Some (0, sc2) \<and>
    beer_schema_stosid sc2 [117, 115] = 9 \<and> beer_schema_stoiid sc2 9 [105, 120] = 3 \<and> sc_hash (beer_schema_flush sc2) = [] \<and>
    snd (beer_schema_space_free sc2) = [0]"
proof -
  let ?sp = "[(9, [1], [117, 115], [])] :: space_row list" and ?ix = "[(9, 3, [105, 120], [])] :: index_row list"
  define sc where "sc = \<lparr>sc_hash = [], sc_spaces = [], sc_alloc = True\<rparr>"
  have new: "beer_schema_new None (\<lambda>n. True) = Some sc" by (simp add: beer_schema_new_def sc_def)
  have sc: "schema_inv sc" "names_long sc ?sp" "distinct (map row_name_of ?sp)"
    by (simp_all add: sc_def schema_inv_def names_long_def names_apart_def)
  have rows: "rows_reply ref_mp (schema_reply [0x91, 0x93, 9, 1, 0xa2, 117, 115]) (map (space_bytes ref_mp) ?sp)"
    "rows_reply ref_mp (schema_reply [0x91, 0x93, 9, 3, 0xa2, 105, 120]) (map (index_bytes ref_mp) ?ix)"
    by (simp_all add: rows_reply_def schema_reply_def span_def slice_def zero_reply_def ref_eval)
  have ok: "\<forall>x \<in> set ?sp. space_row_ok ref_mp x" "\<forall>x \<in> set ?ix. index_row_ok ref_mp x \<and> length (snd (index_key_of x)) \<noteq> 4"
    "fst ` set ?ix \<subseteq> fst ` set ?sp" "distinct (map index_key_of ?ix)"
    by (simp_all add: mp_obj_def ref_eval)
  from schema_lookups [OF ref.msgpuck_laws_axioms _ sc rows(1) ok(1) rows(2) ok(2-4), of "\<lambda>n. True"]
  obtain sc1 sc2 where "beer_schema_add_spaces ref_mp (\<lambda>n. True) sc (schema_reply [0x91, 0x93, 9, 1, 0xa2, 117, 115]) = Some (0, sc1)"
    "beer_schema_add_indexes ref_mp (\<lambda>n. True) sc1 (schema_reply [0x91, 0x93, 9, 3, 0xa2, 105, 120]) = Some (0, sc2)"
    "beer_schema_stosid sc2 [117, 115] = sint (9 :: u32)" "beer_schema_stoiid sc2 9 [105, 120] = sint (3 :: u32)"
    "sc_hash (beer_schema_flush sc2) = []" "distinct (snd (beer_schema_space_free sc2))" "set (snd (beer_schema_space_free sc2)) = {0}"
    by (auto simp: sc_def Let_def)
  moreover from this(6,7) have "snd (beer_schema_space_free sc2) = [0]"
    by (cases "snd (beer_schema_space_free sc2)") (auto simp: subset_singleton_iff)
  ultimately show ?thesis using new by (intro exI [of _ sc] exI [of _ sc1] exI [of _ sc2]) simp
qed

text \<open>C32. An interrupted wait.  After a signal interrupts the first \<open>select\<close>, the connection loop computes the time left as the time passed less the
seconds of the timeout; while those have not passed that is not positive, so the connect ends at once with \<open>BEER_ETMOUT\<close>, however
early the signal comes.\<close>

theorem connect_gives_up_early:
  assumes "sys_getfl C (sn_fd s) (sn_world s) = ((flags, e1), w1)" "flags \<noteq> -1"
    "sys_setfl C (sn_fd s) (flags OR O_NONBLOCK) w1 = ((r2, e2), w2)" "r2 \<noteq> -1"
    "sys_connect C (sn_fd s) addr w2 = ((-1, EINPROGRESS), w3)" "sys_gettimeofday C w3 = ((0, e4, start), w4)"
    "sys_select C (sn_fd s) (o_tmout_connect (sn_opt s)) w4 = ((-1, EINTR), w5)" "sys_gettimeofday C w5 = ((0, 0, now), w6)"
    "passed_usec start now \<le> fst (o_tmout_connect (sn_opt s)) * micro"
  shows "beer_io_connect_do C s addr = Some (BEER_ETMOUT, s\<lparr>sn_world := w6\<rparr>)"
  by (rule connect_interrupted [OF assms])

lemma connect_gives_up_early_witness:
  "beer_io_connect_do clock_sys (clock_stream 3) (Sockaddr_un []) = Some (BEER_ETMOUT, clock_stream 5)"
  using connect_gives_up_early [of clock_sys "clock_stream 3" 0 0 3 0 0 3 "Sockaddr_un []" 3 0 "(3, 0)" 4 4 "(4, 0)" 5]
  by (simp add: clock_sys_def clock_stream_def passed_usec_def micro_def beer_opt_init_def)

text \<open>C33. The search for the largest buffer.  For a non-negative start \<open>beer_io_xbufmax\<close> ends whatever \<open>setsockopt\<close> answers, although its
midpoint is a 32-bit unsigned number and its bounds are signed; and if sizes are accepted exactly up to a limit, the
last size set is that limit, or 128 MB.  For the start \<open>-1\<close> and a system that refuses all sizes the loop does not end (\<open>None\<close>).\<close>

theorem xbufmax_finds_limit:
  "(0 \<le> mn \<longrightarrow> (\<exists>w. beer_io_xbufmax C s opt mn = Some (s\<lparr>sn_world := w\<rparr>) \<and>
      (takes_up_to C (sn_fd s) opt sz limit \<and> (if mn = 0 then 16384 else mn) \<le> min (int limit) (2 ^ 27) \<longrightarrow>
         int (sz w) = min (int limit) (2 ^ 27)))) \<and>
   ((\<forall>n w. fst (fst (sys_setsockopt C (sn_fd s) (opt n) w)) \<noteq> 0) \<longrightarrow> beer_io_xbufmax C s opt (-1) = None)"
proof (intro conjI impI)
  assume "0 \<le> mn"
  show "\<exists>w. beer_io_xbufmax C s opt mn = Some (s\<lparr>sn_world := w\<rparr>) \<and>
      (takes_up_to C (sn_fd s) opt sz limit \<and> (if mn = 0 then 16384 else mn) \<le> min (int limit) (2 ^ 27) \<longrightarrow>
         int (sz w) = min (int limit) (2 ^ 27))"
  proof (cases "takes_up_to C (sn_fd s) opt sz limit \<and> (if mn = 0 then 16384 else mn) \<le> min (int limit) (2 ^ 27)")
    case True
    then have "takes_up_to C (sn_fd s) opt sz limit" "(if mn = 0 then 16384 else mn) \<le> min (int limit) (2 ^ 27)" by blast+
    from beer_io_xbufmax_finds [OF this(1) \<open>0 \<le> mn\<close> this(2)] show ?thesis by blast
  next
    case False
    with beer_io_xbufmax_returns [OF \<open>0 \<le> mn\<close>, of C s opt] show ?thesis by blast
  qed
next
  assume "\<forall>n w. fst (fst (sys_setsockopt C (sn_fd s) (opt n) w)) \<noteq> 0"
  then show "beer_io_xbufmax C s opt (-1) = None" by (intro beer_io_xbufmax_stuck) blast
qed

lemma xbufmax_finds_limit_witness:
  "(\<exists>w. beer_io_xbufmax (limit_sys 200000) (clock_stream 0) SO_SNDBUF 0 = Some ((clock_stream 0)\<lparr>sn_world := w\<rparr>) \<and> w = 200000) \<and>
   beer_io_xbufmax ((limit_sys 0)\<lparr>sys_setsockopt := \<lambda>fd opt w. ((-1, 22), w)\<rparr>) (clock_stream 0) SO_RCVBUF (-1) = None"
proof (rule conjI)
  have t: "takes_up_to (limit_sys 200000) (sn_fd (clock_stream 0)) SO_SNDBUF (\<lambda>w. w) 200000"
    by (simp add: takes_up_to_def limit_sys_def clock_stream_def)
  obtain w where "beer_io_xbufmax (limit_sys 200000) (clock_stream 0) SO_SNDBUF 0 = Some ((clock_stream 0)\<lparr>sn_world := w\<rparr>)"
    "int w = min (int 200000) (2 ^ 27)"
    using xbufmax_finds_limit [of 0 "limit_sys 200000" "clock_stream 0" SO_SNDBUF "\<lambda>w. w" 200000] t by auto
  then show "\<exists>w. beer_io_xbufmax (limit_sys 200000) (clock_stream 0) SO_SNDBUF 0 = Some ((clock_stream 0)\<lparr>sn_world := w\<rparr>) \<and> w = 200000"
    by auto
  let ?C = "(limit_sys 0)\<lparr>sys_setsockopt := \<lambda>fd opt w. ((-1, 22), w)\<rparr>"
  have "\<forall>n w. fst (fst (sys_setsockopt ?C (sn_fd (clock_stream 0)) (SO_RCVBUF n) w)) \<noteq> 0" by simp
  then show "beer_io_xbufmax ?C (clock_stream 0) SO_RCVBUF (-1) = None"
    by (rule mp [OF conjunct2 [OF xbufmax_finds_limit]])
qed

text \<open>C34. Authentication with \<open>tp.h\<close>.  \<open>tp_auth\<close> and \<open>tp_deauth\<close> leave the map header, the keys and the user's name out of the size that
they reserve and announce.  Without room for the whole body they write outside the buffer (\<open>None\<close>).  With it they succeed, and the package that
results has the end of the body cut off: what it holds is a proper prefix and no MessagePack object, and what is missing lies behind the position the buffer
is used up to.\<close>

theorem tp_auth_truncated:
  assumes "msgpuck_laws M" "\<And>x. length (sha1 x) = 20" "44 \<le> length salt" "20 \<le> length (base64 (take 44 salt))"
    "tp_safe p" "length user < 4294960000" "37 \<le> tp_unused p"
  shows "(\<exists>sc body. server_accepts sha1 (base64 (take 44 salt)) (sha1 (sha1 pass)) sc \<and>
      body = body_bytes M (auth_fields M user (Some sc)) \<and> mp_check M (take 23 body) = None \<and>
      length body = 35 + length (mp_encode_str M user) \<and>
      (if 14 + length body \<le> tp_unused p
       then \<exists>q. tp_auth M sha1 base64 p salt user (length user) pass (length pass) = Some (Some (tp_p p), q) \<and>
         tp_buf q = tp_buf p @ tp_frame M 7 0 (take 23 body) \<and> take (length body - 23) (drop (tp_p q) (tp_mem q)) = drop 23 body
       else tp_auth M sha1 base64 p salt user (length user) pass (length pass) = None)) \<and>
    (\<forall>p. tp_safe p \<and> 15 \<le> tp_unused p \<longrightarrow> (\<exists>body. body = body_bytes M (auth_fields M guest_name None) \<and> length body = 10 \<and>
      take 1 body = mp_encode_map M 2 \<and> mp_check M (take 1 body) = None \<and>
      (if 14 + length body \<le> tp_unused p
       then \<exists>q. tp_deauth M p = Some (Some (tp_p p), q) \<and> tp_buf q = tp_buf p @ tp_frame M 7 0 (take 1 body) \<and>
         take (length body - 1) (drop (tp_p q) (tp_mem q)) = drop 1 body
       else tp_deauth M p = None)))"
  using msgpuck_laws.tp_auth_early [where M = M and ?sha1.0 = sha1 and ?base64.0 = base64, OF assms, of pass]
    msgpuck_laws.tp_deauth_early [OF assms(1)] by (intro conjI allI impI) (blast, blast)

lemma tp_auth_truncated_witness:
  "(\<exists>q sc. tp_auth ref_mp (\<lambda>bs. take 20 (bs @ replicate 20 0)) (\<lambda>bs. bs) (tp_init (replicate 100 0) None) (replicate 64 65)
       [106, 111] 2 [1, 2, 3] 3 = Some (Some 0, q) \<and>
     tp_buf q = tp_frame ref_mp 7 0 (take 23 (body_bytes ref_mp (auth_fields ref_mp [106, 111] (Some sc))))) \<and>
   (\<exists>q. tp_deauth ref_mp (tp_init (replicate 100 0) None) = Some (Some 0, q) \<and> tp_buf q = tp_frame ref_mp 7 0 [0x82]) \<and>
   tp_deauth ref_mp (tp_init (replicate 20 0) None) = None"
proof -
  let ?h = "\<lambda>bs :: bytes. take 20 (bs @ replicate 20 0)" and ?p = "tp_init (replicate 100 0) None"
  have a: "length (?h x) = 20" for x by simp
  have b: "44 \<le> length (replicate 64 (65 :: byte))" "20 \<le> length (take 44 (replicate 64 (65 :: byte)))"
    "length [106, 111 :: byte] < 4294960000" "37 \<le> tp_unused ?p" "length (mp_encode_str ref_mp [106, 111]) = 3"
    by (simp_all add: tp_init_safe ref_eval)
  have z: "tp_p (tp_init m None) = 0" for m by (simp add: tp_init_def)
  note w = tp_auth_truncated [where ?sha1.0 = ?h and ?base64.0 = "\<lambda>bs. bs" and p = ?p and salt = "replicate 64 65" and
      user = "[106, 111]" and pass = "[1, 2, 3]", OF ref.msgpuck_laws_axioms a b(1,2) tp_init_safe(1) b(3,4), unfolded z tp_init_safe(3)]
  have "\<exists>q sc. tp_auth ref_mp ?h (\<lambda>bs. bs) ?p (replicate 64 65) [106, 111] 2 [1, 2, 3] 3 = Some (Some 0, q) \<and>
     tp_buf q = tp_frame ref_mp 7 0 (take 23 (body_bytes ref_mp (auth_fields ref_mp [106, 111] (Some sc))))"
    using conjunct1 [OF w] b(5) by (auto simp: eval_nat_numeral tp_init_safe split: if_splits)
  moreover have "\<exists>q. tp_deauth ref_mp ?p = Some (Some 0, q) \<and> tp_buf q = tp_frame ref_mp 7 0 [0x82]"
    using spec [OF conjunct2 [OF w], of ?p] by (auto simp: z tp_init_safe ref_eval)
  moreover have "tp_deauth ref_mp (tp_init (replicate 20 0) None) = None"
    using spec [OF conjunct2 [OF w], of "tp_init (replicate 20 0) None"] by (auto simp: tp_init_safe)
  ultimately show ?thesis by blast
qed

text \<open>C35. An xlog is read whole.  The file has the right first lines, any further header lines, an empty line, and then
records with right checksums, each with bytes in front of it that do not hold a marker; behind the last record no marker follows.  Opening the
file succeeds, every request returns \<open>0\<close> with the operation that \<open>beer_request\<close> decodes from the next record, and the request
behind the last record returns \<open>1\<close>, with or without an end-of-file marker.\<close>

theorem log_yields_entries:
  assumes "le_fopen env name = Some (log_file BEER_LOG_XLOG ls (log_body env es @ tail))" "\<forall>l \<in> set ls. header_line l"
    "\<forall>(junk, e) \<in> set es. clean_junk junk" "alloc_total A" "list_all2 (\<lambda>(junk, e) v. xlog_value env e v) es vs" "es \<noteq> []"
    "\<forall>i. take 4 (drop i tail) \<noteq> marker_bytes" "beer_xlog given m1 m2 = Some s"
  shows "\<exists>s1 s2 s3. beer_xlog_open env s (Some name) = Some (0, s1) \<and>
    read_all (beer_xlog_request env A) (length es) s1 = Some (0, vs, s2) \<and> beer_xlog_request env A s2 = Some (1, None, s3)"
  by (rule xlog_reads [OF assms])

lemma log_yields_entries_witness:
  "let env = demo_env (log_file BEER_LOG_XLOG [[83]] (log_body (demo_env []) demo_entries @ [0x1e, 0xab, 0xad, 0x10])) in
    \<exists>s s1 s2 s3. beer_xlog False True True = Some s \<and> beer_xlog_open env s (Some [120]) = Some (0, s1) \<and>
      read_all (beer_xlog_request env calloc_ok) 2 s1 = Some (0, [(13, [1, 2]), (14, [3])], s2) \<and>
      beer_xlog_request env calloc_ok s2 = Some (1, None, s3)"
proof -
  define fl where "fl = log_file BEER_LOG_XLOG [[83]] (log_body (demo_env []) demo_entries @ [0x1e, 0xab, 0xad, 0x10])"
  have f: "le_fopen (demo_env fl) [120] = Some (log_file BEER_LOG_XLOG [[83]] (log_body (demo_env fl) demo_entries @ [0x1e, 0xab, 0xad, 0x10]))"
    unfolding demo_bytes(2) [of fl] by (simp add: demo_env_def fl_def)
  have "\<forall>l \<in> set [[83]]. header_line l" using demo_ok(5) by simp
  from log_yields_entries [OF f this demo_ok(2) alloc_total_calloc demo_ok(1,3) eof_no_marker, of False True True]
  show ?thesis unfolding fl_def [symmetric] by (simp add: beer_xlog_def demo_ok(4) demo_values_def)
qed

text \<open>C36. Only checked records are returned.  For any bytes, damaged ones included: when \<open>n\<close> values \<open>vs\<close> have been read since the
log was opened, the file holds \<open>n\<close> records in this order, not overlapping, whose header and data have the checksums and the length that the header
says, and the values are what the data decode to.  The log is still open on the same file, at least \<open>44\<close> bytes further for each value,
and its error is the one it had; so a client that asks until there is no value comes to an end.\<close>

theorem log_values_checked:
  assumes "beer_log_open env l (Some name) ty = (0, l1)" "le_fopen env name = Some d" "next_values env A n l1 = Some (vs, l')"
  shows "\<exists>rs p. log_on l' d p \<and> lg_type l' = ty \<and> length rs = n \<and> 44 * n \<le> p \<and>
    list_all2 (\<lambda>(q, data) v. checked_at env d q data \<and> log_value env ty (0, 0, data) v) rs vs \<and>
    sorted_wrt (\<lambda>(q, data) (q', _). q + 32 + length data \<le> q') rs"
proof -
  obtain p where o: "log_on l1 d p" "lg_type l1 = ty" using beer_log_open_on [OF assms(1,2)] by blast
  from next_values_checked [OF assms(3) o(1)] next_values_type [OF assms(3) o(1)] o(2) show ?thesis by force
qed

lemma log_values_checked_witness:
  "let fl = log_file BEER_LOG_XLOG [[83]] (log_body (demo_env []) demo_entries @ []); env = demo_env fl in
    \<exists>l1 l' rs p. beer_log_open env zero_log (Some [120]) BEER_LOG_XLOG = (0, l1) \<and> next_values env calloc_ok 2 l1 = Some (demo_values, l') \<and>
      log_on l' fl p \<and> length rs = 2 \<and> 88 \<le> p \<and> (\<forall>r \<in> set rs. checked_at env fl (fst r) (snd r))"
proof -
  define fl where "fl = log_file BEER_LOG_XLOG [[83]] (log_body (demo_env []) demo_entries @ [])"
  have f: "le_fopen (demo_env fl) [120] = Some (log_file BEER_LOG_XLOG [[83]] (log_body (demo_env fl) demo_entries @ []))"
    unfolding demo_bytes(2) [of fl] by (simp add: demo_env_def fl_def)
  have h: "\<forall>l \<in> set [[83]]. header_line l" using demo_ok(5) by simp
  obtain g l1 where o: "beer_log_open (demo_env fl) zero_log (Some [120]) BEER_LOG_XLOG = (0, l1)" "lg_fd l1 = Some g"
    "drop (lf_pos g) (lf_data g) = log_body (demo_env fl) demo_entries @ []" "lg_type l1 = BEER_LOG_XLOG"
    using beer_log_open_file [OF beer_log_type.distinct(1) [symmetric] f h, of zero_log] by blast
  have v: "list_all2 (\<lambda>(junk, e) v. log_value (demo_env fl) (lg_type l1) e v) demo_entries demo_values"
    using demo_ok(1) by (simp add: log_value_def o(4))
  obtain l' where n: "next_values (demo_env fl) calloc_ok 2 l1 = Some (demo_values, l')"
    using next_values_all [OF o(2,3) demo_ok(2) alloc_total_calloc v demo_ok(3)] by (auto simp: demo_ok(4))
  have "le_fopen (demo_env fl) [120] = Some fl" by (simp add: demo_env_def)
  from log_values_checked [OF o(1) this n] obtain rs p where r: "log_on l' fl p" "length rs = 2" "44 * 2 \<le> p"
    "list_all2 (\<lambda>(q, data) v. checked_at (demo_env fl) fl q data \<and> log_value (demo_env fl) BEER_LOG_XLOG (0, 0, data) v) rs demo_values"
    by blast
  have "\<forall>r \<in> set rs. checked_at (demo_env fl) fl (fst r) (snd r)"
    using r(4) by (induction rule: list_all2_induct) auto
  then show ?thesis using o(1) n r(1-3) unfolding fl_def [symmetric] Let_def by fastforce
qed

text \<open>C37. A truncated log is not noticed.  The file ends inside the data of a record.  The whole records before it are read, and then the
reader returns \<open>1\<close>, the end of the log without an error, exactly as for a complete file.  Only when exactly four bytes of the data are there
does the code look at them for the end-of-file marker, and reports a corrupt log if they are something else.\<close>

theorem log_cut_unnoticed:
  assumes "le_fopen env name = Some (log_file BEER_LOG_XLOG ls (log_body env es @ marker_bytes @ entry_header env (lsn, tm, data) @ part))"
    "\<forall>l \<in> set ls. header_line l" "\<forall>(junk, e) \<in> set es. clean_junk junk" "alloc_total A"
    "list_all2 (\<lambda>(junk, e) v. xlog_value env e v) es vs" "es \<noteq> []" "beer_xlog given m1 m2 = Some s"
    "length part < length data" "length data < 4294967296"
  shows "\<exists>s1 s2 s3. beer_xlog_open env s (Some name) = Some (0, s1) \<and>
    read_all (beer_xlog_request env A) (length es) s1 = Some (0, vs, s2) \<and>
    (if length part = 4 \<and> le_field 0 4 part \<noteq> beer_log_marker_eof_v11
     then beer_xlog_request env A s2 = Some (-1, None, s3) \<and> beer_xlog_error s3 = Some BEER_LOG_ECORRUPT
     else beer_xlog_request env A s2 = Some (1, None, s3) \<and> beer_xlog_error s3 = Some BEER_LOG_EOK)"
  by (rule xlog_cut [OF assms])

lemma log_cut_unnoticed_witness:
  "let env = demo_env (log_file BEER_LOG_XLOG [[83]] (log_body (demo_env []) demo_entries @
        marker_bytes @ entry_header (demo_env []) (7, 0, demo_row 13 @ [9]) @ demo_row 13)) in
    \<exists>s s1 s2 s3. beer_xlog True True True = Some s \<and> beer_xlog_open env s (Some [120]) = Some (0, s1) \<and>
      read_all (beer_xlog_request env calloc_ok) 2 s1 = Some (0, [(13, [1, 2]), (14, [3])], s2) \<and>
      beer_xlog_request env calloc_ok s2 = Some (1, None, s3) \<and> beer_xlog_error s3 = Some BEER_LOG_EOK"
proof -
  define fl where "fl = log_file BEER_LOG_XLOG [[83]] (log_body (demo_env []) demo_entries @
        marker_bytes @ entry_header (demo_env []) (7, 0, demo_row 13 @ [9]) @ demo_row 13)"
  have f: "le_fopen (demo_env fl) [120] = Some (log_file BEER_LOG_XLOG [[83]] (log_body (demo_env fl) demo_entries @
        marker_bytes @ entry_header (demo_env fl) (7, 0, demo_row 13 @ [9]) @ demo_row 13))"
    unfolding demo_bytes [of fl] by (simp add: demo_env_def fl_def)
  have "\<forall>l \<in> set [[83]]. header_line l" using demo_ok(5) by simp
  from log_cut_unnoticed [OF f this demo_ok(2) alloc_total_calloc demo_ok(1,3), of True True True]
  show ?thesis unfolding fl_def [symmetric] by (simp add: beer_xlog_def demo_ok(4) demo_values_def demo_row_def)
qed



text \<open>C39. What a replication stream hands to its decoder.  The decoder \<open>from\<close> (\<open>beer_request_from\<close> of the code, which no file defines)
is any function.  When \<open>hdr\<close>, \<open>row\<close> and \<open>rest\<close> come next on the attached network stream, however the bytes are cut and with or
without a receive buffer, a request either fails without calling it, because the transport refuses to deliver at one of the first 40 bytes,
or is the call of \<open>from\<close> with the stream at \<open>rest\<close>: no checksum and no length is tested.  The callback reads what follows, all
of it or nothing.\<close>

theorem rpl_request_hands_over:
  assumes "transport T sent incoming patience" "rpl_inv s net" "length hdr = 28" "length row = 12"
    "net_in incoming (s_data net) = hdr @ row @ rest"
  shows "((\<exists>s' net'. (\<forall>from. beer_rpl_request from T s = Some (-1, None, s')) \<and> rpl_net s' = Some net' \<and>
        sn_error (s_data net') = BEER_ESYSTEM \<and> (\<exists>m < 40. refuses T incoming (drop m (hdr @ row @ rest)))) \<or>
      (\<exists>net'. net_inv (s_data net') \<and> net_in incoming (s_data net') = rest \<and>
        (\<forall>from. beer_rpl_request from T s =
          (case from (beer_rpl_recv_cb T) net'
              \<lparr>ih_type = word_of_nat (le_val (drop 10 row)), ih_len = word_of_nat (le_val (take 4 (drop 20 hdr))) - 12, ih_reqid = 0\<rparr> of
             None \<Rightarrow> None
           | Some (rc, v, net'') \<Rightarrow>
               Some (if rc = -1 then -1 else 0, if rc = -1 then None else v, \<lparr>rpl_hdr = hdr, rpl_row = row, rpl_net = Some net''\<rparr>))) \<and>
        (\<forall>bs tail. rest = bs @ tail \<and> bs \<noteq> [] \<longrightarrow>
          (\<exists>x net''. beer_rpl_recv_cb T net' (length bs) = Some (-1, x, net'') \<and> sn_error (s_data net'') = BEER_ESYSTEM \<and>
             (\<exists>m < length bs. refuses T incoming (drop m rest))) \<or>
          (\<exists>net''. beer_rpl_recv_cb T net' (length bs) = Some (int (length bs), bs, net'') \<and> net_inv (s_data net'') \<and>
             net_in incoming (s_data net'') = tail)))) \<and>
    (hdr = entry_header env (lsn, tm, row @ payload) \<and> 12 + length payload < 4294967296 \<longrightarrow>
      word_of_nat (le_val (take 4 (drop 20 hdr))) - 12 = (word_of_nat (length payload) :: u32))"
  using transport.rpl_request_calls [OF assms(1,2,5,3,4)] record_length [OF assms(4)] by blast

lemma rpl_request_hands_over_witness:
  "let hdr = entry_header (demo_env []) (5, 0, demo_row 13 @ [1, 2]); inc = hdr @ demo_row 13 @ [1, 2] @ [77] in
    \<exists>s s' net'. beer_rpl False True True = Some s \<and>
      beer_rpl_request (demo_from (demo_env [])) steady_sys (beer_rpl_attach s (wire_stream 64 [] (open_wire inc))) = Some (0, Some (13, [1, 2]), s') \<and>
      beer_rpl_free s' = Some net' \<and> net_in wi_incoming (s_data net') = [77]"
proof -
  define hdr where "hdr = entry_header (demo_env []) (5, 0, demo_row 13 @ [1, 2])"
  define inc where "inc = hdr @ demo_row 13 @ [1, 2] @ [77]"
  define s :: "wire stream_rpl" where "s = \<lparr>rpl_hdr = replicate 28 0, rpl_row = replicate 12 0, rpl_net = None\<rparr>"
  let ?net = "wire_stream 64 [] (open_wire inc)" and ?s = "beer_rpl_attach s (wire_stream 64 [] (open_wire inc))"
  have s: "beer_rpl False True True = Some s" by (simp add: beer_rpl_def s_def)
  have inv: "rpl_inv ?s ?net" using wire_stream_inv(1) by (simp add: rpl_inv_def beer_rpl_attach_def s_def)
  have i: "net_in wi_incoming (s_data ?net) = hdr @ demo_row 13 @ [1, 2, 77]" by (simp add: wire_stream_inv open_wire_def inc_def)
  have l: "length hdr = 28" "length (demo_row 13) = 12" by (simp_all add: hdr_def demo_row_def entry_header_length)
  have never: "\<not> refuses steady_sys wi_incoming (drop m (hdr @ demo_row 13 @ [1, 2, 77]))" if "m < 40" for m
    using steady_delivers that l by fastforce
  have never2: "\<not> refuses steady_sys wi_incoming (drop m [1, 2, 77])" if "m < 2" for m
    using steady_delivers that by fastforce
  note h = rpl_request_hands_over [OF steady.transport_axioms inv l i, of "demo_env []" 5 0 "[1, 2]"]
  have len: "word_of_nat (le_val (take 4 (drop 20 hdr))) - 12 = (2 :: u32)" using conjunct2 [OF h, folded hdr_def] by simp
  have op: "word_of_nat (le_val (drop 10 (demo_row 13))) = (13 :: u32)" by (simp add: demo_row_def le_val_def be_val_def)
  show ?thesis
  proof (rule disjE [OF conjunct1 [OF h, unfolded len op]]; elim exE conjE)
    fix m
    assume "m < 40" "refuses steady_sys wi_incoming (drop m (hdr @ demo_row 13 @ [1, 2, 77]))"
    then show ?thesis using never by blast
  next
    fix net1
    assume n: "net_in wi_incoming (s_data net1) = [1, 2, 77]"
    "\<forall>from :: (wire, u16 \<times> bytes) request_from. beer_rpl_request from steady_sys ?s =
        (case from (beer_rpl_recv_cb steady_sys) net1 \<lparr>ih_type = 13, ih_len = 2, ih_reqid = 0\<rparr> of
           None \<Rightarrow> None
         | Some (rc, v, net'') \<Rightarrow>
             Some (if rc = -1 then -1 else 0, if rc = -1 then None else v, \<lparr>rpl_hdr = hdr, rpl_row = demo_row 13, rpl_net = Some net''\<rparr>))"
    "\<forall>bs tail. [1, 2, 77] = bs @ tail \<and> bs \<noteq> [] \<longrightarrow>
        (\<exists>x net''. beer_rpl_recv_cb steady_sys net1 (length bs) = Some (-1, x, net'') \<and> sn_error (s_data net'') = BEER_ESYSTEM \<and>
           (\<exists>m < length bs. refuses steady_sys wi_incoming (drop m [1, 2, 77]))) \<or>
        (\<exists>net''. beer_rpl_recv_cb steady_sys net1 (length bs) = Some (int (length bs), bs, net'') \<and> net_inv (s_data net'') \<and>
           net_in wi_incoming (s_data net'') = tail)"
    obtain net2 where c: "beer_rpl_recv_cb steady_sys net1 2 = Some (2, [1, 2], net2)" "net_in wi_incoming (s_data net2) = [77]"
      using n(3) [rule_format, of "[1, 2]" "[77]"] never2 by (auto simp flip: numeral_2_eq_2)
    have "beer_rpl_request (demo_from (demo_env [])) steady_sys ?s =
        Some (0, Some (13, [1, 2]), \<lparr>rpl_hdr = hdr, rpl_row = demo_row 13, rpl_net = Some net2\<rparr>)"
      unfolding n(2) [rule_format] by (simp add: demo_from_def c(1) demo_env_def)
    then show ?thesis using s c(2) unfolding Let_def hdr_def [symmetric] inc_def [symmetric] by (auto simp: beer_rpl_free_def)
  qed
qed

text \<open>C40. The example of the documentation decodes no answer of a server.  For a reply without error whose data are an array of rows:
with no rows the result is \<open>0\<close> and nothing is stored; when the first row has fields the result is \<open>-1\<close>.  When the first row is empty, the
message of the second row is decoded if it announces four fields and has them; if it announces another number, fewer or more, then whatever
stands behind the announcement the call has no result: the rollback releases pointers that were never set, or the loop over the
other fields does not end.\<close>

theorem example_decoder:
  assumes "msgpuck_laws M" "rp_code r = 0" "rp_buf r = Live buf" "rp_data r = Some p" "n \<noteq> 0"
  shows "(drop p buf = mp_encode_array M 0 @ rest \<longrightarrow> (\<exists>q. msg_profile_decode M m0 m1 m2 r = Some (0, None, r\<lparr>rp_data := Some q\<rparr>))) \<and>
    (drop p buf = mp_encode_array M n @ mp_encode_array M k @ rest \<and> k \<noteq> 0 \<longrightarrow>
       (\<exists>q. msg_profile_decode M m0 m1 m2 r = Some (-1, None, r\<lparr>rp_data := Some q\<rparr>))) \<and>
    (drop p buf = mp_encode_array M n @ mp_encode_array M 0 @ mp_encode_array M k @ rest \<and> k \<noteq> 4 \<longrightarrow>
       msg_profile_decode M True True True r = None) \<and>
    (drop p buf = mp_encode_array M n @ mp_encode_array M 0 @ message_row M 4 ident user like msg @ rest \<and>
       length user < 4294967296 \<and> length msg < 4294967296 \<longrightarrow>
       (\<exists>q. drop q buf = rest \<and> msg_profile_decode M True True True r =
         Some (0, Some (Some \<lparr>pf_id = ucast ident, pf_user = strndup True user, pf_like = ucast like, pf_msg = strndup True msg\<rparr>),
            r\<lparr>rp_data := Some q\<rparr>)))"
proof (intro conjI impI)
  assume "drop p buf = mp_encode_array M 0 @ rest"
  then show "\<exists>q. msg_profile_decode M m0 m1 m2 r = Some (0, None, r\<lparr>rp_data := Some q\<rparr>)"
    by (rule msgpuck_laws.decode_rows(1) [OF assms(1-4)]) simp
next
  assume "drop p buf = mp_encode_array M n @ mp_encode_array M k @ rest \<and> k \<noteq> 0"
  then show "\<exists>q. msg_profile_decode M m0 m1 m2 r = Some (-1, None, r\<lparr>rp_data := Some q\<rparr>)"
    using msgpuck_laws.decode_rows(2) [OF assms(1-4) _ assms(5) refl] by blast
next
  assume d: "drop p buf = mp_encode_array M n @ mp_encode_array M 0 @ mp_encode_array M k @ rest \<and> k \<noteq> 4"
  obtain q where q: "drop q buf = mp_encode_array M k @ rest"
    "msg_profile_decode M True True True r = profile_fields M True True buf q (r\<lparr>rp_data := Some q\<rparr>)"
    using msgpuck_laws.decode_rows(3) [OF assms(1-4) _ assms(5) refl] d by blast
  show "msg_profile_decode M True True True r = None"
    unfolding q(2) using profile_fields_count msgpuck_laws.rd_array_enc [OF assms(1) q(1)] d by blast
next
  assume d: "drop p buf = mp_encode_array M n @ mp_encode_array M 0 @ message_row M 4 ident user like msg @ rest \<and>
    length user < 4294967296 \<and> length msg < 4294967296"
  obtain q where q: "drop q buf = message_row M 4 ident user like msg @ rest"
    "msg_profile_decode M True True True r = profile_fields M True True buf q (r\<lparr>rp_data := Some q\<rparr>)"
    using msgpuck_laws.decode_rows(3) [OF assms(1-4) _ assms(5) refl] d by blast
  show "\<exists>q. drop q buf = rest \<and> msg_profile_decode M True True True r =
      Some (0, Some (Some \<lparr>pf_id = ucast ident, pf_user = strndup True user, pf_like = ucast like, pf_msg = strndup True msg\<rparr>),
         r\<lparr>rp_data := Some q\<rparr>)"
    using msgpuck_laws.profile_fields_row [OF assms(1) q(1), of "r\<lparr>rp_data := Some q\<rparr>"] d unfolding q(2) by auto
qed

lemma example_decoder_witness:
  "let r = (zero_reply False)\<lparr>rp_buf := Live [0x91, 0x94, 7, 0xa1, 65, 3, 0xa1, 66], rp_data := Some 0\<rparr>;
       r' = (zero_reply False)\<lparr>rp_buf := Live [0x92, 0x90, 0x94, 7, 0xa1, 65, 3, 0xa1, 66], rp_data := Some 0\<rparr> in
    (\<exists>q. msg_profile_decode ref_mp True True True r = Some (-1, None, r\<lparr>rp_data := Some q\<rparr>)) \<and>
    (\<exists>q. msg_profile_decode ref_mp True True True r' = Some (0, Some (Some \<lparr>pf_id = 7, pf_user = Live [65, 0], pf_like = 3, pf_msg = Live [66, 0]\<rparr>),
       r'\<lparr>rp_data := Some q\<rparr>)) \<and>
    msg_profile_decode ref_mp True True True (r'\<lparr>rp_buf := Live [0x92, 0x90, 0x92, 7, 0xa1, 65]\<rparr>) = None"
proof -
  define r where "r = (zero_reply False)\<lparr>rp_buf := Live [0x91, 0x94, 7, 0xa1, 65, 3, 0xa1, 66], rp_data := Some 0\<rparr>"
  define r' where "r' = (zero_reply False)\<lparr>rp_buf := Live [0x92, 0x90, 0x94, 7, 0xa1, 65, 3, 0xa1, 66], rp_data := Some 0\<rparr>"
  have s: "rp_code r = 0" "rp_buf r = Live [0x91, 0x94, 7, 0xa1, 65, 3, 0xa1, 66]" "rp_data r = Some 0"
    "rp_code r' = 0" "rp_buf r' = Live [0x92, 0x90, 0x94, 7, 0xa1, 65, 3, 0xa1, 66]" "rp_data r' = Some 0"
    by (simp_all add: r_def r'_def zero_reply_def)
  have "\<exists>q. msg_profile_decode ref_mp True True True r = Some (-1, None, r\<lparr>rp_data := Some q\<rparr>)"
    using example_decoder [OF ref.msgpuck_laws_axioms s(1-3), of 1 _ True True True 4] by (simp add: ref_eval)
  moreover have "\<exists>q. msg_profile_decode ref_mp True True True r' =
      Some (0, Some (Some \<lparr>pf_id = 7, pf_user = Live [65, 0], pf_like = 3, pf_msg = Live [66, 0]\<rparr>), r'\<lparr>rp_data := Some q\<rparr>)"
    using example_decoder [OF ref.msgpuck_laws_axioms s(4-6), of 2 "[]" True True True 0 7 "[65]" 3 "[66]"]
    by (auto simp: ref_eval message_row_def strndup_def)
  moreover have "msg_profile_decode ref_mp True True True (r'\<lparr>rp_buf := Live [0x92, 0x90, 0x92, 7, 0xa1, 65]\<rparr>) = None"
    using example_decoder [OF ref.msgpuck_laws_axioms, of "r'\<lparr>rp_buf := Live [0x92, 0x90, 0x92, 7, 0xa1, 65]\<rparr>" "[0x92, 0x90, 0x92, 7, 0xa1, 65]" 0 2 _ _ _ _ 2]
      s(4,6) by (simp add: ref_eval)
  ultimately show ?thesis unfolding r_def r'_def Let_def by blast
qed

end
